(* ===== verification/Prelude.thy ===== *)
theory Prelude
  imports Main "HOL-Library.Word"
begin

text \<open>
  Shared vocabulary of the development: the machine integer types of the C sources, the
  faults a C function can run into, byte-addressed little-endian memory, and the lemma
  collections the component theories extend.
\<close>

unbundle bit_operations_syntax

section \<open>Machine types and faults\<close>

type_synonym u8 = "8 word"
type_synonym u16 = "16 word"
type_synonym u32 = "32 word"
type_synonym u64 = "64 word"

text \<open>
  What can stop a C function from returning. \<open>Oob\<close> is an access outside the object it is
  meant for (undefined behaviour in C), \<open>Hang\<close> is a polling loop whose exit condition does
  not come true in the inputs the hardware delivers.
\<close>

datatype fault = Oob | Hang

type_synonym 'a res = "fault + 'a"

definition res_bind :: "'a res \<Rightarrow> ('a \<Rightarrow> 'b res) \<Rightarrow> 'b res" where
  "res_bind m f = (case m of Inl e \<Rightarrow> Inl e | Inr x \<Rightarrow> f x)"

lemma res_bind_Inl [simp]: "res_bind (Inl e) f = Inl e"
  by (simp add: res_bind_def)

lemma res_bind_Inr [simp]: "res_bind (Inr x) f = f x"
  by (simp add: res_bind_def)

lemma res_bind_eq_Inr:
  "res_bind m f = Inr y \<longleftrightarrow> (\<exists>x. m = Inr x \<and> f x = Inr y)"
  by (cases m) auto

text \<open>An array read in C: the index must lie inside the array.\<close>

definition rd :: "'a list \<Rightarrow> nat \<Rightarrow> 'a res" where
  "rd xs i = (if i < length xs then Inr (xs ! i) else Inl Oob)"

lemma rd_in [simp]: "i < length xs \<Longrightarrow> rd xs i = Inr (xs ! i)"
  by (simp add: rd_def)

lemma rd_out [simp]: "length xs \<le> i \<Longrightarrow> rd xs i = Inl Oob"
  by (simp add: rd_def)

section \<open>Lemma collections\<close>

text \<open>
  \<open>reg_consts\<close>: the numeric constants of the headers, unfolded together when a proof or a
  witness computes with them.
\<close>

named_theorems reg_consts

section \<open>Lists\<close>

lemma take_Suc_drop: "i < length xs \<Longrightarrow> take (Suc n) (drop i xs) = xs ! i # take n (drop (Suc i) xs)"
  by (simp add: Cons_nth_drop_Suc [symmetric])

lemma take_1_drop: "k + 1 \<le> length xs \<Longrightarrow> take 1 (drop k xs) = [xs ! k]"
  by (simp add: take_Suc_drop)

lemma take_2_drop: "k + 2 \<le> length xs \<Longrightarrow> take 2 (drop k xs) = [xs ! k, xs ! (k + 1)]"
  by (simp add: take_Suc_drop numeral_eq_Suc)

lemma take_3_drop: "k + 3 \<le> length xs \<Longrightarrow> take 3 (drop k xs) = [xs ! k, xs ! (k + 1), xs ! (k + 2)]"
  by (simp add: take_Suc_drop numeral_eq_Suc)

section \<open>Words\<close>

lemma bit_word_below: "bit (w :: 'a::len word) n \<Longrightarrow> n < LENGTH('a)"
  by (rule bit_imp_le_length)

lemma word_and_1_eq: "(w AND 1 = 0) \<longleftrightarrow> \<not> bit (w :: 'a::len word) 0"
  by (simp add: and_one_eq bit_0 even_iff_mod_2_eq_zero)

lemma unat_ucast_up:
  assumes "LENGTH('a::len) \<le> LENGTH('b::len)"
  shows "unat (ucast (w :: 'a word) :: 'b word) = unat w"
proof -
  have "unat w < 2 ^ LENGTH('a)" by simp
  also have "\<dots> \<le> (2 :: nat) ^ LENGTH('b)" using assms by (rule power_increasing) simp
  finally show ?thesis by (simp add: unsigned_ucast_eq take_bit_nat_eq_self_iff)
qed

lemma unat_add_1:
  assumes "i < (j :: 'a::len word)"
  shows "unat (i + 1) = Suc (unat i)"
proof -
  have "Suc (unat i) \<le> unat j" using assms by (simp add: word_less_nat_alt)
  also have "unat j < 2 ^ LENGTH('a)" by simp
  finally show ?thesis by (simp add: unat_word_ariths)
qed

lemma unat_inject: "(unat v = unat w) \<longleftrightarrow> (v = (w :: 'a::len word))"
  by (simp add: word_eq_iff_unsigned [where 'a = nat])

lemma word_neq_bit: "bit v n \<noteq> bit w n \<Longrightarrow> v \<noteq> (w :: 'a::len word)"
  by auto

lemma bit_less_pow: "w < 2 ^ n \<Longrightarrow> bit (w :: u32) k \<Longrightarrow> k < n"
  by (metis bit_take_bit_iff less_mask_eq take_bit_eq_mask)

lemma and_mask_u32: "(w :: u32) AND 0xFF = take_bit 8 w" "w AND 0xFFFF = take_bit 16 w"
  by (simp_all add: take_bit_eq_mask mask_eq_exp_minus_1)

lemma unat_pow2: "k < LENGTH('a) \<Longrightarrow> unat (2 ^ k :: 'a::len word) = 2 ^ k"
  by (simp add: unsigned_of_nat [of "2 ^ k", simplified] take_bit_nat_eq_self)

lemma bit_255: "bit (0xFF :: u32) k \<longleftrightarrow> k < 8"
  using bit_mask_iff [of 8 k, where 'a = u32] by (auto simp: mask_eq_exp_minus_1 dest: bit_word_below)

lemma unat_of_nat_u32: "n < 2 ^ 32 \<Longrightarrow> unat (of_nat n :: u32) = n"
  by (simp add: unsigned_of_nat take_bit_nat_eq_self)

lemma of_nat_less_u32: "i < j \<Longrightarrow> j < 2 ^ 32 \<Longrightarrow> (of_nat i :: u32) < of_nat j"
  by (simp add: word_less_nat_alt unat_of_nat_u32)

lemma unat_minus_small: "0 < n \<Longrightarrow> n < 2 ^ 32 \<Longrightarrow> unat (- (of_nat n :: u32)) = 2 ^ 32 - n"
proof -
  assume n: "0 < n" "n < 2 ^ 32"
  then have "- (of_nat n :: u32) = of_nat (2 ^ 32 - n)" by (simp add: of_nat_diff)
  then show ?thesis using n by (simp only: unat_of_nat_u32 [of "2 ^ 32 - n"])
qed

text \<open>Register masks.\<close>

lemma bit_u32: "bit (w :: u32) n \<Longrightarrow> n < 32"
  using bit_word_below [of w n] by simp

lemma bit_u16: "bit (w :: u16) n \<Longrightarrow> n < 16"
  using bit_word_below [of w n] by simp

lemma bit_u8: "bit (w :: u8) n \<Longrightarrow> n < 8"
  using bit_word_below [of w n] by simp

lemma not_bit_above: "8 \<le> n \<Longrightarrow> \<not> bit (w8 :: u8) n" "16 \<le> n \<Longrightarrow> \<not> bit (w16 :: u16) n"
  using bit_u8 [of w8 n] bit_u16 [of w16 n] by auto

lemma and_eq_0_bits: "(c :: u32) AND K = 0 \<longleftrightarrow> (\<forall>n. bit c n \<longrightarrow> \<not> bit K n)"
  by (auto simp: bit_eq_iff bit_and_iff dest: bit_u32)

lemma and_zero_and: "(c :: u32) AND K = 0 \<Longrightarrow> (c AND m) AND K = 0"
  by (simp add: and_eq_0_bits bit_and_iff)

lemma and_or_zero: "((c :: u32) OR m) AND K = 0 \<longleftrightarrow> c AND K = 0 \<and> m AND K = 0"
  by (auto simp: and_eq_0_bits bit_or_iff)

lemma and_zero_sub: "(c :: u32) AND K = 0 \<Longrightarrow> m AND NOT K = 0 \<Longrightarrow> c AND m = 0"
  using bit_u32 by (auto simp: and_eq_0_bits bit_not_iff)

lemma and_not_same: "(c :: u32) AND K = 0 \<Longrightarrow> c AND NOT K = c"
  by (rule bit_word_eqI) (auto simp: and_eq_0_bits bit_and_iff bit_not_iff)

lemma unat_sub_trans: "unat (x - (z :: u32)) \<le> unat (x - y) + unat (y - z)"
proof -
  have "x - z = (x - y) + (y - z)" by simp
  then have "unat (x - z) = (unat (x - y) + unat (y - z)) mod 2 ^ 32"
    by (subst \<open>x - z = _\<close>) (simp only: unat_word_ariths, simp)
  then show ?thesis by simp
qed

section \<open>Byte-addressed memory, little-endian words\<close>

type_synonym mem = "u32 \<Rightarrow> u8"

definition bytes_of_word :: "u32 \<Rightarrow> u8 list" where
  "bytes_of_word w = [ucast w, ucast (drop_bit 8 w), ucast (drop_bit 16 w), ucast (drop_bit 24 w)]"

definition word_of_bytes :: "u8 \<Rightarrow> u8 \<Rightarrow> u8 \<Rightarrow> u8 \<Rightarrow> u32" where
  "word_of_bytes a b c d =
     ucast a OR push_bit 8 (ucast b) OR push_bit 16 (ucast c) OR push_bit 24 (ucast d)"

definition read32 :: "mem \<Rightarrow> u32 \<Rightarrow> u32" where
  "read32 m a = word_of_bytes (m a) (m (a + 1)) (m (a + 2)) (m (a + 3))"

definition write32 :: "u32 \<Rightarrow> u32 \<Rightarrow> mem \<Rightarrow> mem" where
  "write32 a w m = m(a := ucast w, a + 1 := ucast (drop_bit 8 w),
     a + 2 := ucast (drop_bit 16 w), a + 3 := ucast (drop_bit 24 w))"

text \<open>Offsets from a base address that stay below \<open>2 ^ 32\<close> name distinct addresses.\<close>

lemma offset_eq_iff: "i < 2 ^ 32 \<Longrightarrow> j < 2 ^ 32 \<Longrightarrow> ((a :: u32) + of_nat i = a + of_nat j) \<longleftrightarrow> i = j"
  by (metis add_left_imp_eq unat_of_nat_u32)

lemma write32_other: "b - a \<ge> 4 \<Longrightarrow> write32 a w m b = m b"
  by (auto simp: write32_def word_le_nat_alt)

lemma write32_at_offset:
  "k < 2 ^ 32 \<Longrightarrow> 4 \<le> k \<Longrightarrow> write32 a w m (a + of_nat k) = m (a + of_nat k)"
  by (rule write32_other) (simp add: word_le_nat_alt unat_of_nat_u32)

lemma word_of_bytes_split:
  "word_of_bytes (ucast w) (ucast (drop_bit 8 w)) (ucast (drop_bit 16 w)) (ucast (drop_bit 24 w)) = w"
proof (rule bit_word_eqI)
  fix n
  assume "n < LENGTH(32)"
  then have "n < 32" by simp
  then consider "n < 8" | "8 \<le> n" "n < 16" | "16 \<le> n" "n < 24" | "24 \<le> n" "n < 32"
    by linarith
  then show "bit (word_of_bytes (ucast w) (ucast (drop_bit 8 w)) (ucast (drop_bit 16 w))
      (ucast (drop_bit 24 w))) n = bit w n"
    by cases (simp_all add: word_of_bytes_def bit_simps less_diff_conv2)
qed

lemma read32_write32 [simp]: "read32 (write32 a w m) a = w"
proof -
  have d: "a + 1 \<noteq> a" "a + 2 \<noteq> a" "a + 3 \<noteq> a" "a + 2 \<noteq> a + 1" "a + 3 \<noteq> a + 1" "a + 3 \<noteq> a + 2"
    using offset_eq_iff [of _ _ a] by simp_all
  then show ?thesis by (simp add: read32_def write32_def word_of_bytes_split)
qed

text \<open>Words written one after the other, and what they leave alone.\<close>

fun prog_words :: "u32 \<Rightarrow> u32 list \<Rightarrow> mem \<Rightarrow> mem" where
  "prog_words a [] m = m"
| "prog_words a (w # ws) m = prog_words (a + 4) ws (write32 a w m)"

lemma prog_words_other:
  assumes "4 * length ws \<le> 2 ^ 32" "unat (b - a) \<ge> 4 * length ws"
  shows "prog_words a ws m b = m b"
  using assms
proof (induction ws arbitrary: a m)
  case Nil
  then show ?case by simp
next
  case (Cons w ws)
  have ge: "4 \<le> b - a" using Cons.prems by (simp add: word_le_nat_alt)
  have "unat (b - a - 4) = unat (b - a) - 4" using ge unat_sub [of 4 "b - a"] by simp
  then have "unat (b - (a + 4)) = unat (b - a) - 4" by (simp add: diff_diff_eq)
  then show ?case using Cons ge by (simp add: write32_other)
qed

lemma aligned_iff: "(a :: u32) AND 3 = 0 \<longleftrightarrow> unat a mod 4 = 0"
proof -
  have "a AND 3 = take_bit 2 a" by (simp add: take_bit_eq_mask mask_eq_exp_minus_1)
  then show ?thesis
    by (simp add: unat_inject [symmetric] unat_mod_distrib take_bit_eq_mod)
qed

lemma ucast_u64_u32 [simp]: "ucast (ucast (w :: u32) :: u64) = w"
  by (rule bit_word_eqI) (simp add: bit_simps)

lemma read32_cong:
  assumes "\<And>j. j < 4 \<Longrightarrow> m (b + of_nat j) = m' (b + of_nat j)"
  shows "read32 m b = read32 m' b"
  using assms [of 0] assms [of 1] assms [of 2] assms [of 3] by (simp add: read32_def)

lemma read32_prog_words:
  assumes "4 * length ws \<le> 2 ^ 32" "k < length ws"
  shows "read32 (prog_words a ws m) (a + 4 * of_nat k) = ws ! k"
  using assms
proof (induction ws arbitrary: a m k)
  case Nil
  then show ?case by simp
next
  case (Cons w ws)
  show ?case
  proof (cases k)
    case 0
    have "read32 (prog_words (a + 4) ws (write32 a w m)) a = read32 (write32 a w m) a"
    proof (rule read32_cong)
      fix j :: nat assume j: "j < 4"
      have "unat (a + of_nat j - (a + 4)) = 2 ^ 32 - (4 - j)"
        using j unat_minus_small [of "4 - j"] by (simp add: of_nat_diff algebra_simps)
      then show "prog_words (a + 4) ws (write32 a w m) (a + of_nat j) = write32 a w m (a + of_nat j)"
        using Cons.prems j by (intro prog_words_other) auto
    qed
    with 0 show ?thesis by simp
  next
    case (Suc k')
    then show ?thesis using Cons.IH [of k' "a + 4"] Cons.prems by (simp add: algebra_simps)
  qed
qed

text \<open>The \<open>n\<close> words from \<open>a\<close> on.\<close>

definition words_at :: "mem \<Rightarrow> u32 \<Rightarrow> nat \<Rightarrow> u32 list" where
  "words_at m a n = map (\<lambda>i. read32 m (a + 4 * of_nat i)) [0..<n]"

lemma nth_words_at [simp]: "i < n \<Longrightarrow> words_at m a n ! i = read32 m (a + 4 * of_nat i)"
  by (simp add: words_at_def)

lemma length_words_at [simp]: "length (words_at m a n) = n"
  by (simp add: words_at_def)

lemma words_at_cong:
  assumes "\<And>k. k < 4 * n \<Longrightarrow> m (a + of_nat k) = m' (a + of_nat k)"
  shows "words_at m a n = words_at m' a n"
proof -
  have "read32 m (a + 4 * of_nat i) = read32 m' (a + 4 * of_nat i)" if "i < n" for i
    using assms [of "4 * i + _"] that by (intro read32_cong) (simp add: add.assoc)
  then show ?thesis by (simp add: words_at_def)
qed

lemma words_at_prog_words: "4 * length ws \<le> 2 ^ 32 \<Longrightarrow> words_at (prog_words a ws m) a (length ws) = ws"
  by (rule nth_equalityI) (simp_all add: words_at_def read32_prog_words)

text \<open>Bytes and the words made of them.\<close>

fun words_of_bytes :: "u8 list \<Rightarrow> u32 list" where
  "words_of_bytes (a # b # c # d # bs) = word_of_bytes a b c d # words_of_bytes bs"
| "words_of_bytes bs = []"

lemma bytes_of_word_of_bytes: "bytes_of_word (word_of_bytes a b c d) = [a, b, c, d]"
  by (auto simp: bytes_of_word_def word_of_bytes_def bit_simps not_bit_above intro!: bit_word_eqI)

lemma length_words_of_bytes: "length (words_of_bytes bs) = length bs div 4"
  by (induction bs rule: words_of_bytes.induct) auto

lemma take_4_more: "take (4 + k) (a # b # c # d # bs) = a # b # c # d # take k bs"
  by (simp add: numeral_eq_Suc)

lemma length_bytes_of_word [simp]: "length (bytes_of_word w) = 4"
  by (simp add: bytes_of_word_def)

lemma bytes_of_words_of_bytes: "concat (map bytes_of_word (words_of_bytes bs)) = take (4 * (length bs div 4)) bs"
proof (induction bs rule: words_of_bytes.induct)
  case (1 a b c d bs)
  have "4 * (length (a # b # c # d # bs) div 4) = 4 + 4 * (length bs div 4)"
    by (simp, presburger)
  then show ?case using 1 by (simp only: take_4_more) (simp add: bytes_of_word_of_bytes)
qed auto

lemma length_bytes_of_words: "length (concat (map bytes_of_word ws)) = 4 * length ws"
  by (induction ws) simp_all

lemma write32_bytes: "i < 4 \<Longrightarrow> write32 a w m (a + of_nat i) = bytes_of_word w ! i"
proof -
  assume "i < 4"
  then consider "i = 0" | "i = 1" | "i = 2" | "i = 3" by linarith
  moreover have "a + 1 \<noteq> a" "a + 2 \<noteq> a" "a + 3 \<noteq> a" "a + 1 \<noteq> a + 2" "a + 1 \<noteq> a + 3" "a + 2 \<noteq> a + 3"
    using offset_eq_iff [of _ _ a] by simp_all
  ultimately show ?thesis by cases (simp_all add: write32_def bytes_of_word_def)
qed

lemma prog_words_bytes:
  assumes "4 * length ws \<le> 2 ^ 32" "i < 4 * length ws"
  shows "prog_words a ws m (a + of_nat i) = concat (map bytes_of_word ws) ! i"
  using assms
proof (induction ws arbitrary: a m i)
  case Nil
  then show ?case by simp
next
  case (Cons w ws)
  show ?case
  proof (cases "i < 4")
    case True
    have "unat (a + of_nat i - (a + 4)) = 2 ^ 32 - (4 - i)"
      using True unat_minus_small [of "4 - i"] by (simp add: of_nat_diff algebra_simps)
    then have "prog_words (a + 4) ws (write32 a w m) (a + of_nat i) = write32 a w m (a + of_nat i)"
      using Cons.prems True by (intro prog_words_other) auto
    then show ?thesis using True by (simp add: write32_bytes nth_append)
  next
    case False
    then obtain j where j: "i = j + 4" by (metis add.commute le_add_diff_inverse not_less)
    have "prog_words (a + 4) ws (write32 a w m) (a + 4 + of_nat j) = concat (map bytes_of_word ws) ! j"
      using Cons.prems j by (intro Cons.IH) auto
    then show ?thesis using j by (simp add: nth_append algebra_simps)
  qed
qed

lemma bytes_of_take_words: "concat (map bytes_of_word (take k ws)) = take (4 * k) (concat (map bytes_of_word ws))"
proof (induction ws arbitrary: k)
  case (Cons w ws)
  then show ?case by (cases k) simp_all
qed simp

lemma prog_bytes:
  assumes "4 * k \<le> length bs" "4 * k \<le> 2 ^ 32" "i < 4 * k"
  shows "prog_words a (take k (words_of_bytes bs)) m (a + of_nat i) = bs ! i"
proof -
  let ?ws = "take k (words_of_bytes bs)"
  have k: "k \<le> length bs div 4" using assms(1) by (simp add: div_le_mono less_eq_div_iff_mult_less_eq mult.commute)
  then have len: "length ?ws = k" by (simp add: length_words_of_bytes)
  have "prog_words a ?ws m (a + of_nat i) = concat (map bytes_of_word ?ws) ! i"
    using assms by (intro prog_words_bytes) (simp_all only: len)
  also have "\<dots> = bs ! i" using assms k by (simp add: bytes_of_take_words bytes_of_words_of_bytes)
  finally show ?thesis .
qed

text \<open>An area of \<open>A\<close> bytes at \<open>U\<close> in which words are written from offset \<open>L\<close> on.\<close>

lemma prog_words_area:
  assumes "L + 4 * length ws \<le> A" "A \<le> 2 ^ 31"
  shows "i < L \<Longrightarrow> prog_words (U + of_nat L) ws m (U + of_nat i) = m (U + of_nat i)"
    and "L + 4 * length ws \<le> i \<Longrightarrow> i < A \<Longrightarrow> prog_words (U + of_nat L) ws m (U + of_nat i) = m (U + of_nat i)"
    and "A \<le> unat (b - U) \<Longrightarrow> prog_words (U + of_nat L) ws m b = m b"
proof -
  have ws: "4 * length ws \<le> 2 ^ 32" using assms by simp
  show "prog_words (U + of_nat L) ws m (U + of_nat i) = m (U + of_nat i)" if "i < L"
  proof -
    have "U + of_nat i - (U + of_nat L) = - of_nat (L - i)"
      using that by (simp add: of_nat_diff algebra_simps)
    moreover have "unat (- of_nat (L - i) :: u32) = 2 ^ 32 - (L - i)"
      using that assms by (intro unat_minus_small) simp_all
    ultimately show ?thesis using assms by (intro prog_words_other [OF ws]) simp
  qed
  show "prog_words (U + of_nat L) ws m (U + of_nat i) = m (U + of_nat i)"
    if "L + 4 * length ws \<le> i" "i < A"
  proof -
    have "U + of_nat i - (U + of_nat L) = of_nat (i - L)" using that(1) by (simp add: of_nat_diff)
    moreover have "unat (of_nat (i - L) :: u32) = i - L" using that assms by (intro unat_of_nat_u32) simp
    ultimately have "unat (U + of_nat i - (U + of_nat L)) = i - L" by (simp only:)
    then have "4 * length ws \<le> unat (U + of_nat i - (U + of_nat L))" using that(1) by linarith
    then show ?thesis by (rule prog_words_other [OF ws])
  qed
  show "prog_words (U + of_nat L) ws m b = m b" if "A \<le> unat (b - U)"
  proof -
    have "of_nat L \<le> b - U" using that assms by (simp add: word_le_nat_alt unat_of_nat_u32)
    then have "unat (b - (U + of_nat L)) = unat (b - U) - L"
      using unat_sub [of "of_nat L" "b - U"] assms by (simp add: unat_of_nat_u32 diff_diff_eq)
    then show ?thesis using that assms by (intro prog_words_other [OF ws]) simp
  qed
qed

lemma area_iff:
  assumes "unat (U :: u32) + A \<le> 2 ^ 32"
  shows "U \<le> a \<and> unat a < unat U + A \<longleftrightarrow> unat (a - U) < A"
proof (cases "U \<le> a")
  case True
  then show ?thesis using unat_sub [OF True] by (auto simp: word_le_nat_alt)
next
  case False
  then have "a \<le> U" "0 < unat (U - a)" using unat_inject [of U a] by (auto simp: word_le_nat_alt unat_sub)
  have "unat (a - U) = 2 ^ 32 - unat (U - a)"
    using unat_minus_small [of "unat (U - a)"] \<open>0 < unat (U - a)\<close> unsigned_less [of "U - a", where 'a = nat] by simp
  moreover have "unat (U - a) \<le> unat U" using unat_sub [OF \<open>a \<le> U\<close>] by simp
  ultimately show ?thesis using assms False by simp
qed

section \<open>Fields of registers\<close>

text \<open>The pattern of \<^verbatim>\<open>MODIFY_REG\<close>.\<close>

definition modify_reg :: "u32 \<Rightarrow> u32 \<Rightarrow> u32 \<Rightarrow> u32" where
  "modify_reg m v r = (r AND NOT m) OR v"

lemma and_eq_bits: "w AND m = w \<Longrightarrow> bit (w :: u32) n \<Longrightarrow> bit m n"
  by (metis bit_and_iff)

lemma and_zero_bits: "m AND k = 0 \<Longrightarrow> bit (m :: u32) n \<Longrightarrow> \<not> bit k n"
  by (metis bit_and_iff bit_0_eq bot_apply bot_bool_def)

lemma put_same: "v AND m = v \<Longrightarrow> modify_reg m v r AND m = v"
  by (rule bit_word_eqI) (auto simp: modify_reg_def bit_simps dest: and_eq_bits)

lemma put_other: "v AND m = v \<Longrightarrow> m AND k = 0 \<Longrightarrow> modify_reg m v r AND k = r AND k"
  by (rule bit_word_eqI) (auto simp: modify_reg_def bit_simps dest: and_eq_bits and_zero_bits)

lemma or_other: "m AND k = 0 \<Longrightarrow> (r OR m) AND k = r AND (k :: u32)"
  by (rule bit_word_eqI) (auto simp: bit_simps dest: and_zero_bits)

lemma and_not_other: "m AND k = 0 \<Longrightarrow> (r AND NOT m) AND k = r AND (k :: u32)"
  by (rule bit_word_eqI) (auto simp: bit_simps dest: and_zero_bits)

text \<open>A value that fits a field survives being put there.\<close>

lemma field_fits:
  assumes "unat (v :: u32) < 2 ^ n"
  shows "push_bit k v AND push_bit k (mask n) = push_bit k v" "n + k \<le> 32 \<Longrightarrow> drop_bit k (push_bit k v) = v"
proof -
  have v: "take_bit n v = v" using assms by (simp add: unat_arith_simps(3) unsigned_take_bit_eq take_bit_nat_eq_self)
  show "push_bit k v AND push_bit k (mask n) = push_bit k v"
    unfolding push_bit_and [symmetric] take_bit_eq_mask [symmetric] v ..
  have "bit v i \<Longrightarrow> i < n" for i using v by (metis bit_take_bit_iff)
  then show "drop_bit k (push_bit k v) = v" if "n + k \<le> 32"
    using that by (intro bit_word_eqI) (fastforce simp: bit_simps)
qed

lemma and_apart: "c AND m = c \<Longrightarrow> m AND k = 0 \<Longrightarrow> c AND k = (0 :: u32)"
  by (metis and.assoc and_zero_eq)

text \<open>Fields that do not overlap, put together with or, are read back each.\<close>

abbreviation or_fields :: "(u32 \<times> u32) list \<Rightarrow> u32" where
  "or_fields xs \<equiv> foldr (\<lambda>(c, m) r. c OR r) xs 0"

lemma or_fields_other: "\<forall>(c, m) \<in> set xs. c AND m = c \<and> m AND k = 0 \<Longrightarrow> or_fields xs AND k = 0"
  by (induction xs) (auto simp: bit.conj_disj_distrib2 and_apart)

lemma or_fields_read:
  assumes "sorted_wrt (\<lambda>a b. snd a AND snd b = 0) xs" "\<forall>(c, m) \<in> set xs. c AND m = c" "(c, m) \<in> set xs"
  shows "or_fields xs AND m = c"
  using assms
proof (induction xs)
  case (Cons x xs)
  obtain c0 m0 where x: "x = (c0, m0)" by (cases x)
  show ?case
  proof (cases "(c, m) = (c0, m0)")
    case True
    moreover have "or_fields xs AND m0 = 0"
      using Cons.prems x by (intro or_fields_other) (auto simp: and.commute)
    ultimately show ?thesis using Cons.prems x by (simp add: bit.conj_disj_distrib2)
  next
    case False
    with Cons x have "or_fields xs AND m = c" "m0 AND m = 0" "c0 AND m0 = c0" by auto
    then show ?thesis using x and_apart [of c0 m0 m] by (simp add: bit.conj_disj_distrib2)
  qed
qed simp

lemma shift_mask: "v AND m = v \<Longrightarrow> push_bit k v AND push_bit k m = push_bit k (v :: u32)"
  by (simp only: push_bit_and [symmetric])

end
