(* ===== verification/Hal_Flash.thy ===== *)
theory Hal_Flash
  imports Prelude
begin

text \<open>
  Model of \<^verbatim>\<open>src/src/stm32f7xx_hal_flash.c\<close> and
  \<^verbatim>\<open>src/src/stm32f7xx_hal_flash_ex.c\<close>: locking, waiting, programming and erasing,
  polling and interrupt driven. The flash controller and the millisecond clock are hardware: a
  parameter \<open>D\<close> of every operation, with the behaviour the reference manual documents as the
  locale \<open>flash_ctrl\<close> in the theory \<open>Flash_Device\<close>. The driver's own state is
  \<^verbatim>\<open>pFlash\<close>. The checks \<^verbatim>\<open>assert_param\<close> are compiled out.
\<close>

unbundle bit_operations_syntax

section \<open>Constants\<close>

definition FLASH_CR_PG :: u32 where [reg_consts]: "FLASH_CR_PG = 0x1"
definition FLASH_CR_SER :: u32 where [reg_consts]: "FLASH_CR_SER = 0x2"
definition FLASH_CR_MER1 :: u32 where [reg_consts]: "FLASH_CR_MER1 = 0x4"
definition FLASH_CR_SNB :: u32 where [reg_consts]: "FLASH_CR_SNB = 0xF8"
definition FLASH_CR_MER2 :: u32 where [reg_consts]: "FLASH_CR_MER2 = 0x8000"
definition FLASH_CR_STRT :: u32 where [reg_consts]: "FLASH_CR_STRT = 0x10000"
definition FLASH_CR_LOCK :: u32 where [reg_consts]: "FLASH_CR_LOCK = 0x80000000"
definition FLASH_MER_BIT :: u32 where [reg_consts]: "FLASH_MER_BIT = 0x8004"
definition FLASH_IT_EOP :: u32 where [reg_consts]: "FLASH_IT_EOP = 0x1000000"
definition FLASH_IT_ERR :: u32 where [reg_consts]: "FLASH_IT_ERR = 0x2000000"
definition CR_PSIZE_MASK :: u32 where [reg_consts]: "CR_PSIZE_MASK = 0xFFFFFCFF"
definition SECTOR_MASK :: u32 where [reg_consts]: "SECTOR_MASK = 0xFFFFFF07"
definition FLASH_PSIZE_BYTE :: u32 where [reg_consts]: "FLASH_PSIZE_BYTE = 0"
definition FLASH_PSIZE_HALF_WORD :: u32 where [reg_consts]: "FLASH_PSIZE_HALF_WORD = 0x100"
definition FLASH_PSIZE_WORD :: u32 where [reg_consts]: "FLASH_PSIZE_WORD = 0x200"
definition FLASH_PSIZE_DOUBLE_WORD :: u32 where [reg_consts]: "FLASH_PSIZE_DOUBLE_WORD = 0x300"

definition FLASH_FLAG_EOP :: u32 where [reg_consts]: "FLASH_FLAG_EOP = 0x1"
definition FLASH_FLAG_OPERR :: u32 where [reg_consts]: "FLASH_FLAG_OPERR = 0x2"
definition FLASH_FLAG_WRPERR :: u32 where [reg_consts]: "FLASH_FLAG_WRPERR = 0x10"
definition FLASH_FLAG_PGAERR :: u32 where [reg_consts]: "FLASH_FLAG_PGAERR = 0x20"
definition FLASH_FLAG_PGPERR :: u32 where [reg_consts]: "FLASH_FLAG_PGPERR = 0x40"
definition FLASH_FLAG_ERSERR :: u32 where [reg_consts]: "FLASH_FLAG_ERSERR = 0x80"
definition FLASH_FLAG_ALL_ERRORS :: u32 where [reg_consts]: "FLASH_FLAG_ALL_ERRORS = 0xF2"
definition FLASH_FLAG_BSY :: u32 where [reg_consts]: "FLASH_FLAG_BSY = 0x10000"

definition HAL_FLASH_ERROR_ERS :: u32 where [reg_consts]: "HAL_FLASH_ERROR_ERS = 0x2"
definition HAL_FLASH_ERROR_PGP :: u32 where [reg_consts]: "HAL_FLASH_ERROR_PGP = 0x4"
definition HAL_FLASH_ERROR_PGA :: u32 where [reg_consts]: "HAL_FLASH_ERROR_PGA = 0x8"
definition HAL_FLASH_ERROR_WRP :: u32 where [reg_consts]: "HAL_FLASH_ERROR_WRP = 0x10"
definition HAL_FLASH_ERROR_OPERATION :: u32 where [reg_consts]: "HAL_FLASH_ERROR_OPERATION = 0x20"

definition FLASH_KEY1 :: u32 where [reg_consts]: "FLASH_KEY1 = 0x45670123"
definition FLASH_KEY2 :: u32 where [reg_consts]: "FLASH_KEY2 = 0xCDEF89AB"
definition FLASH_TIMEOUT_VALUE :: u32 where [reg_consts]: "FLASH_TIMEOUT_VALUE = 50000"
definition HAL_MAX_DELAY :: u32 where [reg_consts]: "HAL_MAX_DELAY = 0xFFFFFFFF"

definition FLASH_TYPEPROGRAM_BYTE :: u32 where [reg_consts]: "FLASH_TYPEPROGRAM_BYTE = 0"
definition FLASH_TYPEPROGRAM_HALFWORD :: u32 where [reg_consts]: "FLASH_TYPEPROGRAM_HALFWORD = 1"
definition FLASH_TYPEPROGRAM_WORD :: u32 where [reg_consts]: "FLASH_TYPEPROGRAM_WORD = 2"
definition FLASH_TYPEPROGRAM_DOUBLEWORD :: u32 where [reg_consts]: "FLASH_TYPEPROGRAM_DOUBLEWORD = 3"
definition FLASH_TYPEERASE_SECTORS :: u32 where [reg_consts]: "FLASH_TYPEERASE_SECTORS = 0"
definition FLASH_TYPEERASE_MASSERASE :: u32 where [reg_consts]: "FLASH_TYPEERASE_MASSERASE = 1"
definition FLASH_VOLTAGE_RANGE_1 :: u32 where [reg_consts]: "FLASH_VOLTAGE_RANGE_1 = 0"
definition FLASH_VOLTAGE_RANGE_2 :: u32 where [reg_consts]: "FLASH_VOLTAGE_RANGE_2 = 1"
definition FLASH_VOLTAGE_RANGE_3 :: u32 where [reg_consts]: "FLASH_VOLTAGE_RANGE_3 = 2"
definition FLASH_BANK_2 :: u32 where [reg_consts]: "FLASH_BANK_2 = 2"
definition FLASH_BANK_BOTH :: u32 where [reg_consts]: "FLASH_BANK_BOTH = 3"
definition FLASH_SECTOR_11 :: u32 where [reg_consts]: "FLASH_SECTOR_11 = 11"

section \<open>The hardware interface\<close>

text \<open>
  What the driver does to the hardware, on a device state of any type \<open>'d\<close>: register reads and
  writes, stores into the flash address space, loads from it, the millisecond counter
  \<^verbatim>\<open>HAL_GetTick()\<close> reads, and \<open>pass\<close>, the time one turn of a polling loop takes.
\<close>

record 'd flash_dev =
  rd_CR :: "'d \<Rightarrow> u32"
  wr_CR :: "u32 \<Rightarrow> 'd \<Rightarrow> 'd"
  rd_SR :: "'d \<Rightarrow> u32"
  wr_SR :: "u32 \<Rightarrow> 'd \<Rightarrow> 'd"
  wr_KEYR :: "u32 \<Rightarrow> 'd \<Rightarrow> 'd"
  st8 :: "u32 \<Rightarrow> u8 \<Rightarrow> 'd \<Rightarrow> 'd"
  st16 :: "u32 \<Rightarrow> u16 \<Rightarrow> 'd \<Rightarrow> 'd"
  st32 :: "u32 \<Rightarrow> u32 \<Rightarrow> 'd \<Rightarrow> 'd"
  ld8 :: "'d \<Rightarrow> mem"
  ms :: "'d \<Rightarrow> u32"
  pass :: "'d \<Rightarrow> 'd"

datatype HAL_Status = HAL_OK | HAL_ERROR | HAL_BUSY | HAL_TIMEOUT

datatype flash_proc = FLASH_PROC_NONE | FLASH_PROC_SECTERASE | FLASH_PROC_MASSERASE | FLASH_PROC_PROGRAM

text \<open>The two weak callbacks do nothing in this program; the model records that they are called.\<close>

datatype flash_cb = EndOfOperationCallback u32 | OperationErrorCallback u32

record 'd flash_state =
  ProcedureOnGoing :: flash_proc
  NbSectorsToErase :: u32
  VoltageForErase :: u8
  Sector :: u32
  Address :: u32
  Lock :: bool
  ErrorCode :: u32
  callbacks :: "flash_cb list"
  dev :: 'd

definition cr_and :: "'d flash_dev \<Rightarrow> u32 \<Rightarrow> 'd flash_state \<Rightarrow> 'd flash_state" where
  "cr_and D m s = s\<lparr>dev := wr_CR D (rd_CR D (dev s) AND m) (dev s)\<rparr>"

definition cr_or :: "'d flash_dev \<Rightarrow> u32 \<Rightarrow> 'd flash_state \<Rightarrow> 'd flash_state" where
  "cr_or D m s = s\<lparr>dev := wr_CR D (rd_CR D (dev s) OR m) (dev s)\<rparr>"

definition flag_set :: "'d flash_dev \<Rightarrow> u32 \<Rightarrow> 'd flash_state \<Rightarrow> bool" where
  "flag_set D f s \<longleftrightarrow> rd_SR D (dev s) AND f \<noteq> 0"

definition clear_flag :: "'d flash_dev \<Rightarrow> u32 \<Rightarrow> 'd flash_state \<Rightarrow> 'd flash_state" where
  "clear_flag D f s = s\<lparr>dev := wr_SR D f (dev s)\<rparr>"

section \<open>Control\<close>

definition HAL_FLASH_Unlock :: "'d flash_dev \<Rightarrow> 'd flash_state \<Rightarrow> HAL_Status \<times> 'd flash_state" where
  "HAL_FLASH_Unlock D s =
     (if rd_CR D (dev s) AND FLASH_CR_LOCK \<noteq> 0 then
        let s1 = s\<lparr>dev := wr_KEYR D FLASH_KEY2 (wr_KEYR D FLASH_KEY1 (dev s))\<rparr> in
        (if rd_CR D (dev s1) AND FLASH_CR_LOCK \<noteq> 0 then HAL_ERROR else HAL_OK, s1)
      else (HAL_OK, s))"

definition HAL_FLASH_Lock :: "'d flash_dev \<Rightarrow> 'd flash_state \<Rightarrow> HAL_Status \<times> 'd flash_state" where
  "HAL_FLASH_Lock D s = (HAL_OK, cr_or D FLASH_CR_LOCK s)"

definition HAL_FLASH_GetError :: "'d flash_state \<Rightarrow> u32" where
  "HAL_FLASH_GetError s = ErrorCode s"

section \<open>Waiting\<close>

definition or_error :: "bool \<Rightarrow> u32 \<Rightarrow> 'd flash_state \<Rightarrow> 'd flash_state" where
  "or_error b e s = (if b then s\<lparr>ErrorCode := ErrorCode s OR e\<rparr> else s)"

definition FLASH_SetErrorCode :: "'d flash_dev \<Rightarrow> 'd flash_state \<Rightarrow> 'd flash_state" where
  "FLASH_SetErrorCode D s =
     (let s1 = or_error (flag_set D FLASH_FLAG_OPERR s) HAL_FLASH_ERROR_OPERATION s;
          s2 = or_error (flag_set D FLASH_FLAG_WRPERR s1) HAL_FLASH_ERROR_WRP s1;
          s3 = or_error (flag_set D FLASH_FLAG_PGAERR s2) HAL_FLASH_ERROR_PGA s2;
          s4 = or_error (flag_set D FLASH_FLAG_PGPERR s3) HAL_FLASH_ERROR_PGP s3;
          s5 = or_error (flag_set D FLASH_FLAG_ERSERR s4) HAL_FLASH_ERROR_ERS s4
      in clear_flag D FLASH_FLAG_ALL_ERRORS s5)"

text \<open>
  The polling loop: \<open>Some (True, d)\<close> when the busy flag went down, \<open>Some (False, d)\<close> on timeout,
  \<open>None\<close> if neither ever happens.
\<close>

partial_function (option) wait_bsy ::
  "'d flash_dev \<Rightarrow> u32 \<Rightarrow> u32 \<Rightarrow> 'd \<Rightarrow> (bool \<times> 'd) option" where
  "wait_bsy D Timeout tickstart d =
     (if rd_SR D d AND FLASH_FLAG_BSY = 0 then Some (True, d)
      else if Timeout \<noteq> HAL_MAX_DELAY \<and> (Timeout = 0 \<or> ms D d - tickstart > Timeout) then Some (False, d)
      else wait_bsy D Timeout tickstart (pass D d))"

definition FLASH_WaitForLastOperation ::
  "'d flash_dev \<Rightarrow> u32 \<Rightarrow> 'd flash_state \<Rightarrow> (HAL_Status \<times> 'd flash_state) res" where
  "FLASH_WaitForLastOperation D Timeout s =
     (let s1 = s\<lparr>ErrorCode := 0\<rparr>; tickstart = ms D (dev s1) in
      case wait_bsy D Timeout tickstart (dev s1) of
        None \<Rightarrow> Inl Hang
      | Some (False, d) \<Rightarrow> Inr (HAL_TIMEOUT, s1\<lparr>dev := d\<rparr>)
      | Some (True, d) \<Rightarrow>
          let s2 = s1\<lparr>dev := d\<rparr> in
          if flag_set D FLASH_FLAG_ALL_ERRORS s2 then Inr (HAL_ERROR, FLASH_SetErrorCode D s2)
          else if flag_set D FLASH_FLAG_EOP s2 then Inr (HAL_OK, clear_flag D FLASH_FLAG_EOP s2)
          else Inr (HAL_OK, s2))"

section \<open>Programming\<close>

definition set_psize_pg :: "'d flash_dev \<Rightarrow> u32 \<Rightarrow> 'd flash_state \<Rightarrow> 'd flash_state" where
  "set_psize_pg D psize s = cr_or D FLASH_CR_PG (cr_or D psize (cr_and D CR_PSIZE_MASK s))"

definition FLASH_Program_DoubleWord :: "'d flash_dev \<Rightarrow> u32 \<Rightarrow> u64 \<Rightarrow> 'd flash_state \<Rightarrow> 'd flash_state" where
  "FLASH_Program_DoubleWord D a data s =
     (let s1 = set_psize_pg D FLASH_PSIZE_DOUBLE_WORD s;
          s2 = s1\<lparr>dev := st32 D a (ucast data) (dev s1)\<rparr>
      in s2\<lparr>dev := st32 D (a + 4) (ucast (drop_bit 32 data)) (dev s2)\<rparr>)"

definition FLASH_Program_Word :: "'d flash_dev \<Rightarrow> u32 \<Rightarrow> u32 \<Rightarrow> 'd flash_state \<Rightarrow> 'd flash_state" where
  "FLASH_Program_Word D a data s =
     (let s1 = set_psize_pg D FLASH_PSIZE_WORD s in s1\<lparr>dev := st32 D a data (dev s1)\<rparr>)"

definition FLASH_Program_HalfWord :: "'d flash_dev \<Rightarrow> u32 \<Rightarrow> u16 \<Rightarrow> 'd flash_state \<Rightarrow> 'd flash_state" where
  "FLASH_Program_HalfWord D a data s =
     (let s1 = set_psize_pg D FLASH_PSIZE_HALF_WORD s in s1\<lparr>dev := st16 D a data (dev s1)\<rparr>)"

definition FLASH_Program_Byte :: "'d flash_dev \<Rightarrow> u32 \<Rightarrow> u8 \<Rightarrow> 'd flash_state \<Rightarrow> 'd flash_state" where
  "FLASH_Program_Byte D a data s =
     (let s1 = set_psize_pg D FLASH_PSIZE_BYTE s in s1\<lparr>dev := st8 D a data (dev s1)\<rparr>)"

definition program_switch :: "'d flash_dev \<Rightarrow> u32 \<Rightarrow> u32 \<Rightarrow> u64 \<Rightarrow> 'd flash_state \<Rightarrow> 'd flash_state" where
  "program_switch D TypeProgram a data s =
     (if TypeProgram = FLASH_TYPEPROGRAM_BYTE then FLASH_Program_Byte D a (ucast data) s
      else if TypeProgram = FLASH_TYPEPROGRAM_HALFWORD then FLASH_Program_HalfWord D a (ucast data) s
      else if TypeProgram = FLASH_TYPEPROGRAM_WORD then FLASH_Program_Word D a (ucast data) s
      else if TypeProgram = FLASH_TYPEPROGRAM_DOUBLEWORD then FLASH_Program_DoubleWord D a data s
      else s)"

definition HAL_FLASH_Program ::
  "'d flash_dev \<Rightarrow> u32 \<Rightarrow> u32 \<Rightarrow> u64 \<Rightarrow> 'd flash_state \<Rightarrow> (HAL_Status \<times> 'd flash_state) res" where
  "HAL_FLASH_Program D TypeProgram a data s =
     (if Lock s then Inr (HAL_BUSY, s)
      else res_bind (FLASH_WaitForLastOperation D FLASH_TIMEOUT_VALUE (s\<lparr>Lock := True\<rparr>)) (\<lambda>(status, s1).
        if status = HAL_OK then
          res_bind (FLASH_WaitForLastOperation D FLASH_TIMEOUT_VALUE (program_switch D TypeProgram a data s1))
            (\<lambda>(status, s2). Inr (status, (cr_and D (NOT FLASH_CR_PG) s2)\<lparr>Lock := False\<rparr>))
        else Inr (status, s1\<lparr>Lock := False\<rparr>)))"

definition HAL_FLASH_Program_IT ::
  "'d flash_dev \<Rightarrow> u32 \<Rightarrow> u32 \<Rightarrow> u64 \<Rightarrow> 'd flash_state \<Rightarrow> HAL_Status \<times> 'd flash_state" where
  "HAL_FLASH_Program_IT D TypeProgram a data s =
     (if Lock s then (HAL_BUSY, s)
      else let s1 = cr_or D FLASH_IT_ERR (cr_or D FLASH_IT_EOP (s\<lparr>Lock := True\<rparr>));
               s2 = clear_flag D 0xF3 s1;
               s3 = s2\<lparr>ProcedureOnGoing := FLASH_PROC_PROGRAM, Address := a\<rparr>
           in (HAL_OK, program_switch D TypeProgram a data s3))"

section \<open>Erasing\<close>

record FLASH_EraseInit =
  TypeErase :: u32
  Banks :: u32
  ESector :: u32
  NbSectors :: u32
  VoltageRange :: u32

definition FLASH_MassErase :: "'d flash_dev \<Rightarrow> u8 \<Rightarrow> u32 \<Rightarrow> 'd flash_state \<Rightarrow> 'd flash_state" where
  "FLASH_MassErase D vr banks s =
     (let s1 = cr_and D CR_PSIZE_MASK s;
          s2 = cr_or D (if banks = FLASH_BANK_BOTH then FLASH_MER_BIT
                        else if banks = FLASH_BANK_2 then FLASH_CR_MER2 else FLASH_CR_MER1) s1
      in cr_or D (FLASH_CR_STRT OR push_bit 8 (ucast vr)) s2)"

definition erase_psize :: "u8 \<Rightarrow> u32" where
  "erase_psize vr =
     (if ucast vr = FLASH_VOLTAGE_RANGE_1 then FLASH_PSIZE_BYTE
      else if ucast vr = FLASH_VOLTAGE_RANGE_2 then FLASH_PSIZE_HALF_WORD
      else if ucast vr = FLASH_VOLTAGE_RANGE_3 then FLASH_PSIZE_WORD
      else FLASH_PSIZE_DOUBLE_WORD)"

definition FLASH_Erase_Sector :: "'d flash_dev \<Rightarrow> u32 \<Rightarrow> u8 \<Rightarrow> 'd flash_state \<Rightarrow> 'd flash_state" where
  "FLASH_Erase_Sector D sector vr s =
     (let sector' = (if sector > FLASH_SECTOR_11 then sector + 4 else sector);
          s1 = cr_or D (erase_psize vr) (cr_and D CR_PSIZE_MASK s);
          s2 = cr_and D (NOT FLASH_CR_SNB) s1;
          s3 = cr_or D (FLASH_CR_SER OR push_bit 3 sector') s2
      in cr_or D FLASH_CR_STRT s3)"

function erase_loop :: "'d flash_dev \<Rightarrow> u8 \<Rightarrow> u32 \<Rightarrow> u32 \<Rightarrow> HAL_Status \<times> u32 \<times> 'd flash_state
    \<Rightarrow> (HAL_Status \<times> u32 \<times> 'd flash_state) res" where
  "erase_loop D vr index bound st =
     (if index < bound then
        case st of (status, SectorError, s) \<Rightarrow>
        case FLASH_WaitForLastOperation D FLASH_TIMEOUT_VALUE (FLASH_Erase_Sector D index vr s) of
          Inl e \<Rightarrow> Inl e
        | Inr (status', s1) \<Rightarrow>
            let s2 = cr_and D (NOT (FLASH_CR_SER OR FLASH_CR_SNB)) s1 in
            if status' \<noteq> HAL_OK then Inr (status', index, s2)
            else erase_loop D vr (index + 1) bound (status', SectorError, s2)
      else Inr st)"
  by pat_completeness auto
termination
  by (relation "measure (\<lambda>(D, vr, index, bound, st). unat bound - unat index)")
    (auto simp: unat_add_1 word_less_nat_alt [symmetric] intro!: diff_less_mono2 word_less_nat_alt [THEN iffD1])

declare erase_loop.simps [simp del]

text \<open>
  The result is the status, the value of \<^verbatim>\<open>*SectorError\<close> (unchanged from \<open>se\<close> when the
  first wait fails) and the state.
\<close>

definition HAL_FLASHEx_Erase :: "'d flash_dev \<Rightarrow> FLASH_EraseInit \<Rightarrow> u32 \<Rightarrow> 'd flash_state
    \<Rightarrow> (HAL_Status \<times> u32 \<times> 'd flash_state) res" where
  "HAL_FLASHEx_Erase D e se s =
     (if Lock s then Inr (HAL_BUSY, se, s)
      else res_bind (FLASH_WaitForLastOperation D FLASH_TIMEOUT_VALUE (s\<lparr>Lock := True\<rparr>)) (\<lambda>(status, s1).
        res_bind
          (if status = HAL_OK then
             if TypeErase e = FLASH_TYPEERASE_MASSERASE then
               res_bind (FLASH_WaitForLastOperation D FLASH_TIMEOUT_VALUE
                   (FLASH_MassErase D (ucast (VoltageRange e)) (Banks e) s1))
                 (\<lambda>(status, s2). Inr (status, 0xFFFFFFFF, cr_and D (NOT FLASH_MER_BIT) s2))
             else erase_loop D (ucast (VoltageRange e)) (ESector e) (NbSectors e + ESector e)
                    (status, 0xFFFFFFFF, s1)
           else Inr (status, se, s1))
          (\<lambda>(status, se', s3). Inr (status, se', s3\<lparr>Lock := False\<rparr>))))"

definition HAL_FLASHEx_Erase_IT ::
  "'d flash_dev \<Rightarrow> FLASH_EraseInit \<Rightarrow> 'd flash_state \<Rightarrow> HAL_Status \<times> 'd flash_state" where
  "HAL_FLASHEx_Erase_IT D e s =
     (if Lock s then (HAL_BUSY, s)
      else let s1 = cr_or D FLASH_IT_ERR (cr_or D FLASH_IT_EOP (s\<lparr>Lock := True\<rparr>));
               s2 = clear_flag D 0xF3 s1
           in if TypeErase e = FLASH_TYPEERASE_MASSERASE then
                (HAL_OK, FLASH_MassErase D (ucast (VoltageRange e)) (Banks e)
                   (s2\<lparr>ProcedureOnGoing := FLASH_PROC_MASSERASE\<rparr>))
              else (HAL_OK, FLASH_Erase_Sector D (ESector e) (ucast (VoltageRange e))
                   (s2\<lparr>ProcedureOnGoing := FLASH_PROC_SECTERASE, NbSectorsToErase := NbSectors e,
                       Sector := ESector e, VoltageForErase := ucast (VoltageRange e)\<rparr>)))"

section \<open>The interrupt handler\<close>

definition call_back :: "flash_cb \<Rightarrow> 'd flash_state \<Rightarrow> 'd flash_state" where
  "call_back c s = s\<lparr>callbacks := callbacks s @ [c]\<rparr>"

definition irq_end_of_operation :: "'d flash_dev \<Rightarrow> 'd flash_state \<Rightarrow> 'd flash_state" where
  "irq_end_of_operation D s =
     (case ProcedureOnGoing s of
        FLASH_PROC_SECTERASE \<Rightarrow>
          let s1 = s\<lparr>NbSectorsToErase := NbSectorsToErase s - 1\<rparr> in
          if NbSectorsToErase s1 \<noteq> 0 then
            let s2 = call_back (EndOfOperationCallback (Sector s1)) s1;
                s3 = s2\<lparr>Sector := Sector s2 + 1\<rparr>
            in FLASH_Erase_Sector D (Sector s3) (VoltageForErase s3) s3
          else (call_back (EndOfOperationCallback 0xFFFFFFFF) (s1\<lparr>Sector := 0xFFFFFFFF\<rparr>))
                 \<lparr>ProcedureOnGoing := FLASH_PROC_NONE\<rparr>
      | FLASH_PROC_MASSERASE \<Rightarrow>
          (call_back (EndOfOperationCallback 0) s)\<lparr>ProcedureOnGoing := FLASH_PROC_NONE\<rparr>
      | FLASH_PROC_PROGRAM \<Rightarrow>
          (call_back (EndOfOperationCallback (Address s)) s)\<lparr>ProcedureOnGoing := FLASH_PROC_NONE\<rparr>
      | FLASH_PROC_NONE \<Rightarrow> s)"

text \<open>\<open>temp\<close> is the local variable of the handler, which the default case leaves as it was.\<close>

definition irq_error :: "'d flash_dev \<Rightarrow> u32 \<Rightarrow> 'd flash_state \<Rightarrow> 'd flash_state" where
  "irq_error D temp s =
     (let (temp', s1) = (case ProcedureOnGoing s of
            FLASH_PROC_SECTERASE \<Rightarrow> (Sector s, s\<lparr>Sector := 0xFFFFFFFF\<rparr>)
          | FLASH_PROC_MASSERASE \<Rightarrow> (0, s)
          | FLASH_PROC_PROGRAM \<Rightarrow> (Address s, s)
          | FLASH_PROC_NONE \<Rightarrow> (temp, s))
      in (call_back (OperationErrorCallback temp') (FLASH_SetErrorCode D s1))
           \<lparr>ProcedureOnGoing := FLASH_PROC_NONE\<rparr>)"

definition irq_temp :: "'d flash_state \<Rightarrow> u32" where
  "irq_temp s = (if ProcedureOnGoing s = FLASH_PROC_SECTERASE
     then if NbSectorsToErase s - 1 \<noteq> 0 then Sector s + 1 else 0xFFFFFFFF else 0)"

definition HAL_FLASH_IRQHandler :: "'d flash_dev \<Rightarrow> 'd flash_state \<Rightarrow> 'd flash_state" where
  "HAL_FLASH_IRQHandler D s =
     (let s1 = cr_and D (NOT FLASH_MER_BIT) (cr_and D SECTOR_MASK
                 (cr_and D (NOT FLASH_CR_SER) (cr_and D (NOT FLASH_CR_PG) s)));
          eop = flag_set D FLASH_FLAG_EOP s1;
          s2 = (if eop then irq_end_of_operation D (clear_flag D FLASH_FLAG_EOP s1) else s1);
          s3 = (if flag_set D FLASH_FLAG_ALL_ERRORS s2
                then irq_error D (if eop then irq_temp s1 else 0) s2 else s2)
      in if ProcedureOnGoing s3 = FLASH_PROC_NONE
         then (cr_and D (NOT FLASH_IT_ERR) (cr_and D (NOT FLASH_IT_EOP) s3))\<lparr>Lock := False\<rparr>
         else s3)"

end
