(* ===== verification/Flash_Device.thy ===== *)
theory Flash_Device
  imports Hal_Flash
begin

text \<open>
  The contract between the flash driver and the flash controller. The locale \<open>flash_ctrl\<close> states
  what the reference manual documents of the controller (register access, programming of erased
  words, sector erase, busy time), its lemmas lift that to the driver operations, and
  \<open>flash_sim\<close> is an executable controller that meets the contract.
\<close>

unbundle bit_operations_syntax

section \<open>Sectors\<close>

text \<open>Start addresses of the sectors of the 2 MByte flash in single bank mode, and its end.\<close>

definition sector_base :: "u32 list" where
  "sector_base = [0x08000000, 0x08008000, 0x08010000, 0x08018000, 0x08020000, 0x08040000,
     0x08080000, 0x080C0000, 0x08100000, 0x08140000, 0x08180000, 0x081C0000, 0x08200000]"

definition in_sector :: "nat \<Rightarrow> u32 \<Rightarrow> bool" where
  "in_sector n a \<longleftrightarrow> sector_base ! n \<le> a \<and> a < sector_base ! Suc n"

definition in_flash :: "u32 \<Rightarrow> bool" where
  "in_flash a \<longleftrightarrow> 0x08000000 \<le> a \<and> a < 0x08200000"

definition erased_word :: "mem \<Rightarrow> u32 \<Rightarrow> bool" where
  "erased_word m a \<longleftrightarrow> m a = 0xFF \<and> m (a + 1) = 0xFF \<and> m (a + 2) = 0xFF \<and> m (a + 3) = 0xFF"

definition erase_sector :: "nat \<Rightarrow> mem \<Rightarrow> mem" where
  "erase_sector n m = (\<lambda>a. if in_sector n a then 0xFF else m a)"

section \<open>The contract\<close>

text \<open>The implemented bits of the control register, and those that select an operation.\<close>

definition CR_BITS :: u32 where [reg_consts]: "CR_BITS = 0x830183FF"
definition CR_OPS :: u32 where [reg_consts]: "CR_OPS = 0x180FF"

definition unlocked :: "'d flash_dev \<Rightarrow> 'd \<Rightarrow> bool" where
  "unlocked D d \<longleftrightarrow> rd_CR D d AND FLASH_CR_LOCK = 0"

definition no_error :: "'d flash_dev \<Rightarrow> 'd \<Rightarrow> bool" where
  "no_error D d \<longleftrightarrow> rd_SR D d AND FLASH_FLAG_ALL_ERRORS = 0"

text \<open>The state in which the driver leaves the controller between operations, and what the
  flash holds.\<close>

definition flash_idle :: "'d flash_dev \<Rightarrow> 'd flash_state \<Rightarrow> bool" where
  "flash_idle D s \<longleftrightarrow> \<not> Lock s \<and> unlocked D (dev s) \<and> rd_SR D (dev s) AND FLASH_FLAG_BSY = 0
     \<and> no_error D (dev s) \<and> rd_CR D (dev s) AND CR_OPS = 0"

definition fmem :: "'d flash_dev \<Rightarrow> 'd flash_state \<Rightarrow> mem" where
  "fmem D s = ld8 D (dev s)"

text \<open>The same, but possibly locked, as after a reset.\<close>

definition flash_quiet :: "'d flash_dev \<Rightarrow> 'd flash_state \<Rightarrow> bool" where
  "flash_quiet D s \<longleftrightarrow> \<not> Lock s \<and> rd_SR D (dev s) AND (FLASH_FLAG_BSY OR FLASH_FLAG_ALL_ERRORS) = 0
     \<and> rd_CR D (dev s) AND CR_OPS = 0"

lemma idle_quiet: "flash_idle D s \<Longrightarrow> flash_quiet D s"
  by (simp add: flash_idle_def flash_quiet_def no_error_def bit.conj_disj_distrib)

locale flash_ctrl =
  fixes D :: "'d flash_dev" and busy :: "'d \<Rightarrow> nat"
  assumes busy_flag: "rd_SR D d AND FLASH_FLAG_BSY = 0 \<longleftrightarrow> busy d = 0"
    and cr_reserved: "rd_CR D d AND NOT CR_BITS = 0"
    and strt_cleared: "busy d = 0 \<Longrightarrow> rd_CR D d AND FLASH_CR_STRT = 0"
    and pass_busy: "busy (pass D d) = busy d - 1"
    and pass_ms: "ms D (pass D d) - ms D d \<le> 1"
    and pass_cr: "rd_CR D (pass D d) AND NOT FLASH_CR_STRT = rd_CR D d AND NOT FLASH_CR_STRT"
    and pass_mem: "ld8 D (pass D d) = ld8 D d"
    and pass_no_error: "no_error D d \<Longrightarrow> no_error D (pass D d)"
    and sr_clear: "v AND FLASH_FLAG_BSY = 0 \<Longrightarrow> rd_SR D (wr_SR D v d) = rd_SR D d AND NOT v"
    and sr_frame: "ld8 D (wr_SR D v d) = ld8 D d" "rd_CR D (wr_SR D v d) = rd_CR D d"
    and cr_write: "unlocked D d \<Longrightarrow> busy d = 0 \<Longrightarrow> v AND NOT CR_BITS = 0 \<Longrightarrow> v AND FLASH_CR_STRT = 0 \<Longrightarrow>
      rd_CR D (wr_CR D v d) = v \<and> ld8 D (wr_CR D v d) = ld8 D d \<and> rd_SR D (wr_CR D v d) = rd_SR D d"
    and sector_erase: "unlocked D d \<Longrightarrow> busy d = 0 \<Longrightarrow> no_error D d \<Longrightarrow> n < 12 \<Longrightarrow>
      v AND NOT CR_BITS = 0 \<Longrightarrow> v AND FLASH_CR_LOCK = 0 \<Longrightarrow>
      v AND CR_OPS = FLASH_CR_STRT OR FLASH_CR_SER OR push_bit 3 (of_nat n) \<Longrightarrow>
      rd_CR D (wr_CR D v d) AND NOT FLASH_CR_STRT = v AND NOT FLASH_CR_STRT
      \<and> ld8 D (wr_CR D v d) = erase_sector n (ld8 D d) \<and> no_error D (wr_CR D v d)
      \<and> busy (wr_CR D v d) \<le> 50000"
    and word_program: "unlocked D d \<Longrightarrow> busy d = 0 \<Longrightarrow> no_error D d \<Longrightarrow>
      rd_CR D d AND (CR_OPS OR FLASH_PSIZE_DOUBLE_WORD) = FLASH_CR_PG OR FLASH_PSIZE_WORD \<Longrightarrow>
      in_flash a \<Longrightarrow> a AND 3 = 0 \<Longrightarrow> erased_word (ld8 D d) a \<Longrightarrow>
      rd_CR D (st32 D a w d) = rd_CR D d \<and> ld8 D (st32 D a w d) = write32 a w (ld8 D d)
      \<and> no_error D (st32 D a w d) \<and> busy (st32 D a w d) \<le> 50000"
    and key_unlock: "\<not> unlocked D d \<Longrightarrow>
      (let d' = wr_KEYR D FLASH_KEY2 (wr_KEYR D FLASH_KEY1 d) in
       rd_CR D d' = rd_CR D d AND NOT FLASH_CR_LOCK \<and> rd_SR D d' = rd_SR D d \<and> ld8 D d' = ld8 D d)"
begin

text \<open>\<open>at s c m\<close>: the controller is idle with control register \<open>c\<close> and contents \<open>m\<close>;
  \<open>running s c m\<close>: an operation that leads there is under way.\<close>

definition at :: "'d flash_state \<Rightarrow> u32 \<Rightarrow> mem \<Rightarrow> bool" where
  "at s c m \<longleftrightarrow> busy (dev s) = 0 \<and> no_error D (dev s) \<and> rd_CR D (dev s) = c
     \<and> c AND FLASH_CR_LOCK = 0 \<and> ld8 D (dev s) = m"

definition running :: "'d flash_state \<Rightarrow> u32 \<Rightarrow> mem \<Rightarrow> bool" where
  "running s c m \<longleftrightarrow> busy (dev s) \<le> 50000 \<and> no_error D (dev s)
     \<and> rd_CR D (dev s) AND NOT FLASH_CR_STRT = c AND NOT FLASH_CR_STRT
     \<and> c AND FLASH_CR_LOCK = 0 \<and> ld8 D (dev s) = m"

lemma at_running: "at s c m \<Longrightarrow> running s c m"
  by (auto simp: at_def running_def)

lemma at_strt: "at s c m \<Longrightarrow> c AND FLASH_CR_STRT = 0 \<and> c AND NOT CR_BITS = 0"
  using strt_cleared [of "dev s"] cr_reserved [of "dev s"] by (auto simp: at_def)

lemma at_lock_irrelevant [simp]: "at (s\<lparr>Lock := b\<rparr>) c m = at s c m"
  by (simp add: at_def)

lemma at_write:
  assumes "at s c m" "v AND NOT CR_BITS = 0" "v AND FLASH_CR_STRT = 0" "v AND FLASH_CR_LOCK = 0"
  shows "at (s\<lparr>dev := wr_CR D v (dev s)\<rparr>) v m"
proof -
  have "rd_CR D (wr_CR D v (dev s)) = v \<and> ld8 D (wr_CR D v (dev s)) = ld8 D (dev s)
      \<and> rd_SR D (wr_CR D v (dev s)) = rd_SR D (dev s)"
    using assms by (intro cr_write) (auto simp: at_def unlocked_def)
  then show ?thesis
    using assms busy_flag [of "dev s"] busy_flag [of "wr_CR D v (dev s)"]
    by (auto simp: at_def no_error_def)
qed

lemma at_cr_and: "at s c m \<Longrightarrow> at (cr_and D k s) (c AND k) m"
  using at_write [of s c m "c AND k"] at_strt [of s c m]
  by (auto simp: cr_and_def at_def and_zero_and)

lemma at_cr_or:
  assumes "at s c m" "k AND NOT CR_BITS = 0" "k AND FLASH_CR_STRT = 0" "k AND FLASH_CR_LOCK = 0"
  shows "at (cr_or D k s) (c OR k) m"
  using at_write [of s c m "c OR k"] at_strt [of s c m] assms
  by (auto simp: cr_or_def at_def and_or_zero)

lemma wait_bsy_done:
  assumes "unat (ms D d - t0) + busy d \<le> 50000"
  shows "wait_bsy D 50000 t0 d = Some (True, (pass D ^^ busy d) d)"
  using assms
proof (induction "busy d" arbitrary: d)
  case 0
  then show ?case using busy_flag [of d] by (simp add: wait_bsy.simps [of D _ _ d])
next
  case (Suc n)
  have "unat (ms D (pass D d) - ms D d) \<le> 1" using pass_ms [of d] by (simp add: word_le_nat_alt)
  then have "unat (ms D (pass D d) - t0) \<le> Suc (unat (ms D d - t0))"
    using unat_sub_trans [of "ms D (pass D d)" t0 "ms D d"] by simp
  moreover have "busy (pass D d) = n" using Suc(2) pass_busy [of d] by simp
  ultimately have "wait_bsy D 50000 t0 (pass D d) = Some (True, (pass D ^^ n) (pass D d))"
    using Suc.hyps(1) [of "pass D d"] Suc(2) Suc.prems by simp
  moreover have "\<not> ms D d - t0 > 50000" using Suc.prems Suc(2) by (simp add: word_less_nat_alt)
  ultimately show ?case
    using busy_flag [of d] Suc(2) [symmetric]
    by (simp add: wait_bsy.simps [of D _ _ d] funpow_swap1 HAL_MAX_DELAY_def)
qed

lemma pass_n:
  "busy ((pass D ^^ n) d) = busy d - n \<and> ld8 D ((pass D ^^ n) d) = ld8 D d
   \<and> rd_CR D ((pass D ^^ n) d) AND NOT FLASH_CR_STRT = rd_CR D d AND NOT FLASH_CR_STRT
   \<and> (no_error D d \<longrightarrow> no_error D ((pass D ^^ n) d))"
  by (induction n) (auto simp: pass_busy pass_mem pass_cr pass_no_error)

lemma wait_ok:
  assumes "running s c m"
  shows "\<exists>s'. FLASH_WaitForLastOperation D FLASH_TIMEOUT_VALUE s = Inr (HAL_OK, s')
    \<and> at s' (c AND NOT FLASH_CR_STRT) m \<and> Lock s' = Lock s"
proof -
  let ?d = "(pass D ^^ busy (dev s)) (dev s)"
  have "wait_bsy D 50000 (ms D (dev s)) (dev s) = Some (True, ?d)"
    using assms by (intro wait_bsy_done) (simp add: running_def)
  moreover have d: "busy ?d = 0" "no_error D ?d" "ld8 D ?d = m"
    using assms pass_n [of "busy (dev s)" "dev s"] by (auto simp: running_def)
  moreover have cr: "rd_CR D ?d = c AND NOT FLASH_CR_STRT"
    using assms pass_n [of "busy (dev s)" "dev s"] strt_cleared [OF d(1)] and_not_same [of "rd_CR D ?d"]
    by (auto simp: running_def)
  moreover have "(c AND NOT FLASH_CR_STRT) AND FLASH_CR_LOCK = 0"
    using assms by (simp add: running_def and_zero_and)
  moreover have "no_error D (wr_SR D FLASH_FLAG_EOP ?d) \<and> busy (wr_SR D FLASH_FLAG_EOP ?d) = 0"
    using d sr_clear [of FLASH_FLAG_EOP ?d] busy_flag [of ?d] busy_flag [of "wr_SR D FLASH_FLAG_EOP ?d"]
    by (simp add: no_error_def reg_consts and_zero_and)
  ultimately show ?thesis
    by (auto simp: FLASH_WaitForLastOperation_def Let_def FLASH_TIMEOUT_VALUE_def flag_set_def
        clear_flag_def no_error_def at_def sr_frame)
qed

lemma idle_at: "flash_idle D s \<Longrightarrow> at s (rd_CR D (dev s)) (fmem D s)"
  using busy_flag [of "dev s"] by (simp add: flash_idle_def at_def unlocked_def fmem_def)

lemma at_idle: "at s c m \<Longrightarrow> c AND CR_OPS = 0 \<Longrightarrow> \<not> Lock s \<Longrightarrow> flash_idle D s \<and> fmem D s = m"
  using busy_flag [of "dev s"] by (simp add: flash_idle_def at_def unlocked_def fmem_def)

lemma wait_idle:
  assumes "at s c m"
  shows "\<exists>s'. FLASH_WaitForLastOperation D FLASH_TIMEOUT_VALUE s = Inr (HAL_OK, s')
    \<and> at s' c m \<and> Lock s' = Lock s"
  using wait_ok [OF at_running [OF assms]] at_strt [OF assms] and_not_same [of c FLASH_CR_STRT] by auto

lemma program_word_running:
  assumes "at s c m" "c AND CR_OPS = 0" "in_flash a" "a AND 3 = 0" "erased_word m a"
  shows "\<exists>c'. running (program_switch D FLASH_TYPEPROGRAM_WORD a data s) c' (write32 a (ucast data) m)
     \<and> (c' AND NOT FLASH_CR_STRT) AND NOT FLASH_CR_PG AND CR_OPS = 0"
proof -
  let ?c = "(c AND CR_PSIZE_MASK OR FLASH_PSIZE_WORD) OR FLASH_CR_PG"
  let ?s = "set_psize_pg D FLASH_PSIZE_WORD s"
  have at: "at ?s ?c m"
    unfolding set_psize_pg_def
    by (intro at_cr_or at_cr_and assms) (simp_all add: reg_consts)
  have sub: "c AND 0x180FF = 0" "c AND 0x180FE = 0" "c AND 0x80FE = 0"
    using assms(2) by (auto intro: and_zero_sub simp: CR_OPS_def)
  have cr: "rd_CR D (dev ?s) = ?c" and mem: "ld8 D (dev ?s) = m" using at by (simp_all add: at_def)
  have "rd_CR D (st32 D a (ucast data) (dev ?s)) = rd_CR D (dev ?s)
      \<and> ld8 D (st32 D a (ucast data) (dev ?s)) = write32 a (ucast data) (ld8 D (dev ?s))
      \<and> no_error D (st32 D a (ucast data) (dev ?s)) \<and> busy (st32 D a (ucast data) (dev ?s)) \<le> 50000"
  proof (rule word_program [OF _ _ _ _ assms(3,4)])
    show "rd_CR D (dev ?s) AND (CR_OPS OR FLASH_PSIZE_DOUBLE_WORD) = FLASH_CR_PG OR FLASH_PSIZE_WORD"
      unfolding cr by (simp add: bit.conj_disj_distrib2 and.assoc reg_consts sub)
  qed (use at assms(5) mem in \<open>auto simp: at_def unlocked_def\<close>)
  then have "running (program_switch D FLASH_TYPEPROGRAM_WORD a data s) ?c (write32 a (ucast data) m)"
    using at cr mem
    by (simp add: running_def program_switch_def FLASH_Program_Word_def Let_def at_def reg_consts)
  moreover have "(?c AND NOT FLASH_CR_STRT) AND NOT FLASH_CR_PG AND CR_OPS = 0"
    by (simp add: bit.conj_disj_distrib2 and.assoc reg_consts sub)
  ultimately show ?thesis by blast
qed

lemma program_word:
  assumes "flash_idle D s" "in_flash a" "a AND 3 = 0" "erased_word (fmem D s) a"
  shows "\<exists>s'. HAL_FLASH_Program D FLASH_TYPEPROGRAM_WORD a data s = Inr (HAL_OK, s')
    \<and> flash_idle D s' \<and> fmem D s' = write32 a (ucast data) (fmem D s)"
proof -
  let ?c = "rd_CR D (dev s)" and ?m = "fmem D s"
  have at: "at (s\<lparr>Lock := True\<rparr>) ?c ?m" and c: "?c AND CR_OPS = 0" and l: "\<not> Lock s"
    using idle_at [OF assms(1)] assms(1) by (auto simp: flash_idle_def)
  obtain s1 where w1: "FLASH_WaitForLastOperation D FLASH_TIMEOUT_VALUE (s\<lparr>Lock := True\<rparr>) = Inr (HAL_OK, s1)"
    and at1: "at s1 ?c ?m" using wait_idle [OF at] by auto
  obtain c' where r: "running (program_switch D FLASH_TYPEPROGRAM_WORD a data s1) c'
      (write32 a (ucast data) ?m)" and c': "(c' AND NOT FLASH_CR_STRT) AND NOT FLASH_CR_PG AND CR_OPS = 0"
    using program_word_running [OF at1 c assms(2-4)] by blast
  obtain s2 where w2: "FLASH_WaitForLastOperation D FLASH_TIMEOUT_VALUE
      (program_switch D FLASH_TYPEPROGRAM_WORD a data s1) = Inr (HAL_OK, s2)"
    and at2: "at s2 (c' AND NOT FLASH_CR_STRT) (write32 a (ucast data) ?m)" using wait_ok [OF r] by auto
  have "at ((cr_and D (NOT FLASH_CR_PG) s2)\<lparr>Lock := False\<rparr>)
      ((c' AND NOT FLASH_CR_STRT) AND NOT FLASH_CR_PG) (write32 a (ucast data) ?m)"
    using at_cr_and [OF at2] by simp
  from at_idle [OF this] c' show ?thesis
    using l w1 w2 by (simp add: HAL_FLASH_Program_def and.assoc)
qed

lemma erase_sector_setup:
  assumes "at s c m" "n < 12"
  shows "\<exists>s3. FLASH_Erase_Sector D (of_nat n) vr s = cr_or D FLASH_CR_STRT s3
    \<and> at s3 (((c AND CR_PSIZE_MASK OR erase_psize vr) AND NOT FLASH_CR_SNB) OR (FLASH_CR_SER OR push_bit 3 (of_nat n))) m"
proof -
  let ?n = "of_nat n :: u32"
  let ?s3 = "cr_or D (FLASH_CR_SER OR push_bit 3 ?n) (cr_and D (NOT FLASH_CR_SNB)
     (cr_or D (erase_psize vr) (cr_and D CR_PSIZE_MASK s)))"
  have n: "?n \<in> {0,1,2,3,4,5,6,7,8,9,10,11}" using assms(2) by (auto simp: less_Suc_eq numeral_eq_Suc)
  have ps: "erase_psize vr \<in> {0, 0x100, 0x200, 0x300}" by (simp add: erase_psize_def reg_consts)
  have small: "\<not> ?n > FLASH_SECTOR_11" using n by (auto simp: reg_consts)
  have "at ?s3 (((c AND CR_PSIZE_MASK OR erase_psize vr) AND NOT FLASH_CR_SNB) OR (FLASH_CR_SER OR push_bit 3 ?n)) m"
    using n ps by (intro at_cr_or at_cr_and assms) (auto simp: reg_consts and_or_zero)
  moreover have "FLASH_Erase_Sector D ?n vr s = cr_or D FLASH_CR_STRT ?s3"
    using small by (simp add: FLASH_Erase_Sector_def Let_def)
  ultimately show ?thesis by blast
qed

lemma erase_sector_running:
  assumes "at s c m" "c AND CR_OPS = 0" "n < 12"
  shows "\<exists>c'. running (FLASH_Erase_Sector D (of_nat n) vr s) c' (erase_sector n m)
     \<and> (c' AND NOT FLASH_CR_STRT) AND NOT (FLASH_CR_SER OR FLASH_CR_SNB) AND CR_OPS = 0"
proof -
  let ?n = "of_nat n :: u32" and ?c1 = "c AND CR_PSIZE_MASK OR erase_psize vr"
  let ?c = "(?c1 AND NOT FLASH_CR_SNB) OR (FLASH_CR_SER OR push_bit 3 (of_nat n))"
  obtain s3 where s3: "FLASH_Erase_Sector D ?n vr s = cr_or D FLASH_CR_STRT s3" and at: "at s3 ?c m"
    using erase_sector_setup [OF assms(1,3)] by blast
  have n: "?n \<in> {0,1,2,3,4,5,6,7,8,9,10,11}" using assms(3) by (auto simp: less_Suc_eq numeral_eq_Suc)
  have ps: "erase_psize vr \<in> {0, 0x100, 0x200, 0x300}" by (simp add: erase_psize_def reg_consts)
  have cr: "rd_CR D (dev s3) = ?c" and mem: "ld8 D (dev s3) = m" using at by (simp_all add: at_def)
  have strt: "?c AND FLASH_CR_STRT = 0 \<and> ?c AND NOT CR_BITS = 0" using at_strt [OF at] .
  have sub: "c AND 0x180FF = 0" "c AND 0x18007 = 0" "c AND 0x18005 = 0" "c AND 0x8005 = 0"
    using assms(2) by (auto intro: and_zero_sub simp: CR_OPS_def)
  let ?v = "?c OR FLASH_CR_STRT"
  have "rd_CR D (wr_CR D ?v (dev s3)) AND NOT FLASH_CR_STRT = ?v AND NOT FLASH_CR_STRT
      \<and> ld8 D (wr_CR D ?v (dev s3)) = erase_sector n (ld8 D (dev s3)) \<and> no_error D (wr_CR D ?v (dev s3))
      \<and> busy (wr_CR D ?v (dev s3)) \<le> 50000"
  proof (rule sector_erase [OF _ _ _ assms(3)])
    show "?v AND NOT CR_BITS = 0" using strt by (simp add: and_or_zero) (simp add: reg_consts)
    show "?v AND CR_OPS = FLASH_CR_STRT OR FLASH_CR_SER OR push_bit 3 ?n"
      using n ps by (auto simp: bit.conj_disj_distrib2 and.assoc reg_consts sub)
    show "?v AND FLASH_CR_LOCK = 0" using at by (simp add: at_def and_or_zero) (simp add: reg_consts)
  qed (use at in \<open>auto simp: at_def unlocked_def\<close>)
  then have "running (FLASH_Erase_Sector D ?n vr s) ?v (erase_sector n m)"
    using at cr mem s3 by (simp add: running_def cr_or_def at_def and_or_zero) (simp add: reg_consts)
  moreover have "(?v AND NOT FLASH_CR_STRT) AND NOT (FLASH_CR_SER OR FLASH_CR_SNB) AND CR_OPS = 0"
    using n ps by (auto simp: bit.conj_disj_distrib2 and.assoc reg_consts sub)
  ultimately show ?thesis by blast
qed

lemma erase_loop_sectors:
  assumes "at s c m" "c AND CR_OPS = 0" "k + n \<le> 12"
  shows "\<exists>s' c'. erase_loop D vr (of_nat k) (of_nat (k + n)) (HAL_OK, se, s) = Inr (HAL_OK, se, s')
    \<and> at s' c' (fold erase_sector [k..<k + n] m) \<and> c' AND CR_OPS = 0"
  using assms
proof (induction n arbitrary: k s c m)
  case 0
  then show ?case by (auto simp: erase_loop.simps [of D vr])
next
  case (Suc n)
  have lt: "(of_nat k :: u32) < of_nat (k + Suc n)"
    using Suc.prems(3) by (intro of_nat_less_u32) auto
  obtain c1 where r: "running (FLASH_Erase_Sector D (of_nat k) vr s) c1 (erase_sector k m)"
    and c1: "(c1 AND NOT FLASH_CR_STRT) AND NOT (FLASH_CR_SER OR FLASH_CR_SNB) AND CR_OPS = 0"
    using erase_sector_running [of s c m k vr] Suc.prems by auto
  obtain s1 where w: "FLASH_WaitForLastOperation D FLASH_TIMEOUT_VALUE (FLASH_Erase_Sector D (of_nat k) vr s)
      = Inr (HAL_OK, s1)" and at1: "at s1 (c1 AND NOT FLASH_CR_STRT) (erase_sector k m)"
    using wait_ok [OF r] by auto
  let ?s2 = "cr_and D (NOT (FLASH_CR_SER OR FLASH_CR_SNB)) s1"
  have "\<exists>s' c'. erase_loop D vr (of_nat (Suc k)) (of_nat (Suc k + n)) (HAL_OK, se, ?s2) = Inr (HAL_OK, se, s')
    \<and> at s' c' (fold erase_sector [Suc k..<Suc k + n] (erase_sector k m)) \<and> c' AND CR_OPS = 0"
    using Suc.prems(3) c1 by (intro Suc.IH [OF at_cr_and [OF at1]]) (simp_all add: and.assoc)
  moreover have "erase_loop D vr (of_nat k) (of_nat (k + Suc n)) (HAL_OK, se, s)
      = erase_loop D vr (of_nat (Suc k)) (of_nat (Suc k + n)) (HAL_OK, se, ?s2)"
    using lt w by (simp add: erase_loop.simps [of D vr "of_nat k"] add.commute)
  moreover have "[k..<k + Suc n] = k # [Suc k..<Suc k + n]" by (simp add: upt_conv_Cons)
  ultimately show ?case by simp
qed

lemma erase_sectors:
  assumes "flash_idle D s" "k + n \<le> 12" "TypeErase e \<noteq> FLASH_TYPEERASE_MASSERASE"
    and "ESector e = of_nat k" "NbSectors e = of_nat n"
  shows "\<exists>s'. HAL_FLASHEx_Erase D e se s = Inr (HAL_OK, 0xFFFFFFFF, s')
    \<and> flash_idle D s' \<and> fmem D s' = fold erase_sector [k..<k + n] (fmem D s)"
proof -
  let ?c = "rd_CR D (dev s)" and ?m = "fmem D s"
  have at: "at (s\<lparr>Lock := True\<rparr>) ?c ?m" and c: "?c AND CR_OPS = 0" and l: "\<not> Lock s"
    using idle_at [OF assms(1)] assms(1) by (auto simp: flash_idle_def)
  obtain s1 where w1: "FLASH_WaitForLastOperation D FLASH_TIMEOUT_VALUE (s\<lparr>Lock := True\<rparr>) = Inr (HAL_OK, s1)"
    and at1: "at s1 ?c ?m" using wait_idle [OF at] by auto
  obtain s2 c2 where e: "erase_loop D (ucast (VoltageRange e)) (of_nat k) (of_nat (k + n)) (HAL_OK, 0xFFFFFFFF, s1)
      = Inr (HAL_OK, 0xFFFFFFFF, s2)" and at2: "at s2 c2 (fold erase_sector [k..<k + n] ?m)"
    and c2: "c2 AND CR_OPS = 0" using erase_loop_sectors [OF at1 c assms(2)] by blast
  have "flash_idle D (s2\<lparr>Lock := False\<rparr>) \<and> fmem D (s2\<lparr>Lock := False\<rparr>) = fold erase_sector [k..<k + n] ?m"
    using at2 c2 by (intro at_idle [of _ c2]) auto
  then show ?thesis
    using l w1 e assms(3-5) by (simp add: HAL_FLASHEx_Erase_def add.commute)
qed

lemma fold_erase_sector: "fold erase_sector is m a = (if \<exists>i \<in> set is. in_sector i a then 0xFF else m a)"
  by (induction "is" arbitrary: m) (auto simp: erase_sector_def)

lemma erase_sectors_at:
  assumes "flash_idle D s" "k + n \<le> 12" "TypeErase e \<noteq> FLASH_TYPEERASE_MASSERASE"
    and "ESector e = of_nat k" "NbSectors e = of_nat n"
  shows "\<exists>s'. HAL_FLASHEx_Erase D e se s = Inr (HAL_OK, 0xFFFFFFFF, s') \<and> flash_idle D s'
    \<and> (\<forall>a. fmem D s' a = (if \<exists>i. k \<le> i \<and> i < k + n \<and> in_sector i a then 0xFF else fmem D s a))"
  using erase_sectors [OF assms, of se] by (force simp: fold_erase_sector)

lemma unlock_idle:
  assumes "flash_quiet D s"
  shows "flash_idle D (snd (HAL_FLASH_Unlock D s)) \<and> fmem D (snd (HAL_FLASH_Unlock D s)) = fmem D s
    \<and> fst (HAL_FLASH_Unlock D s) = HAL_OK"
proof -
  have "rd_SR D (dev s) AND FLASH_FLAG_BSY = 0" "rd_SR D (dev s) AND FLASH_FLAG_ALL_ERRORS = 0"
    by (rule and_zero_sub [of _ "FLASH_FLAG_BSY OR FLASH_FLAG_ALL_ERRORS"],
        use assms in \<open>simp_all add: flash_quiet_def reg_consts\<close>)+
  then show ?thesis
    using assms key_unlock [of "dev s"] and_zero_and [of "rd_CR D (dev s)" CR_OPS "NOT FLASH_CR_LOCK"]
    by (auto simp: HAL_FLASH_Unlock_def flash_quiet_def flash_idle_def fmem_def unlocked_def no_error_def Let_def and.assoc)
qed

end

section \<open>A controller that meets the contract\<close>

text \<open>
  An executable flash controller: operations take effect at once, the busy flag stays up for a
  number of polling turns (a word takes one, a sector erase 2000), and a wrong request raises
  the programming sequence error instead.
\<close>

record fsim =
  f_mem :: mem
  f_cr :: u32
  f_sr :: u32
  f_left :: nat
  f_ms :: u32
  f_key :: bool

definition sim_wr_CR :: "u32 \<Rightarrow> fsim \<Rightarrow> fsim" where
  "sim_wr_CR v d =
     (if f_cr d AND FLASH_CR_LOCK \<noteq> 0 \<or> f_left d \<noteq> 0 then d
      else let d' = d\<lparr>f_cr := v AND CR_BITS AND NOT FLASH_CR_STRT\<rparr>; n = unat (drop_bit 3 v AND 0x1F) in
        if v AND FLASH_CR_STRT = 0 then d'
        else if v AND (FLASH_CR_SER OR FLASH_MER_BIT OR FLASH_CR_PG) = FLASH_CR_SER \<and> n < 12 then
          d'\<lparr>f_mem := erase_sector n (f_mem d), f_left := 2000, f_sr := f_sr d OR FLASH_FLAG_EOP\<rparr>
        else d'\<lparr>f_sr := f_sr d OR FLASH_FLAG_ERSERR\<rparr>)"

definition sim_st32 :: "u32 \<Rightarrow> u32 \<Rightarrow> fsim \<Rightarrow> fsim" where
  "sim_st32 a w d =
     (if f_cr d AND 0x83FF = FLASH_CR_PG OR FLASH_PSIZE_WORD \<and> f_cr d AND FLASH_CR_LOCK = 0
         \<and> f_left d = 0 \<and> in_flash a \<and> a AND 3 = 0 \<and> erased_word (f_mem d) a
      then d\<lparr>f_mem := write32 a w (f_mem d), f_left := 1, f_sr := f_sr d OR FLASH_FLAG_EOP\<rparr>
      else d\<lparr>f_sr := f_sr d OR FLASH_FLAG_ERSERR\<rparr>)"

definition flash_sim :: "fsim flash_dev" where
  "flash_sim = \<lparr>
     rd_CR = (\<lambda>d. f_cr d AND CR_BITS AND NOT FLASH_CR_STRT),
     wr_CR = sim_wr_CR,
     rd_SR = (\<lambda>d. f_sr d AND 0xF3 OR (if f_left d = 0 then 0 else FLASH_FLAG_BSY)),
     wr_SR = (\<lambda>v d. d\<lparr>f_sr := f_sr d AND NOT v\<rparr>),
     wr_KEYR = (\<lambda>v d. if v = FLASH_KEY1 then d\<lparr>f_key := True\<rparr>
        else if v = FLASH_KEY2 \<and> f_key d then d\<lparr>f_key := False, f_cr := f_cr d AND NOT FLASH_CR_LOCK\<rparr> else d),
     st8 = (\<lambda>a v d. d\<lparr>f_sr := f_sr d OR FLASH_FLAG_ERSERR\<rparr>),
     st16 = (\<lambda>a v d. d\<lparr>f_sr := f_sr d OR FLASH_FLAG_ERSERR\<rparr>),
     st32 = sim_st32,
     ld8 = f_mem,
     ms = f_ms,
     pass = (\<lambda>d. d\<lparr>f_left := f_left d - 1, f_ms := f_ms d + 1\<rparr>)\<rparr>"


definition sim_sr :: "fsim \<Rightarrow> u32" where
  "sim_sr d = (f_sr d AND 0xF3) OR (if f_left d = 0 then 0 else FLASH_FLAG_BSY)"

lemma sim_fields [simp]:
  "rd_CR flash_sim d = f_cr d AND 0x830083FF" "wr_CR flash_sim = sim_wr_CR"
  "rd_SR flash_sim d = sim_sr d" "st32 flash_sim = sim_st32" "ld8 flash_sim = f_mem"
  "ms flash_sim = f_ms" "wr_SR flash_sim v d = d\<lparr>f_sr := f_sr d AND NOT v\<rparr>"
  "pass flash_sim d = d\<lparr>f_left := f_left d - 1, f_ms := f_ms d + 1\<rparr>"
  by (simp_all add: flash_sim_def sim_sr_def and.assoc reg_consts)

lemma sim_busy: "sim_sr d AND FLASH_FLAG_BSY = 0 \<longleftrightarrow> f_left d = 0"
  by (simp add: sim_sr_def bit.conj_disj_distrib2 and.assoc reg_consts)

lemma sim_no_error: "no_error flash_sim d \<longleftrightarrow> f_sr d AND 0xF2 = 0"
  by (simp add: no_error_def sim_sr_def bit.conj_disj_distrib2 and.assoc reg_consts)

lemma sim_unlocked: "unlocked flash_sim d \<longleftrightarrow> f_cr d AND FLASH_CR_LOCK = 0"
  by (simp add: unlocked_def and.assoc reg_consts)

lemma sim_sr_clear:
  "v AND FLASH_FLAG_BSY = 0 \<Longrightarrow> sim_sr (d\<lparr>f_sr := f_sr d AND NOT v\<rparr>) = sim_sr d AND NOT v"
  by (rule bit_word_eqI)
    (auto simp: sim_sr_def bit_and_iff bit_or_iff bit_not_iff and_eq_0_bits)

lemma sim_plain_write:
  assumes "unlocked flash_sim d" "f_left d = 0" "v AND NOT CR_BITS = 0" "v AND FLASH_CR_STRT = 0"
  shows "sim_wr_CR v d = d\<lparr>f_cr := v\<rparr>" "v AND 0x830083FF = v"
proof -
  have "v AND CR_BITS = v" using and_not_same [OF assms(3)] by simp
  moreover have "v AND NOT FLASH_CR_STRT = v" using and_not_same [OF assms(4)] .
  ultimately show "sim_wr_CR v d = d\<lparr>f_cr := v\<rparr>"
    using assms by (simp add: sim_wr_CR_def sim_unlocked Let_def and.assoc [symmetric])
  have "v AND (CR_BITS AND NOT FLASH_CR_STRT) = v"
    using \<open>v AND CR_BITS = v\<close> \<open>v AND NOT FLASH_CR_STRT = v\<close> by (simp add: and.assoc [symmetric])
  then show "v AND 0x830083FF = v" by (simp add: reg_consts)
qed

lemma sim_erase:
  assumes "unlocked flash_sim d" "f_left d = 0" "n < 12"
    "v AND CR_OPS = FLASH_CR_STRT OR FLASH_CR_SER OR push_bit 3 (of_nat n)"
  shows "sim_wr_CR v d = d\<lparr>f_cr := v AND CR_BITS AND NOT FLASH_CR_STRT,
     f_mem := erase_sector n (f_mem d), f_left := 2000, f_sr := f_sr d OR FLASH_FLAG_EOP\<rparr>"
proof -
  have n: "n \<in> {0,1,2,3,4,5,6,7,8,9,10,11}" using assms(3) by (simp; presburger)
  have "v AND FLASH_CR_STRT = (v AND CR_OPS) AND FLASH_CR_STRT"
    "v AND (FLASH_CR_SER OR FLASH_MER_BIT OR FLASH_CR_PG)
      = (v AND CR_OPS) AND (FLASH_CR_SER OR FLASH_MER_BIT OR FLASH_CR_PG)"
    "v AND 0xF8 = (v AND CR_OPS) AND 0xF8"
    by (simp_all add: and.assoc reg_consts)
  then have "v AND FLASH_CR_STRT \<noteq> 0" "v AND 0xF8 = push_bit 3 (of_nat n)"
    "v AND (FLASH_CR_SER OR FLASH_MER_BIT OR FLASH_CR_PG) = FLASH_CR_SER"
    unfolding assms(4) using n by (auto simp: reg_consts)
  moreover have "drop_bit 3 v AND 0x1F = drop_bit 3 (v AND 0xF8)"
    by (rule bit_word_eqI) (auto simp: bit_simps)
  moreover have "unat (drop_bit 3 (push_bit 3 (of_nat n)) :: u32) = n"
    using n by auto
  ultimately show ?thesis
    using assms(1-3) by (simp add: sim_wr_CR_def sim_unlocked Let_def)
qed

lemma sim_program:
  assumes "unlocked flash_sim d" "f_left d = 0"
    "rd_CR flash_sim d AND (CR_OPS OR FLASH_PSIZE_DOUBLE_WORD) = FLASH_CR_PG OR FLASH_PSIZE_WORD"
    "in_flash a" "a AND 3 = 0" "erased_word (f_mem d) a"
  shows "sim_st32 a w d = d\<lparr>f_mem := write32 a w (f_mem d), f_left := 1, f_sr := f_sr d OR FLASH_FLAG_EOP\<rparr>"
proof -
  have "f_cr d AND 0x83FF = FLASH_CR_PG OR FLASH_PSIZE_WORD"
    using assms(3) by (simp add: and.assoc reg_consts)
  then show ?thesis using assms(1,2,4-6) by (simp add: sim_st32_def sim_unlocked)
qed

interpretation sim: flash_ctrl flash_sim f_left
proof (unfold_locales, goal_cases)
  case (1 d)
  then show ?case by (simp add: sim_busy)
next
  case (9 v d)
  then show ?case by (simp add: sim_sr_clear)
next
  case (12 d v)
  then show ?case using sim_plain_write [of d v] by (simp add: sim_sr_def)
next
  case (13 d n v)
  have "v AND NOT FLASH_CR_STRT = v AND CR_BITS AND NOT FLASH_CR_STRT"
    using and_not_same [OF 13(5)] by (simp add: and.assoc [symmetric])
  with 13 show ?case
    by (simp add: sim_erase sim_no_error) (simp add: bit.conj_disj_distrib2 and.assoc reg_consts)
next
  case (14 d a w)
  then show ?case
    by (simp add: sim_program sim_no_error bit.conj_disj_distrib2 reg_consts)
next
  case (15 d)
  then show ?case by (auto simp: flash_sim_def sim_unlocked reg_consts and.assoc)
qed (auto simp: sim_busy sim_no_error sim_sr_clear and.assoc reg_consts)

text \<open>A controller after reset: erased, locked, nothing pending.\<close>

definition sim_reset :: fsim where
  "sim_reset = \<lparr>f_mem = (\<lambda>a. 0xFF), f_cr = FLASH_CR_LOCK, f_sr = 0, f_left = 0, f_ms = 0, f_key = False\<rparr>"

definition pflash_reset :: "'d \<Rightarrow> 'd flash_state" where
  "pflash_reset d = \<lparr>ProcedureOnGoing = FLASH_PROC_NONE, NbSectorsToErase = 0, VoltageForErase = 0,
     Sector = 0, Address = 0, Lock = False, ErrorCode = 0, callbacks = [], dev = d\<rparr>"

definition sim_with :: "mem \<Rightarrow> fsim flash_state" where
  "sim_with m = snd (HAL_FLASH_Unlock flash_sim (pflash_reset (sim_reset\<lparr>f_mem := m\<rparr>)))"

definition sim_open :: "fsim flash_state" where
  "sim_open = sim_with (\<lambda>a. 0xFF)"

lemma sim_with_idle: "flash_idle flash_sim (sim_with m)" "fmem flash_sim (sim_with m) = m"
  using sim.unlock_idle [of "pflash_reset (sim_reset\<lparr>f_mem := m\<rparr>)"]
  by (simp_all add: sim_with_def pflash_reset_def sim_reset_def sim_sr_def fmem_def flash_quiet_def reg_consts)

lemma sim_open_idle: "flash_idle flash_sim sim_open" "fmem flash_sim sim_open = (\<lambda>a. 0xFF)"
  by (simp_all add: sim_open_def sim_with_idle)

section \<open>Properties\<close>

lemma wait_bsy_timeout:
  assumes tick: "\<And>d. ms D (pass D d) = ms D d + 1" and "T \<noteq> HAL_MAX_DELAY"
  shows "\<exists>r. wait_bsy D T t0 d = Some r"
proof (induction "unat T + 1 - unat (ms D d - t0)" arbitrary: d)
  case 0
  then have "ms D d - t0 > T" by (simp add: word_less_nat_alt)
  then show ?case using assms(2) by (auto simp: wait_bsy.simps [of D T t0 d])
next
  case (Suc n)
  have "ms D (pass D d) - t0 = (ms D d - t0) + 1" by (simp add: tick)
  moreover have "ms D d - t0 < HAL_MAX_DELAY"
  proof -
    have "unat (ms D d - t0) \<le> unat T" using Suc(2) by simp
    also have "unat T < unat HAL_MAX_DELAY"
      using assms(2) unat_inject [of T HAL_MAX_DELAY] unsigned_less [of T, where 'a = nat]
      by (simp add: reg_consts)
    finally show ?thesis by (simp add: word_less_nat_alt)
  qed
  ultimately have "unat (ms D (pass D d) - t0) = Suc (unat (ms D d - t0))" by (metis unat_add_1)
  then have "\<exists>r. wait_bsy D T t0 (pass D d) = Some r"
    using Suc.hyps(1) [of "pass D d"] Suc(2) by simp
  then show ?case by (auto simp: wait_bsy.simps [of D T t0 d])
qed



text \<open>
  Programming a word. On an idle, unlocked controller, \<^verbatim>\<open>HAL_FLASH_Program\<close>
  of an aligned erased word returns \<^verbatim>\<open>HAL_OK\<close>, the flash then holds that word and is
  unchanged elsewhere, and driver and controller are idle again.
\<close>

lemma HAL_FLASH_Program_word:
  assumes "flash_ctrl D busy" and "flash_idle D s" and "in_flash a" and "a AND 3 = 0"
    and "erased_word (fmem D s) a"
  shows "\<exists>s'. HAL_FLASH_Program D FLASH_TYPEPROGRAM_WORD a data s = Inr (HAL_OK, s')
    \<and> flash_idle D s' \<and> fmem D s' = write32 a (ucast data) (fmem D s)"
  by (rule flash_ctrl.program_word [OF assms])

text \<open>
  Property C32: erasing sectors. \<^verbatim>\<open>HAL_FLASHEx_Erase\<close> of \<open>n\<close> sectors from \<open>k\<close> on returns
  \<^verbatim>\<open>HAL_OK\<close> with no faulty sector, and afterwards exactly the bytes of these sectors
  read as erased while every other byte is unchanged.
\<close>

theorem HAL_FLASHEx_Erase_sectors:
  assumes "flash_ctrl D busy" and "flash_idle D s" and "k + n \<le> 12"
    and "TypeErase e \<noteq> FLASH_TYPEERASE_MASSERASE" and "ESector e = of_nat k" and "NbSectors e = of_nat n"
  shows "\<exists>s'. HAL_FLASHEx_Erase D e se s = Inr (HAL_OK, 0xFFFFFFFF, s') \<and> flash_idle D s'
    \<and> (\<forall>a. fmem D s' a = (if \<exists>i. k \<le> i \<and> i < k + n \<and> in_sector i a then 0xFF else fmem D s a))"
  by (rule flash_ctrl.erase_sectors_at [OF assms])

theorem HAL_FLASHEx_Erase_sectors_witness:
  "\<exists>s'. HAL_FLASHEx_Erase flash_sim \<lparr>TypeErase = 0, Banks = 0, ESector = 5, NbSectors = 3, VoltageRange = 2\<rparr> 0
      sim_open = Inr (HAL_OK, 0xFFFFFFFF, s') \<and> flash_idle flash_sim s' \<and> fmem flash_sim s' 0x08040000 = 0xFF"
  using HAL_FLASHEx_Erase_sectors [OF sim.flash_ctrl_axioms sim_open_idle(1), of 5 3
      "\<lparr>TypeErase = 0, Banks = 0, ESector = 5, NbSectors = 3, VoltageRange = 2\<rparr>" 0]
  by (auto simp: sim_open_idle(2) reg_consts split: if_splits)

end
