(* ===== verification/Flash_If.thy ===== *)
theory Flash_If
  imports Flash_Device
begin

text \<open>
  Model of \<^verbatim>\<open>src/src/flash_if.c\<close> and of \<^verbatim>\<open>FLASH_Backup_Erase\<close> in
  \<^verbatim>\<open>src/src/backup.c\<close>: sector lookup, erasing the user and the backup area, and writing
  a buffer of words with read-back check. The word to write comes from a buffer in RAM or from
  the flash itself (\<^verbatim>\<open>Data\<close> points into the memory-mapped flash when firmware is
  copied), so the source is a reader of the current state.
\<close>

unbundle bit_operations_syntax

section \<open>Definitions\<close>

definition USER_FLASH_FIRST_PAGE_ADDRESS :: u32
  where [reg_consts]: "USER_FLASH_FIRST_PAGE_ADDRESS = 0x08040000"
definition USER_FLASH_LAST_PAGE_ADDRESS :: u32
  where [reg_consts]: "USER_FLASH_LAST_PAGE_ADDRESS = 0x080CFFFF"
definition BACKUP_FLASH_FIRST_PAGE_ADDRESS :: u32
  where [reg_consts]: "BACKUP_FLASH_FIRST_PAGE_ADDRESS = 0x08100000"
definition BACKUP_FLASH_LAST_PAGE_ADDRESS :: u32
  where [reg_consts]: "BACKUP_FLASH_LAST_PAGE_ADDRESS = 0x081BFFFF"
definition USER_FLASH_END_ADDRESS :: u32
  where [reg_consts]: "USER_FLASH_END_ADDRESS = 0x081BFFFF"

definition GetSectorNumber :: "u32 \<Rightarrow> u32" where
  "GetSectorNumber a =
     (if a < 0x08008000 then 0
      else if a < 0x08010000 then 1
      else if a < 0x08018000 then 2
      else if a < 0x08020000 then 3
      else if a < 0x08040000 then 4
      else if a < 0x08080000 then 5
      else if a < 0x080C0000 then 6
      else if a < 0x08100000 then 7
      else if a < 0x08140000 then 8
      else if a < 0x08180000 then 9
      else if a < 0x081C0000 then 10
      else 11)"

definition FLASH_If_Init :: "'d flash_dev \<Rightarrow> 'd flash_state \<Rightarrow> 'd flash_state" where
  "FLASH_If_Init D s = snd (HAL_FLASH_Unlock D s)"

text \<open>The erase request both erase functions build; \<open>Banks\<close> is not read for a sector erase.\<close>

definition erase_request :: "u32 \<Rightarrow> u32 \<Rightarrow> FLASH_EraseInit" where
  "erase_request a last_page = \<lparr>TypeErase = FLASH_TYPEERASE_SECTORS, Banks = 0, ESector = GetSectorNumber a,
     NbSectors = GetSectorNumber last_page - GetSectorNumber a + 1, VoltageRange = FLASH_VOLTAGE_RANGE_3\<rparr>"

definition FLASH_If_Erase :: "'d flash_dev \<Rightarrow> u32 \<Rightarrow> 'd flash_state \<Rightarrow> (int \<times> 'd flash_state) res" where
  "FLASH_If_Erase D StartSector s =
     (if StartSector \<le> USER_FLASH_LAST_PAGE_ADDRESS then
        res_bind (HAL_FLASHEx_Erase D (erase_request StartSector USER_FLASH_LAST_PAGE_ADDRESS) 0 s)
          (\<lambda>(status, _, s'). Inr (if status \<noteq> HAL_OK then 1 else 0, s'))
      else Inr (1, s))"

definition FLASH_Backup_Erase :: "'d flash_dev \<Rightarrow> u32 \<Rightarrow> 'd flash_state \<Rightarrow> (int \<times> 'd flash_state) res" where
  "FLASH_Backup_Erase D StartSector s =
     (if StartSector \<le> BACKUP_FLASH_LAST_PAGE_ADDRESS then
        res_bind (HAL_FLASHEx_Erase D (erase_request StartSector BACKUP_FLASH_LAST_PAGE_ADDRESS) 0 s)
          (\<lambda>(status, _, s'). Inr (if status \<noteq> HAL_OK then 1 else 0, s'))
      else Inr (1, s))"

type_synonym 'd word_src = "'d flash_state \<Rightarrow> nat \<Rightarrow> u32 res"

definition ram_src :: "u32 list \<Rightarrow> 'd word_src" where
  "ram_src ws s i = rd ws i"

definition flash_src :: "'d flash_dev \<Rightarrow> u32 \<Rightarrow> 'd word_src" where
  "flash_src D a s i = Inr (read32 (fmem D s) (a + 4 * of_nat i))"

text \<open>
  The writing loop with \<open>n\<close> of the words left, the next one at index \<open>i\<close>. The result is the
  return value, the final \<^verbatim>\<open>*FlashAddress\<close> and the state.
\<close>

fun write_loop :: "'d flash_dev \<Rightarrow> 'd word_src \<Rightarrow> nat \<Rightarrow> nat \<Rightarrow> u32 \<Rightarrow> 'd flash_state
    \<Rightarrow> (u32 \<times> u32 \<times> 'd flash_state) res" where
  "write_loop D src 0 i a s = Inr (0, a, s)"
| "write_loop D src (Suc n) i a s =
     (if a \<le> USER_FLASH_END_ADDRESS - 4 then
        res_bind (src s i) (\<lambda>w.
        res_bind (HAL_FLASH_Program D FLASH_TYPEPROGRAM_WORD a (ucast w) s) (\<lambda>(status, s1).
        if status = HAL_OK then
          res_bind (src s1 i) (\<lambda>w1.
          if read32 (fmem D s1) a \<noteq> w1 then Inr (2, a, s1)
          else write_loop D src n (Suc i) (a + 4) s1)
        else Inr (1, a, s1)))
      else Inr (0, a, s))"

definition FLASH_If_Write :: "'d flash_dev \<Rightarrow> u32 \<Rightarrow> 'd word_src \<Rightarrow> u16 \<Rightarrow> 'd flash_state
    \<Rightarrow> (u32 \<times> u32 \<times> 'd flash_state) res" where
  "FLASH_If_Write D FlashAddress Data DataLength s = write_loop D Data (unat DataLength) 0 FlashAddress s"

section \<open>Sector lookup\<close>

lemma GetSectorNumber_le: "unat (GetSectorNumber a) \<le> 11"
  by (simp add: GetSectorNumber_def)

lemma three_consecutive: "(\<exists>i. k \<le> i \<and> i < k + 3 \<and> P i) \<longleftrightarrow> P k \<or> P (k + 1) \<or> P (k + 2 :: nat)"
proof
  assume "\<exists>i. k \<le> i \<and> i < k + 3 \<and> P i"
  then obtain i where "k \<le> i" "i < k + 3" "P i" by blast
  then have "i = k \<or> i = k + 1 \<or> i = k + 2" by arith
  with \<open>P i\<close> show "P k \<or> P (k + 1) \<or> P (k + 2)" by blast
next
  assume "P k \<or> P (k + 1) \<or> P (k + 2)"
  moreover have "k < k + 3" "k \<le> k + 1" "k + 1 < k + 3" "k \<le> k + 2" "k + 2 < k + 3" by simp_all
  ultimately show "\<exists>i. k \<le> i \<and> i < k + 3 \<and> P i" by blast
qed

lemma user_sectors: "(\<exists>i. 5 \<le> i \<and> i < 8 \<and> in_sector i a) \<longleftrightarrow> 0x08040000 \<le> a \<and> a < 0x08100000"
  using three_consecutive [of 5 "\<lambda>i. in_sector i a"]
  by (auto simp: in_sector_def sector_base_def word_le_nat_alt word_less_nat_alt)

lemma backup_sectors: "(\<exists>i. 8 \<le> i \<and> i < 11 \<and> in_sector i a) \<longleftrightarrow> 0x08100000 \<le> a \<and> a < 0x081C0000"
  using three_consecutive [of 8 "\<lambda>i. in_sector i a"]
  by (auto simp: in_sector_def sector_base_def word_le_nat_alt word_less_nat_alt)

text \<open>
  The address ranges in \<^verbatim>\<open>GetSectorNumber\<close> are those of the device. For an
  address in flash it returns the sector that holds the address.
\<close>

lemma GetSectorNumber_correct:
  assumes "in_flash a"
  shows "in_sector (unat (GetSectorNumber a)) a"
  using assms
  by (simp add: GetSectorNumber_def in_flash_def in_sector_def sector_base_def word_le_nat_alt
      word_less_nat_alt)

section \<open>Erasing and writing on a controller that meets its contract\<close>

context flash_ctrl
begin

lemma user_erase:
  assumes "flash_idle D s"
  shows "\<exists>s'. FLASH_If_Erase D USER_FLASH_FIRST_PAGE_ADDRESS s = Inr (0, s') \<and> flash_idle D s'
    \<and> (\<forall>a. fmem D s' a = (if 0x08040000 \<le> a \<and> a < 0x08100000 then 0xFF else fmem D s a))"
  using erase_sectors_at [OF assms, of 5 3 "erase_request USER_FLASH_FIRST_PAGE_ADDRESS USER_FLASH_LAST_PAGE_ADDRESS" 0]
  by (auto simp: FLASH_If_Erase_def erase_request_def GetSectorNumber_def reg_consts user_sectors)

lemma backup_erase:
  assumes "flash_idle D s"
  shows "\<exists>s'. FLASH_Backup_Erase D BACKUP_FLASH_FIRST_PAGE_ADDRESS s = Inr (0, s') \<and> flash_idle D s'
    \<and> (\<forall>a. fmem D s' a = (if 0x08100000 \<le> a \<and> a < 0x081C0000 then 0xFF else fmem D s a))"
  using erase_sectors_at [OF assms, of 8 3 "erase_request BACKUP_FLASH_FIRST_PAGE_ADDRESS BACKUP_FLASH_LAST_PAGE_ADDRESS" 0]
  by (auto simp: FLASH_Backup_Erase_def erase_request_def GetSectorNumber_def reg_consts backup_sectors)

lemma write_words:
  assumes "flash_idle D s" "unat a mod 4 = 0" "0x08000000 \<le> unat a" "unat a + 4 * length ws \<le> 0x081BFFFC"
    and "\<forall>k < 4 * length ws. fmem D s (a + of_nat k) = 0xFF"
    and "\<And>s' i. i < length ws \<Longrightarrow> (\<And>b. 4 * length ws \<le> unat (b - a) \<Longrightarrow> fmem D s' b = fmem D s b)
      \<Longrightarrow> src s' (j + i) = Inr (ws ! i)"
  shows "\<exists>s'. write_loop D src (length ws) j a s = Inr (0, a + 4 * of_nat (length ws), s')
    \<and> flash_idle D s' \<and> fmem D s' = prog_words a ws (fmem D s)"
  using assms
proof (induction ws arbitrary: a s j)
  case Nil
  then show ?case by simp
next
  case (Cons w ws)
  have a: "a AND 3 = 0" "in_flash a" "a \<le> USER_FLASH_END_ADDRESS - 4"
    using Cons.prems(2-4) by (simp_all add: aligned_iff in_flash_def word_le_nat_alt word_less_nat_alt reg_consts)
  have e: "erased_word (fmem D s) a"
    using Cons.prems(5) [rule_format, of 0] Cons.prems(5) [rule_format, of 1]
      Cons.prems(5) [rule_format, of 2] Cons.prems(5) [rule_format, of 3] by (simp add: erased_word_def)
  obtain s1 where p: "HAL_FLASH_Program D FLASH_TYPEPROGRAM_WORD a (ucast w) s = Inr (HAL_OK, s1)"
    and i1: "flash_idle D s1" and m1: "fmem D s1 = write32 a w (fmem D s)"
    using program_word [OF Cons.prems(1) a(2,1) e, of "ucast w"] by auto
  have off: "unat (b - (a + 4)) = unat (b - a) - 4 \<and> fmem D s1 b = fmem D s b" if "4 \<le> unat (b - a)" for b
    using that unat_sub [of 4 "b - a"] by (simp add: m1 write32_other word_le_nat_alt diff_diff_eq)
  have src: "src s' (j + i) = Inr ((w # ws) ! i)"
    if "i < length (w # ws)" "\<And>b. 4 * length (w # ws) \<le> unat (b - a) \<Longrightarrow> fmem D s' b = fmem D s b" for s' i
    using that by (rule Cons.prems(6))
  have src0: "src s j = Inr w" "src s1 j = Inr w"
    using src [of 0 s] src [of 0 s1] off by simp_all
  have a4: "unat (a + 4) = unat a + 4"
    using Cons.prems(4) by (simp add: unat_word_ariths)
  have "\<exists>s'. write_loop D src (length ws) (Suc j) (a + 4) s1 = Inr (0, a + 4 + 4 * of_nat (length ws), s')
    \<and> flash_idle D s' \<and> fmem D s' = prog_words (a + 4) ws (fmem D s1)"
  proof (rule Cons.IH [OF i1])
    show "\<forall>k < 4 * length ws. fmem D s1 (a + 4 + of_nat k) = 0xFF"
    proof (intro allI impI)
      fix k assume k: "k < 4 * length ws"
      then have "write32 a w (fmem D s) (a + of_nat (k + 4)) = fmem D s (a + of_nat (k + 4))"
        using Cons.prems(4) by (intro write32_at_offset) auto
      moreover have "fmem D s (a + of_nat (k + 4)) = 0xFF" using Cons.prems(5) [rule_format, of "k + 4"] k by simp
      ultimately show "fmem D s1 (a + 4 + of_nat k) = 0xFF" by (simp add: m1 ac_simps)
    qed
    show "src s' (Suc j + i) = Inr (ws ! i)"
      if "i < length ws" "\<And>b. 4 * length ws \<le> unat (b - (a + 4)) \<Longrightarrow> fmem D s' b = fmem D s1 b" for s' i
      using src [of "Suc i" s'] that off by simp
  qed (use Cons.prems(2-4) a4 in simp_all)
  then show ?case
    using a src0 p by (auto simp: m1 ac_simps)
qed

lemma write_ram:
  assumes "flash_idle D s" "unat a mod 4 = 0" "0x08000000 \<le> unat a"
    and "unat a + 4 * unat len \<le> 0x081BFFFC" "unat len \<le> length buf"
    and "\<forall>k < 4 * unat len. fmem D s (a + of_nat k) = 0xFF"
  shows "\<exists>s'. FLASH_If_Write D a (ram_src buf) len s = Inr (0, a + 4 * of_nat (unat len), s')
    \<and> flash_idle D s' \<and> fmem D s' = prog_words a (take (unat len) buf) (fmem D s)"
  using write_words [of s a "take (unat len) buf" "ram_src buf" 0] assms
  by (simp add: FLASH_If_Write_def ram_src_def)

lemma write_flash:
  assumes "flash_idle D s" "unat a mod 4 = 0" "0x08000000 \<le> unat a"
    and "unat a + 4 * unat len \<le> 0x081BFFFC"
    and "\<forall>k < 4 * unat len. fmem D s (a + of_nat k) = 0xFF"
    and "\<And>k. k < 4 * unat len \<Longrightarrow> 4 * unat len \<le> unat (src + of_nat k - a)"
  shows "\<exists>s'. FLASH_If_Write D a (flash_src D src) len s = Inr (0, a + 4 * of_nat (unat len), s')
    \<and> flash_idle D s' \<and> fmem D s' = prog_words a (words_at (fmem D s) src (unat len)) (fmem D s)"
proof -
  have "flash_src D src s' (0 + i) = Inr (words_at (fmem D s) src (unat len) ! i)"
    if "i < unat len" "\<And>b. 4 * unat len \<le> unat (b - a) \<Longrightarrow> fmem D s' b = fmem D s b" for s' i
  proof -
    have "read32 (fmem D s') (src + 4 * of_nat i) = read32 (fmem D s) (src + 4 * of_nat i)"
    proof (rule read32_cong)
      fix j :: nat assume "j < 4"
      then show "fmem D s' (src + 4 * of_nat i + of_nat j) = fmem D s (src + 4 * of_nat i + of_nat j)"
        using that assms(6) [of "4 * i + j"] by (simp add: add.assoc)
    qed
    with that show ?thesis by (simp add: flash_src_def words_at_def)
  qed
  with write_words [of s a "words_at (fmem D s) src (unat len)" "flash_src D src" 0] assms(1-5)
  show ?thesis by (simp add: FLASH_If_Write_def words_at_def)
qed

end

section \<open>Copying between the two areas\<close>

definition areas :: "(u32 \<times> u32) set" where
  "areas = {(USER_FLASH_FIRST_PAGE_ADDRESS, BACKUP_FLASH_FIRST_PAGE_ADDRESS),
     (BACKUP_FLASH_FIRST_PAGE_ADDRESS, USER_FLASH_FIRST_PAGE_ADDRESS)}"

lemma area_bounds:
  "0x08040000 \<le> a \<and> a < 0x08100000 \<longleftrightarrow> unat (a - USER_FLASH_FIRST_PAGE_ADDRESS) < 0xC0000"
  "0x08100000 \<le> a \<and> a < 0x081C0000 \<longleftrightarrow> unat (a - BACKUP_FLASH_FIRST_PAGE_ADDRESS) < 0xC0000"
  using area_iff [of USER_FLASH_FIRST_PAGE_ADDRESS "0xC0000" a] area_iff [of BACKUP_FLASH_FIRST_PAGE_ADDRESS "0xC0000" a]
  by (simp_all add: reg_consts word_less_nat_alt)

lemma areas_disjoint:
  assumes "(dst, src) \<in> areas" "k < 0xC0000"
  shows "0xC0000 \<le> unat (src + of_nat k - dst)"
proof -
  have "unat (0xC0000 + of_nat k :: u32) = 0xC0000 + k"
    using assms(2) by (simp add: unat_word_ariths unat_of_nat_u32)
  moreover have "unat (- of_nat (0xC0000 - k) :: u32) = 2 ^ 32 - (0xC0000 - k)"
    using assms(2) by (intro unat_minus_small) simp_all
  ultimately show ?thesis
    using assms by (auto simp: areas_def reg_consts of_nat_diff)
qed

lemma other_area_words:
  assumes "(dst, src) \<in> areas" "n \<le> 0x30000" "\<And>b. 0xC0000 \<le> unat (b - dst) \<Longrightarrow> m' b = m b"
  shows "words_at m' src n = words_at m src n"
  using assms areas_disjoint [OF assms(1)] by (intro words_at_cong) simp

context flash_ctrl
begin

lemma copy_area:
  assumes "(dst, src) \<in> areas" "flash_idle D s" "\<And>i. i < 0xC0000 \<Longrightarrow> fmem D s (dst + of_nat i) = 0xFF"
  shows "\<exists>a s'. FLASH_If_Write D dst (flash_src D src) len s = Inr (0, a, s') \<and> flash_idle D s'
    \<and> words_at (fmem D s') dst (unat len) = words_at (fmem D s) src (unat len)
    \<and> (\<forall>b. 0xC0000 \<le> unat (b - dst) \<longrightarrow> fmem D s' b = fmem D s b)"
proof -
  let ?n = "unat len" and ?ws = "words_at (fmem D s) src (unat len)"
  have n: "?n < 65536" using unsigned_less [of len, where 'a = nat] by simp
  have dst: "unat dst mod 4 = 0" "0x08000000 \<le> unat dst" "unat dst + 4 * ?n \<le> 0x081BFFFC"
    using assms(1) n by (auto simp: areas_def reg_consts)
  have "4 * ?n \<le> unat (src + of_nat k - dst)" if "k < 4 * ?n" for k
    using areas_disjoint [OF assms(1), of k] that n by linarith
  then obtain s' where w: "FLASH_If_Write D dst (flash_src D src) len s = Inr (0, dst + 4 * of_nat ?n, s')"
    "flash_idle D s'" and m: "fmem D s' = prog_words dst ?ws (fmem D s)"
    using write_flash [OF assms(2) dst] assms(3) n by force
  have "4 * length ?ws \<le> 2 ^ 32" "0 + 4 * length ?ws \<le> 0xC0000" using n by simp_all
  with words_at_prog_words [of ?ws dst "fmem D s"] prog_words_area(3) [of 0 ?ws "0xC0000" _ dst "fmem D s"] w
  show ?thesis by (simp add: m)
qed

end

section \<open>Properties\<close>

text \<open>
  Erasing the user area. \<^verbatim>\<open>FLASH_If_Erase\<close> from the first user page on
  succeeds and erases exactly \<^verbatim>\<open>0x08040000\<close> to \<^verbatim>\<open>0x080FFFFF\<close>: the boot loader
  below and the backup copy above survive.
\<close>

lemma FLASH_If_Erase_user_area:
  assumes "flash_ctrl D busy" and "flash_idle D s"
  shows "\<exists>s'. FLASH_If_Erase D USER_FLASH_FIRST_PAGE_ADDRESS s = Inr (0, s') \<and> flash_idle D s'
    \<and> (\<forall>a. fmem D s' a = (if 0x08040000 \<le> a \<and> a < 0x08100000 then 0xFF else fmem D s a))"
  by (rule flash_ctrl.user_erase [OF assms])

text \<open>
  Erasing the backup area leaves the firmware in the user area, and everything else
  outside \<^verbatim>\<open>0x08100000\<close> to \<^verbatim>\<open>0x081BFFFF\<close>, as it was.
\<close>

lemma FLASH_Backup_Erase_backup_area:
  assumes "flash_ctrl D busy" and "flash_idle D s"
  shows "\<exists>s'. FLASH_Backup_Erase D BACKUP_FLASH_FIRST_PAGE_ADDRESS s = Inr (0, s') \<and> flash_idle D s'
    \<and> (\<forall>a. fmem D s' a = (if 0x08100000 \<le> a \<and> a < 0x081C0000 then 0xFF else fmem D s a))"
  by (rule flash_ctrl.backup_erase [OF assms])

text \<open>
  Property C31: writing a buffer. \<^verbatim>\<open>FLASH_If_Write\<close> of \<open>len\<close> words to an aligned, erased
  part of the flash below the end of the user area returns 0, advances the write address by
  \<open>len\<close> words, and the flash then holds the buffer there and is unchanged elsewhere.
\<close>

theorem FLASH_If_Write_buffer:
  assumes "flash_ctrl D busy" and "flash_idle D s" and "unat a mod 4 = 0" and "0x08000000 \<le> unat a"
    and "unat a + 4 * unat len \<le> 0x081BFFFC" and "unat len \<le> length buf"
    and "\<forall>k < 4 * unat len. fmem D s (a + of_nat k) = 0xFF"
  shows "\<exists>s'. FLASH_If_Write D a (ram_src buf) len s = Inr (0, a + 4 * of_nat (unat len), s') \<and> flash_idle D s'
    \<and> (\<forall>k < unat len. read32 (fmem D s') (a + 4 * of_nat k) = buf ! k)
    \<and> (\<forall>b. 4 * unat len \<le> unat (b - a) \<longrightarrow> fmem D s' b = fmem D s b)"
  using flash_ctrl.write_ram [OF assms] assms(5,6)
  by (fastforce simp: read32_prog_words prog_words_other)

theorem FLASH_If_Write_buffer_witness:
  "\<exists>s'. FLASH_If_Write flash_sim 0x08040000 (ram_src [11, 22, 33]) 3 sim_open = Inr (0, 0x0804000C, s')
    \<and> flash_idle flash_sim s' \<and> (\<forall>k < 3. read32 (fmem flash_sim s') (0x08040000 + 4 * of_nat k) = [11, 22, 33] ! k)"
  using FLASH_If_Write_buffer [OF sim.flash_ctrl_axioms sim_open_idle(1), of "0x08040000" 3 "[11, 22, 33]"]
  by (auto simp: sim_open_idle(2))

text \<open>
  The end of the flash is not reported. At and above the last word address
  \<^verbatim>\<open>0x081BFFFC\<close>, \<^verbatim>\<open>FLASH_If_Write\<close> returns 0, which stands for data successfully
  written, while it has written nothing, however many words were asked for.
\<close>

lemma FLASH_If_Write_end_silent:
  assumes "0x081BFFFC \<le> a"
  shows "FLASH_If_Write D a Data len s = Inr (0, a, s)"
proof -
  have "\<not> a \<le> USER_FLASH_END_ADDRESS - 4" using assms by (simp add: reg_consts word_le_nat_alt)
  then show ?thesis unfolding FLASH_If_Write_def by (cases "unat len") simp_all
qed

end
