(* ===== verification/Hal_Crc.thy ===== *)
theory Hal_Crc
  imports Flash_If
begin

text \<open>
  Model of \<^verbatim>\<open>src/src/stm32f7xx_hal_crc.c\<close>, \<^verbatim>\<open>src/src/stm32f7xx_hal_crc_ex.c\<close>
  and of \<^verbatim>\<open>CAL_CRC\<close> in \<^verbatim>\<open>src/src/backup.c\<close>, which checks the firmware image. The
  CRC calculation unit is hardware: a parameter \<open>C\<close>, with the locale \<open>crc_unit\<close> for what the
  reference manual documents of it and \<open>crc_sim\<close> as an executable unit.
\<close>

unbundle bit_operations_syntax

section \<open>Definitions\<close>

record 'c crc_dev =
  rd_DR :: "'c \<Rightarrow> u32"
  wr_DR32 :: "u32 \<Rightarrow> 'c \<Rightarrow> 'c"
  wr_DR16 :: "u16 \<Rightarrow> 'c \<Rightarrow> 'c"
  wr_DR8 :: "u8 \<Rightarrow> 'c \<Rightarrow> 'c"
  rd_CRC_CR :: "'c \<Rightarrow> u32"
  wr_CRC_CR :: "u32 \<Rightarrow> 'c \<Rightarrow> 'c"
  rd_POL :: "'c \<Rightarrow> u32"
  wr_POL :: "u32 \<Rightarrow> 'c \<Rightarrow> 'c"
  rd_INIT :: "'c \<Rightarrow> u32"
  wr_INIT :: "u32 \<Rightarrow> 'c \<Rightarrow> 'c"
  wr_IDR :: "u32 \<Rightarrow> 'c \<Rightarrow> 'c"

datatype crc_state = HAL_CRC_STATE_RESET | HAL_CRC_STATE_READY | HAL_CRC_STATE_BUSY
  | HAL_CRC_STATE_TIMEOUT | HAL_CRC_STATE_ERROR

record crc_handle =
  DefaultPolynomialUse :: u8
  DefaultInitValueUse :: u8
  GeneratingPolynomial :: u32
  CRCLength :: u32
  InitValue :: u32
  InputDataInversionMode :: u32
  OutputDataInversionMode :: u32
  CRC_Lock :: bool
  CRC_State :: crc_state
  InputDataFormat :: u32

definition CRC_CR_RESET :: u32 where [reg_consts]: "CRC_CR_RESET = 0x1"
definition CRC_CR_POLYSIZE :: u32 where [reg_consts]: "CRC_CR_POLYSIZE = 0x18"
definition CRC_CR_REV_IN :: u32 where [reg_consts]: "CRC_CR_REV_IN = 0x60"
definition CRC_CR_REV_OUT :: u32 where [reg_consts]: "CRC_CR_REV_OUT = 0x80"
definition DEFAULT_CRC32_POLY :: u32 where [reg_consts]: "DEFAULT_CRC32_POLY = 0x04C11DB7"
definition DEFAULT_CRC_INITVALUE :: u32 where [reg_consts]: "DEFAULT_CRC_INITVALUE = 0xFFFFFFFF"
definition CRC_POLYLENGTH_32B :: u32 where [reg_consts]: "CRC_POLYLENGTH_32B = 0"
definition CRC_POLYLENGTH_16B :: u32 where [reg_consts]: "CRC_POLYLENGTH_16B = 0x8"
definition CRC_POLYLENGTH_8B :: u32 where [reg_consts]: "CRC_POLYLENGTH_8B = 0x10"
definition CRC_POLYLENGTH_7B :: u32 where [reg_consts]: "CRC_POLYLENGTH_7B = 0x18"
definition CRC_INPUTDATA_FORMAT_BYTES :: u32 where [reg_consts]: "CRC_INPUTDATA_FORMAT_BYTES = 1"
definition CRC_INPUTDATA_FORMAT_HALFWORDS :: u32 where [reg_consts]: "CRC_INPUTDATA_FORMAT_HALFWORDS = 2"
definition CRC_INPUTDATA_FORMAT_WORDS :: u32 where [reg_consts]: "CRC_INPUTDATA_FORMAT_WORDS = 3"

text \<open>\<^verbatim>\<open>MODIFY_REG\<close> on the control register, and \<^verbatim>\<open>__HAL_CRC_DR_RESET\<close>.\<close>

definition crc_modify_cr :: "'c crc_dev \<Rightarrow> u32 \<Rightarrow> u32 \<Rightarrow> 'c \<Rightarrow> 'c" where
  "crc_modify_cr C clear_mask v c = wr_CRC_CR C ((rd_CRC_CR C c AND NOT clear_mask) OR v) c"

definition crc_dr_reset :: "'c crc_dev \<Rightarrow> 'c \<Rightarrow> 'c" where
  "crc_dr_reset C c = wr_CRC_CR C (rd_CRC_CR C c OR CRC_CR_RESET) c"

text \<open>
  The loop of \<^verbatim>\<open>HAL_CRCEx_Polynomial_Set\<close>: \<^verbatim>\<open>msb\<close> counts down to the next set
  bit below; when it was 0 the post-decrement wraps it to the greatest value.
\<close>

fun poly_msb :: "u32 \<Rightarrow> nat \<Rightarrow> u32" where
  "poly_msb Pol 0 = 0xFFFFFFFF"
| "poly_msb Pol (Suc msb) = (if Pol AND push_bit (msb mod 32) 1 = 0 then poly_msb Pol msb else of_nat msb)"

definition HAL_CRCEx_Polynomial_Set :: "'c crc_dev \<Rightarrow> u32 \<Rightarrow> u32 \<Rightarrow> 'c \<Rightarrow> HAL_Status \<times> 'c" where
  "HAL_CRCEx_Polynomial_Set C Pol PolyLength c =
     (let status =
        (if Pol AND 1 = 0 then HAL_ERROR
         else let msb = poly_msb Pol 31 in
           if PolyLength = CRC_POLYLENGTH_7B then (if msb \<ge> 7 then HAL_ERROR else HAL_OK)
           else if PolyLength = CRC_POLYLENGTH_8B then (if msb \<ge> 8 then HAL_ERROR else HAL_OK)
           else if PolyLength = CRC_POLYLENGTH_16B then (if msb \<ge> 16 then HAL_ERROR else HAL_OK)
           else if PolyLength = CRC_POLYLENGTH_32B then HAL_OK
           else HAL_ERROR)
      in (status, if status = HAL_OK then crc_modify_cr C CRC_CR_POLYSIZE PolyLength (wr_POL C Pol c) else c))"

definition HAL_CRCEx_Input_Data_Reverse ::
  "'c crc_dev \<Rightarrow> crc_handle \<Rightarrow> u32 \<Rightarrow> 'c \<Rightarrow> HAL_Status \<times> crc_handle \<times> 'c" where
  "HAL_CRCEx_Input_Data_Reverse C h mode c =
     (HAL_OK, h\<lparr>CRC_State := HAL_CRC_STATE_READY\<rparr>, crc_modify_cr C CRC_CR_REV_IN mode c)"

definition HAL_CRCEx_Output_Data_Reverse ::
  "'c crc_dev \<Rightarrow> crc_handle \<Rightarrow> u32 \<Rightarrow> 'c \<Rightarrow> HAL_Status \<times> crc_handle \<times> 'c" where
  "HAL_CRCEx_Output_Data_Reverse C h mode c =
     (HAL_OK, h\<lparr>CRC_State := HAL_CRC_STATE_READY\<rparr>, crc_modify_cr C CRC_CR_REV_OUT mode c)"

text \<open>The handle pointer may be null; \<open>HAL_CRC_MspInit\<close> and \<open>HAL_CRC_MspDeInit\<close> are empty.\<close>

definition HAL_CRC_Init :: "'c crc_dev \<Rightarrow> crc_handle option \<Rightarrow> 'c \<Rightarrow> HAL_Status \<times> crc_handle option \<times> 'c" where
  "HAL_CRC_Init C hcrc c =
     (case hcrc of None \<Rightarrow> (HAL_ERROR, None, c)
      | Some h0 \<Rightarrow>
        let h1 = (if CRC_State h0 = HAL_CRC_STATE_RESET then h0\<lparr>CRC_Lock := False\<rparr> else h0);
            h2 = h1\<lparr>CRC_State := HAL_CRC_STATE_BUSY\<rparr>;
            (st, c1) = (if DefaultPolynomialUse h2 = 0
              then (HAL_OK, crc_modify_cr C CRC_CR_POLYSIZE CRC_POLYLENGTH_32B (wr_POL C DEFAULT_CRC32_POLY c))
              else HAL_CRCEx_Polynomial_Set C (GeneratingPolynomial h2) (CRCLength h2) c)
        in if st \<noteq> HAL_OK then (HAL_ERROR, Some h2, c1)
           else
             let c2 = wr_INIT C (if DefaultInitValueUse h2 = 0 then DEFAULT_CRC_INITVALUE else InitValue h2) c1;
                 c3 = crc_modify_cr C CRC_CR_REV_IN (InputDataInversionMode h2) c2;
                 c4 = crc_modify_cr C CRC_CR_REV_OUT (OutputDataInversionMode h2) c3
             in (HAL_OK, Some (h2\<lparr>CRC_State := HAL_CRC_STATE_READY\<rparr>), c4))"

definition HAL_CRC_DeInit :: "'c crc_dev \<Rightarrow> crc_handle option \<Rightarrow> 'c \<Rightarrow> HAL_Status \<times> crc_handle option \<times> 'c" where
  "HAL_CRC_DeInit C hcrc c =
     (case hcrc of None \<Rightarrow> (HAL_ERROR, None, c)
      | Some h \<Rightarrow>
        if CRC_State h = HAL_CRC_STATE_BUSY then (HAL_BUSY, Some h, c)
        else (HAL_OK, Some (h\<lparr>CRC_State := HAL_CRC_STATE_RESET, CRC_Lock := False\<rparr>),
              wr_IDR C 0 (crc_dr_reset C c)))"

text \<open>Feeding bytes and half-words; the buffer is read with its bounds.\<close>

fun crc_words :: "'c crc_dev \<Rightarrow> u32 list \<Rightarrow> nat \<Rightarrow> nat \<Rightarrow> 'c \<Rightarrow> 'c res" where
  "crc_words C buf index 0 c = Inr c"
| "crc_words C buf index (Suc n) c =
     res_bind (rd buf index) (\<lambda>w. crc_words C buf (Suc index) n (wr_DR32 C w c))"

definition pack4 :: "u8 \<Rightarrow> u8 \<Rightarrow> u8 \<Rightarrow> u8 \<Rightarrow> u32" where
  "pack4 a b c d = push_bit 24 (ucast a) OR push_bit 16 (ucast b) OR push_bit 8 (ucast c) OR ucast d"

definition pack2 :: "u8 \<Rightarrow> u8 \<Rightarrow> u16" where
  "pack2 a b = push_bit 8 (ucast a) OR ucast b"

fun handle8_loop :: "'c crc_dev \<Rightarrow> u8 list \<Rightarrow> nat \<Rightarrow> nat \<Rightarrow> 'c \<Rightarrow> 'c res" where
  "handle8_loop C buf i 0 c = Inr c"
| "handle8_loop C buf i (Suc n) c =
     res_bind (rd buf (4 * i)) (\<lambda>b0. res_bind (rd buf (4 * i + 1)) (\<lambda>b1.
     res_bind (rd buf (4 * i + 2)) (\<lambda>b2. res_bind (rd buf (4 * i + 3)) (\<lambda>b3.
     handle8_loop C buf (Suc i) n (wr_DR32 C (pack4 b0 b1 b2 b3) c)))))"

definition CRC_Handle_8 :: "'c crc_dev \<Rightarrow> u8 list \<Rightarrow> u32 \<Rightarrow> 'c \<Rightarrow> (u32 \<times> 'c) res" where
  "CRC_Handle_8 C pBuffer BufferLength c =
     (let n = unat BufferLength; i = n div 4 in
      res_bind (handle8_loop C pBuffer 0 i c) (\<lambda>c1.
      res_bind
        (if n mod 4 = 1 then res_bind (rd pBuffer (4 * i)) (\<lambda>b0. Inr (wr_DR8 C b0 c1))
         else if n mod 4 = 2 then
           res_bind (rd pBuffer (4 * i)) (\<lambda>b0. res_bind (rd pBuffer (4 * i + 1)) (\<lambda>b1.
           Inr (wr_DR16 C (pack2 b0 b1) c1)))
         else if n mod 4 = 3 then
           res_bind (rd pBuffer (4 * i)) (\<lambda>b0. res_bind (rd pBuffer (4 * i + 1)) (\<lambda>b1.
           res_bind (rd pBuffer (4 * i + 2)) (\<lambda>b2.
           Inr (wr_DR8 C b2 (wr_DR16 C (pack2 b0 b1) c1)))))
         else Inr c1)
        (\<lambda>c2. Inr (rd_DR C c2, c2))))"

fun handle16_loop :: "'c crc_dev \<Rightarrow> u16 list \<Rightarrow> nat \<Rightarrow> nat \<Rightarrow> 'c \<Rightarrow> 'c res" where
  "handle16_loop C buf i 0 c = Inr c"
| "handle16_loop C buf i (Suc n) c =
     res_bind (rd buf (2 * i)) (\<lambda>h0. res_bind (rd buf (2 * i + 1)) (\<lambda>h1.
     handle16_loop C buf (Suc i) n (wr_DR32 C (push_bit 16 (ucast h0) OR ucast h1) c)))"

definition CRC_Handle_16 :: "'c crc_dev \<Rightarrow> u16 list \<Rightarrow> u32 \<Rightarrow> 'c \<Rightarrow> (u32 \<times> 'c) res" where
  "CRC_Handle_16 C pBuffer BufferLength c =
     (let n = unat BufferLength; i = n div 2 in
      res_bind (handle16_loop C pBuffer 0 i c) (\<lambda>c1.
      res_bind (if n mod 2 \<noteq> 0 then res_bind (rd pBuffer (2 * i)) (\<lambda>h. Inr (wr_DR16 C h c1)) else Inr c1)
        (\<lambda>c2. Inr (rd_DR C c2, c2))))"

text \<open>
  The buffer pointer is cast according to the data format, so the model takes the three views of
  the same memory.
\<close>

record crc_buffer =
  as_words :: "u32 list"
  as_halfwords :: "u16 list"
  as_bytes :: "u8 list"

definition crc_enter :: "'c crc_dev \<Rightarrow> crc_handle \<Rightarrow> crc_buffer \<Rightarrow> u32 \<Rightarrow> 'c \<Rightarrow> (u32 \<times> 'c) res" where
  "crc_enter C h buf n c =
     (if InputDataFormat h = CRC_INPUTDATA_FORMAT_WORDS then
        res_bind (crc_words C (as_words buf) 0 (unat n) c) (\<lambda>c1. Inr (rd_DR C c1, c1))
      else if InputDataFormat h = CRC_INPUTDATA_FORMAT_BYTES then CRC_Handle_8 C (as_bytes buf) n c
      else if InputDataFormat h = CRC_INPUTDATA_FORMAT_HALFWORDS then CRC_Handle_16 C (as_halfwords buf) n c
      else Inr (0, c))"

definition HAL_CRC_Accumulate ::
  "'c crc_dev \<Rightarrow> crc_handle \<Rightarrow> crc_buffer \<Rightarrow> u32 \<Rightarrow> 'c \<Rightarrow> (u32 \<times> crc_handle \<times> 'c) res" where
  "HAL_CRC_Accumulate C h buf n c =
     res_bind (crc_enter C h buf n c) (\<lambda>(v, c1). Inr (v, h\<lparr>CRC_State := HAL_CRC_STATE_READY\<rparr>, c1))"

definition HAL_CRC_Calculate ::
  "'c crc_dev \<Rightarrow> crc_handle \<Rightarrow> crc_buffer \<Rightarrow> u32 \<Rightarrow> 'c \<Rightarrow> (u32 \<times> crc_handle \<times> 'c) res" where
  "HAL_CRC_Calculate C h buf n c =
     res_bind (crc_enter C h buf n (crc_dr_reset C c))
       (\<lambda>(v, c1). Inr (v, h\<lparr>CRC_State := HAL_CRC_STATE_READY\<rparr>, c1))"

definition HAL_CRC_GetState :: "crc_handle \<Rightarrow> crc_state" where
  "HAL_CRC_GetState h = CRC_State h"

text \<open>
  \<^verbatim>\<open>CAL_CRC\<close>: \<open>m\<close> is the memory it reads, with the firmware size at the start of the user
  area and the image 1 KByte above. The handle is passed by value: its changes are dropped.
\<close>

definition IMAGE_ADDRESS :: u32 where [reg_consts]: "IMAGE_ADDRESS = 0x08040400"

definition tag_size :: "mem \<Rightarrow> u32 \<Rightarrow> u32" where
  "tag_size m tag = read32 m tag"

definition CAL_CRC :: "'c crc_dev \<Rightarrow> crc_handle \<Rightarrow> mem \<Rightarrow> 'c \<Rightarrow> u32 \<times> 'c" where
  "CAL_CRC C hcrc m c =
     (let (_, h1, c1) = HAL_CRC_DeInit C (Some hcrc) c;
          (_, h2, c2) = HAL_CRC_Init C h1 c1;
          c3 = crc_dr_reset C c2;
          size = tag_size m USER_FLASH_FIRST_PAGE_ADDRESS;
          word_count = size div 4;
          c4 = fold (wr_DR32 C) (words_at m IMAGE_ADDRESS (unat word_count)) c3;
          remaining = size mod 4;
          c5 = fold (\<lambda>i. wr_DR8 C (m (IMAGE_ADDRESS + 4 * word_count + of_nat i))) [0..<unat remaining] c4
      in (rd_DR C c5, c5))"

section \<open>The checksum\<close>

text \<open>CRC with a 32 bit polynomial, most significant bit first, one byte at a time.\<close>

definition crc_bit :: "u32 \<Rightarrow> u32 \<Rightarrow> u32" where
  "crc_bit poly r = (if bit r 31 then push_bit 1 r XOR poly else push_bit 1 r)"

definition crc_byte :: "u32 \<Rightarrow> u8 \<Rightarrow> u32 \<Rightarrow> u32" where
  "crc_byte poly b r = (crc_bit poly ^^ 8) (r XOR push_bit 24 (ucast b))"

definition crc32_mpeg2 :: "u8 list \<Rightarrow> u32" where
  "crc32_mpeg2 bs = fold (crc_byte DEFAULT_CRC32_POLY) bs DEFAULT_CRC_INITVALUE"

text \<open>A word enters most significant byte first.\<close>

definition msb_bytes :: "u32 \<Rightarrow> u8 list" where
  "msb_bytes w = [ucast (drop_bit 24 w), ucast (drop_bit 16 w), ucast (drop_bit 8 w), ucast w]"

lemma msb_bytes_rev: "msb_bytes w = rev (bytes_of_word w)"
  by (simp add: msb_bytes_def bytes_of_word_def)

lemma msb_bytes_pack4: "msb_bytes (pack4 a b c d) = [a, b, c, d]"
  by (auto simp: msb_bytes_def pack4_def bit_simps not_bit_above intro!: bit_word_eqI)

lemma pack2_bytes: "ucast (drop_bit 8 (pack2 a b)) = a" "ucast (pack2 a b) = b"
  by (auto simp: pack2_def bit_simps not_bit_above intro!: bit_word_eqI)

lemma halfwords_of_pack: "ucast (drop_bit 16 (push_bit 16 (ucast h0) OR ucast h1 :: u32)) = (h0 :: u16)"
  "ucast (push_bit 16 (ucast h0) OR ucast h1 :: u32) = (h1 :: u16)"
  by (auto simp: bit_simps not_bit_above intro!: bit_word_eqI)

text \<open>What the driver relies on of the calculation unit.\<close>

definition plain_cr :: "'c crc_dev \<Rightarrow> 'c \<Rightarrow> bool" where
  "plain_cr C c \<longleftrightarrow> rd_CRC_CR C c AND (CRC_CR_POLYSIZE OR CRC_CR_REV_IN OR CRC_CR_REV_OUT) = 0"

locale crc_unit =
  fixes C :: "'c crc_dev"
  assumes dr16: "rd_CRC_CR C c AND CRC_CR_REV_IN = 0 \<Longrightarrow>
      wr_DR16 C h c = wr_DR8 C (ucast h) (wr_DR8 C (ucast (drop_bit 8 h)) c)"
    and dr32: "rd_CRC_CR C c AND CRC_CR_REV_IN = 0 \<Longrightarrow>
      wr_DR32 C w c = wr_DR16 C (ucast w) (wr_DR16 C (ucast (drop_bit 16 w)) c)"
    and dr8: "plain_cr C c \<Longrightarrow> rd_DR C (wr_DR8 C b c) = crc_byte (rd_POL C c) b (rd_DR C c)"
    and dr8_frame: "rd_CRC_CR C (wr_DR8 C b c) = rd_CRC_CR C c" "rd_POL C (wr_DR8 C b c) = rd_POL C c"
    and cr: "rd_CRC_CR C (wr_CRC_CR C v c) = v AND 0xF8"
      "rd_DR C (wr_CRC_CR C v c) = (if v AND CRC_CR_RESET \<noteq> 0 then rd_INIT C c else rd_DR C c)"
      "rd_POL C (wr_CRC_CR C v c) = rd_POL C c" "rd_INIT C (wr_CRC_CR C v c) = rd_INIT C c"
    and pol: "rd_POL C (wr_POL C v c) = v" "rd_CRC_CR C (wr_POL C v c) = rd_CRC_CR C c"
    and init: "rd_INIT C (wr_INIT C v c) = v" "rd_CRC_CR C (wr_INIT C v c) = rd_CRC_CR C c"
      "rd_POL C (wr_INIT C v c) = rd_POL C c"
begin

lemma feed_frame:
  "rd_CRC_CR C (fold (wr_DR8 C) bs c) = rd_CRC_CR C c" "rd_POL C (fold (wr_DR8 C) bs c) = rd_POL C c"
  by (induction bs arbitrary: c) (simp_all add: dr8_frame)

lemma feed_word:
  assumes "rd_CRC_CR C c AND CRC_CR_REV_IN = 0"
  shows "wr_DR32 C w c = fold (wr_DR8 C) (msb_bytes w) c"
proof -
  have "ucast (drop_bit 8 (ucast (drop_bit 16 w) :: u16)) = (ucast (drop_bit 24 w) :: u8)"
    "ucast (ucast (drop_bit 16 w) :: u16) = (ucast (drop_bit 16 w) :: u8)"
    "ucast (drop_bit 8 (ucast w :: u16)) = (ucast (drop_bit 8 w) :: u8)"
    "ucast (ucast w :: u16) = (ucast w :: u8)"
    by (auto simp: bit_simps intro!: bit_word_eqI)
  then show ?thesis using assms by (simp add: dr32 dr16 dr8_frame msb_bytes_def)
qed

lemma feed_words:
  assumes "rd_CRC_CR C c AND CRC_CR_REV_IN = 0"
  shows "fold (wr_DR32 C) ws c = fold (wr_DR8 C) (concat (map msb_bytes ws)) c"
  using assms by (induction ws arbitrary: c) (simp_all add: feed_word feed_frame)

lemma feed_crc:
  assumes "plain_cr C c"
  shows "rd_DR C (fold (wr_DR8 C) bs c) = fold (crc_byte (rd_POL C c)) bs (rd_DR C c)"
  using assms
proof (induction bs arbitrary: c)
  case Nil
  then show ?case by simp
next
  case (Cons b bs)
  have "plain_cr C (wr_DR8 C b c)" using Cons.prems by (simp add: plain_cr_def dr8_frame)
  from Cons.IH [OF this] show ?case by (simp add: dr8 [OF Cons.prems] dr8_frame)
qed

lemma handle8_loop_feed:
  assumes "rd_CRC_CR C c AND CRC_CR_REV_IN = 0" "4 * (i + n) \<le> length buf"
  shows "handle8_loop C buf i n c = Inr (fold (wr_DR8 C) (take (4 * n) (drop (4 * i) buf)) c)"
  using assms
proof (induction n arbitrary: i c)
  case 0
  then show ?case by simp
next
  case (Suc n)
  have bs: "take (4 * Suc n) (drop (4 * i) buf)
      = [buf ! (4 * i), buf ! (4 * i + 1), buf ! (4 * i + 2), buf ! (4 * i + 3)] @ take (4 * n) (drop (4 * Suc i) buf)"
    using Suc.prems(2) by (simp add: take_Suc_drop numeral_eq_Suc)
  have "handle8_loop C buf (Suc i) n (wr_DR32 C (pack4 (buf ! (4 * i)) (buf ! (4 * i + 1))
      (buf ! (4 * i + 2)) (buf ! (4 * i + 3))) c)
    = Inr (fold (wr_DR8 C) (take (4 * n) (drop (4 * Suc i) buf))
        (wr_DR32 C (pack4 (buf ! (4 * i)) (buf ! (4 * i + 1)) (buf ! (4 * i + 2)) (buf ! (4 * i + 3))) c))"
    using Suc.prems by (intro Suc.IH) (simp_all add: feed_word feed_frame)
  then show ?case using Suc.prems unfolding bs by (simp add: feed_word msb_bytes_pack4)
qed

lemma handle8_feed:
  assumes "rd_CRC_CR C c AND CRC_CR_REV_IN = 0" "unat n \<le> length buf"
  shows "CRC_Handle_8 C buf n c = (let c' = fold (wr_DR8 C) (take (unat n) buf) c in Inr (rd_DR C c', c'))"
proof -
  let ?i = "unat n div 4" and ?r = "unat n mod 4"
  let ?c = "fold (wr_DR8 C) (take (4 * ?i) buf) c"
  have n: "unat n = 4 * ?i + ?r" by simp
  have loop: "handle8_loop C buf 0 ?i c = Inr ?c"
    using handle8_loop_feed [OF assms(1), of 0 ?i buf] assms(2) n by simp
  have rev: "rd_CRC_CR C ?c AND CRC_CR_REV_IN = 0" using assms(1) by (simp add: feed_frame)
  have "take (unat n) buf = take (4 * ?i) buf @ take ?r (drop (4 * ?i) buf)"
    by (subst n, rule take_add)
  then have all: "fold (wr_DR8 C) (take (unat n) buf) c = fold (wr_DR8 C) (take ?r (drop (4 * ?i) buf)) ?c"
    by simp
  have len: "4 * ?i + ?r \<le> length buf" using assms(2) n by simp
  consider "?r = 0" | "?r = 1" | "?r = 2" | "?r = 3" by linarith
  then show ?thesis
    using len unfolding CRC_Handle_8_def Let_def all loop
    by cases (simp_all add: take_1_drop [of "4 * ?i" buf, simplified] take_2_drop [of "4 * ?i" buf, simplified]
        take_3_drop [of "4 * ?i" buf, simplified] dr16 [OF rev] pack2_bytes)
qed

lemma handle16_loop_feed:
  assumes "rd_CRC_CR C c AND CRC_CR_REV_IN = 0" "2 * (i + n) \<le> length buf"
  shows "handle16_loop C buf i n c = Inr (fold (wr_DR16 C) (take (2 * n) (drop (2 * i) buf)) c)"
  using assms
proof (induction n arbitrary: i c)
  case 0
  then show ?case by simp
next
  case (Suc n)
  let ?w = "push_bit 16 (ucast (buf ! (2 * i))) OR ucast (buf ! (2 * i + 1)) :: u32"
  have bs: "take (2 * Suc n) (drop (2 * i) buf)
      = [buf ! (2 * i), buf ! (2 * i + 1)] @ take (2 * n) (drop (2 * Suc i) buf)"
    using Suc.prems(2) by (simp add: take_Suc_drop numeral_eq_Suc)
  have "rd_CRC_CR C (wr_DR32 C ?w c) AND CRC_CR_REV_IN = 0"
    using Suc.prems(1) by (simp add: feed_word feed_frame)
  then have "handle16_loop C buf (Suc i) n (wr_DR32 C ?w c)
    = Inr (fold (wr_DR16 C) (take (2 * n) (drop (2 * Suc i) buf)) (wr_DR32 C ?w c))"
    using Suc.prems by (intro Suc.IH) simp_all
  then show ?case using Suc.prems unfolding bs by (simp add: dr32 halfwords_of_pack del: drop_bit_or)
qed

lemma init_default:
  assumes "DefaultPolynomialUse h = 0" "DefaultInitValueUse h = 0"
    "InputDataInversionMode h = 0" "OutputDataInversionMode h = 0"
  shows "\<exists>h' c'. HAL_CRC_Init C (Some h) c = (HAL_OK, Some h', c') \<and> plain_cr C c'
    \<and> rd_POL C c' = DEFAULT_CRC32_POLY \<and> rd_INIT C c' = DEFAULT_CRC_INITVALUE"
  using assms
  by (simp add: HAL_CRC_Init_def Let_def plain_cr_def crc_modify_cr_def cr pol init)
    (simp add: and.assoc reg_consts)

lemma reset_dr:
  assumes "plain_cr C c"
  shows "plain_cr C (crc_dr_reset C c)" "rd_DR C (crc_dr_reset C c) = rd_INIT C c"
    "rd_POL C (crc_dr_reset C c) = rd_POL C c"
  using assms
  by (simp_all add: plain_cr_def crc_dr_reset_def cr bit.conj_disj_distrib2 and.assoc reg_consts or_eq_0_iff)

end

text \<open>The bytes the check runs over, in the order in which they enter the unit.\<close>

definition image_stream :: "mem \<Rightarrow> u32 \<Rightarrow> u8 list" where
  "image_stream m sz =
     concat (map msb_bytes (words_at m IMAGE_ADDRESS (unat (sz div 4))))
     @ map (\<lambda>i. m (IMAGE_ADDRESS + 4 * (sz div 4) + of_nat i)) [0..<unat (sz mod 4)]"

definition crc_default :: "crc_handle \<Rightarrow> bool" where
  "crc_default h \<longleftrightarrow> DefaultPolynomialUse h = 0 \<and> DefaultInitValueUse h = 0
     \<and> InputDataInversionMode h = 0 \<and> OutputDataInversionMode h = 0"

context crc_unit
begin

lemma cal_crc:
  assumes "crc_default h"
  shows "fst (CAL_CRC C h m c) = crc32_mpeg2 (image_stream m (tag_size m USER_FLASH_FIRST_PAGE_ADDRESS))"
proof -
  obtain st h1 c1 where d: "HAL_CRC_DeInit C (Some h) c = (st, Some h1, c1)"
    and h1: "crc_default h1"
    using assms by (cases "CRC_State h = HAL_CRC_STATE_BUSY") (auto simp: HAL_CRC_DeInit_def crc_default_def)
  obtain h2 c2 where i: "HAL_CRC_Init C (Some h1) c1 = (HAL_OK, Some h2, c2)" and p: "plain_cr C c2"
    and r: "rd_POL C c2 = DEFAULT_CRC32_POLY" "rd_INIT C c2 = DEFAULT_CRC_INITVALUE"
    using init_default [of h1 c1] h1 by (auto simp: crc_default_def)
  let ?c3 = "crc_dr_reset C c2" and ?size = "tag_size m USER_FLASH_FIRST_PAGE_ADDRESS"
  have rev: "rd_CRC_CR C ?c3 AND CRC_CR_REV_IN = 0"
    using reset_dr(1) [OF p] by (auto simp: plain_cr_def reg_consts intro: and_zero_sub)
  have "snd (CAL_CRC C h m c) = fold (wr_DR8 C) (image_stream m ?size) ?c3"
    using d i feed_words [OF rev]
    by (simp add: CAL_CRC_def Let_def image_stream_def fold_map comp_def)
  then have "fst (CAL_CRC C h m c) = rd_DR C (fold (wr_DR8 C) (image_stream m ?size) ?c3)"
    by (auto simp: CAL_CRC_def Let_def split: prod.splits)
  then show ?thesis
    using feed_crc [OF reset_dr(1) [OF p]] reset_dr(2,3) [OF p] r by (simp add: crc32_mpeg2_def)
qed

end

section \<open>A calculation unit that meets the contract\<close>

record crc_regs =
  c_dr :: u32
  c_cr :: u32
  c_pol :: u32
  c_init :: u32

definition sim_dr8 :: "u8 \<Rightarrow> crc_regs \<Rightarrow> crc_regs" where
  "sim_dr8 b c = c\<lparr>c_dr := crc_byte (c_pol c) b (c_dr c)\<rparr>"

definition sim_dr16 :: "u16 \<Rightarrow> crc_regs \<Rightarrow> crc_regs" where
  "sim_dr16 h c = sim_dr8 (ucast h) (sim_dr8 (ucast (drop_bit 8 h)) c)"

definition crc_sim :: "crc_regs crc_dev" where
  "crc_sim = \<lparr>rd_DR = c_dr,
     wr_DR32 = (\<lambda>w c. sim_dr16 (ucast w) (sim_dr16 (ucast (drop_bit 16 w)) c)),
     wr_DR16 = sim_dr16, wr_DR8 = sim_dr8,
     rd_CRC_CR = c_cr,
     wr_CRC_CR = (\<lambda>v c. c\<lparr>c_cr := v AND 0xF8, c_dr := (if v AND CRC_CR_RESET \<noteq> 0 then c_init c else c_dr c)\<rparr>),
     rd_POL = c_pol, wr_POL = (\<lambda>v c. c\<lparr>c_pol := v\<rparr>),
     rd_INIT = c_init, wr_INIT = (\<lambda>v c. c\<lparr>c_init := v\<rparr>), wr_IDR = (\<lambda>v c. c)\<rparr>"

interpretation crcsim: crc_unit crc_sim
  by unfold_locales (simp_all add: crc_sim_def sim_dr8_def sim_dr16_def)

definition crc_regs_reset :: crc_regs where
  "crc_regs_reset = \<lparr>c_dr = 0xFFFFFFFF, c_cr = 0, c_pol = 0x04C11DB7, c_init = 0xFFFFFFFF\<rparr>"

text \<open>The handle as \<^verbatim>\<open>MX_CRC_Init\<close> of \<^verbatim>\<open>src/src/main.c\<close> fills it.\<close>

definition hcrc_boot :: crc_handle where
  "hcrc_boot = \<lparr>DefaultPolynomialUse = 0, DefaultInitValueUse = 0, GeneratingPolynomial = 0, CRCLength = 0,
     InitValue = 0, InputDataInversionMode = 0, OutputDataInversionMode = 0, CRC_Lock = False,
     CRC_State = HAL_CRC_STATE_READY, InputDataFormat = CRC_INPUTDATA_FORMAT_BYTES\<rparr>"

section \<open>Properties\<close>

text \<open>
  The optimised byte routine is correct. \<^verbatim>\<open>CRC_Handle_8\<close>, which enters four
  bytes in one word write and the rest by half-word and byte, leaves the unit as if the bytes had
  been entered one by one, and stays inside the buffer.
\<close>

lemma CRC_Handle_8_bytewise:
  assumes "crc_unit C" and "rd_CRC_CR C c AND CRC_CR_REV_IN = 0" and "unat n \<le> length buf"
  shows "CRC_Handle_8 C buf n c = (let c' = fold (wr_DR8 C) (take (unat n) buf) c in Inr (rd_DR C c', c'))"
  by (rule crc_unit.handle8_feed [OF assms])



lemma poly_msb_bound:
  assumes "bit Pol 0" "0 < k" "k \<le> 31"
  shows "L \<le> unat (poly_msb Pol k) \<longleftrightarrow> (\<exists>j. L \<le> j \<and> j < k \<and> bit Pol j)"
  using assms(2,3)
proof (induction k)
  case 0
  then show ?case by simp
next
  case (Suc k)
  have test: "Pol AND push_bit (k mod 32) 1 = 0 \<longleftrightarrow> \<not> bit Pol k"
    using Suc.prems and_exp_eq_0_iff_not_bit [of Pol k] by (simp add: push_bit_of_1)
  show ?case
  proof (cases "bit Pol k")
    case True
    then have "poly_msb Pol (Suc k) = of_nat k" using test by simp
    moreover have "unat (of_nat k :: u32) = k" using Suc.prems by (intro unat_of_nat_u32) simp
    ultimately show ?thesis using True by (auto simp: less_Suc_eq)
  next
    case False
    then have "0 < k" using assms(1) by (cases k) auto
    then show ?thesis using Suc False test by (auto simp: less_Suc_eq)
  qed
qed

text \<open>
  Which polynomials are accepted for the lengths 7, 8 and 16: exactly the odd ones
  with no bit set from the length up to bit 30. Bit 31 is not looked at, since the scan starts
  below it, although the comment promises an error for a degree above the length.
\<close>

lemma Polynomial_Set_accepts:
  "(fst (HAL_CRCEx_Polynomial_Set C Pol CRC_POLYLENGTH_7B c) = HAL_OK \<longleftrightarrow>
      bit Pol 0 \<and> \<not> (\<exists>j. 7 \<le> j \<and> j < 31 \<and> bit Pol j))
   \<and> (fst (HAL_CRCEx_Polynomial_Set C Pol CRC_POLYLENGTH_8B c) = HAL_OK \<longleftrightarrow>
      bit Pol 0 \<and> \<not> (\<exists>j. 8 \<le> j \<and> j < 31 \<and> bit Pol j))
   \<and> (fst (HAL_CRCEx_Polynomial_Set C Pol CRC_POLYLENGTH_16B c) = HAL_OK \<longleftrightarrow>
      bit Pol 0 \<and> \<not> (\<exists>j. 16 \<le> j \<and> j < 31 \<and> bit Pol j))
   \<and> fst (HAL_CRCEx_Polynomial_Set C 0x80000001 CRC_POLYLENGTH_7B c) = HAL_OK"
proof -
  have acc: "fst (HAL_CRCEx_Polynomial_Set C P len c) = HAL_OK \<longleftrightarrow> bit P 0 \<and> \<not> (\<exists>j. L \<le> j \<and> j < 31 \<and> bit P j)"
    if "(len, L) \<in> {(CRC_POLYLENGTH_7B, 7), (CRC_POLYLENGTH_8B, 8), (CRC_POLYLENGTH_16B, 16)}" for P len L
  proof (cases "bit P 0")
    case True
    have "fst (HAL_CRCEx_Polynomial_Set C P len c) = HAL_OK \<longleftrightarrow> \<not> L \<le> unat (poly_msb P 31)"
      using that True
      by (auto simp: HAL_CRCEx_Polynomial_Set_def Let_def word_and_1_eq word_le_nat_alt reg_consts)
    with True poly_msb_bound [OF True, of 31 L] show ?thesis by simp
  qed (auto simp: HAL_CRCEx_Polynomial_Set_def word_and_1_eq)
  have bits: "bit (0x80000001 :: u32) j \<longleftrightarrow> j = 0 \<or> j = 31" for j
  proof -
    have "(0x80000001 :: u32) = push_bit 31 1 OR 1" by simp
    then show ?thesis by (simp only: bit_or_iff bit_push_bit_iff bit_1_iff) auto
  qed
  have "fst (HAL_CRCEx_Polynomial_Set C 0x80000001 CRC_POLYLENGTH_7B c) = HAL_OK"
    by (subst acc [of _ 7], simp, unfold bits) auto
  then show ?thesis by (intro conjI acc) simp_all
qed

end
