(* ===== verification/Board.thy ===== *)
theory Board
  imports Hal_Flash
begin

text \<open>
  The part of the board every module sees: the backup register with the boot flag
  (\<^verbatim>\<open>src/src/reset.c\<close>), the watchdog (\<^verbatim>\<open>src/src/stm32f7xx_hal_iwdg.c\<close>), and the
  outputs of the program in the order in which it makes them. Calls into the network stack that
  can fail (allocation, binding, sending) take their outcome from the list \<open>choices\<close>; once it is
  used up they succeed.
\<close>

unbundle bit_operations_syntax

section \<open>State and outputs\<close>

text \<open>
  \<open>Overrun b n k\<close> stands for a write of \<open>k\<close> bytes into the local array \<open>b\<close> of \<open>n\<close> bytes, \<open>n < k\<close>:
  undefined behaviour in C. The model notes it and goes on with the text as if it had fitted, so
  that both the overrun and what the code means to do can be stated.
\<close>

datatype event =
    Udp_Text string
  | Console string
  | Tftp_Ack nat "u8 list"
  | Pbuf_Free
  | Overrun string nat nat
  | Iwdg_Write string u32
  | Delay_Ticks u32
  | Clear_Reset_Flags
  | Timer_Start u32
  | Netif_Add "u8 list" "u8 list" "u8 list"
  | Netif_Up bool
  | System_Reset

record board =
  BKP1R :: u32
  upcb_boot :: bool
  choices :: "bool list"
  events :: "event list"

definition emit :: "event \<Rightarrow> 'a board_scheme \<Rightarrow> 'a board_scheme" where
  "emit e s = s\<lparr>events := events s @ [e]\<rparr>"

definition outcome :: "'a board_scheme \<Rightarrow> bool \<times> 'a board_scheme" where
  "outcome s = (case choices s of [] \<Rightarrow> (True, s) | b # bs \<Rightarrow> (b, s\<lparr>choices := bs\<rparr>))"

text \<open>Writing a text with its terminating zero into a local array of \<open>n\<close> bytes.\<close>

definition into_buffer :: "string \<Rightarrow> nat \<Rightarrow> string \<Rightarrow> 'a board_scheme \<Rightarrow> 'a board_scheme" where
  "into_buffer name n text_bytes s =
     (if length text_bytes + 1 > n then emit (Overrun name n (length text_bytes + 1)) s else s)"

definition NVIC_SystemReset :: "'a board_scheme \<Rightarrow> 'a board_scheme" where
  "NVIC_SystemReset s = emit System_Reset s"

definition has_reset :: "'a board_scheme \<Rightarrow> bool" where
  "has_reset s \<longleftrightarrow> System_Reset \<in> set (events s)"

section \<open>The boot flag\<close>

definition BOOT_FLAG_SOFT_RESET :: u32 where [reg_consts]: "BOOT_FLAG_SOFT_RESET = 0xA5A5"

definition write_boot_flag_soft_reset :: "'a board_scheme \<Rightarrow> 'a board_scheme" where
  "write_boot_flag_soft_reset s = s\<lparr>BKP1R := BOOT_FLAG_SOFT_RESET\<rparr>"

definition clear_boot_flag :: "'a board_scheme \<Rightarrow> 'a board_scheme" where
  "clear_boot_flag s = s\<lparr>BKP1R := 0\<rparr>"

definition is_soft_reset :: "'a board_scheme \<Rightarrow> u8" where
  "is_soft_reset s = (if BKP1R s = BOOT_FLAG_SOFT_RESET then 1 else 0)"

text \<open>The clock and power registers \<^verbatim>\<open>MX_RTC_Init\<close> sets bits in.\<close>

record rtc_regs =
  RCC_APB1ENR :: u32
  PWR_CR1 :: u32
  RCC_BDCR :: u32

definition MX_RTC_Init :: "rtc_regs \<Rightarrow> rtc_regs" where
  "MX_RTC_Init r = r\<lparr>RCC_APB1ENR := RCC_APB1ENR r OR 0x10000000, PWR_CR1 := PWR_CR1 r OR 0x100,
     RCC_BDCR := RCC_BDCR r OR 0x8000\<rparr>"

section \<open>The watchdog\<close>

record iwdg_handle =
  Prescaler :: u32
  Reload :: u32
  Window :: u32

definition HAL_IWDG_DEFAULT_TIMEOUT :: u32 where
  [reg_consts]: "HAL_IWDG_DEFAULT_TIMEOUT = (6 * 256 * 1000) div (32000 div 128) + (40 div 1000 + 1)"

definition IWDG_KERNEL_UPDATE_FLAGS :: u32 where [reg_consts]: "IWDG_KERNEL_UPDATE_FLAGS = 7"

text \<open>
  The wait for the register update. Each turn takes from \<open>polls\<close> the status register, the
  millisecond counter and the status register read again.
\<close>

fun iwdg_wait :: "u32 \<Rightarrow> (u32 \<times> u32 \<times> u32) list \<Rightarrow> HAL_Status res" where
  "iwdg_wait tickstart [] = Inl Hang"
| "iwdg_wait tickstart ((sr, now, sr2) # polls) =
     (if sr AND IWDG_KERNEL_UPDATE_FLAGS = 0 then Inr HAL_OK
      else if now - tickstart > HAL_IWDG_DEFAULT_TIMEOUT \<and> sr2 AND IWDG_KERNEL_UPDATE_FLAGS \<noteq> 0
      then Inr HAL_TIMEOUT
      else iwdg_wait tickstart polls)"

definition HAL_IWDG_Init :: "iwdg_handle option \<Rightarrow> u32 \<Rightarrow> (u32 \<times> u32 \<times> u32) list \<Rightarrow> u32
    \<Rightarrow> 'a board_scheme \<Rightarrow> (HAL_Status \<times> 'a board_scheme) res" where
  "HAL_IWDG_Init hiwdg tickstart polls WINR s =
     (case hiwdg of None \<Rightarrow> Inr (HAL_ERROR, s)
      | Some h \<Rightarrow>
        let s1 = emit (Iwdg_Write ''RLR'' (Reload h)) (emit (Iwdg_Write ''PR'' (Prescaler h))
                   (emit (Iwdg_Write ''KR'' 0x5555) (emit (Iwdg_Write ''KR'' 0xCCCC) s))) in
        res_bind (iwdg_wait tickstart polls) (\<lambda>status.
          if status \<noteq> HAL_OK then Inr (status, s1)
          else if WINR \<noteq> Window h then Inr (HAL_OK, emit (Iwdg_Write ''WINR'' (Window h)) s1)
          else Inr (HAL_OK, emit (Iwdg_Write ''KR'' 0xAAAA) s1)))"

definition HAL_IWDG_Refresh :: "'a board_scheme \<Rightarrow> HAL_Status \<times> 'a board_scheme" where
  "HAL_IWDG_Refresh s = (HAL_OK, emit (Iwdg_Write ''KR'' 0xAAAA) s)"

section \<open>Lemmas\<close>

lemma emit_fields [simp]:
  "BKP1R (emit e s) = BKP1R s" "upcb_boot (emit e s) = upcb_boot s" "choices (emit e s) = choices s"
  "events (emit e s) = events s @ [e]"
  by (simp_all add: emit_def)

lemma more_frames:
  "board.more (emit e s) = board.more s" "board.more (snd (outcome s)) = board.more s"
  "board.more (into_buffer b n t s) = board.more s" "board.more (NVIC_SystemReset s) = board.more s"
  "board.more (write_boot_flag_soft_reset s) = board.more s" "board.more (clear_boot_flag s) = board.more s"
  "board.more (snd (HAL_IWDG_Refresh s)) = board.more s"
  by (simp_all add: emit_def outcome_def into_buffer_def NVIC_SystemReset_def write_boot_flag_soft_reset_def
      clear_boot_flag_def HAL_IWDG_Refresh_def split: list.split)

lemma outcome_default [simp]: "choices s = [] \<Longrightarrow> outcome s = (True, s)"
  by (simp add: outcome_def)

lemma into_buffer_fits [simp]: "length t < n \<Longrightarrow> into_buffer b n t s = s"
  by (simp add: into_buffer_def)

lemma into_buffer_overruns: "n \<le> length t \<Longrightarrow> into_buffer b n t s = emit (Overrun b n (length t + 1)) s"
  by (simp add: into_buffer_def)

lemma boot_flag [simp]:
  "is_soft_reset (write_boot_flag_soft_reset s) = 1" "is_soft_reset (clear_boot_flag s) = 0"
  by (simp_all add: is_soft_reset_def write_boot_flag_soft_reset_def clear_boot_flag_def reg_consts)

end
