(* ===== verification/Udp_Total.thy ===== *)
theory Udp_Total
  imports Board
begin

text \<open>
  Model of \<^verbatim>\<open>src/src/udp_total.c\<close>: the text messages the boot loader sends and the remote
  reset commands it receives. The network stack's pcbs and buffers appear as the outcomes of the
  calls (see \<open>outcome\<close>) and as the outputs \<open>Udp_Text\<close> and \<open>Pbuf_Free\<close>.
\<close>

section \<open>Definitions\<close>

definition JUMP_BOOT_STR :: string where "JUMP_BOOT_STR = ''SOFT RESET SSSAAA''"
definition JUMP_FW_STR :: string where "JUMP_FW_STR = ''RESET SSSAAA''"

definition newline :: string where "newline = [CHR 0x0A]"

definition udp_client_send :: "string \<Rightarrow> 'a board_scheme \<Rightarrow> 'a board_scheme" where
  "udp_client_send msg s =
     (if \<not> upcb_boot s then emit (Console (''[BOOT]  UDP PCB not initialized'' @ newline)) s
      else case outcome s of (p, s1) \<Rightarrow>
        if \<not> p then emit (Console (''[BOOT]  pbuf_alloc failed'' @ newline)) s1
        else case outcome s1 of (err_ok, s2) \<Rightarrow>
          let s3 = (if err_ok then emit (Udp_Text msg) s2
                    else emit (Console ''[BOOT]  udp_send failed'') s2)
          in emit Pbuf_Free (emit (Delay_Ticks 1) s3))"

text \<open>The C string in a byte buffer: the bytes before the first zero.\<close>

definition c_string :: "string \<Rightarrow> string" where
  "c_string bs = takeWhile (\<lambda>c. c \<noteq> CHR 0x00) bs"

text \<open>
  The receive callback; the packet is \<open>None\<close> for a null pointer. \<open>buffer\<close> holds twelve bytes, into
  which the payload is copied whatever its length.
\<close>

definition udp_receive_callback :: "string option \<Rightarrow> 'a board_scheme \<Rightarrow> 'a board_scheme" where
  "udp_receive_callback p s =
     (case p of None \<Rightarrow> s
      | Some payload \<Rightarrow>
        let s1 = into_buffer ''buffer'' 12 payload s; buffer = c_string payload in
        if buffer = JUMP_BOOT_STR then
          NVIC_SystemReset (write_boot_flag_soft_reset
            (udp_client_send (''[BOOT]  JUMP BOOT(soft RESET)'' @ newline) s1))
        else if buffer = JUMP_FW_STR then
          NVIC_SystemReset (clear_boot_flag
            (udp_client_send (''[BOOT]  JUMP FW(RESET)'' @ newline) s1))
        else emit Pbuf_Free s1)"

text \<open>
  Setting up the two pcbs: whether the sending one exists, and whether the receiving one could be
  created. The results of \<^verbatim>\<open>udp_connect\<close> and \<^verbatim>\<open>udp_bind\<close> are not looked at.
\<close>

definition udp_total_connect :: "'a board_scheme \<Rightarrow> bool \<times> 'a board_scheme" where
  "udp_total_connect s =
     (case outcome s of (client, s1) \<Rightarrow>
      case outcome (s1\<lparr>upcb_boot := client\<rparr>) of (server, s2) \<Rightarrow> (server, s2))"

section \<open>Properties\<close>

lemma outcome_fields: "outcome s = (b, s1) \<Longrightarrow> BKP1R s1 = BKP1R s \<and> events s1 = events s"
  by (auto simp: outcome_def split: list.splits)

lemma client_send_frame:
  "BKP1R (udp_client_send msg s) = BKP1R s"
  "\<exists>es. events (udp_client_send msg s) = events s @ es \<and> System_Reset \<notin> set es \<and> (\<forall>b n k. Overrun b n k \<notin> set es)"
  by (auto simp: udp_client_send_def Let_def dest!: outcome_fields split: prod.splits)

lemma send_more: "board.more (udp_client_send msg s) = board.more s"
proof -
  have m: "outcome t = (b, t') \<Longrightarrow> board.more t' = board.more t" for t t' :: "'a board_scheme" and b
    using more_frames(2) [of t] by simp
  show ?thesis
    by (auto simp: udp_client_send_def Let_def more_frames dest!: m split: prod.splits)
qed

lemma send_default:
  assumes "choices s = []" "upcb_boot s"
  shows "udp_client_send msg s = emit Pbuf_Free (emit (Delay_Ticks 1) (emit (Udp_Text msg) s))"
  using assms by (simp add: udp_client_send_def)

lemma udp_commands_differ: "JUMP_BOOT_STR \<noteq> JUMP_FW_STR"
  by (simp add: JUMP_BOOT_STR_def JUMP_FW_STR_def)


definition board_on :: board where
  "board_on = \<lparr>BKP1R = 0, upcb_boot = True, choices = [], events = []\<rparr>"


lemma prefix_of_takeWhile: "length (takeWhile P xs) \<le> length xs"
  by (rule length_takeWhile_le)

text \<open>
  Every reset command overruns its buffer. Both command texts need more than the
  twelve bytes of \<^verbatim>\<open>buffer\<close>, so no datagram can reset the board without writing past the
  end of that array.
\<close>

lemma udp_command_overruns:
  assumes "c_string payload \<in> {JUMP_BOOT_STR, JUMP_FW_STR}"
  shows "\<exists>k. Overrun ''buffer'' 12 k \<in> set (events (udp_receive_callback (Some payload) s))"
proof -
  have "12 \<le> length (c_string payload)"
    using assms by (auto simp: JUMP_BOOT_STR_def JUMP_FW_STR_def)
  then have len: "12 \<le> length payload"
    using prefix_of_takeWhile [of _ payload] by (auto simp: c_string_def intro: le_trans)
  let ?s1 = "into_buffer ''buffer'' 12 payload s"
  have "Overrun ''buffer'' 12 (length payload + 1) \<in> set (events ?s1)"
    by (simp add: into_buffer_overruns [OF len])
  moreover have "set (events t) \<subseteq> set (events (udp_client_send msg t))" for msg and t :: "'a board_scheme"
    using client_send_frame(2) [of msg t] by auto
  ultimately show ?thesis
    by (auto simp: udp_receive_callback_def Let_def NVIC_SystemReset_def write_boot_flag_soft_reset_def
        clear_boot_flag_def)
qed

end
