(* ===== verification/Tftp.thy ===== *)
theory Tftp
  imports Hal_Crc Udp_Total
begin

text \<open>
  Model of \<^verbatim>\<open>src/src/tftpserver.c\<close>: the TFTP server that receives a firmware image into
  the user area, backs the old one up before and puts it back when the checksum is wrong. Its
  state extends the board with the flash, the CRC unit, the module's static variables and the
  connections, which the network stack keeps as pcbs with a callback and its arguments.
\<close>

unbundle bit_operations_syntax

section \<open>State\<close>

record tftp_args =
  to_ip :: u32
  to_port :: int
  block :: int
  tot_bytes :: int

record ('d, 'c) iap = board +
  flash :: "'d flash_state"
  crcu :: 'c
  hcrc :: crc_handle
  Flash_Write_Address :: u32
  total_count :: u32
  pcbs :: "nat list"
  next_pcb :: nat
  wrq_conn :: "nat \<Rightarrow> tftp_args option"
  listening :: bool

text \<open>A received packet: the bytes of its first pbuf, whose number is \<^verbatim>\<open>len\<close>.\<close>

record udp_pkt =
  payload :: "u8 list"
  tot_len :: nat

definition TFTP_DATA_PKT_HDR_LEN :: nat where [reg_consts]: "TFTP_DATA_PKT_HDR_LEN = 4"
definition TFTP_DATA_PKT_LEN_MAX :: nat where [reg_consts]: "TFTP_DATA_PKT_LEN_MAX = 516"
definition TFTP_WRQ :: u8 where [reg_consts]: "TFTP_WRQ = 2"
definition TFTP_ACK :: u8 where [reg_consts]: "TFTP_ACK = 4"

section \<open>Packets\<close>

definition IAP_tftp_decode_op :: "u8 list \<Rightarrow> u8 res" where
  "IAP_tftp_decode_op buf = rd buf 1"

text \<open>\<^verbatim>\<open>ntohs\<close> on the little-endian half-word at offset 2.\<close>

definition IAP_tftp_extract_block :: "u8 list \<Rightarrow> u16 res" where
  "IAP_tftp_extract_block buf =
     res_bind (rd buf 2) (\<lambda>hi. res_bind (rd buf 3) (\<lambda>lo. Inr (push_bit 8 (ucast hi) OR ucast lo)))"

definition IAP_tftp_set_opcode :: "u8 list \<Rightarrow> u8 \<Rightarrow> u8 list" where
  "IAP_tftp_set_opcode buf opcode = buf[0 := 0, 1 := opcode]"

definition IAP_tftp_set_block :: "u8 list \<Rightarrow> u16 \<Rightarrow> u8 list" where
  "IAP_tftp_set_block buf blk = buf[2 := ucast (drop_bit 8 blk), 3 := ucast blk]"

definition ack_packet :: "int \<Rightarrow> u8 list" where
  "ack_packet blk = IAP_tftp_set_block (IAP_tftp_set_opcode (replicate 4 0) TFTP_ACK) (of_int blk)"

definition IAP_tftp_send_ack_packet :: "nat \<Rightarrow> int \<Rightarrow> ('d, 'c) iap \<Rightarrow> bool \<times> ('d, 'c) iap" where
  "IAP_tftp_send_ack_packet upcb blk s =
     (case outcome s of (pkt_buf, s1) \<Rightarrow>
        if \<not> pkt_buf then (False, udp_client_send (''Can not allocate pbuf'' @ newline) s1)
        else case outcome s1 of (err_ok, s2) \<Rightarrow>
          (err_ok, emit Pbuf_Free (if err_ok then emit (Tftp_Ack upcb (ack_packet blk)) s2 else s2)))"

section \<open>Firmware tags and copies\<close>

text \<open>The fields of \<^verbatim>\<open>FirmwareTag\<close> at the start of an area.\<close>

definition tag_crc :: "mem \<Rightarrow> u32 \<Rightarrow> u32" where
  "tag_crc m tag = read32 m (tag + 4)"

definition tag_valid :: "mem \<Rightarrow> u32 \<Rightarrow> bool" where
  "tag_valid m tag \<longleftrightarrow> read32 m (tag + 12) = 0xA5A5A5A5"

definition flash_string :: "mem \<Rightarrow> u32 \<Rightarrow> string" where
  "flash_string m a = map (\<lambda>b. char_of (unat b))
     (takeWhile (\<lambda>b. b \<noteq> 0) (map (\<lambda>i. m (a + of_nat i)) [0..<unat (0x08200000 - a)]))"

text \<open>\<^verbatim>\<open>uint16_t data_len = (size + 1024) / 4\<close>, with its truncation.\<close>

definition copy_len :: "mem \<Rightarrow> u32 \<Rightarrow> u16" where
  "copy_len m tag = ucast ((tag_size m tag + 1024) div 4)"

text \<open>Erase the user area and copy the backup into it; neither result is looked at.\<close>

definition restore_backup :: "'d flash_dev \<Rightarrow> ('d, 'c) iap \<Rightarrow> ('d, 'c) iap res" where
  "restore_backup D s =
     res_bind (FLASH_If_Erase D USER_FLASH_FIRST_PAGE_ADDRESS (flash s)) (\<lambda>(_, f1).
     res_bind (FLASH_If_Write D USER_FLASH_FIRST_PAGE_ADDRESS (flash_src D BACKUP_FLASH_FIRST_PAGE_ADDRESS)
        (copy_len (fmem D f1) BACKUP_FLASH_FIRST_PAGE_ADDRESS) f1) (\<lambda>(_, _, f2).
     Inr (s\<lparr>flash := f2\<rparr>)))"

definition unlock_flash :: "'d flash_dev \<Rightarrow> ('d, 'c) iap \<Rightarrow> ('d, 'c) iap" where
  "unlock_flash D s = s\<lparr>flash := snd (HAL_FLASH_Unlock D (flash s))\<rparr>"

definition WDGbackup :: "'d flash_dev \<Rightarrow> ('d, 'c) iap \<Rightarrow> ('d, 'c) iap res" where
  "WDGbackup D s =
     res_bind (restore_backup D (snd (HAL_IWDG_Refresh (unlock_flash D s)))) (\<lambda>s1.
     Inr (clear_boot_flag (emit Clear_Reset_Flags s1)))"

section \<open>Connections\<close>

text \<open>\<^verbatim>\<open>udp_remove\<close> drops the pcb with its callback; the listening pcb gets its callback again.\<close>

definition IAP_tftp_cleanup_wr :: "nat \<Rightarrow> ('d, 'c) iap \<Rightarrow> ('d, 'c) iap" where
  "IAP_tftp_cleanup_wr upcb s =
     s\<lparr>pcbs := remove1 upcb (pcbs s), wrq_conn := (wrq_conn s)(upcb := None), listening := True\<rparr>"

definition IAP_tftp_process_write ::
  "'d flash_dev \<Rightarrow> nat \<Rightarrow> u32 \<Rightarrow> int \<Rightarrow> ('d, 'c) iap \<Rightarrow> ('d, 'c) iap res" where
  "IAP_tftp_process_write D upcb ip port s =
     (case outcome s of (args, s1) \<Rightarrow>
        if \<not> args then Inr (IAP_tftp_cleanup_wr upcb (udp_client_send (''Memory error '' @ newline) s1))
        else
          let s2 = s1\<lparr>wrq_conn := (wrq_conn s1)(upcb \<mapsto> \<lparr>to_ip = ip, to_port = port, block = 0, tot_bytes = 0\<rparr>),
                total_count := 0, flash := FLASH_If_Init D (flash s1)\<rparr> in
          res_bind (FLASH_If_Erase D USER_FLASH_FIRST_PAGE_ADDRESS (flash s2)) (\<lambda>(_, f).
          let s3 = s2\<lparr>flash := f, Flash_Write_Address := USER_FLASH_FIRST_PAGE_ADDRESS\<rparr>;
              s4 = snd (IAP_tftp_send_ack_packet upcb 0 s3)
          in Inr (udp_client_send (''[BOOT]  Update FW... '' @ newline) s4)))"

section \<open>Data packets\<close>

text \<open>
  \<^verbatim>\<open>data_buffer\<close>: 512 bytes of stack (\<open>stack\<close> holds what was there) overwritten from the front;
  more bytes than that is an access outside the array.
\<close>

definition data_buffer :: "u8 list \<Rightarrow> u8 list \<Rightarrow> u32 list res" where
  "data_buffer stack bs =
     (if length bs > 512 then Inl Oob else Inr (words_of_bytes (bs @ drop (length bs) stack)))"

definition word_count :: "nat \<Rightarrow> u16" where
  "word_count n = of_nat (n div 4 + (if n mod 4 \<noteq> 0 then 1 else 0))"

definition wrq_block :: "'d flash_dev \<Rightarrow> u8 list \<Rightarrow> udp_pkt \<Rightarrow> tftp_args \<Rightarrow> ('d, 'c) iap
    \<Rightarrow> (tftp_args \<times> ('d, 'c) iap) res" where
  "wrq_block D stack pkt args s =
     (let len = length (payload pkt); n = len - TFTP_DATA_PKT_HDR_LEN in
      res_bind (IAP_tftp_extract_block (payload pkt)) (\<lambda>b.
      if len > TFTP_DATA_PKT_HDR_LEN \<and> uint b = block args + 1 then
        res_bind (data_buffer stack (drop TFTP_DATA_PKT_HDR_LEN (payload pkt))) (\<lambda>buf.
        let s1 = s\<lparr>total_count := total_count s + of_nat n\<rparr> in
        res_bind (FLASH_If_Write D (Flash_Write_Address s1) (ram_src buf) (word_count n) (flash s1)) (\<lambda>(_, a, f).
        Inr (args\<lparr>block := block args + 1, tot_bytes := tot_bytes args + int n\<rparr>,
             s1\<lparr>flash := f, Flash_Write_Address := a\<rparr>)))
      else if uint b = block args + 1 then Inr (args\<lparr>block := block args + 1\<rparr>, s)
      else Inr (args, s)))"

text \<open>Decimal digits, for the byte count in the final message.\<close>

function decimal :: "nat \<Rightarrow> string" where
  "decimal n = (if n < 10 then [char_of (48 + n)] else decimal (n div 10) @ [char_of (48 + n mod 10)])"
  by pat_completeness auto
termination by (relation "measure id") auto

declare decimal.simps [simp del]

definition decimal_int :: "int \<Rightarrow> string" where
  "decimal_int i = (if i < 0 then CHR ''-'' # decimal (nat (- i)) else decimal (nat i))"

definition total_text :: "u32 \<Rightarrow> string" where
  "total_text n = ''[BOOT]  Tot bytes Received: '' @ decimal_int (sint n) @ '' bytes '' @ newline"

text \<open>What follows the last packet: check the image, put the backup back if it is wrong, reset.\<close>

definition wrq_close :: "nat \<Rightarrow> ('d, 'c) iap \<Rightarrow> ('d, 'c) iap" where
  "wrq_close upcb s =
     (let message = total_text (total_count s)
      in emit Pbuf_Free (IAP_tftp_cleanup_wr upcb (udp_client_send message (into_buffer ''message'' 40 message s))))"

definition wrq_check :: "'d flash_dev \<Rightarrow> 'c crc_dev \<Rightarrow> ('d, 'c) iap \<Rightarrow> ('d, 'c) iap res" where
  "wrq_check D C s =
     (let m = fmem D (flash s) in
      if tag_valid m USER_FLASH_FIRST_PAGE_ADDRESS then
        (case CAL_CRC C (hcrc s) m (crcu s) of (crc_result, c) \<Rightarrow>
         let s1 = s\<lparr>crcu := c\<rparr> in
         if tag_crc m USER_FLASH_FIRST_PAGE_ADDRESS = crc_result then
           Inr (udp_client_send (''[BOOT]  CRC same, Jump to new FW'' @ newline) s1)
         else restore_backup D (unlock_flash D
           (udp_client_send (''[BOOT]  CRC not same, Back to before FW'' @ newline) s1)))
      else Inr s)"

definition wrq_finish :: "'d flash_dev \<Rightarrow> 'c crc_dev \<Rightarrow> nat \<Rightarrow> ('d, 'c) iap \<Rightarrow> ('d, 'c) iap res" where
  "wrq_finish D C upcb s =
     res_bind (wrq_check D C (wrq_close upcb s)) (\<lambda>s1. Inr (NVIC_SystemReset (clear_boot_flag s1)))"

text \<open>The callback of a connection; \<open>None\<close> connections have no callback registered.\<close>

definition IAP_wrq_recv_callback :: "'d flash_dev \<Rightarrow> 'c crc_dev \<Rightarrow> u8 list \<Rightarrow> nat \<Rightarrow> udp_pkt \<Rightarrow> ('d, 'c) iap
    \<Rightarrow> ('d, 'c) iap res" where
  "IAP_wrq_recv_callback D C stack upcb pkt s =
     (case wrq_conn s upcb of None \<Rightarrow> Inr s
      | Some args \<Rightarrow>
        if length (payload pkt) \<noteq> tot_len pkt then
          Inr (udp_client_send (''Invalid data length'' @ newline) s)
        else res_bind (wrq_block D stack pkt args s) (\<lambda>(args1, s1).
          let s2 = snd (IAP_tftp_send_ack_packet upcb (block args1)
                (s1\<lparr>wrq_conn := (wrq_conn s1)(upcb \<mapsto> args1)\<rparr>)) in
          if length (payload pkt) < TFTP_DATA_PKT_LEN_MAX then wrq_finish D C upcb s2
          else Inr (emit Pbuf_Free s2)))"

section \<open>Requests\<close>

text \<open>The backup of the firmware, made for every packet that reaches port 69.\<close>

definition backup_firmware :: "'d flash_dev \<Rightarrow> ('d, 'c) iap \<Rightarrow> ('d, 'c) iap res" where
  "backup_firmware D s =
     (let m = fmem D (flash s) in
      if tag_valid m USER_FLASH_FIRST_PAGE_ADDRESS then
        let tmp1 = ''[BOOT]  Backup : '' @ flash_string m (USER_FLASH_FIRST_PAGE_ADDRESS + 16) @ newline;
            s1 = unlock_flash D (udp_client_send tmp1 (into_buffer ''tmp1'' 40 tmp1 s)) in
        res_bind (FLASH_Backup_Erase D BACKUP_FLASH_FIRST_PAGE_ADDRESS (flash s1)) (\<lambda>(_, f1).
        res_bind (FLASH_If_Write D BACKUP_FLASH_FIRST_PAGE_ADDRESS (flash_src D USER_FLASH_FIRST_PAGE_ADDRESS)
           (copy_len (fmem D f1) USER_FLASH_FIRST_PAGE_ADDRESS) f1) (\<lambda>(result, _, f2).
        let s2 = s1\<lparr>flash := f2\<rparr> in
        Inr (if result \<noteq> 0
             then let tmp2 = ''[BOOT]  fail Backup, error : '' @ decimal (unat result) @ newline
                  in udp_client_send tmp2 (into_buffer ''tmp2'' 40 tmp2 s2)
             else s2)))
      else Inr s)"

text \<open>The loop that looks for the end of the file name, starting at \<open>bs\<close>.\<close>

fun file_name :: "u8 list \<Rightarrow> u8 list res" where
  "file_name [] = Inl Oob"
| "file_name (b # bs) = (if b = 0 then Inr [] else res_bind (file_name bs) (\<lambda>n. Inr (b # n)))"

definition udp_new :: "('d, 'c) iap \<Rightarrow> nat option \<times> ('d, 'c) iap" where
  "udp_new s = (case outcome s of (ok, s1) \<Rightarrow>
     if ok then (Some (next_pcb s1), s1\<lparr>pcbs := next_pcb s1 # pcbs s1, next_pcb := next_pcb s1 + 1\<rparr>)
     else (None, s1))"

definition IAP_tftp_recv_callback :: "'d flash_dev \<Rightarrow> u32 \<Rightarrow> int \<Rightarrow> udp_pkt \<Rightarrow> ('d, 'c) iap
    \<Rightarrow> ('d, 'c) iap res" where
  "IAP_tftp_recv_callback D ip port pkt s =
     res_bind (backup_firmware D s) (\<lambda>s1.
     case udp_new s1 of (pcb, s2) \<Rightarrow>
     case pcb of None \<Rightarrow> Inr (udp_client_send (''Can not create pcb1 '' @ newline) s2)
     | Some upcb \<Rightarrow>
       (case outcome s2 of (bound, s3) \<Rightarrow>
        if \<not> bound then Inr (udp_client_send (''Can not create pcb2 '' @ newline) s3)
        else res_bind (IAP_tftp_decode_op (payload pkt)) (\<lambda>op.
          res_bind
            (if op \<noteq> TFTP_WRQ then
               let s4 = udp_client_send (''Bad TFTP opcode '' @ newline) s3
               in Inr (s4\<lparr>pcbs := remove1 upcb (pcbs s4)\<rparr>)
             else res_bind (file_name (drop 2 (payload pkt))) (\<lambda>name.
               let fname = map (\<lambda>b. char_of (unat b)) name;
                   message = ''[BOOT]  New : '' @ fname @ newline
               in IAP_tftp_process_write D upcb ip port (udp_client_send message
                    (into_buffer ''message'' 46 message (into_buffer ''filename'' 40 fname s3)))))
            (\<lambda>s5. Inr (emit Pbuf_Free s5)))))"

definition IAP_tftpd_init :: "('d, 'c) iap \<Rightarrow> ('d, 'c) iap" where
  "IAP_tftpd_init s =
     (case udp_new s of (pcb, s1) \<Rightarrow>
      case pcb of None \<Rightarrow> udp_client_send (''Can not create pcb3 '' @ newline) s1
      | Some upcb \<Rightarrow>
        (case outcome s1 of (bound, s2) \<Rightarrow>
          if bound then s2\<lparr>listening := True\<rparr>
          else udp_client_send (''Can not create pcb4 '' @ newline) s2))"

section \<open>Frames\<close>

text \<open>Messages and board operations leave the server's own state alone.\<close>

lemma more_fields:
  assumes "board.more s = board.more t"
  shows "flash s = flash t \<and> crcu s = crcu t \<and> hcrc s = hcrc t \<and> Flash_Write_Address s = Flash_Write_Address t
    \<and> total_count s = total_count t \<and> pcbs s = pcbs t \<and> next_pcb s = next_pcb t \<and> wrq_conn s = wrq_conn t
    \<and> listening s = listening t"
  using assms by (cases s, cases t) simp

lemmas board_frames [simp] =
  more_fields [OF more_frames(1)] more_fields [OF more_frames(2)] more_fields [OF more_frames(3)]
  more_fields [OF more_frames(4)] more_fields [OF more_frames(6)] more_fields [OF more_frames(7)]
  more_fields [OF send_more]

lemma send_ack_more: "board.more (snd (IAP_tftp_send_ack_packet upcb blk s)) = board.more s"
proof -
  have m: "outcome t = (b, t') \<Longrightarrow> board.more t' = board.more t" for b and t t' :: "('d, 'c) iap"
    using more_frames(2) [of t] by simp
  show ?thesis
    by (auto simp: IAP_tftp_send_ack_packet_def more_frames send_more dest!: m split: prod.splits)
qed

lemma send_choices: "choices s = [] \<Longrightarrow> choices (udp_client_send msg s) = []"
  by (simp add: udp_client_send_def)

lemmas ack_frames [simp] = more_fields [OF send_ack_more]

lemma ack_BKP1R [simp]: "BKP1R (snd (IAP_tftp_send_ack_packet upcb blk s)) = BKP1R s"
  by (auto simp: IAP_tftp_send_ack_packet_def client_send_frame(1) dest!: outcome_fields split: prod.splits)

section \<open>Receiving a file\<close>

text \<open>
  \<open>receiving D upcb img s\<close>: the transfer on \<open>upcb\<close> has stored the whole blocks \<open>img\<close> at the start
  of the user area, and the rest of that area is still erased.
\<close>

definition receiving :: "'d flash_dev \<Rightarrow> nat \<Rightarrow> u8 list \<Rightarrow> ('d, 'c) iap \<Rightarrow> bool" where
  "receiving D upcb img s \<longleftrightarrow>
     flash_idle D (flash s) \<and> length img mod 512 = 0 \<and> length img \<le> 0xC0000
     \<and> (\<exists>args. wrq_conn s upcb = Some args \<and> block args = int (length img div 512))
     \<and> Flash_Write_Address s = USER_FLASH_FIRST_PAGE_ADDRESS + of_nat (length img)
     \<and> (\<forall>i < length img. fmem D (flash s) (USER_FLASH_FIRST_PAGE_ADDRESS + of_nat i) = img ! i)
     \<and> (\<forall>i. length img \<le> i \<and> i < 0xC0000 \<longrightarrow> fmem D (flash s) (USER_FLASH_FIRST_PAGE_ADDRESS + of_nat i) = 0xFF)"

text \<open>A TFTP data packet.\<close>

definition data_packet :: "nat \<Rightarrow> u8 list \<Rightarrow> udp_pkt" where
  "data_packet blk bs = \<lparr>payload = [0, 3, of_nat (blk div 256), of_nat blk] @ bs, tot_len = 4 + length bs\<rparr>"

text \<open>A write request for the file \<open>name\<close>; \<open>mode\<close> is what follows the name.\<close>

definition write_request_packet :: "u8 list \<Rightarrow> u8 list \<Rightarrow> udp_pkt" where
  "write_request_packet name mode = \<lparr>payload = [0, 2] @ name @ [0] @ mode, tot_len = 3 + length name + length mode\<rparr>"

lemma file_name_terminated: "0 \<notin> set name \<Longrightarrow> file_name (name @ 0 # mode) = Inr name"
  by (induction name) auto

lemma data_packet_len [simp]:
  "length (payload (data_packet blk bs)) = 4 + length bs" "tot_len (data_packet blk bs) = 4 + length bs"
  "drop 4 (payload (data_packet blk bs)) = bs"
  by (simp_all add: data_packet_def)

lemma extract_data_packet:
  assumes "blk < 65536"
  shows "\<exists>b. IAP_tftp_extract_block (payload (data_packet blk bs)) = Inr b \<and> uint b = int blk"
proof -
  let ?b = "push_bit 8 (ucast (of_nat (blk div 256) :: u8)) OR ucast (of_nat blk :: u8) :: u16"
  have "?b = of_nat blk"
  proof (rule bit_word_eqI)
    fix n assume "n < LENGTH(16)"
    then have "n < 16" by simp
    moreover have "bit (blk div 256) k = bit blk (k + 8)" for k
      using bit_drop_bit_eq [of 8 blk] by (simp add: drop_bit_eq_div add.commute)
    ultimately show "bit ?b n = bit (of_nat blk :: u16) n"
      by (cases "n < 8") (auto simp: bit_simps)
  qed
  moreover have "uint (of_nat blk :: u16) = int blk"
    using assms by (simp add: unsigned_of_nat take_bit_nat_eq_self take_bit_eq_mod)
  ultimately show ?thesis
    by (simp add: IAP_tftp_extract_block_def data_packet_def)
qed

lemma word_count_eq: "n \<le> 512 \<Longrightarrow> unat (word_count n) = (n + 3) div 4"
proof -
  assume n: "n \<le> 512"
  have "n div 4 + (if n mod 4 \<noteq> 0 then 1 else 0) = (n + 3) div 4" by presburger
  moreover have "(n + 3) div 4 < 2 ^ 16" using n by simp
  ultimately show ?thesis
    by (simp only: word_count_def) (simp add: unsigned_of_nat take_bit_nat_eq_self del: of_nat_add)
qed

text \<open>The check at the end, by its two outcomes.\<close>

definition image_accepted :: "mem \<Rightarrow> bool" where
  "image_accepted m \<longleftrightarrow> tag_valid m USER_FLASH_FIRST_PAGE_ADDRESS \<longrightarrow>
     tag_crc m USER_FLASH_FIRST_PAGE_ADDRESS = crc32_mpeg2 (image_stream m (tag_size m USER_FLASH_FIRST_PAGE_ADDRESS))"

text \<open>A sequence of data packets; \<open>stack k\<close> is what the buffer holds when packet \<open>k\<close> arrives.\<close>

fun feed_blocks :: "'d flash_dev \<Rightarrow> 'c crc_dev \<Rightarrow> (nat \<Rightarrow> u8 list) \<Rightarrow> nat \<Rightarrow> nat \<Rightarrow> u8 list list \<Rightarrow> ('d, 'c) iap
    \<Rightarrow> ('d, 'c) iap res" where
  "feed_blocks D C stack upcb k [] s = Inr s"
| "feed_blocks D C stack upcb k (b # bs) s =
     res_bind (IAP_wrq_recv_callback D C (stack k) upcb (data_packet k b) s) (feed_blocks D C stack upcb (k + 1) bs)"

lemma feed_append:
  "feed_blocks D C stack upcb k (bs @ cs) s
     = res_bind (feed_blocks D C stack upcb k bs s) (feed_blocks D C stack upcb (k + length bs) cs)"
proof (induction bs arbitrary: k s)
  case (Cons b bs)
  then show ?case
    by (cases "IAP_wrq_recv_callback D C (stack k) upcb (data_packet k b) s") simp_all
qed simp

text \<open>
  What a finished transfer of \<open>img\<close> makes of the memory \<open>m\<close>: the image stands at the start of the
  user area in some \<open>m1\<close>; if it is accepted that is the final memory, else the backup is copied
  over it.
\<close>

definition holds_image :: "u8 list \<Rightarrow> mem \<Rightarrow> mem \<Rightarrow> bool" where
  "holds_image img m m1 \<longleftrightarrow>
     (\<forall>i < length img. m1 (USER_FLASH_FIRST_PAGE_ADDRESS + of_nat i) = img ! i)
     \<and> (\<forall>b. 0xC0000 \<le> unat (b - USER_FLASH_FIRST_PAGE_ADDRESS) \<longrightarrow> m1 b = m b)"

definition update_outcome :: "u8 list \<Rightarrow> mem \<Rightarrow> mem \<Rightarrow> bool" where
  "update_outcome img m m' \<longleftrightarrow> (\<exists>m1. holds_image img m m1
     \<and> (if image_accepted m1 then m' = m1
        else words_at m' USER_FLASH_FIRST_PAGE_ADDRESS (unat (copy_len m1 BACKUP_FLASH_FIRST_PAGE_ADDRESS))
          = words_at m1 BACKUP_FLASH_FIRST_PAGE_ADDRESS (unat (copy_len m1 BACKUP_FLASH_FIRST_PAGE_ADDRESS)))
     \<and> (\<forall>b. 0xC0000 \<le> unat (b - USER_FLASH_FIRST_PAGE_ADDRESS) \<longrightarrow> m' b = m b))"

locale iap_hw = flash_ctrl D busy + crc_unit C
  for D :: "'d flash_dev" and busy :: "'d \<Rightarrow> nat" and C :: "'c crc_dev"
begin

lemma block_write:
  fixes s :: "('d, 'c) iap"
  defines "U \<equiv> USER_FLASH_FIRST_PAGE_ADDRESS"
  assumes r: "receiving D upcb img s" and n: "length bs \<le> 512" "length img + length bs \<le> 0xC0000"
    and st: "length stack = 512"
  shows "\<exists>f'. FLASH_If_Write D (Flash_Write_Address s) (ram_src (words_of_bytes (bs @ drop (length bs) stack)))
      (word_count (length bs)) (flash s) = Inr (0, Flash_Write_Address s + 4 * of_nat ((length bs + 3) div 4), f')
    \<and> flash_idle D f'
    \<and> (\<forall>i < length img + length bs. fmem D f' (U + of_nat i) = (img @ bs) ! i)
    \<and> (\<forall>i. length img + 4 * ((length bs + 3) div 4) \<le> i \<and> i < 0xC0000 \<longrightarrow> fmem D f' (U + of_nat i) = 0xFF)
    \<and> (\<forall>b. 0xC0000 \<le> unat (b - U) \<longrightarrow> fmem D f' b = fmem D (flash s) b)"
proof -
  let ?L = "length img" and ?k = "(length bs + 3) div 4" and ?bytes = "bs @ drop (length bs) stack"
  let ?a = "U + of_nat ?L :: u32" and ?m = "fmem D (flash s)"
  let ?ws = "take ?k (words_of_bytes ?bytes)"
  have L: "?L mod 4 = 0" "?L \<le> 0xC0000" "?L + 4 * ?k \<le> 0xC0000"
    and a: "Flash_Write_Address s = ?a" and idle: "flash_idle D (flash s)"
    and old: "\<And>i. i < ?L \<Longrightarrow> ?m (U + of_nat i) = img ! i"
    and free: "\<And>i. ?L \<le> i \<Longrightarrow> i < 0xC0000 \<Longrightarrow> ?m (U + of_nat i) = 0xFF"
  proof -
    have "?L mod 512 = 0" using r by (simp add: receiving_def)
    then obtain q where q: "?L = 4 * q" by (auto elim!: dvdE simp: mod_eq_0_iff_dvd)
    then show "?L mod 4 = 0" by simp
    have "4 * ?k \<le> length bs + 3" by simp
    with n(2) q show "?L + 4 * ?k \<le> 0xC0000" by arith
  qed (use r in \<open>auto simp: receiving_def U_def\<close>)
  have ua: "unat ?a = 0x08040000 + ?L"
    using L(2) by (simp add: U_def reg_consts unat_word_ariths unat_of_nat_u32)
  have k: "?k \<le> 128" "4 * ?k \<le> length ?bytes" using n(1) st by simp_all
  have len: "length ?ws = ?k"
    using k by (simp add: length_words_of_bytes less_eq_div_iff_mult_less_eq)
  obtain f' where w: "FLASH_If_Write D ?a (ram_src (words_of_bytes ?bytes)) (word_count (length bs)) (flash s)
      = Inr (0, ?a + 4 * of_nat ?k, f')" and i': "flash_idle D f'"
    and m': "fmem D f' = prog_words ?a ?ws ?m"
  proof -
    have "\<forall>j < 4 * ?k. ?m (?a + of_nat j) = 0xFF"
      using free [of "?L + _"] L(3) by (simp add: add.assoc [symmetric])
    with write_ram [OF idle, of ?a "word_count (length bs)" "words_of_bytes ?bytes"] L ua k n(1) that
    show ?thesis by (force simp: word_count_eq length_words_of_bytes st)
  qed
  note area = prog_words_area [of ?L ?ws "0xC0000" _ U ?m, unfolded len, OF L(3), folded m', simplified]
  have new: "fmem D f' (U + of_nat (?L + j)) = ?bytes ! j" if "j < 4 * ?k" for j
    using prog_bytes [of ?k ?bytes j ?a ?m] that k by (simp add: m' add.assoc)
  have "fmem D f' (U + of_nat i) = (img @ bs) ! i" if "i < ?L + length bs" for i
  proof (cases "i < ?L")
    case False
    then have "i - ?L < length bs" "i - ?L < 4 * ?k" using that by (auto intro: less_le_trans)
    then show ?thesis using new [of "i - ?L"] False by (simp add: nth_append)
  qed (simp add: area(1) old nth_append)
  moreover have "fmem D f' (U + of_nat i) = 0xFF" if "?L + 4 * ?k \<le> i" "i < 0xC0000" for i
    using area(2) [of i] free [of i] that by simp
  moreover have "fmem D f' b = ?m b" if "0xC0000 \<le> unat (b - U)" for b
    using area(3) that by simp
  ultimately show ?thesis using w i' unfolding a by blast
qed

lemma block_step:
  fixes s :: "('d, 'c) iap"
  assumes r: "receiving D upcb img s" and a: "wrq_conn s upcb = Some args"
    and n: "0 < length bs" "length bs \<le> 512" "length img + length bs \<le> 0xC0000" and st: "length stack = 512"
  shows "\<exists>f'. wrq_block D stack (data_packet (length img div 512 + 1) bs) args s
      = Inr (args\<lparr>block := block args + 1, tot_bytes := tot_bytes args + int (length bs)\<rparr>,
          s\<lparr>total_count := total_count s + of_nat (length bs), flash := f',
            Flash_Write_Address := Flash_Write_Address s + 4 * of_nat ((length bs + 3) div 4)\<rparr>)
    \<and> flash_idle D f'
    \<and> (\<forall>i < length img + length bs. fmem D f' (USER_FLASH_FIRST_PAGE_ADDRESS + of_nat i) = (img @ bs) ! i)
    \<and> (\<forall>i. length img + 4 * ((length bs + 3) div 4) \<le> i \<and> i < 0xC0000
        \<longrightarrow> fmem D f' (USER_FLASH_FIRST_PAGE_ADDRESS + of_nat i) = 0xFF)
    \<and> (\<forall>b. 0xC0000 \<le> unat (b - USER_FLASH_FIRST_PAGE_ADDRESS) \<longrightarrow> fmem D f' b = fmem D (flash s) b)"
proof -
  let ?k = "length img div 512 + 1"
  have "?k < 65536" using n(3) by simp
  then obtain b where b: "IAP_tftp_extract_block (payload (data_packet ?k bs)) = Inr b" "uint b = int ?k"
    using extract_data_packet by blast
  have "block args + 1 = int ?k" using r a by (auto simp: receiving_def)
  with block_write [OF r n(2,3) st] b n(1,2) show ?thesis
    by (auto simp: wrq_block_def Let_def data_buffer_def reg_consts simp del: of_nat_add)
qed

lemma full_block:
  fixes s :: "('d, 'c) iap"
  assumes r: "receiving D upcb img s" and n: "length bs = 512" "length img + 512 \<le> 0xC0000"
    and st: "length stack = 512"
  shows "\<exists>s'. IAP_wrq_recv_callback D C stack upcb (data_packet (length img div 512 + 1) bs) s = Inr s'
    \<and> receiving D upcb (img @ bs) s' \<and> BKP1R s' = BKP1R s \<and> hcrc s' = hcrc s
    \<and> (\<forall>b. 0xC0000 \<le> unat (b - USER_FLASH_FIRST_PAGE_ADDRESS) \<longrightarrow> fmem D (flash s') b = fmem D (flash s) b)"
proof -
  obtain args where a: "wrq_conn s upcb = Some args" "block args = int (length img div 512)"
    using r by (auto simp: receiving_def)
  obtain f' where w: "wrq_block D stack (data_packet (length img div 512 + 1) bs) args s
      = Inr (args\<lparr>block := block args + 1, tot_bytes := tot_bytes args + int (length bs)\<rparr>,
          s\<lparr>total_count := total_count s + of_nat (length bs), flash := f',
            Flash_Write_Address := Flash_Write_Address s + 4 * of_nat ((length bs + 3) div 4)\<rparr>)"
    and f: "flash_idle D f'" "\<forall>i < length img + length bs.
        fmem D f' (USER_FLASH_FIRST_PAGE_ADDRESS + of_nat i) = (img @ bs) ! i"
      "\<forall>i. length img + 4 * ((length bs + 3) div 4) \<le> i \<and> i < 0xC0000
        \<longrightarrow> fmem D f' (USER_FLASH_FIRST_PAGE_ADDRESS + of_nat i) = 0xFF"
      "\<forall>b. 0xC0000 \<le> unat (b - USER_FLASH_FIRST_PAGE_ADDRESS) \<longrightarrow> fmem D f' b = fmem D (flash s) b"
    using block_step [OF r a(1) _ _ _ st, of bs] n by auto
  have len: "length (img @ bs) mod 512 = 0" "length (img @ bs) div 512 = length img div 512 + 1"
    using r n(1) by (auto simp: receiving_def)
  show ?thesis
    using a w f len n r by (auto simp: IAP_wrq_recv_callback_def receiving_def TFTP_DATA_PKT_LEN_MAX_def
        Let_def add.assoc)
qed

lemma feed_full_blocks:
  fixes s :: "('d, 'c) iap"
  assumes "receiving D upcb img s" "\<forall>b \<in> set bs. length b = 512" "\<And>k. length (stack k) = 512"
    and "length img + 512 * length bs \<le> 0xC0000"
  shows "\<exists>s'. feed_blocks D C stack upcb (length img div 512 + 1) bs s = Inr s'
    \<and> receiving D upcb (img @ concat bs) s' \<and> BKP1R s' = BKP1R s \<and> hcrc s' = hcrc s
    \<and> (\<forall>b. 0xC0000 \<le> unat (b - USER_FLASH_FIRST_PAGE_ADDRESS) \<longrightarrow> fmem D (flash s') b = fmem D (flash s) b)"
  using assms
proof (induction bs arbitrary: img s)
  case Nil
  then show ?case by simp
next
  case (Cons b bs)
  obtain s1 where s1: "IAP_wrq_recv_callback D C (stack (length img div 512 + 1)) upcb
      (data_packet (length img div 512 + 1) b) s = Inr s1" and r1: "receiving D upcb (img @ b) s1"
    and f1: "BKP1R s1 = BKP1R s" "hcrc s1 = hcrc s"
      "\<forall>b. 0xC0000 \<le> unat (b - USER_FLASH_FIRST_PAGE_ADDRESS) \<longrightarrow> fmem D (flash s1) b = fmem D (flash s) b"
    using full_block [of upcb img s b "stack (length img div 512 + 1)"] Cons.prems by auto
  have "length (img @ b) div 512 = length img div 512 + 1" using Cons.prems(2) by simp
  with Cons.IH [OF r1] Cons.prems s1 f1 show ?case by simp
qed

text \<open>The common shape of backup and restore: the words of \<open>src\<close> end up in \<open>dst\<close>.\<close>

lemma erase_and_copy:
  assumes ar: "(dst, src) \<in> areas" and e: "flash_idle D f1"
    and m1: "\<And>a. fmem D f1 a = (if unat (a - dst) < 0xC0000 then 0xFF else m a)"
  shows "copy_len (fmem D f1) src = copy_len m src"
    and "\<exists>a f2. FLASH_If_Write D dst (flash_src D src) (copy_len m src) f1 = Inr (0, a, f2) \<and> flash_idle D f2
      \<and> words_at (fmem D f2) dst (unat (copy_len m src)) = words_at m src (unat (copy_len m src))
      \<and> (\<forall>b. 0xC0000 \<le> unat (b - dst) \<longrightarrow> fmem D f2 b = m b)"
proof -
  have same: "words_at (fmem D f1) src n = words_at m src n" if "n \<le> 0x30000" for n
    using that by (intro other_area_words [OF ar]) (simp_all add: m1)
  show "copy_len (fmem D f1) src = copy_len m src"
    using same [of 1] by (simp add: copy_len_def tag_size_def words_at_def)
  have "fmem D f1 (dst + of_nat i) = 0xFF" if "i < 0xC0000" for i
    using that by (simp add: m1 unat_of_nat_u32)
  from copy_area [OF ar e this, of "copy_len m src"] same [of "unat (copy_len m src)"]
  show "\<exists>a f2. FLASH_If_Write D dst (flash_src D src) (copy_len m src) f1 = Inr (0, a, f2) \<and> flash_idle D f2
      \<and> words_at (fmem D f2) dst (unat (copy_len m src)) = words_at m src (unat (copy_len m src))
      \<and> (\<forall>b. 0xC0000 \<le> unat (b - dst) \<longrightarrow> fmem D f2 b = m b)"
    using unsigned_less [of "copy_len m src", where 'a = nat] by (simp add: m1)
qed

lemma restore:
  fixes s :: "('d, 'c) iap"
  defines "m \<equiv> fmem D (flash s)" and "U \<equiv> USER_FLASH_FIRST_PAGE_ADDRESS" and "B \<equiv> BACKUP_FLASH_FIRST_PAGE_ADDRESS"
  assumes "flash_idle D (flash s)"
  shows "\<exists>f'. restore_backup D s = Inr (s\<lparr>flash := f'\<rparr>) \<and> flash_idle D f'
    \<and> words_at (fmem D f') U (unat (copy_len m B)) = words_at m B (unat (copy_len m B))
    \<and> (\<forall>b. 0xC0000 \<le> unat (b - U) \<longrightarrow> fmem D f' b = m b)"
proof -
  obtain f1 where e: "FLASH_If_Erase D U (flash s) = Inr (0, f1)" "flash_idle D f1"
    and m1: "\<And>a. fmem D f1 a = (if unat (a - U) < 0xC0000 then 0xFF else m a)"
    using user_erase [OF assms(4)] by (auto simp: area_bounds U_def m_def)
  have "(U, B) \<in> areas" by (simp add: areas_def U_def B_def)
  from erase_and_copy [OF this e(2) m1] e(1) show ?thesis
    by (auto simp: restore_backup_def U_def B_def)
qed

lemma backup:
  fixes s :: "('d, 'c) iap"
  defines "m \<equiv> fmem D (flash s)" and "U \<equiv> USER_FLASH_FIRST_PAGE_ADDRESS" and "B \<equiv> BACKUP_FLASH_FIRST_PAGE_ADDRESS"
  assumes "flash_quiet D (flash s)" "tag_valid m U"
  shows "\<exists>s'. backup_firmware D s = Inr s' \<and> flash_idle D (flash s') \<and> BKP1R s' = BKP1R s \<and> hcrc s' = hcrc s
    \<and> next_pcb s' = next_pcb s \<and> (choices s = [] \<longrightarrow> choices s' = [])
    \<and> words_at (fmem D (flash s')) B (unat (copy_len m U)) = words_at m U (unat (copy_len m U))
    \<and> (\<forall>b. 0xC0000 \<le> unat (b - B) \<longrightarrow> fmem D (flash s') b = m b)"
proof -
  let ?f = "snd (HAL_FLASH_Unlock D (flash s))"
  have u: "flash_idle D ?f" "fmem D ?f = m" using unlock_idle [OF assms(4)] by (simp_all add: m_def)
  obtain f1 where e: "FLASH_Backup_Erase D B ?f = Inr (0, f1)" "flash_idle D f1"
    and m1: "\<And>a. fmem D f1 a = (if unat (a - B) < 0xC0000 then 0xFF else m a)"
    using backup_erase [OF u(1)] u(2) by (auto simp: area_bounds B_def)
  have "(B, U) \<in> areas" by (simp add: areas_def U_def B_def)
  from erase_and_copy [OF this e(2) m1] e(1) assms(5) show ?thesis
    by (auto simp: backup_firmware_def Let_def unlock_flash_def U_def B_def m_def client_send_frame(1)
        send_choices into_buffer_def)
qed

lemma write_request:
  fixes s :: "('d, 'c) iap"
  assumes "flash_quiet D (flash s)" "fst (outcome s)"
  shows "\<exists>s'. IAP_tftp_process_write D upcb ip port s = Inr s' \<and> receiving D upcb [] s'
    \<and> BKP1R s' = BKP1R s \<and> hcrc s' = hcrc s
    \<and> (\<forall>b. 0xC0000 \<le> unat (b - USER_FLASH_FIRST_PAGE_ADDRESS) \<longrightarrow> fmem D (flash s') b = fmem D (flash s) b)"
proof -
  obtain s1 where o: "outcome s = (True, s1)" using assms(2) by (cases "outcome s") simp
  have s1: "flash s1 = flash s" "BKP1R s1 = BKP1R s" "hcrc s1 = hcrc s"
    using more_fields [OF more_frames(2), of s] outcome_fields [OF o] o by simp_all
  let ?f = "FLASH_If_Init D (flash s)"
  have u: "flash_idle D ?f" "fmem D ?f = fmem D (flash s)"
    using unlock_idle [OF assms(1)] by (simp_all add: FLASH_If_Init_def)
  obtain f1 where e: "FLASH_If_Erase D USER_FLASH_FIRST_PAGE_ADDRESS ?f = Inr (0, f1)" "flash_idle D f1"
    and m1: "\<And>a. fmem D f1 a = (if unat (a - USER_FLASH_FIRST_PAGE_ADDRESS) < 0xC0000 then 0xFF else fmem D (flash s) a)"
    using user_erase [OF u(1)] u(2) by (auto simp: area_bounds)
  then show ?thesis
    by (simp add: IAP_tftp_process_write_def o s1 Let_def receiving_def client_send_frame(1) unat_of_nat_u32)
qed

lemma wrq_check_good:
  fixes s :: "('d, 'c) iap"
  assumes "crc_default (hcrc s)" "image_accepted (fmem D (flash s))"
  shows "\<exists>s'. wrq_check D C s = Inr s' \<and> flash s' = flash s"
  using assms cal_crc [OF assms(1), of "fmem D (flash s)" "crcu s"]
  by (cases "CAL_CRC C (hcrc s) (fmem D (flash s)) (crcu s)")
    (auto simp: wrq_check_def Let_def image_accepted_def)

lemma wrq_check_bad:
  fixes s :: "('d, 'c) iap"
  assumes "crc_default (hcrc s)" "\<not> image_accepted (fmem D (flash s))"
  shows "\<exists>t :: ('d, 'c) iap. wrq_check D C s = restore_backup D (unlock_flash D t) \<and> flash t = flash s"
  using assms cal_crc [OF assms(1), of "fmem D (flash s)" "crcu s"]
  by (cases "CAL_CRC C (hcrc s) (fmem D (flash s)) (crcu s)")
    (auto simp: wrq_check_def Let_def image_accepted_def)

lemma finish:
  fixes s :: "('d, 'c) iap"
  defines "m \<equiv> fmem D (flash s)"
  assumes "flash_idle D (flash s)" "crc_default (hcrc s)"
  shows "\<exists>s'. wrq_finish D C upcb s = Inr s' \<and> has_reset s' \<and> BKP1R s' = 0 \<and> flash_idle D (flash s')
    \<and> (if image_accepted m then fmem D (flash s') = m
       else words_at (fmem D (flash s')) USER_FLASH_FIRST_PAGE_ADDRESS (unat (copy_len m BACKUP_FLASH_FIRST_PAGE_ADDRESS))
         = words_at m BACKUP_FLASH_FIRST_PAGE_ADDRESS (unat (copy_len m BACKUP_FLASH_FIRST_PAGE_ADDRESS)))
    \<and> (\<forall>b. 0xC0000 \<le> unat (b - USER_FLASH_FIRST_PAGE_ADDRESS) \<longrightarrow> fmem D (flash s') b = m b)"
proof -
  have c: "flash (wrq_close upcb s) = flash s" "hcrc (wrq_close upcb s) = hcrc s"
    by (simp_all add: wrq_close_def IAP_tftp_cleanup_wr_def Let_def)
  have r: "has_reset (NVIC_SystemReset (clear_boot_flag t))" "BKP1R (NVIC_SystemReset (clear_boot_flag t)) = 0"
    for t :: "('d, 'c) iap"
    by (simp_all add: has_reset_def NVIC_SystemReset_def clear_boot_flag_def)
  show ?thesis
  proof (cases "image_accepted m")
    case True
    then show ?thesis
      using wrq_check_good [of "wrq_close upcb s"] assms c by (auto simp: wrq_finish_def r)
  next
    case False
    then obtain t :: "('d, 'c) iap" where t: "flash t = flash s"
      "wrq_check D C (wrq_close upcb s) = restore_backup D (unlock_flash D t)"
      using wrq_check_bad [of "wrq_close upcb s"] assms c by auto
    have "flash (unlock_flash D t) = flash s"
      using assms(2) t(1) by (simp add: unlock_flash_def HAL_FLASH_Unlock_def flash_idle_def unlocked_def)
    then show ?thesis
      using restore [of "unlock_flash D t"] assms(2) False t(2) by (auto simp: wrq_finish_def m_def r)
  qed
qed

lemma finish_outcome:
  fixes s :: "('d, 'c) iap"
  assumes "flash_idle D (flash s)" "crc_default (hcrc s)" "holds_image img m (fmem D (flash s))"
  shows "\<exists>s'. wrq_finish D C upcb s = Inr s' \<and> has_reset s' \<and> BKP1R s' = 0 \<and> flash_idle D (flash s')
    \<and> update_outcome img m (fmem D (flash s'))"
proof -
  have "\<And>b. 0xC0000 \<le> unat (b - USER_FLASH_FIRST_PAGE_ADDRESS) \<Longrightarrow> fmem D (flash s) b = m b"
    using assms(3) by (simp add: holds_image_def)
  with finish [OF assms(1,2), of upcb] assms(3) show ?thesis unfolding update_outcome_def by metis
qed

lemma last_block:
  fixes s :: "('d, 'c) iap"
  assumes r: "receiving D upcb img s" and n: "length bs < 512" "length img + length bs \<le> 0xC0000"
    and st: "length stack = 512" and c: "crc_default (hcrc s)"
  shows "\<exists>s'. IAP_wrq_recv_callback D C stack upcb (data_packet (length img div 512 + 1) bs) s = Inr s'
    \<and> has_reset s' \<and> BKP1R s' = 0 \<and> flash_idle D (flash s') \<and> update_outcome (img @ bs) (fmem D (flash s)) (fmem D (flash s'))"
proof -
  obtain args where a: "wrq_conn s upcb = Some args" "block args = int (length img div 512)"
    using r by (auto simp: receiving_def)
  let ?k = "length img div 512 + 1"
  have "?k < 65536" using n(2) by simp
  then obtain b where b: "IAP_tftp_extract_block (payload (data_packet ?k bs)) = Inr b" "uint b = int ?k"
    using extract_data_packet by blast
  obtain args1 s1 where w: "wrq_block D stack (data_packet ?k bs) args s = Inr (args1, s1)"
    and f: "flash_idle D (flash s1)" "hcrc s1 = hcrc s" "holds_image (img @ bs) (fmem D (flash s)) (fmem D (flash s1))"
  proof (cases "bs = []")
    case True
    then have "wrq_block D stack (data_packet ?k bs) args s = Inr (args\<lparr>block := block args + 1\<rparr>, s)"
      using a b by (simp add: wrq_block_def reg_consts)
    then show ?thesis using that r True by (auto simp: receiving_def holds_image_def)
  next
    case False
    with block_step [OF r a(1) _ _ n(2) st] n(1) that show ?thesis by (force simp: holds_image_def)
  qed
  let ?t = "snd (IAP_tftp_send_ack_packet upcb (block args1) (s1\<lparr>wrq_conn := (wrq_conn s1)(upcb \<mapsto> args1)\<rparr>))"
  have t: "flash ?t = flash s1" "hcrc ?t = hcrc s" using f(2) by simp_all
  obtain s' where "wrq_finish D C upcb ?t = Inr s'" and r': "has_reset s'" "BKP1R s' = 0" "flash_idle D (flash s')"
    and "update_outcome (img @ bs) (fmem D (flash s)) (fmem D (flash s'))"
    using finish_outcome [of ?t "img @ bs" "fmem D (flash s)"] f(1,3) c unfolding t by blast
  then show ?thesis
    using a w n(1) by (simp add: IAP_wrq_recv_callback_def TFTP_DATA_PKT_LEN_MAX_def Let_def)
qed

lemma request:
  fixes s :: "('d, 'c) iap"
  defines "m \<equiv> fmem D (flash s)" and "U \<equiv> USER_FLASH_FIRST_PAGE_ADDRESS" and "B \<equiv> BACKUP_FLASH_FIRST_PAGE_ADDRESS"
  assumes "flash_quiet D (flash s)" "tag_valid m U" "choices s = []" "0 \<notin> set name"
  shows "\<exists>s'. IAP_tftp_recv_callback D ip port (write_request_packet name mode) s = Inr s'
    \<and> receiving D (next_pcb s) [] s' \<and> hcrc s' = hcrc s
    \<and> words_at (fmem D (flash s')) B (unat (copy_len m U)) = words_at m U (unat (copy_len m U))
    \<and> (\<forall>b. 0xC0000 \<le> unat (b - U) \<and> 0xC0000 \<le> unat (b - B) \<longrightarrow> fmem D (flash s') b = m b)"
proof -
  obtain s1 where b: "backup_firmware D s = Inr s1" and s1: "flash_idle D (flash s1)" "hcrc s1 = hcrc s"
    "next_pcb s1 = next_pcb s" "choices s1 = []"
    and w: "words_at (fmem D (flash s1)) B (unat (copy_len m U)) = words_at m U (unat (copy_len m U))"
    and o: "\<And>b. 0xC0000 \<le> unat (b - B) \<Longrightarrow> fmem D (flash s1) b = m b"
    using backup [of s] assms by auto
  let ?n = "next_pcb s" and ?msg = "''[BOOT]  New : '' @ map (\<lambda>b. char_of (unat b)) name @ newline"
  define s2 where "s2 = s1\<lparr>pcbs := ?n # pcbs s1, next_pcb := ?n + 1\<rparr>"
  define s3 where "s3 = udp_client_send ?msg (into_buffer ''message'' 46 ?msg
    (into_buffer ''filename'' 40 (map (\<lambda>b. char_of (unat b)) name) s2))"
  have s3: "flash s3 = flash s1" "hcrc s3 = hcrc s" "choices s3 = []"
    using s1 by (simp_all add: s3_def s2_def send_choices into_buffer_def)
  obtain s4 where p: "IAP_tftp_process_write D ?n ip port s3 = Inr s4" and r: "receiving D ?n [] s4"
    and f: "hcrc s4 = hcrc s" "\<And>b. 0xC0000 \<le> unat (b - U) \<Longrightarrow> fmem D (flash s4) b = fmem D (flash s1) b"
    using write_request [of s3 ?n ip port] s3 s1 idle_quiet by (auto simp: U_def)
  have "IAP_tftp_recv_callback D ip port (write_request_packet name mode) s = Inr (emit Pbuf_Free s4)"
    using b p [unfolded s3_def s2_def] s1 file_name_terminated [OF assms(7)]
    by (simp add: IAP_tftp_recv_callback_def udp_new_def IAP_tftp_decode_op_def write_request_packet_def rd_def
        reg_consts Let_def)
  moreover have "words_at (fmem D (flash s4)) B (unat (copy_len m U)) = words_at (fmem D (flash s1)) B (unat (copy_len m U))"
    using unsigned_less [of "copy_len m U", where 'a = nat] f(2)
    by (intro other_area_words [of U]) (simp_all add: areas_def U_def B_def)
  moreover have "receiving D ?n [] (emit Pbuf_Free s4)" using r by (simp add: receiving_def)
  ultimately show ?thesis using w f o by simp
qed

lemma update:
  fixes s :: "('d, 'c) iap"
  defines "m \<equiv> fmem D (flash s)" and "U \<equiv> USER_FLASH_FIRST_PAGE_ADDRESS"
  assumes a: "flash_quiet D (flash s)" "tag_valid m U" "choices s = []" "0 \<notin> set name" and h: "crc_default (hcrc s)"
    and n: "0 < unat (copy_len m U)" and st: "\<And>k. length (stack k) = 512"
    and b: "\<forall>b \<in> set bs. length b = 512" "length last_bs < 512" "512 * length bs + length last_bs \<le> 0xC0000"
  shows "\<exists>s1 s'. IAP_tftp_recv_callback D ip port (write_request_packet name mode) s = Inr s1
    \<and> feed_blocks D C stack (next_pcb s) 1 (bs @ [last_bs]) s1 = Inr s' \<and> has_reset s' \<and> BKP1R s' = 0
    \<and> (\<exists>m1. (\<forall>i < length (concat bs @ last_bs). m1 (U + of_nat i) = (concat bs @ last_bs) ! i)
        \<and> (if image_accepted m1 then fmem D (flash s') = m1
           else words_at (fmem D (flash s')) U (unat (copy_len m U)) = words_at m U (unat (copy_len m U))))"
proof -
  let ?B = BACKUP_FLASH_FIRST_PAGE_ADDRESS and ?n = "unat (copy_len m U)"
  obtain s1 where s1: "IAP_tftp_recv_callback D ip port (write_request_packet name mode) s = Inr s1"
    "receiving D (next_pcb s) [] s1" "hcrc s1 = hcrc s" "words_at (fmem D (flash s1)) ?B ?n = words_at m U ?n"
    using request [of s name ip port mode] a by (auto simp: m_def U_def)
  have len: "length (concat bs) = 512 * length bs"
    using b(1) by (induction bs) auto
  obtain s2 where s2: "feed_blocks D C stack (next_pcb s) 1 bs s1 = Inr s2"
    "receiving D (next_pcb s) (concat bs) s2" "hcrc s2 = hcrc s"
    "\<And>a. 0xC0000 \<le> unat (a - U) \<Longrightarrow> fmem D (flash s2) a = fmem D (flash s1) a"
    using feed_full_blocks [where stack = stack, OF s1(2) b(1) st] b(3) s1(3) by (auto simp: U_def)
  obtain s' m1 where s': "IAP_wrq_recv_callback D C (stack (length bs + 1)) (next_pcb s)
      (data_packet (length bs + 1) last_bs) s2 = Inr s'" "has_reset s'" "BKP1R s' = 0"
    and m1: "holds_image (concat bs @ last_bs) (fmem D (flash s2)) m1"
      "if image_accepted m1 then fmem D (flash s') = m1
        else words_at (fmem D (flash s')) U (unat (copy_len m1 ?B)) = words_at m1 ?B (unat (copy_len m1 ?B))"
    using last_block [OF s2(2) b(2), of "stack (length bs + 1)"] b(3) st h s2(3) len
    by (auto simp: update_outcome_def U_def)
  have area: "(U, ?B) \<in> areas" and bound: "?n < 65536"
    using unsigned_less [of "copy_len m U", where 'a = nat] by (simp_all add: areas_def U_def)
  have "words_at m1 ?B ?n = words_at (fmem D (flash s1)) ?B ?n"
    using m1(1) s2(4) bound by (intro other_area_words [OF area]) (simp_all add: holds_image_def U_def)
  then have eq: "words_at m1 ?B ?n = words_at m U ?n" using s1(4) by simp
  have "copy_len m1 ?B = copy_len m U"
    using arg_cong [OF eq, of hd] n by (simp add: copy_len_def tag_size_def words_at_def hd_map upt_conv_Cons)
  then show ?thesis
    using s1(1) s2(1) s' m1 eq by (auto simp: feed_append holds_image_def U_def)
qed

end

interpretation iapsim: iap_hw flash_sim f_left crc_sim ..

section \<open>Properties\<close>

text \<open>A board with firmware in the user area, for the witnesses.\<close>

definition old_firmware :: mem where
  "old_firmware = prog_words USER_FLASH_FIRST_PAGE_ADDRESS [4, 0x12345678, 0, 0xA5A5A5A5] (\<lambda>a. 0xFF)"

definition iap_on :: "(fsim, crc_regs) iap" where
  "iap_on = \<lparr>BKP1R = 0xA5A5, upcb_boot = True, choices = [], events = [], flash = sim_with old_firmware,
     crcu = crc_regs_reset, hcrc = hcrc_boot, Flash_Write_Address = 0, total_count = 0, pcbs = [], next_pcb = 7,
     wrq_conn = (\<lambda>_. None), listening = True\<rparr>"

lemma old_firmware_words:
  "i < 4 \<Longrightarrow> read32 old_firmware (USER_FLASH_FIRST_PAGE_ADDRESS + 4 * of_nat i) = [4, 0x12345678, 0, 0xA5A5A5A5] ! i"
  unfolding old_firmware_def by (rule read32_prog_words) simp_all

lemma old_firmware_tag:
  "tag_valid old_firmware USER_FLASH_FIRST_PAGE_ADDRESS" "copy_len old_firmware USER_FLASH_FIRST_PAGE_ADDRESS = 257"
  using old_firmware_words [of 3] old_firmware_words [of 0]
  by (simp_all add: tag_valid_def copy_len_def tag_size_def)

lemma iap_on_fields:
  "flash_idle flash_sim (flash iap_on)" "fmem flash_sim (flash iap_on) = old_firmware" "choices iap_on = []"
  "crc_default (hcrc iap_on)" "next_pcb iap_on = 7" "wrq_conn iap_on 7 = None"
  by (simp_all add: iap_on_def sim_with_idle hcrc_boot_def crc_default_def)



text \<open>
  Property C4: storing a file. After a write request, any number of full data packets that fit the
  user area are stored there in order, the rest of the area stays erased, the connection counts
  the blocks, and the flash outside the user area, which holds the boot loader and the backup, is
  unchanged.
\<close>

theorem tftp_blocks_stored:
  fixes s :: "('d, 'c) iap"
  assumes "iap_hw D busy C" and "flash_quiet D (flash s)" and "fst (outcome s)" and "\<And>k. length (stack k) = 512"
    and "\<forall>b \<in> set bs. length b = 512" and "512 * length bs \<le> 0xC0000"
  shows "\<exists>s1 s'. IAP_tftp_process_write D upcb ip port s = Inr s1 \<and> feed_blocks D C stack upcb 1 bs s1 = Inr s'
    \<and> receiving D upcb (concat bs) s'
    \<and> (\<forall>b. 0xC0000 \<le> unat (b - USER_FLASH_FIRST_PAGE_ADDRESS) \<longrightarrow> fmem D (flash s') b = fmem D (flash s) b)"
  using iap_hw.write_request [OF assms(1-3), of upcb ip port]
    iap_hw.feed_full_blocks [OF assms(1), of upcb "[]" _ bs stack] assms(4-6)
  by fastforce

theorem tftp_blocks_stored_witness:
  "\<exists>s1 s'. IAP_tftp_process_write flash_sim 3 5 69 iap_on = Inr s1
    \<and> feed_blocks flash_sim crc_sim (\<lambda>k. replicate 512 0) 3 1 [replicate 512 9, replicate 512 8] s1 = Inr s'
    \<and> receiving flash_sim 3 (replicate 512 9 @ replicate 512 8) s'"
  using tftp_blocks_stored [OF iapsim.iap_hw_axioms, of iap_on "\<lambda>k. replicate 512 0"
      "[replicate 512 9, replicate 512 8]" 3 5 69]
  by (auto simp: iap_on_fields idle_quiet simp del: feed_blocks.simps)

text \<open>
  A repeated or unexpected block. A full data packet whose block number is not the next
  one changes neither the flash nor the connection; it is answered with the number of the last
  block taken, and its buffer is freed.
\<close>

lemma tftp_other_block_ignored:
  fixes s :: "('d, 'c) iap"
  assumes "wrq_conn s upcb = Some args" and "length (payload pkt) = 516" and "tot_len pkt = 516"
    and "IAP_tftp_extract_block (payload pkt) = Inr b" and "uint b \<noteq> block args + 1" and "choices s = []"
  shows "IAP_wrq_recv_callback D C stack upcb pkt s
    = Inr (emit Pbuf_Free (emit Pbuf_Free (emit (Tftp_Ack upcb (ack_packet (block args))) s)))"
proof -
  have "s\<lparr>wrq_conn := (wrq_conn s)(upcb \<mapsto> args)\<rparr> = s"
    using assms(1) by (simp add: fun_upd_idem)
  then show ?thesis
    using assms by (simp add: IAP_wrq_recv_callback_def wrq_block_def IAP_tftp_send_ack_packet_def Let_def reg_consts)
qed

text \<open>
  Any short packet ends the transfer. A data packet below the full length ends it with
  a reset also when its block number is not the next one, as in a repeated or reordered packet,
  without storing its data.
\<close>

lemma tftp_short_packet_resets:
  fixes s :: "('d, 'c) iap"
  assumes "iap_hw D busy C" and "flash_idle D (flash s)" and "crc_default (hcrc s)" and "wrq_conn s upcb = Some args"
    and "length (payload pkt) = tot_len pkt" and "tot_len pkt < 516"
    and "IAP_tftp_extract_block (payload pkt) = Inr b" and "uint b \<noteq> block args + 1"
  shows "\<exists>s'. IAP_wrq_recv_callback D C stack upcb pkt s = Inr s' \<and> has_reset s' \<and> BKP1R s' = 0
    \<and> (image_accepted (fmem D (flash s)) \<longrightarrow> fmem D (flash s') = fmem D (flash s))"
proof -
  let ?t = "snd (IAP_tftp_send_ack_packet upcb (block args) (s\<lparr>wrq_conn := (wrq_conn s)(upcb \<mapsto> args)\<rparr>))"
  have t: "flash ?t = flash s" "hcrc ?t = hcrc s" by simp_all
  obtain s' where "wrq_finish D C upcb ?t = Inr s'" "has_reset s'" "BKP1R s' = 0"
    "image_accepted (fmem D (flash s)) \<longrightarrow> fmem D (flash s') = fmem D (flash s)"
    using iap_hw.finish [OF assms(1), of ?t upcb] assms(2,3) unfolding t by auto
  then show ?thesis
    using assms(4-8) by (simp add: IAP_wrq_recv_callback_def wrq_block_def Let_def reg_consts)
qed

text \<open>
  Acknowledgements. What is sent for block number \<open>k\<close> is a four byte acknowledgement
  from which the receiver of the protocol reads \<open>k\<close> back, modulo the sixteen bits of the field.
\<close>

lemma ack_roundtrip:
  "length (ack_packet k) = 4 \<and> IAP_tftp_decode_op (ack_packet k) = Inr TFTP_ACK
   \<and> IAP_tftp_extract_block (ack_packet k) = Inr (of_int k)"
proof -
  let ?w = "of_int k :: u16"
  have "push_bit 8 (ucast (ucast (drop_bit 8 ?w) :: u8)) OR ucast (ucast ?w :: u8) = ?w"
    by (rule bit_word_eqI) (auto simp: bit_simps)
  then show ?thesis
    by (simp add: ack_packet_def IAP_tftp_set_block_def IAP_tftp_set_opcode_def IAP_tftp_extract_block_def
        IAP_tftp_decode_op_def reg_consts rd_def numeral_eq_Suc)
qed

lemma decimal_length: "10 ^ k \<le> n \<Longrightarrow> k < length (decimal n)"
proof (induction n arbitrary: k rule: decimal.induct)
  case (1 n)
  show ?case
  proof (cases k)
    case 0
    then show ?thesis by (simp add: decimal.simps [of n])
  next
    case (Suc j)
    have "10 ^ 1 \<le> (10 :: nat) ^ k" using Suc by (intro power_increasing) simp_all
    then have n: "\<not> n < 10" using "1.prems" by simp
    have "10 ^ j \<le> n div 10" using "1.prems" Suc by (simp add: less_eq_div_iff_mult_less_eq)
    then show ?thesis using "1.IH" [OF n, of j] n Suc by (simp add: decimal.simps [of n])
  qed
qed

text \<open>
  The closing message does not fit its buffer. For every transfer of a thousand bytes
  or more the text with the byte count is written past the end of the forty bytes of
  \<^verbatim>\<open>message\<close>.
\<close>

lemma tftp_total_message_overruns:
  fixes s :: "('d, 'c) iap"
  assumes "1000 \<le> unat (total_count s)" and "unat (total_count s) < 2 ^ 31"
  shows "\<exists>k. Overrun ''message'' 40 k \<in> set (events (wrq_close upcb s))"
proof -
  have "int (unat (total_count s)) < int (2 ^ 31)" using assms(2) by (simp only: of_nat_less_iff)
  then have "uint (total_count s) < 2 ^ 31" "- (2 ^ 31) \<le> uint (total_count s)"
    by (simp_all add: order_trans [OF _ uint_ge_0])
  then have "sint (total_count s) = int (unat (total_count s))"
    by (simp add: sint_uint signed_take_bit_int_eq_self)
  then have "3 < length (decimal_int (sint (total_count s)))"
    using decimal_length [of 3 "unat (total_count s)"] assms(1) by (simp add: decimal_int_def)
  then have "40 \<le> length (total_text (total_count s))" by (simp add: total_text_def newline_def)
  then have "\<exists>k. Overrun ''message'' 40 k
      \<in> set (events (into_buffer ''message'' 40 (total_text (total_count s)) s))"
    by (auto simp: into_buffer_overruns)
  moreover have "set (events t) \<subseteq> set (events (udp_client_send msg t))" for msg and t :: "('d, 'c) iap"
    using client_send_frame(2) [of msg t] by auto
  ultimately show ?thesis
    by (auto simp: wrq_close_def Let_def IAP_tftp_cleanup_wr_def)
qed



end
