(* ===== verification/Can.thy ===== *)
theory Can
  imports Prelude
begin

text \<open>
  Model of \<^verbatim>\<open>src/src/can.c\<close>: the CAN driver over the FPGA. Its static data is
  \<^verbatim>\<open>StdFilters\<close> (the 11 bit identifier filter of six buses), \<^verbatim>\<open>dma_idx\<close> and the
  set-up of the two DMA streams it alternates. Every register write goes to a log in program
  order, so that what the controller is told can be stated; register reads are arguments.
  Memory barriers have no effect in this model.
\<close>

unbundle bit_operations_syntax

section \<open>Data\<close>

datatype can_result =
  CAN_ERR_OK | CAN_ERR_RX_EMPTY | CAN_ERR_TX_FULL | CAN_ERR_ILL_BUFFER | CAN_ERR_ILL_PARAM
  | CAN_ERR_ILL_SETUP

definition CAN_BUS_MAX :: u8 where [reg_consts]: "CAN_BUS_MAX = 5"

definition CAN_BUFFER_RX_MSG :: u32 where [reg_consts]: "CAN_BUFFER_RX_MSG = 0x0001"
definition CAN_BUFFER_TX_MSG :: u32 where [reg_consts]: "CAN_BUFFER_TX_MSG = 0x1000"
definition CAN_BUFFER_TX_PAUSE :: u32 where [reg_consts]: "CAN_BUFFER_TX_PAUSE = 0x1002"

definition CAN_MSGTYPE_RTR :: u32 where [reg_consts]: "CAN_MSGTYPE_RTR = 0x01"
definition CAN_MSGTYPE_FDF :: u32 where [reg_consts]: "CAN_MSGTYPE_FDF = 0x10"

text \<open>The command codes of \<^verbatim>\<open>src/inc/pcan_core_fd.h\<close> that the driver sends.\<close>

definition PCAN_CORE_FD_CMD_RESETMODE :: u32
  where [reg_consts]: "PCAN_CORE_FD_CMD_RESETMODE = 0x001"
definition PCAN_CORE_FD_CMD_NORMALMODE :: u32
  where [reg_consts]: "PCAN_CORE_FD_CMD_NORMALMODE = 0x002"
definition PCAN_CORE_FD_CMD_LISTENONLYMODE :: u32
  where [reg_consts]: "PCAN_CORE_FD_CMD_LISTENONLYMODE = 0x003"
definition PCAN_CORE_FD_CMD_SET_TIMING_SLOW :: u32
  where [reg_consts]: "PCAN_CORE_FD_CMD_SET_TIMING_SLOW = 0x004"
definition PCAN_CORE_FD_CMD_SET_TIMING_FAST :: u32
  where [reg_consts]: "PCAN_CORE_FD_CMD_SET_TIMING_FAST = 0x005"
definition PCAN_CORE_FD_CMD_SET_STD_FILTER :: u32
  where [reg_consts]: "PCAN_CORE_FD_CMD_SET_STD_FILTER = 0x006"
definition PCAN_CORE_FD_CMD_SET_EN_OPTION :: u32
  where [reg_consts]: "PCAN_CORE_FD_CMD_SET_EN_OPTION = 0x00B"
definition PCAN_CORE_FD_CMD_CLR_DIS_OPTION :: u32
  where [reg_consts]: "PCAN_CORE_FD_CMD_CLR_DIS_OPTION = 0x00C"

text \<open>Register writes: the CAN block of one bus in the FPGA, and the DMA flag registers.\<close>

datatype reg_write =
    CAN_CNTL u8 u32
  | CAN_CMD_L u8 u32
  | CAN_CMD_H u8 u32
  | CAN_TX u8 u32
  | DMA2_LIFCR u32
  | DMA2_HIFCR u32

record dma_stream =
  M0AR :: u32
  FCR :: u32
  NDTR :: u32
  PAR :: u32
  DCR :: u32

record can_state =
  StdFilters :: "u32 list list"
  dma_idx :: u8
  Stream2 :: dma_stream
  Stream4 :: dma_stream
  can_log :: "reg_write list"

definition log_writes :: "reg_write list \<Rightarrow> can_state \<Rightarrow> can_state" where
  "log_writes ws s = s\<lparr>can_log := can_log s @ ws\<rparr>"

text \<open>The two halves of a 64 bit controller command, written low word first.\<close>

definition can_cmd :: "u8 \<Rightarrow> u32 \<Rightarrow> u32 \<Rightarrow> reg_write list" where
  "can_cmd hBus lo hi = [CAN_CMD_L hBus lo, CAN_CMD_H hBus hi]"

section \<open>Sending\<close>

text \<open>Record sizes by data length code, including the 20 byte record head.\<close>

definition TxBufferSize :: "u32 list" where
  "TxBufferSize = [20, 24, 24, 24, 24, 28, 28, 28, 28, 28, 28, 28, 28, 28, 28, 28]"

definition TxBufferSizeFD :: "u32 list" where
  "TxBufferSizeFD = [20, 24, 24, 24, 24, 28, 28, 28, 28, 32, 36, 40, 44, 52, 68, 84]"

text \<open>
  The caller's buffer is its list of 32 bit words. The bit fields of \<^verbatim>\<open>CANRxMsg_t\<close> and
  \<^verbatim>\<open>CANTxMsg_t\<close> lie in one word each: \<^verbatim>\<open>dlc\<close> in bits 4 to 7, \<^verbatim>\<open>msgtype\<close>
  in the upper half.
\<close>

definition msg_dlc :: "u32 \<Rightarrow> nat" where
  "msg_dlc w = unat (drop_bit 4 w AND 0xF)"

definition msg_msgtype :: "u32 \<Rightarrow> u32" where
  "msg_msgtype w = drop_bit 16 w"

definition tx_record_size :: "u32 \<Rightarrow> u32" where
  "tx_record_size w =
     (if msg_msgtype w AND CAN_MSGTYPE_RTR \<noteq> 0 then 20
      else if msg_msgtype w AND CAN_MSGTYPE_FDF \<noteq> 0 then TxBufferSizeFD ! msg_dlc w
      else TxBufferSize ! msg_dlc w)"

text \<open>
  The choice between receive message, transmit message and pause: the first word of the record
  sent and the index of the first word copied from the buffer; \<open>None\<close> for another buffer type.
\<close>

definition tx_head :: "u32 list \<Rightarrow> (u32 \<times> nat) option res" where
  "tx_head b = res_bind (rd b 0) (\<lambda>w0.
     if drop_bit 16 w0 AND 0x0FFF = CAN_BUFFER_RX_MSG then
       res_bind (rd b 5) (\<lambda>w. Inr (Some (push_bit 16 CAN_BUFFER_TX_MSG OR tx_record_size w, 3)))
     else if drop_bit 16 w0 AND 0xFFFF = CAN_BUFFER_TX_MSG then
       res_bind (rd b 3) (\<lambda>w. Inr (Some (push_bit 16 CAN_BUFFER_TX_MSG OR tx_record_size w, 1)))
     else if drop_bit 16 w0 AND 0xFFFF = CAN_BUFFER_TX_PAUSE then
       Inr (Some (push_bit 16 CAN_BUFFER_TX_PAUSE OR 8, 1))
     else Inr None)"

text \<open>The fall-through \<^verbatim>\<open>switch\<close> that copies up to 20 words to the transmit port.\<close>

fun tx_copy :: "u8 \<Rightarrow> nat \<Rightarrow> nat \<Rightarrow> u32 list \<Rightarrow> reg_write list res" where
  "tx_copy hBus 0 i b = Inr []"
| "tx_copy hBus (Suc n) i b =
     res_bind (rd b i) (\<lambda>w. res_bind (tx_copy hBus n (Suc i) b) (\<lambda>ws. Inr (CAN_TX hBus w # ws)))"

definition tx_switch :: "u8 \<Rightarrow> nat \<Rightarrow> nat \<Rightarrow> u32 list \<Rightarrow> reg_write list res" where
  "tx_switch hBus n i b = (if n \<le> 20 then tx_copy hBus n i b else Inr [])"

text \<open>The number of words after the first, from the size field of the first word.\<close>

definition tx_count :: "u32 \<Rightarrow> nat" where
  "tx_count type_size = unat (drop_bit 2 (type_size AND 0x0000FFFF) - 1)"

definition CAN_Write :: "u8 \<Rightarrow> u32 list option \<Rightarrow> u32 \<Rightarrow> can_state \<Rightarrow> (can_result \<times> can_state) res"
where
  "CAN_Write hBus buff CAN_STAT s =
     (if hBus > CAN_BUS_MAX then Inr (CAN_ERR_ILL_PARAM, s)
      else case buff of None \<Rightarrow> Inr (CAN_ERR_ILL_PARAM, s)
      | Some b \<Rightarrow>
        (let stat = (ucast CAN_STAT :: u16) in
         if stat AND 1 = 0 then Inr (CAN_ERR_TX_FULL, s)
         else res_bind (tx_head b) (\<lambda>h. case h of
             None \<Rightarrow> Inr (CAN_ERR_ILL_BUFFER, s)
           | Some (type_size, i) \<Rightarrow>
               res_bind (tx_switch hBus (tx_count type_size) i b)
                 (\<lambda>ws. Inr (CAN_ERR_OK, log_writes (CAN_TX hBus type_size # ws) s)))))"

section \<open>The identifier filter\<close>

text \<open>
  The three loops of \<^verbatim>\<open>CAN_FilterAdd\<close> and \<^verbatim>\<open>CAN_FilterRem\<close> differ in the
  update of a filter word only (\<^verbatim>\<open>|= m\<close> against \<^verbatim>\<open>&= ~m\<close>), which is the
  parameter \<open>upd\<close>. They run after the check \<^verbatim>\<open>ToID <= 0x7FF\<close>, so \<^verbatim>\<open>FromID\<close>
  stays below \<^verbatim>\<open>0x808\<close> and its 32 bit arithmetic cannot wrap: it is a natural number
  here, \<^verbatim>\<open>FromID >> 5\<close> is \<open>div 32\<close>, \<^verbatim>\<open>FromID & 0x1F\<close> is \<open>mod 32\<close>.
\<close>

definition filter_upd :: "(u32 \<Rightarrow> u32 \<Rightarrow> u32) \<Rightarrow> nat \<Rightarrow> u32 \<Rightarrow> u32 list \<Rightarrow> u32 list" where
  "filter_upd upd i m f = f[i div 32 := upd (f ! (i div 32)) (push_bit (i mod 32) m)]"

function filter_stage1 :: "(u32 \<Rightarrow> u32 \<Rightarrow> u32) \<Rightarrow> nat \<Rightarrow> nat \<Rightarrow> u32 list \<Rightarrow> nat \<times> u32 list" where
  "filter_stage1 upd FromID ToID f =
     (if FromID \<le> ToID \<and> FromID mod 8 \<noteq> 0
      then filter_stage1 upd (FromID + 1) ToID (filter_upd upd FromID 1 f) else (FromID, f))"
  by pat_completeness auto
termination
  by (relation "measure (\<lambda>(upd, from, to, f). to + 1 - from)") auto

function filter_stage2 :: "(u32 \<Rightarrow> u32 \<Rightarrow> u32) \<Rightarrow> nat \<Rightarrow> nat \<Rightarrow> u32 list \<Rightarrow> nat \<times> u32 list" where
  "filter_stage2 upd FromID ToID f =
     (if FromID + 7 \<le> ToID
      then filter_stage2 upd (FromID + 8) ToID (filter_upd upd FromID 0xFF f) else (FromID, f))"
  by pat_completeness auto
termination
  by (relation "measure (\<lambda>(upd, from, to, f). to + 1 - from)") auto

function filter_stage3 :: "(u32 \<Rightarrow> u32 \<Rightarrow> u32) \<Rightarrow> nat \<Rightarrow> nat \<Rightarrow> u32 list \<Rightarrow> u32 list" where
  "filter_stage3 upd FromID ToID f =
     (if FromID \<le> ToID
      then filter_stage3 upd (FromID + 1) ToID (filter_upd upd FromID 1 f) else f)"
  by pat_completeness auto
termination
  by (relation "measure (\<lambda>(upd, from, to, f). to + 1 - from)") auto

declare filter_stage1.simps [simp del] filter_stage2.simps [simp del] filter_stage3.simps [simp del]

definition filter_range :: "(u32 \<Rightarrow> u32 \<Rightarrow> u32) \<Rightarrow> nat \<Rightarrow> nat \<Rightarrow> u32 list \<Rightarrow> u32 list" where
  "filter_range upd FromID ToID f =
     (case filter_stage1 upd FromID ToID f of (i, f1) \<Rightarrow>
      case filter_stage2 upd i ToID f1 of (j, f2) \<Rightarrow> filter_stage3 upd j ToID f2)"

text \<open>The loop that writes the 64 filter words of a bus to its controller.\<close>

definition filter_commands :: "u8 \<Rightarrow> u32 list \<Rightarrow> reg_write list" where
  "filter_commands hBus f = concat (map (\<lambda>i.
     can_cmd hBus (push_bit 24 (of_nat i) OR PCAN_CORE_FD_CMD_SET_STD_FILTER) (f ! i)) [0..<64])"

definition set_filter :: "u8 \<Rightarrow> u32 list \<Rightarrow> can_state \<Rightarrow> can_state" where
  "set_filter hBus f s =
     log_writes (filter_commands hBus f) (s\<lparr>StdFilters := (StdFilters s)[unat hBus := f]\<rparr>)"

definition filter_or :: "u32 \<Rightarrow> u32 \<Rightarrow> u32" where
  "filter_or w m = w OR m"

definition filter_clear :: "u32 \<Rightarrow> u32 \<Rightarrow> u32" where
  "filter_clear w m = w AND NOT m"

definition CAN_FilterAdd :: "u8 \<Rightarrow> u8 \<Rightarrow> u32 \<Rightarrow> u32 \<Rightarrow> can_state \<Rightarrow> can_result \<times> can_state" where
  "CAN_FilterAdd hBus extended FromID ToID s =
     (if hBus > CAN_BUS_MAX then (CAN_ERR_ILL_PARAM, s)
      else if FromID > ToID \<or> ToID > 0x7FF then (CAN_ERR_ILL_PARAM, s)
      else (CAN_ERR_OK, set_filter hBus
        (filter_range filter_or (unat FromID) (unat ToID) (StdFilters s ! unat hBus)) s))"

definition CAN_FilterRem :: "u8 \<Rightarrow> u8 \<Rightarrow> u32 \<Rightarrow> u32 \<Rightarrow> can_state \<Rightarrow> can_result \<times> can_state" where
  "CAN_FilterRem hBus extended FromID ToID s =
     (if hBus > CAN_BUS_MAX then (CAN_ERR_ILL_PARAM, s)
      else if FromID > ToID \<or> ToID > 0x7FF then (CAN_ERR_ILL_PARAM, s)
      else (CAN_ERR_OK, set_filter hBus
        (filter_range filter_clear (unat FromID) (unat ToID) (StdFilters s ! unat hBus)) s))"

definition CAN_FilterReset :: "u8 \<Rightarrow> u8 \<Rightarrow> can_state \<Rightarrow> can_result \<times> can_state" where
  "CAN_FilterReset hBus extended s =
     (if hBus > CAN_BUS_MAX then (CAN_ERR_ILL_PARAM, s)
      else (CAN_ERR_OK, set_filter hBus (replicate 64 0) s))"

section \<open>Initialisation\<close>

record CANTiming_t =
  can_clk :: u32
  nom_brp :: u16
  nom_tseg1 :: u16
  nom_tseg2 :: u8
  nom_sjw :: u8
  warning_limit :: u8
  listen_only :: u8
  can_mode :: u8
  data_brp :: u16
  data_tseg1 :: u8
  data_tseg2 :: u8
  data_sjw :: u8

definition CAN_UnInitialize :: "u8 \<Rightarrow> can_state \<Rightarrow> can_result \<times> can_state" where
  "CAN_UnInitialize hBus s =
     (if hBus > CAN_BUS_MAX then (CAN_ERR_ILL_PARAM, s)
      else (CAN_ERR_OK, log_writes
        (can_cmd hBus (push_bit 12 (ucast hBus) OR PCAN_CORE_FD_CMD_RESETMODE) 0) s))"

text \<open>
  The \<^verbatim>\<open>do ... while\<close> loop that waits for the transmit cache to run empty. Its argument
  is the sequence of values the status register delivers; the rest of the sequence is returned.
\<close>

fun wait_tx_empty :: "u32 list \<Rightarrow> u32 list res" where
  "wait_tx_empty [] = Inl Hang"
| "wait_tx_empty (stat # stats) = (if stat AND 2 = 0 then wait_tx_empty stats else Inr stats)"

text \<open>The value written to \<^verbatim>\<open>CAN_CNTL\<close> for a clock rate, \<open>None\<close> for an unknown rate.\<close>

definition clock_cntl :: "u32 \<Rightarrow> u32 option" where
  "clock_cntl clk =
     (if clk = 80000000 then Some (push_bit 5 1 OR push_bit 2 4 OR 2)
      else if clk = 60000000 then Some (push_bit 5 1 OR push_bit 2 0 OR 1)
      else if clk = 40000000 then Some (push_bit 5 1 OR push_bit 2 1 OR 1)
      else if clk = 30000000 then Some (push_bit 5 1 OR push_bit 2 2 OR 1)
      else if clk = 24000000 then Some (push_bit 5 1 OR push_bit 2 3 OR 1)
      else if clk = 20000000 then Some (push_bit 5 1 OR push_bit 2 4 OR 1)
      else None)"

definition nominal_timing_cmd :: "CANTiming_t \<Rightarrow> u32 \<times> u32" where
  "nominal_timing_cmd t =
     (push_bit 24 (ucast (nom_sjw t) - 1) OR push_bit 16 (ucast (warning_limit t))
        OR PCAN_CORE_FD_CMD_SET_TIMING_SLOW,
      push_bit 16 (ucast (nom_brp t) - 1) OR push_bit 8 (ucast (nom_tseg1 t) - 1)
        OR (ucast (nom_tseg2 t) - 1))"

definition data_timing_cmd :: "CANTiming_t \<Rightarrow> u32 \<times> u32" where
  "data_timing_cmd t =
     (push_bit 24 (ucast (data_sjw t) - 1) OR PCAN_CORE_FD_CMD_SET_TIMING_FAST,
      push_bit 16 (ucast (data_brp t) - 1) OR push_bit 8 (ucast (data_tseg1 t) - 1)
        OR (ucast (data_tseg2 t) - 1))"

definition mode_cmds :: "u8 \<Rightarrow> u8 \<Rightarrow> reg_write list option" where
  "mode_cmds hBus mode =
     (if mode = 0 then
        Some (can_cmd hBus (push_bit 20 1 OR push_bit 18 1 OR PCAN_CORE_FD_CMD_CLR_DIS_OPTION) 0)
      else if mode = 1 then
        Some (can_cmd hBus (push_bit 18 1 OR PCAN_CORE_FD_CMD_SET_EN_OPTION) 0
          @ can_cmd hBus (push_bit 20 1 OR PCAN_CORE_FD_CMD_CLR_DIS_OPTION) 0)
      else if mode = 2 then
        Some (can_cmd hBus (push_bit 20 1 OR push_bit 18 1 OR PCAN_CORE_FD_CMD_SET_EN_OPTION) 0)
      else None)"

definition start_cmd :: "u8 \<Rightarrow> u8 \<Rightarrow> reg_write list" where
  "start_cmd hBus lo =
     (if lo \<noteq> 0 then can_cmd hBus PCAN_CORE_FD_CMD_LISTENONLYMODE 0
      else can_cmd hBus PCAN_CORE_FD_CMD_NORMALMODE 0)"

definition CAN_Initialize ::
  "u8 \<Rightarrow> CANTiming_t option \<Rightarrow> u32 list \<Rightarrow> can_state \<Rightarrow> (can_result \<times> u32 list \<times> can_state) res"
where
  "CAN_Initialize hBus timing stats s =
     (if hBus > CAN_BUS_MAX then Inr (CAN_ERR_ILL_PARAM, stats, s)
      else case timing of None \<Rightarrow> Inr (CAN_ERR_ILL_PARAM, stats, s)
      | Some t \<Rightarrow>
        res_bind (wait_tx_empty stats) (\<lambda>stats'.
          let s1 = log_writes
                (can_cmd hBus (push_bit 12 (ucast hBus) OR PCAN_CORE_FD_CMD_RESETMODE) 0
                 @ [CAN_CNTL hBus (push_bit 6 1), CAN_CNTL hBus (push_bit 6 2)]) s in
          case clock_cntl (can_clk t) of
            None \<Rightarrow> Inr (CAN_ERR_ILL_SETUP, stats', s1)
          | Some c \<Rightarrow>
              let s2 = log_writes
                    (CAN_CNTL hBus c
                     # can_cmd hBus (fst (nominal_timing_cmd t)) (snd (nominal_timing_cmd t))
                     @ can_cmd hBus (fst (data_timing_cmd t)) (snd (data_timing_cmd t))) s1 in
              case mode_cmds hBus (can_mode t) of
                None \<Rightarrow> Inr (CAN_ERR_ILL_SETUP, stats', s2)
              | Some ms \<Rightarrow>
                  Inr (CAN_ERR_OK, stats', log_writes (ms @ start_cmd hBus (listen_only t)) s2)))"

section \<open>Receiving\<close>

definition DMA_IDX_2 :: u8 where [reg_consts]: "DMA_IDX_2 = 0"
definition DMA_IDX_4 :: u8 where [reg_consts]: "DMA_IDX_4 = 1"
definition DMA_RD_SZ :: u32 where [reg_consts]: "DMA_RD_SZ = 24"

text \<open>\<^verbatim>\<open>&FPGA->SYS_MSG_BOX\<close>: word 32 of the block at \<^verbatim>\<open>0x64000000\<close>.\<close>

definition SYS_MSG_BOX :: u32 where [reg_consts]: "SYS_MSG_BOX = 0x64000080"

definition DMA_CR_MEM2MEM :: u32 where
  "DMA_CR_MEM2MEM = push_bit 23 1 OR push_bit 21 1 OR push_bit 13 2 OR push_bit 11 2
     OR push_bit 10 1 OR push_bit 9 1 OR push_bit 6 2"

definition dma_prepare :: "dma_stream \<Rightarrow> dma_stream" where
  "dma_prepare st = st\<lparr>FCR := 7, NDTR := DMA_RD_SZ, PAR := SYS_MSG_BOX, DCR := DMA_CR_MEM2MEM\<rparr>"

definition dma_start :: "u32 \<Rightarrow> dma_stream \<Rightarrow> dma_stream" where
  "dma_start buff st = st\<lparr>M0AR := buff, DCR := DCR st OR 1\<rparr>"

text \<open>
  The DMA engine is a parameter \<open>dma\<close>: what an enabled stream delivers to its target from the
  words at its source, with the stream's registers afterwards; \<open>None\<close> if its enable bit never
  drops, so that the waiting loop hangs. \<open>buff\<close> is the target address (\<open>None\<close> for the null
  pointer), \<open>SYS_STAT\<close> the FPGA status, \<open>box\<close> the words of the message box.
\<close>

type_synonym dma_engine_fn = "dma_stream \<Rightarrow> u32 list \<Rightarrow> (u32 list \<times> dma_stream) option"

definition CAN_Read :: "dma_engine_fn \<Rightarrow> u8 \<Rightarrow> u32 option \<Rightarrow> u32 \<Rightarrow> u32 list \<Rightarrow> can_state
    \<Rightarrow> (can_result \<times> u32 list option \<times> can_state) res" where
  "CAN_Read dma hBus buff SYS_STAT box s =
     (case buff of None \<Rightarrow> Inr (CAN_ERR_ILL_PARAM, None, s)
      | Some addr \<Rightarrow>
        if SYS_STAT AND 1 = 0 then Inr (CAN_ERR_RX_EMPTY, None, s)
        else if dma_idx s = DMA_IDX_2 then
          let s1 = log_writes [DMA2_HIFCR (push_bit 0 0x3F)]
                (s\<lparr>Stream2 := dma_start addr (Stream2 s), Stream4 := dma_prepare (Stream4 s),
                   dma_idx := DMA_IDX_4\<rparr>) in
          (case dma (Stream2 s1) box of None \<Rightarrow> Inl Hang
           | Some (ws, st) \<Rightarrow> Inr (CAN_ERR_OK, Some ws, s1\<lparr>Stream2 := st\<rparr>))
        else
          let s1 = log_writes [DMA2_LIFCR (push_bit 16 0x3F)]
                (s\<lparr>Stream4 := dma_start addr (Stream4 s), Stream2 := dma_prepare (Stream2 s),
                   dma_idx := DMA_IDX_2\<rparr>) in
          (case dma (Stream4 s1) box of None \<Rightarrow> Inl Hang
           | Some (ws, st) \<Rightarrow> Inr (CAN_ERR_OK, Some ws, s1\<lparr>Stream4 := st\<rparr>)))"

definition CAN_Startup :: "can_state \<Rightarrow> can_state" where
  "CAN_Startup s =
     log_writes [DMA2_LIFCR (push_bit 16 0x3F)]
       (s\<lparr>dma_idx := DMA_IDX_2, Stream2 := dma_prepare (Stream2 s)\<rparr>)"

section \<open>Vocabulary of the properties\<close>

text \<open>Data bytes of a CAN FD frame by data length code; a classical frame carries 8 at most, a
  remote request none. Bits 16 and 20 of the word are the flags RTR and FDF.\<close>

definition dlc_bytes :: "nat list" where
  "dlc_bytes = [0, 1, 2, 3, 4, 5, 6, 7, 8, 12, 16, 20, 24, 32, 48, 64]"

definition frame_bytes :: "u32 \<Rightarrow> nat" where
  "frame_bytes w =
     (if bit w 16 then 0 else if bit w 20 then dlc_bytes ! msg_dlc w else min 8 (dlc_bytes ! msg_dlc w))"

text \<open>Whether identifier \<open>i\<close> passes a filter table.\<close>

definition passes :: "u32 list \<Rightarrow> nat \<Rightarrow> bool" where
  "passes f i \<longleftrightarrow> bit (f ! (i div 32)) (i mod 32)"

definition filters_wf :: "can_state \<Rightarrow> bool" where
  "filters_wf s \<longleftrightarrow> length (StdFilters s) = 6 \<and> (\<forall>f \<in> set (StdFilters s). length f = 64)"

definition accepted :: "can_state \<Rightarrow> u8 \<Rightarrow> nat set" where
  "accepted s hBus = {i. i < 2048 \<and> passes (StdFilters s ! unat hBus) i}"

definition can_reset :: can_state where
  "can_reset = \<lparr>StdFilters = replicate 6 (replicate 64 0), dma_idx = 0,
     Stream2 = \<lparr>M0AR = 0, FCR = 0, NDTR = 0, PAR = 0, DCR = 0\<rparr>,
     Stream4 = \<lparr>M0AR = 0, FCR = 0, NDTR = 0, PAR = 0, DCR = 0\<rparr>, can_log = []\<rparr>"

definition prepared :: "dma_stream \<Rightarrow> bool" where
  "prepared st \<longleftrightarrow> FCR st = 7 \<and> NDTR st = DMA_RD_SZ \<and> PAR st = SYS_MSG_BOX \<and> DCR st = DMA_CR_MEM2MEM"

definition dma_inv :: "can_state \<Rightarrow> bool" where
  "dma_inv s \<longleftrightarrow> dma_idx s = DMA_IDX_2 \<and> prepared (Stream2 s) \<or> dma_idx s = DMA_IDX_4 \<and> prepared (Stream4 s)"

fun read_seq :: "dma_engine_fn \<Rightarrow> u32 \<Rightarrow> u32 list list \<Rightarrow> can_state \<Rightarrow> (u32 list option list \<times> can_state) res" where
  "read_seq dma addr [] s = Inr ([], s)"
| "read_seq dma addr (box # boxes) s =
     res_bind (CAN_Read dma 0xFF (Some addr) 1 box s) (\<lambda>(r, ws, s1).
     res_bind (read_seq dma addr boxes s1) (\<lambda>(out, s2). Inr (ws # out, s2)))"

text \<open>A memory-to-memory transfer as the DMA controller documents it.\<close>

definition dma_m2m :: dma_engine_fn where
  "dma_m2m st box =
     (if bit (DCR st) 0 \<and> bit (FCR st) 2 \<and> PAR st = SYS_MSG_BOX
      then Some (take (unat (NDTR st)) box, st\<lparr>NDTR := 0, DCR := DCR st AND NOT 1\<rparr>) else None)"

definition start_write :: "u8 \<Rightarrow> reg_write \<Rightarrow> bool" where
  "start_write hBus w \<longleftrightarrow> w = CAN_CMD_L hBus PCAN_CORE_FD_CMD_NORMALMODE
     \<or> w = CAN_CMD_L hBus PCAN_CORE_FD_CMD_LISTENONLYMODE"

text \<open>The value ranges \<^verbatim>\<open>src/inc/can.h\<close> documents for the fields of
  \<^verbatim>\<open>CANTiming_t\<close>, and the fields of a timing command as the controller splits it.\<close>

definition timing_ok :: "CANTiming_t \<Rightarrow> bool" where
  "timing_ok t \<longleftrightarrow>
     nom_brp t \<in> {1..1024} \<and> nom_tseg1 t \<in> {1..256} \<and> nom_tseg2 t \<in> {1..128} \<and> nom_sjw t \<in> {1..128}
     \<and> data_brp t \<in> {1..1024} \<and> data_tseg1 t \<in> {1..32} \<and> data_tseg2 t \<in> {1..16} \<and> data_sjw t \<in> {1..16}"

text \<open>The row \<^verbatim>\<open>_40M___1M_80____4M_80_ISO\<close> of \<^verbatim>\<open>src/inc/can_user.h\<close>.\<close>

definition timing_1M_4M :: CANTiming_t where
  "timing_1M_4M = \<lparr>can_clk = 40000000, nom_brp = 1, nom_tseg1 = 31, nom_tseg2 = 8, nom_sjw = 8,
     warning_limit = 96, listen_only = 0, can_mode = 1,
     data_brp = 1, data_tseg1 = 7, data_tseg2 = 2, data_sjw = 2\<rparr>"

definition timing_fields :: "u32 \<times> u32 \<Rightarrow> u32 \<times> u32 \<times> u32 \<times> u32 \<times> u32 \<times> u32" where
  "timing_fields c = (case c of (lo, hi) \<Rightarrow>
     (lo AND 0xFFFF, drop_bit 16 lo AND 0xFF, drop_bit 24 lo + 1,
      drop_bit 16 hi + 1, (drop_bit 8 hi AND 0xFF) + 1, (hi AND 0xFF) + 1))"

section \<open>Sending\<close>

lemma sixteen_cases:
  assumes "n < (16::nat)"
  shows "n \<in> set [0,1,2,3,4,5,6,7,8,9,10,11,12,13,14,15]"
  using assms by (simp; presburger)

lemma msg_dlc_lt: "msg_dlc w < 16"
proof -
  have "drop_bit 4 w AND 0xF \<le> (0xF :: u32)" by (rule word_and_le1)
  then show ?thesis by (simp add: msg_dlc_def word_le_nat_alt)
qed

lemma tx_record_size_range:
  "tx_record_size w \<in> {20, 24, 28, 32, 36, 40, 44, 52, 68, 84}"
proof -
  have "msg_dlc w \<in> set [0,1,2,3,4,5,6,7,8,9,10,11,12,13,14,15]"
    using msg_dlc_lt by (rule sixteen_cases)
  then show ?thesis
    by (auto simp: tx_record_size_def TxBufferSize_def TxBufferSizeFD_def)
qed

lemma tx_copy_ok:
  "i + n \<le> length b \<Longrightarrow> tx_copy hBus n i b = Inr (map (CAN_TX hBus) (take n (drop i b)))"
  by (induction n arbitrary: i) (auto simp: take_Suc_drop)

lemma msgtype_bits:
  "(msg_msgtype w AND CAN_MSGTYPE_RTR = 0) \<longleftrightarrow> \<not> bit w 16"
  "(msg_msgtype w AND CAN_MSGTYPE_FDF = 0) \<longleftrightarrow> \<not> bit w 20"
  using and_exp_eq_0_iff_not_bit [of "drop_bit 16 w" 0] and_exp_eq_0_iff_not_bit [of "drop_bit 16 w" 4]
  by (simp_all add: msg_msgtype_def reg_consts bit_drop_bit_eq)

lemma tx_record_size_frame: "unat (tx_record_size w) = 20 + 4 * ((frame_bytes w + 3) div 4)"
proof -
  have "msg_dlc w \<in> set [0,1,2,3,4,5,6,7,8,9,10,11,12,13,14,15]"
    using msg_dlc_lt by (rule sixteen_cases)
  then show ?thesis
    by (auto simp: tx_record_size_def TxBufferSize_def TxBufferSizeFD_def msgtype_bits
        frame_bytes_def dlc_bytes_def)
qed

lemma tx_word_count:
  "tx_count (push_bit 16 CAN_BUFFER_TX_MSG OR tx_record_size w) = 4 + (frame_bytes w + 3) div 4"
proof -
  have "tx_count (push_bit 16 CAN_BUFFER_TX_MSG OR tx_record_size w)
      = unat (tx_record_size w) div 4 - 1"
    using tx_record_size_range [of w] by (auto simp: tx_count_def reg_consts)
  then show ?thesis by (simp add: tx_record_size_frame)
qed

lemma frame_words_le: "frame_bytes w \<le> 64"
proof -
  have "msg_dlc w \<in> set [0,1,2,3,4,5,6,7,8,9,10,11,12,13,14,15]"
    using msg_dlc_lt by (rule sixteen_cases)
  then show ?thesis
    by (auto simp: frame_bytes_def dlc_bytes_def)
qed

lemma tx_switch_record:
  assumes "i + 20 \<le> length b"
  shows "tx_switch hBus (tx_count (push_bit 16 CAN_BUFFER_TX_MSG OR tx_record_size w)) i b
    = Inr (map (CAN_TX hBus) (take (4 + (frame_bytes w + 3) div 4) (drop i b)))"
proof -
  have "(frame_bytes w + 3) div 4 \<le> 16"
    using frame_words_le [of w] by simp
  then show ?thesis using assms
    by (simp add: tx_switch_def tx_word_count tx_copy_ok)
qed

lemma mask_12_of_16: "x AND 0xFFFF = (c :: u32) \<Longrightarrow> x AND 0x0FFF = c AND 0x0FFF"
  by (auto simp: and.assoc)

lemma tx_head_rx:
  assumes "6 \<le> length b" "drop_bit 16 (b ! 0) AND 0x0FFF = CAN_BUFFER_RX_MSG"
  shows "tx_head b = Inr (Some (push_bit 16 CAN_BUFFER_TX_MSG OR tx_record_size (b ! 5), 3))"
proof -
  have "b \<noteq> []" using assms(1) by auto
  then show ?thesis using assms by (simp add: tx_head_def)
qed

lemma tx_head_tx:
  assumes "6 \<le> length b" "drop_bit 16 (b ! 0) AND 0xFFFF = CAN_BUFFER_TX_MSG"
  shows "tx_head b = Inr (Some (push_bit 16 CAN_BUFFER_TX_MSG OR tx_record_size (b ! 3), 1))"
proof -
  have "b \<noteq> []" using assms(1) by auto
  moreover have "drop_bit 16 (b ! 0) AND 0x0FFF \<noteq> CAN_BUFFER_RX_MSG"
    using mask_12_of_16 [OF assms(2)] by (simp add: reg_consts)
  ultimately show ?thesis using assms by (simp add: tx_head_def)
qed

lemma tx_count_pause: "tx_count (push_bit 16 CAN_BUFFER_TX_PAUSE OR 8) = 1"
  by (simp add: tx_count_def reg_consts)

lemma tx_head_bounds:
  assumes "tx_head b = Inr (Some (ts, i))" "23 \<le> length b"
  shows "i + tx_count ts \<le> length b"
  using assms frame_words_le [of "b ! 5"] frame_words_le [of "b ! 3"]
  by (auto simp: tx_head_def res_bind_eq_Inr tx_word_count tx_count_pause split: if_splits)

lemma tx_head_total:
  assumes "23 \<le> length b"
  shows "\<exists>h. tx_head b = Inr h"
proof -
  have "0 < length b" "3 < length b" "5 < length b" using assms by auto
  then show ?thesis by (simp add: tx_head_def)
qed


text \<open>
  Property C11: forwarding a received message. For a receive record of 23 words on an existing bus
  with room in the transmit cache, \<^verbatim>\<open>CAN_Write\<close> sends one record: a head with the
  transmit type and the record size, then tag, length code and type, identifier, and as many data
  words as hold all data bytes of the frame, in the order of the buffer and nothing else.
\<close>

theorem CAN_Write_forwards_rx:
  assumes "hBus \<le> CAN_BUS_MAX" and "bit CAN_STAT 0" and "length b = 23"
    and "drop_bit 16 (b ! 0) AND 0x0FFF = CAN_BUFFER_RX_MSG"
  shows "CAN_Write hBus (Some b) CAN_STAT s = Inr (CAN_ERR_OK, log_writes (map (CAN_TX hBus)
      ((push_bit 16 CAN_BUFFER_TX_MSG OR of_nat (20 + 4 * ((frame_bytes (b ! 5) + 3) div 4)))
       # take (4 + (frame_bytes (b ! 5) + 3) div 4) (drop 3 b))) s)"
proof -
  have st: "(ucast CAN_STAT :: u16) AND 1 \<noteq> 0"
    using assms(2) by (simp add: word_and_1_eq bit_ucast_iff)
  have sz: "of_nat (20 + 4 * ((frame_bytes (b ! 5) + 3) div 4)) = tx_record_size (b ! 5)"
    by (simp flip: tx_record_size_frame)
  show ?thesis unfolding sz
    using assms(1,3) st
    by (simp add: CAN_Write_def tx_head_rx [OF _ assms(4)] tx_switch_record not_less)
qed

theorem CAN_Write_forwards_rx_witness:
  "CAN_Write 2 (Some (0x00010000 # replicate 4 0 @ [0x00100090] @ replicate 17 3)) 1 can_reset
   = Inr (CAN_ERR_OK, log_writes (map (CAN_TX 2)
       (0x10000020 # take 7 (drop 3 (0x00010000 # replicate 4 0 @ [0x00100090] @ replicate 17 3))))
       can_reset)"
  using CAN_Write_forwards_rx
    [of 2 1 "0x00010000 # replicate 4 0 @ [0x00100090] @ replicate 17 3" can_reset]
  by (simp add: reg_consts frame_bytes_def dlc_bytes_def msg_dlc_def nth_append bit_1_iff)

text \<open>
  Sending a transmit message. The same contract for a 21 word transmit record: the
  words after the head are the words of the buffer from index 1.
\<close>

lemma CAN_Write_sends_tx:
  assumes "hBus \<le> CAN_BUS_MAX" and "bit CAN_STAT 0" and "length b = 21"
    and "drop_bit 16 (b ! 0) AND 0xFFFF = CAN_BUFFER_TX_MSG"
  shows "CAN_Write hBus (Some b) CAN_STAT s = Inr (CAN_ERR_OK, log_writes (map (CAN_TX hBus)
      ((push_bit 16 CAN_BUFFER_TX_MSG OR of_nat (20 + 4 * ((frame_bytes (b ! 3) + 3) div 4)))
       # take (4 + (frame_bytes (b ! 3) + 3) div 4) (drop 1 b))) s)"
proof -
  have st: "(ucast CAN_STAT :: u16) AND 1 \<noteq> 0"
    using assms(2) by (simp add: word_and_1_eq bit_ucast_iff)
  have sz: "of_nat (20 + 4 * ((frame_bytes (b ! 3) + 3) div 4)) = tx_record_size (b ! 3)"
    by (simp flip: tx_record_size_frame)
  show ?thesis unfolding sz
    using assms(1,3) st
    by (simp add: CAN_Write_def tx_head_tx [OF _ assms(4)] tx_switch_record not_less)
qed

text \<open>
  Property C15: memory safety of sending. Whatever a buffer of 23 words or more holds,
  \<^verbatim>\<open>CAN_Write\<close> returns without reading outside the buffer, and every error return
  leaves driver and controller untouched.
\<close>

theorem CAN_Write_no_fault:
  assumes "23 \<le> length b"
  shows "\<exists>r s'. CAN_Write hBus (Some b) CAN_STAT s = Inr (r, s') \<and> (r \<noteq> CAN_ERR_OK \<longrightarrow> s' = s)"
proof -
  obtain h where h: "tx_head b = Inr h" using tx_head_total [OF assms] ..
  show ?thesis
  proof (cases h)
    case None
    with h show ?thesis by (auto simp: CAN_Write_def Let_def)
  next
    case (Some p)
    then obtain ts i where "h = Some (ts, i)" by (cases p) auto
    with h tx_head_bounds assms show ?thesis
      by (auto simp: CAN_Write_def Let_def tx_switch_def tx_copy_ok)
  qed
qed
theorem CAN_Write_no_fault_witness:
  "\<exists>r s'. CAN_Write 0 (Some (replicate 23 0xFFFFFFFF)) 1 can_reset = Inr (r, s')
     \<and> (r \<noteq> CAN_ERR_OK \<longrightarrow> s' = can_reset)"
  by (rule CAN_Write_no_fault) simp

section \<open>The identifier filter\<close>

lemma byte_in_word:
  assumes "i mod 8 = (0::nat)"
  shows "(i div 32 = j div 32 \<and> i mod 32 \<le> j mod 32 \<and> j mod 32 - i mod 32 < 8)
    \<longleftrightarrow> i \<le> j \<and> j < i + 8"
proof -
  define a b c d where "a = i div 32" and "b = j div 32" and "c = i mod 32" and "d = j mod 32"
  have i: "i = 32 * a + c" and j: "j = 32 * b + d" by (simp_all add: a_def b_def c_def d_def)
  have d: "d < 32" by (simp add: d_def)
  have "c mod 8 = 0" using assms by (simp add: c_def mod_mod_cancel)
  moreover have "c < 32" by (simp add: c_def)
  ultimately have c: "c \<le> 24" by presburger
  have "a = b" if "32 * a + c \<le> 32 * b + d" "32 * b + d < 32 * a + c + 8"
    using that c d by linarith
  then have "(a = b \<and> c \<le> d \<and> d - c < 8)
      \<longleftrightarrow> 32 * a + c \<le> 32 * b + d \<and> 32 * b + d < 32 * a + c + 8"
    by auto
  then show ?thesis by (simp only: i [symmetric] j [symmetric] a_def [symmetric] b_def [symmetric]
      c_def [symmetric] d_def [symmetric])
qed

text \<open>
  What the loops rely on of a word update: it acts on each bit by \<open>act\<close>, a mask bit that is clear
  changes nothing, and two updates act like one with both masks.
\<close>

locale filter_update =
  fixes upd :: "u32 \<Rightarrow> u32 \<Rightarrow> u32" and act :: "bool \<Rightarrow> bool \<Rightarrow> bool"
  assumes bit_upd: "k < 32 \<Longrightarrow> bit (upd w m) k = act (bit w k) (bit m k)"
    and act_False: "act b False = b"
    and act_act: "act (act b c) d = act b (c \<or> d)"
begin

lemma act_none: "\<not> c \<Longrightarrow> act b c = b"
  by (simp add: act_False)

lemma length_filter_upd [simp]: "length (filter_upd upd i m f) = length f"
  by (simp add: filter_upd_def)

lemma passes_filter_upd:
  assumes "length f = 64" "i < 2048" "j < 2048"
  shows "passes (filter_upd upd i m f) j
    = act (passes f j) (i div 32 = j div 32 \<and> i mod 32 \<le> j mod 32 \<and> bit m (j mod 32 - i mod 32))"
proof -
  have "i div 32 < length f" "j mod 32 < 32" using assms by auto
  then show ?thesis
    by (auto simp: passes_def filter_upd_def bit_upd bit_push_bit_iff act_False nth_list_update)
qed

lemma passes_set_one:
  assumes "length f = 64" "i < 2048" "j < 2048"
  shows "passes (filter_upd upd i 1 f) j = act (passes f j) (j = i)"
proof -
  have "(i div 32 = j div 32 \<and> i mod 32 \<le> j mod 32 \<and> bit (1::u32) (j mod 32 - i mod 32)) = (j = i)"
    by (auto simp: bit_1_iff) (metis div_mult_mod_eq le_antisym)
  then show ?thesis using passes_filter_upd [OF assms] by simp
qed

lemma passes_set_byte:
  assumes "length f = 64" "i < 2048" "j < 2048" "i mod 8 = 0"
  shows "passes (filter_upd upd i 0xFF f) j = act (passes f j) (i \<le> j \<and> j < i + 8)"
  unfolding passes_filter_upd [OF assms(1-3)] bit_255 byte_in_word [OF assms(4)] ..

lemma stage1:
  assumes "length f = 64" "t < 2048" "filter_stage1 upd k t f = (i, g)"
  shows "length g = 64 \<and> k \<le> i \<and> (k \<le> Suc t \<longrightarrow> i \<le> Suc t) \<and> (t < i \<or> i mod 8 = 0) \<and>
    (\<forall>j < 2048. passes g j = act (passes f j) (k \<le> j \<and> j < i))"
  using assms
proof (induction "t + 1 - k" arbitrary: k f rule: less_induct)
  case less
  show ?case
  proof (cases "k \<le> t \<and> k mod 8 \<noteq> 0")
    case True
    let ?f = "filter_upd upd k 1 f"
    have "filter_stage1 upd (Suc k) t ?f = (i, g)"
      using less.prems(3) True by (simp add: filter_stage1.simps [of upd k])
    moreover have "t + 1 - Suc k < t + 1 - k" using True by linarith
    ultimately have "length g = 64 \<and> Suc k \<le> i \<and> i \<le> Suc t \<and> (t < i \<or> i mod 8 = 0) \<and>
        (\<forall>j < 2048. passes g j = act (passes ?f j) (Suc k \<le> j \<and> j < i))"
      using less.hyps [of "Suc k" ?f] less.prems(1,2) True by simp
    moreover have "k < 2048" using True less.prems(2) by simp
    ultimately show ?thesis
      using less.prems(1) by (auto simp: passes_set_one act_act intro!: arg_cong [where f = "act _"])
  next
    case False
    then have "i = k" "g = f" using less.prems(3) by (auto simp: filter_stage1.simps [of upd k])
    moreover have "act b (k \<le> j \<and> j < k) = b" for b j by (rule act_none) auto
    ultimately show ?thesis using False less.prems by auto
  qed
qed

lemma stage2:
  assumes "length f = 64" "t < 2048" "t < k \<or> k mod 8 = 0" "filter_stage2 upd k t f = (i, g)"
  shows "length g = 64 \<and> k \<le> i \<and> (k \<le> Suc t \<longrightarrow> i \<le> Suc t) \<and>
    (\<forall>j < 2048. passes g j = act (passes f j) (k \<le> j \<and> j < i))"
  using assms
proof (induction "t + 1 - k" arbitrary: k f rule: less_induct)
  case less
  show ?case
  proof (cases "k + 7 \<le> t")
    case True
    let ?f = "filter_upd upd k 0xFF f"
    have m: "k mod 8 = 0" and k: "k < 2048" using True less.prems(2,3) by auto
    have "filter_stage2 upd (k + 8) t ?f = (i, g)"
      using less.prems(4) True by (simp add: filter_stage2.simps [of upd k])
    moreover have "t + 1 - (k + 8) < t + 1 - k" using True by linarith
    ultimately have "length g = 64 \<and> k + 8 \<le> i \<and> (k + 8 \<le> Suc t \<longrightarrow> i \<le> Suc t) \<and>
        (\<forall>j < 2048. passes g j = act (passes ?f j) (k + 8 \<le> j \<and> j < i))"
      using less.hyps [of "k + 8" ?f] less.prems(1,2) m by simp
    then show ?thesis using less.prems(1) k m True
      by (auto simp: passes_set_byte act_act intro!: arg_cong [where f = "act _"])
  next
    case False
    then have "i = k" "g = f" using less.prems(4) by (auto simp: filter_stage2.simps [of upd k])
    moreover have "act b (k \<le> j \<and> j < k) = b" for b j by (rule act_none) auto
    ultimately show ?thesis using less.prems by simp
  qed
qed

lemma stage3:
  assumes "length f = 64" "t < 2048"
  shows "length (filter_stage3 upd k t f) = 64 \<and>
    (\<forall>j < 2048. passes (filter_stage3 upd k t f) j = act (passes f j) (k \<le> j \<and> j \<le> t))"
  using assms
proof (induction "t + 1 - k" arbitrary: k f rule: less_induct)
  case less
  show ?case
  proof (cases "k \<le> t")
    case True
    let ?f = "filter_upd upd k 1 f"
    have "t + 1 - Suc k < t + 1 - k" using True by linarith
    then have "length (filter_stage3 upd (Suc k) t ?f) = 64 \<and>
       (\<forall>j < 2048. passes (filter_stage3 upd (Suc k) t ?f) j = act (passes ?f j) (Suc k \<le> j \<and> j \<le> t))"
      using less.hyps [of "Suc k" ?f] less.prems by simp
    moreover have "k < 2048" using True less.prems(2) by simp
    ultimately show ?thesis using True less.prems(1)
      by (auto simp: filter_stage3.simps [of upd k] passes_set_one act_act
          intro!: arg_cong [where f = "act _"])
  next
    case False
    have "act b (k \<le> j \<and> j \<le> t) = b" for b j using False by (intro act_none) auto
    with False less.prems show ?thesis by (simp add: filter_stage3.simps [of upd k])
  qed
qed

theorem filter_range_spec:
  assumes "length f = 64" "k \<le> t" "t < 2048"
  shows "length (filter_range upd k t f) = 64"
    and "j < 2048 \<Longrightarrow> passes (filter_range upd k t f) j = act (passes f j) (k \<le> j \<and> j \<le> t)"
proof -
  obtain i f1 where s1: "filter_stage1 upd k t f = (i, f1)" by force
  obtain l f2 where s2: "filter_stage2 upd i t f1 = (l, f2)" by force
  note r1 = stage1 [OF assms(1,3) s1] 
  note r2 = stage2 [OF _ assms(3) _ s2]
  have l1: "length f1 = 64" and i1: "t < i \<or> i mod 8 = 0" using r1 by simp_all
  note r2 = r2 [OF l1 i1]
  note r3 = stage3 [OF _ assms(3), of f2 l]
  show "length (filter_range upd k t f) = 64"
    using r2 r3 by (simp add: filter_range_def s1 s2)
  show "passes (filter_range upd k t f) j = act (passes f j) (k \<le> j \<and> j \<le> t)" if "j < 2048"
  proof -
    have "passes (filter_range upd k t f) j
        = act (passes f j) ((k \<le> j \<and> j < i) \<or> (i \<le> j \<and> j < l) \<or> (l \<le> j \<and> j \<le> t))"
      using r1 r2 r3 that by (simp add: filter_range_def s1 s2 act_act disj_assoc)
    moreover have "i \<le> Suc t" using r1 assms(2) by simp
    ultimately show ?thesis using r1 r2 assms(2) by (auto intro!: arg_cong [where f = "act _"])
  qed
qed

end

interpretation flt_add: filter_update filter_or "(\<or>)"
  by unfold_locales (auto simp: filter_or_def bit_or_iff)

interpretation flt_rem: filter_update filter_clear "\<lambda>b m. b \<and> \<not> m"
  by unfold_locales (auto simp: filter_clear_def bit_and_iff bit_not_iff)

lemma filters_wf_reset: "filters_wf can_reset"
  by (simp add: filters_wf_def can_reset_def)

lemma accepted_reset: "hBus \<le> CAN_BUS_MAX \<Longrightarrow> accepted can_reset hBus = {}"
  by (auto simp: accepted_def can_reset_def passes_def reg_consts word_le_nat_alt)

lemma bus_index: "hBus \<le> CAN_BUS_MAX \<Longrightarrow> filters_wf s \<Longrightarrow> unat hBus < length (StdFilters s)"
  by (simp add: filters_wf_def reg_consts word_le_nat_alt)

lemma filter_of_bus: "hBus \<le> CAN_BUS_MAX \<Longrightarrow> filters_wf s \<Longrightarrow> length (StdFilters s ! unat hBus) = 64"
  using bus_index by (auto simp: filters_wf_def)

lemma set_filter_wf:
  "hBus \<le> CAN_BUS_MAX \<Longrightarrow> filters_wf s \<Longrightarrow> length f = 64 \<Longrightarrow> filters_wf (set_filter hBus f s)"
  by (auto simp: filters_wf_def set_filter_def log_writes_def dest: set_update_subset_insert [THEN subsetD])

lemma accepted_set_filter:
  "hBus \<le> CAN_BUS_MAX \<Longrightarrow> filters_wf s \<Longrightarrow>
     accepted (set_filter hBus f s) b = (if b = hBus then {i. i < 2048 \<and> passes f i} else accepted s b)"
  using bus_index by (auto simp: accepted_def set_filter_def log_writes_def unat_inject)

lemma set_filter_log:
  "hBus \<le> CAN_BUS_MAX \<Longrightarrow> filters_wf s \<Longrightarrow>
     can_log (set_filter hBus f s) = can_log s @ filter_commands hBus (StdFilters (set_filter hBus f s) ! unat hBus)"
  using bus_index by (simp add: set_filter_def log_writes_def)


lemma CAN_FilterAdd_run:
  assumes "filters_wf s" and "hBus \<le> CAN_BUS_MAX" and "FromID \<le> ToID" and "ToID \<le> 0x7FF"
  obtains f where "CAN_FilterAdd hBus ext FromID ToID s = (CAN_ERR_OK, set_filter hBus f s)"
    and "length f = 64" and "{i. i < 2048 \<and> passes f i} = accepted s hBus \<union> {unat FromID..unat ToID}"
proof -
  have le: "unat FromID \<le> unat ToID" "unat ToID < 2048"
    using assms(3,4) by (auto simp: word_le_nat_alt)
  note spec = flt_add.filter_range_spec [OF filter_of_bus [OF assms(2,1)] le]
  show thesis
    by (rule that [of "filter_range filter_or (unat FromID) (unat ToID) (StdFilters s ! unat hBus)"])
      (use spec le assms in \<open>auto simp: CAN_FilterAdd_def not_less accepted_def\<close>)
qed

lemma CAN_FilterRem_run:
  assumes "filters_wf s" and "hBus \<le> CAN_BUS_MAX" and "FromID \<le> ToID" and "ToID \<le> 0x7FF"
  obtains f where "CAN_FilterRem hBus ext FromID ToID s = (CAN_ERR_OK, set_filter hBus f s)"
    and "length f = 64" and "{i. i < 2048 \<and> passes f i} = accepted s hBus - {unat FromID..unat ToID}"
proof -
  have le: "unat FromID \<le> unat ToID" "unat ToID < 2048"
    using assms(3,4) by (auto simp: word_le_nat_alt)
  note spec = flt_rem.filter_range_spec [OF filter_of_bus [OF assms(2,1)] le]
  show thesis
    by (rule that [of "filter_range filter_clear (unat FromID) (unat ToID) (StdFilters s ! unat hBus)"])
      (use spec le assms in \<open>auto simp: CAN_FilterRem_def not_less accepted_def\<close>)
qed

lemmas set_filter_effect = set_filter_wf accepted_set_filter set_filter_log

text \<open>
  Property C14: \<^verbatim>\<open>CAN_FilterAdd\<close> adds exactly the identifiers of the given range to the
  set its bus accepts, leaves every other bus alone, and programs the controller of the bus with
  the new table. The byte-wise middle loop is thereby equivalent to setting one bit per identifier.
\<close>

theorem CAN_FilterAdd_accepts:
  assumes "filters_wf s" and "hBus \<le> CAN_BUS_MAX" and "FromID \<le> ToID" and "ToID \<le> 0x7FF"
    and "CAN_FilterAdd hBus ext FromID ToID s = (r, s')"
  shows "r = CAN_ERR_OK \<and> filters_wf s'
    \<and> accepted s' b = accepted s b \<union> (if b = hBus then {unat FromID..unat ToID} else {})
    \<and> can_log s' = can_log s @ filter_commands hBus (StdFilters s' ! unat hBus)"
proof -
  obtain f where "r = CAN_ERR_OK" "s' = set_filter hBus f s" and f: "length f = 64"
    "{i. i < 2048 \<and> passes f i} = accepted s hBus \<union> {unat FromID..unat ToID}"
    by (rule CAN_FilterAdd_run [OF assms(1-4), of ext]) (use assms(5) in auto)
  then show ?thesis using assms(1,2) by (simp add: set_filter_effect)
qed

theorem CAN_FilterAdd_accepts_witness:
  "fst (CAN_FilterAdd 3 0 5 1030 can_reset) = CAN_ERR_OK
   \<and> accepted (snd (CAN_FilterAdd 3 0 5 1030 can_reset)) 3 = {5..1030}"
  using CAN_FilterAdd_accepts [OF filters_wf_reset, of 3 5 1030 0 _ _ 3]
  by (cases "CAN_FilterAdd 3 0 5 1030 can_reset") (simp add: accepted_reset reg_consts)

text \<open>
  \<^verbatim>\<open>CAN_FilterRem\<close> removes exactly the identifiers of the given range from
  the set its bus accepts and leaves every other bus alone.
\<close>

lemma CAN_FilterRem_rejects:
  assumes "filters_wf s" and "hBus \<le> CAN_BUS_MAX" and "FromID \<le> ToID" and "ToID \<le> 0x7FF"
    and "CAN_FilterRem hBus ext FromID ToID s = (r, s')"
  shows "r = CAN_ERR_OK \<and> filters_wf s'
    \<and> accepted s' b = accepted s b - (if b = hBus then {unat FromID..unat ToID} else {})
    \<and> can_log s' = can_log s @ filter_commands hBus (StdFilters s' ! unat hBus)"
proof -
  obtain f where "r = CAN_ERR_OK" "s' = set_filter hBus f s" and f: "length f = 64"
    "{i. i < 2048 \<and> passes f i} = accepted s hBus - {unat FromID..unat ToID}"
    by (rule CAN_FilterRem_run [OF assms(1-4), of ext]) (use assms(5) in auto)
  then show ?thesis using assms(1,2) by (simp add: set_filter_effect)
qed


lemma CAN_FilterReset_empties:
  assumes "filters_wf s" and "hBus \<le> CAN_BUS_MAX"
    and "CAN_FilterReset hBus ext s = (r, s')"
  shows "r = CAN_ERR_OK \<and> filters_wf s' \<and> accepted s' b = (if b = hBus then {} else accepted s b)"
proof -
  have "\<not> passes (replicate 64 0) i" if "i < 2048" for i
    using that by (simp add: passes_def)
  then show ?thesis
    using assms by (auto simp: CAN_FilterReset_def set_filter_wf accepted_set_filter split: if_splits)
qed


section \<open>Receiving\<close>

text \<open>
  What the driver relies on of the DMA controller: a stream that is set up for a FIFO-mode
  memory-to-memory transfer from the message box and enabled delivers as many words as its
  counter says, and then drops its enable bit.
\<close>

lemma prepared_prepare [simp]: "prepared (dma_prepare st)"
  by (simp add: prepared_def dma_prepare_def)

lemma dma_inv_Startup: "dma_inv (CAN_Startup s)"
  by (simp add: dma_inv_def CAN_Startup_def log_writes_def)

locale dma_transfer =
  fixes dma :: dma_engine_fn
  assumes transfer: "FCR st = 7 \<Longrightarrow> PAR st = SYS_MSG_BOX \<Longrightarrow> DCR st = DMA_CR_MEM2MEM OR 1 \<Longrightarrow>
    \<exists>st'. dma st box = Some (take (unat (NDTR st)) box, st')"
begin

lemma started_transfer:
  assumes "prepared st" "length box = 24"
  shows "\<exists>st'. dma (dma_start a st) box = Some (box, st')"
  using transfer [of "dma_start a st" box] assms
  by (simp add: dma_start_def prepared_def reg_consts)

lemma read_step:
  assumes "dma_inv s" "bit SYS_STAT 0" "length box = 24"
  shows "\<exists>s'. CAN_Read dma hBus (Some a) SYS_STAT box s = Inr (CAN_ERR_OK, Some box, s')
    \<and> dma_inv s' \<and> StdFilters s' = StdFilters s"
  using assms started_transfer [of "Stream2 s" box a] started_transfer [of "Stream4 s" box a]
  by (auto simp: CAN_Read_def dma_inv_def log_writes_def Let_def word_and_1_eq reg_consts)

lemma read_seq_delivers:
  assumes "dma_inv s" "\<forall>box \<in> set boxes. length box = 24"
  shows "\<exists>s'. read_seq dma a boxes s = Inr (map Some boxes, s') \<and> dma_inv s'"
  using assms
proof (induction boxes arbitrary: s)
  case Nil
  then show ?case by simp
next
  case (Cons box boxes)
  then obtain s1 where "CAN_Read dma 0xFF (Some a) 1 box s = Inr (CAN_ERR_OK, Some box, s1)" "dma_inv s1"
    using read_step [of s 1 box "0xFF" a] by auto
  moreover from this Cons obtain s2 where "read_seq dma a boxes s1 = Inr (map Some boxes, s2)" "dma_inv s2"
    by auto
  ultimately show ?case by simp
qed

end

interpretation m2m: dma_transfer dma_m2m
  by unfold_locales (simp add: dma_m2m_def bit_or_iff bit_1_iff)





section \<open>Initialisation\<close>

lemma wait_tx_empty_returns:
  "(\<exists>r. wait_tx_empty stats = Inr r) \<longleftrightarrow> (\<exists>v \<in> set stats. bit v 1)"
  using and_exp_eq_0_iff_not_bit [of _ 1, where 'a = u32]
  by (induction stats) auto

lemma reset_cmd_no_start:
  "push_bit 12 (ucast hBus) OR PCAN_CORE_FD_CMD_RESETMODE \<noteq> (2 :: u32)"
  "push_bit 12 (ucast hBus) OR PCAN_CORE_FD_CMD_RESETMODE \<noteq> (3 :: u32)"
   by (rule word_neq_bit [of _ 0], simp add: bit_simps reg_consts)
     (rule word_neq_bit [of _ 1], simp add: bit_simps reg_consts)

lemma timing_cmd_no_start:
  "fst (nominal_timing_cmd t) \<noteq> 2" "fst (nominal_timing_cmd t) \<noteq> 3"
  "fst (data_timing_cmd t) \<noteq> 2" "fst (data_timing_cmd t) \<noteq> 3"
  by (rule word_neq_bit [of _ 2],
      simp add: nominal_timing_cmd_def data_timing_cmd_def bit_simps reg_consts)+

lemma mode_cmds_no_start: "mode_cmds hBus m = Some ms \<Longrightarrow> w \<in> set ms \<Longrightarrow> \<not> start_write hBus w"
  by (auto simp: mode_cmds_def start_write_def can_cmd_def reg_consts split: if_splits)

lemma mode_cmds_None: "mode_cmds hBus m = None \<longleftrightarrow> 2 < m"
proof -
  have "m = 0 \<or> m = 1 \<or> m = 2 \<longleftrightarrow> \<not> 2 < m"
    by (auto simp: word_less_nat_alt unat_inject [symmetric])
  then show ?thesis by (auto simp: mode_cmds_def)
qed

lemma start_cmd_starts: "\<exists>w \<in> set (start_cmd hBus lo). start_write hBus w"
  by (simp add: start_cmd_def can_cmd_def start_write_def)

lemma not_start_writes:
  "\<not> start_write hBus (CAN_CNTL b v)" "\<not> start_write hBus (CAN_CMD_H b v)"
  "start_write hBus (CAN_CMD_L b v) \<longleftrightarrow> b = hBus \<and> (v = 2 \<or> v = 3)"
  by (auto simp: start_write_def reg_consts)


text \<open>
  A bus leaves reset mode only on success. \<^verbatim>\<open>CAN_Initialize\<close> sends the
  command for normal or listen-only mode exactly when it returns \<^verbatim>\<open>CAN_ERR_OK\<close>, which
  is exactly when clock rate and mode are known; an illegal set-up leaves the bus in reset mode.
\<close>

lemma CAN_Initialize_starts_iff_ok:
  assumes "hBus \<le> CAN_BUS_MAX" and "CAN_Initialize hBus (Some t) stats s = Inr (r, stats', s')"
  shows "\<exists>ws. can_log s' = can_log s @ ws \<and> ((\<exists>w \<in> set ws. start_write hBus w) \<longleftrightarrow> r = CAN_ERR_OK)
    \<and> (r = CAN_ERR_OK \<longleftrightarrow> clock_cntl (can_clk t) \<noteq> None \<and> can_mode t \<le> 2)"
proof -
  obtain st where st: "wait_tx_empty stats = Inr st"
    using assms by (auto simp: CAN_Initialize_def res_bind_eq_Inr split: if_splits)
  have bus: "\<not> CAN_BUS_MAX < hBus" using assms(1) by simp
  note run = assms(2) [unfolded CAN_Initialize_def st res_bind_Inr if_not_P [OF bus] option.case Let_def]
  note no_start = not_start_writes reset_cmd_no_start timing_cmd_no_start
  show ?thesis
  proof (cases "clock_cntl (can_clk t)")
    case None
    with run show ?thesis
      by (auto simp: log_writes_def can_cmd_def no_start)
  next
    case (Some c)
    show ?thesis
    proof (cases "mode_cmds hBus (can_mode t)")
      case None
      with Some run show ?thesis
        by (auto simp: log_writes_def can_cmd_def no_start mode_cmds_None)
    next
      case (Some ms)
      with \<open>clock_cntl (can_clk t) = Some c\<close> run have "r = CAN_ERR_OK"
        and "\<exists>ws. can_log s' = can_log s @ ws @ start_cmd hBus (listen_only t)"
        by (auto simp: log_writes_def)
      moreover have "can_mode t \<le> 2" using Some mode_cmds_None [of hBus "can_mode t"] by auto
      ultimately show ?thesis using \<open>clock_cntl (can_clk t) = Some c\<close> start_cmd_starts by fastforce
    qed
  qed
qed

lemma pack_hi:
  assumes "(x :: u32) < 2 ^ 16" "y < 2 ^ 8" "z < 2 ^ 8"
  shows "drop_bit 16 (push_bit 16 x OR push_bit 8 y OR z) = x"
    and "drop_bit 8 (push_bit 16 x OR push_bit 8 y OR z) AND 0xFF = y"
    and "(push_bit 16 x OR push_bit 8 y OR z) AND 0xFF = z"
  using bit_less_pow [OF assms(1)] bit_less_pow [OF assms(2)] bit_less_pow [OF assms(3)]
  unfolding and_mask_u32
  by (auto intro!: bit_word_eqI simp: bit_simps) (fastforce)+

lemma pack_lo:
  assumes "(x :: u32) < 2 ^ 8" "y < 2 ^ 8" "z < 2 ^ 16"
  shows "drop_bit 24 (push_bit 24 x OR push_bit 16 y OR z) = x"
    and "drop_bit 16 (push_bit 24 x OR push_bit 16 y OR z) AND 0xFF = y"
    and "(push_bit 24 x OR push_bit 16 y OR z) AND 0xFFFF = z"
  using bit_less_pow [OF assms(1)] bit_less_pow [OF assms(2)] bit_less_pow [OF assms(3)]
  unfolding and_mask_u32
  by (auto intro!: bit_word_eqI simp: bit_simps) (fastforce)+

lemma ucast_pred_less:
  assumes "w \<in> {1..n :: 'a::len word}" and "LENGTH('a) \<le> 32" and "unat n \<le> 2 ^ k" "k < 32"
  shows "(ucast w :: u32) - 1 < 2 ^ k"
proof -
  have "1 \<le> unat w" "unat w \<le> 2 ^ k"
    using assms(1,3) by (auto simp: word_le_nat_alt)
  moreover from this have "unat ((ucast w :: u32) - 1) = unat w - 1"
    using assms(2) by (simp add: unat_sub word_le_nat_alt unat_ucast_up)
  ultimately show ?thesis using assms(4) by (simp add: word_less_nat_alt unat_pow2)
qed


text \<open>
  The packing of the bit timing loses nothing. For timing values in their documented
  ranges, the controller reads from the two commands exactly the values of
  \<^verbatim>\<open>CANTiming_t\<close>.
\<close>

lemma timing_cmd_roundtrip:
  assumes "timing_ok t"
  shows "timing_fields (nominal_timing_cmd t) =
      (PCAN_CORE_FD_CMD_SET_TIMING_SLOW, ucast (warning_limit t), ucast (nom_sjw t),
       ucast (nom_brp t), ucast (nom_tseg1 t), ucast (nom_tseg2 t))
    \<and> timing_fields (data_timing_cmd t) =
      (PCAN_CORE_FD_CMD_SET_TIMING_FAST, 0, ucast (data_sjw t),
       ucast (data_brp t), ucast (data_tseg1 t), ucast (data_tseg2 t))"
proof -
  note small = assms [unfolded timing_ok_def]
  have "(ucast (nom_brp t) :: u32) - 1 < 2 ^ 16" "(ucast (nom_tseg1 t) :: u32) - 1 < 2 ^ 8"
    "(ucast (nom_tseg2 t) :: u32) - 1 < 2 ^ 8" "(ucast (nom_sjw t) :: u32) - 1 < 2 ^ 8"
    "(ucast (data_brp t) :: u32) - 1 < 2 ^ 16" "(ucast (data_tseg1 t) :: u32) - 1 < 2 ^ 8"
    "(ucast (data_tseg2 t) :: u32) - 1 < 2 ^ 8" "(ucast (data_sjw t) :: u32) - 1 < 2 ^ 8"
    using small ucast_pred_less [of "nom_brp t" 1024 16] ucast_pred_less [of "nom_tseg1 t" 256 8]
      ucast_pred_less [of "nom_tseg2 t" 128 8] ucast_pred_less [of "nom_sjw t" 128 8]
      ucast_pred_less [of "data_brp t" 1024 16] ucast_pred_less [of "data_tseg1 t" 32 8]
      ucast_pred_less [of "data_tseg2 t" 16 8] ucast_pred_less [of "data_sjw t" 16 8]
    by simp_all
  moreover have "(ucast (warning_limit t) :: u32) < 2 ^ 8" 
    using unsigned_less [of "warning_limit t", where 'a = nat]
    by (simp add: word_less_nat_alt unat_ucast_up)
  ultimately have "timing_fields (nominal_timing_cmd t) =
      (PCAN_CORE_FD_CMD_SET_TIMING_SLOW, ucast (warning_limit t), ucast (nom_sjw t),
       ucast (nom_brp t), ucast (nom_tseg1 t), ucast (nom_tseg2 t))"
    and "timing_fields (data_timing_cmd t) =
      (PCAN_CORE_FD_CMD_SET_TIMING_FAST, 0, ucast (data_sjw t),
       ucast (data_brp t), ucast (data_tseg1 t), ucast (data_tseg2 t))"
    using pack_lo [of "ucast (data_sjw t) - 1" 0]
    by (simp_all add: timing_fields_def nominal_timing_cmd_def data_timing_cmd_def pack_hi pack_lo
        reg_consts del: drop_bit_or)
  then show ?thesis ..
qed

end
