(* ===== verification/Hal_Gpio.thy ===== *)
theory Hal_Gpio
  imports Prelude
begin

text \<open>
  Model of \<^verbatim>\<open>src/src/stm32f7xx_hal_gpio.c\<close>: configuration of the pins of a port, of the
  external interrupt lines behind them, and access to the pins. Configuration registers hold what
  is written to them (no pin is locked); the output register changes through the set/reset
  register only. The checks \<^verbatim>\<open>assert_param\<close> are compiled out.
\<close>

unbundle bit_operations_syntax

section \<open>State\<close>

datatype gpio_port = GPIOA | GPIOB | GPIOC | GPIOD | GPIOE | GPIOF | GPIOG | GPIOH | GPIOI | GPIOJ | GPIOK

primrec GPIO_GET_INDEX :: "gpio_port \<Rightarrow> u8" where
  "GPIO_GET_INDEX GPIOA = 0"
| "GPIO_GET_INDEX GPIOB = 1"
| "GPIO_GET_INDEX GPIOC = 2"
| "GPIO_GET_INDEX GPIOD = 3"
| "GPIO_GET_INDEX GPIOE = 4"
| "GPIO_GET_INDEX GPIOF = 5"
| "GPIO_GET_INDEX GPIOG = 6"
| "GPIO_GET_INDEX GPIOH = 7"
| "GPIO_GET_INDEX GPIOI = 8"
| "GPIO_GET_INDEX GPIOJ = 9"
| "GPIO_GET_INDEX GPIOK = 10"

text \<open>The registers of a port; \<open>AFR\<close> is an array of two.\<close>

record gpio_regs =
  MODER :: u32
  OTYPER :: u32
  OSPEEDR :: u32
  PUPDR :: u32
  ODR :: u32
  AFR :: "nat \<Rightarrow> u32"

text \<open>All ports with the interrupt lines; \<open>EXTICR\<close> is an array of four.\<close>

record gpio_hw =
  GPIOx :: "gpio_port \<Rightarrow> gpio_regs"
  EXTICR :: "nat \<Rightarrow> u32"
  IMR :: u32
  EMR :: u32
  RTSR :: u32
  FTSR :: u32
  PR :: u32
  SYSCFG_clock :: bool
  exti_callbacks :: "u16 list"

record GPIO_InitTypeDef =
  Pin :: u32
  Mode :: u32
  Pull :: u32
  Speed :: u32
  Alternate :: u32

section \<open>Constants\<close>

definition GPIO_MODE :: u32 where [reg_consts]: "GPIO_MODE = 3"
definition EXTI_MODE :: u32 where [reg_consts]: "EXTI_MODE = 0x10000000"
definition GPIO_MODE_IT :: u32 where [reg_consts]: "GPIO_MODE_IT = 0x10000"
definition GPIO_MODE_EVT :: u32 where [reg_consts]: "GPIO_MODE_EVT = 0x20000"
definition RISING_EDGE :: u32 where [reg_consts]: "RISING_EDGE = 0x100000"
definition FALLING_EDGE :: u32 where [reg_consts]: "FALLING_EDGE = 0x200000"
definition GPIO_OUTPUT_TYPE :: u32 where [reg_consts]: "GPIO_OUTPUT_TYPE = 0x10"
definition GPIO_MODE_OUTPUT_PP :: u32 where [reg_consts]: "GPIO_MODE_OUTPUT_PP = 1"
definition GPIO_MODE_OUTPUT_OD :: u32 where [reg_consts]: "GPIO_MODE_OUTPUT_OD = 0x11"
definition GPIO_MODE_AF_PP :: u32 where [reg_consts]: "GPIO_MODE_AF_PP = 2"
definition GPIO_MODE_AF_OD :: u32 where [reg_consts]: "GPIO_MODE_AF_OD = 0x12"
definition GPIO_LCKR_LCKK :: u32 where [reg_consts]: "GPIO_LCKR_LCKK = 0x10000"

section \<open>Configuration\<close>

text \<open>The pattern \<^verbatim>\<open>temp &= ~(m << k); temp |= v << k\<close>; note that \<open>v\<close> is not masked.\<close>

definition put_bits :: "u32 \<Rightarrow> nat \<Rightarrow> u32 \<Rightarrow> u32 \<Rightarrow> u32" where
  "put_bits m k v temp = (temp AND NOT (push_bit k m)) OR push_bit k v"

definition is_output :: "u32 \<Rightarrow> bool" where
  "is_output mode \<longleftrightarrow> mode = GPIO_MODE_OUTPUT_PP \<or> mode = GPIO_MODE_AF_PP \<or> mode = GPIO_MODE_OUTPUT_OD
     \<or> mode = GPIO_MODE_AF_OD"

definition is_alternate :: "u32 \<Rightarrow> bool" where
  "is_alternate mode \<longleftrightarrow> mode = GPIO_MODE_AF_PP \<or> mode = GPIO_MODE_AF_OD"

definition init_pin :: "GPIO_InitTypeDef \<Rightarrow> nat \<Rightarrow> gpio_regs \<Rightarrow> gpio_regs" where
  "init_pin i position r =
     (let r1 = (if is_output (Mode i) then
                  r\<lparr>OSPEEDR := put_bits 3 (position * 2) (Speed i) (OSPEEDR r),
                    OTYPER := put_bits 1 position (drop_bit 4 (Mode i AND GPIO_OUTPUT_TYPE)) (OTYPER r)\<rparr>
                else r);
          r2 = r1\<lparr>PUPDR := put_bits 3 (position * 2) (Pull i) (PUPDR r1)\<rparr>;
          r3 = (if is_alternate (Mode i) then
                  r2\<lparr>AFR := (AFR r2)(position div 8 :=
                       put_bits 0xF (position mod 8 * 4) (Alternate i) (AFR r2 (position div 8)))\<rparr>
                else r2)
      in r3\<lparr>MODER := put_bits 3 (position * 2) (Mode i AND GPIO_MODE) (MODER r3)\<rparr>)"

text \<open>One line of the external interrupts: set or clear the bits \<open>io\<close> of a register.\<close>

definition exti_bits :: "bool \<Rightarrow> u32 \<Rightarrow> u32 \<Rightarrow> u32" where
  "exti_bits on io temp = (if on then (temp AND NOT io) OR io else temp AND NOT io)"

definition init_exti :: "gpio_port \<Rightarrow> GPIO_InitTypeDef \<Rightarrow> nat \<Rightarrow> gpio_hw \<Rightarrow> gpio_hw" where
  "init_exti g i position s =
     (let io = push_bit position 1; m = Mode i in
      s\<lparr>SYSCFG_clock := True,
        EXTICR := (EXTICR s)(position div 4 :=
          put_bits 0xF (4 * (position mod 4)) (ucast (GPIO_GET_INDEX g)) (EXTICR s (position div 4))),
        IMR := exti_bits (m AND GPIO_MODE_IT = GPIO_MODE_IT) io (IMR s),
        EMR := exti_bits (m AND GPIO_MODE_EVT = GPIO_MODE_EVT) io (EMR s),
        RTSR := exti_bits (m AND RISING_EDGE = RISING_EDGE) io (RTSR s),
        FTSR := exti_bits (m AND FALLING_EDGE = FALLING_EDGE) io (FTSR s)\<rparr>)"

definition init_step :: "gpio_port \<Rightarrow> GPIO_InitTypeDef \<Rightarrow> nat \<Rightarrow> gpio_hw \<Rightarrow> gpio_hw" where
  "init_step g i position s =
     (let io = push_bit position 1 in
      if Pin i AND io = io then
        let s1 = s\<lparr>GPIOx := (GPIOx s)(g := init_pin i position (GPIOx s g))\<rparr> in
        if Mode i AND EXTI_MODE = EXTI_MODE then init_exti g i position s1 else s1
      else s)"

definition HAL_GPIO_Init :: "gpio_port \<Rightarrow> GPIO_InitTypeDef \<Rightarrow> gpio_hw \<Rightarrow> gpio_hw" where
  "HAL_GPIO_Init g i s = fold (init_step g i) [0..<16] s"

definition deinit_exti :: "gpio_port \<Rightarrow> nat \<Rightarrow> gpio_hw \<Rightarrow> gpio_hw" where
  "deinit_exti g position s =
     (let io = push_bit position 1; f = push_bit (4 * (position mod 4)) 0xF in
      if EXTICR s (position div 4) AND f = push_bit (4 * (position mod 4)) (ucast (GPIO_GET_INDEX g)) then
        s\<lparr>IMR := IMR s AND NOT io, EMR := EMR s AND NOT io, RTSR := RTSR s AND NOT io, FTSR := FTSR s AND NOT io,
          EXTICR := (EXTICR s)(position div 4 := EXTICR s (position div 4) AND NOT f)\<rparr>
      else s)"

definition deinit_pin :: "nat \<Rightarrow> gpio_regs \<Rightarrow> gpio_regs" where
  "deinit_pin position r = r\<lparr>
     MODER := MODER r AND NOT (push_bit (position * 2) 3),
     AFR := (AFR r)(position div 8 := AFR r (position div 8) AND NOT (push_bit (position mod 8 * 4) 0xF)),
     PUPDR := PUPDR r AND NOT (push_bit (position * 2) 3),
     OTYPER := OTYPER r AND NOT (push_bit position 1),
     OSPEEDR := OSPEEDR r AND NOT (push_bit (position * 2) 3)\<rparr>"

definition deinit_step :: "gpio_port \<Rightarrow> u32 \<Rightarrow> nat \<Rightarrow> gpio_hw \<Rightarrow> gpio_hw" where
  "deinit_step g pins position s =
     (if pins AND push_bit position 1 = push_bit position 1 then
        let s1 = deinit_exti g position s
        in s1\<lparr>GPIOx := (GPIOx s1)(g := deinit_pin position (GPIOx s1 g))\<rparr>
      else s)"

definition HAL_GPIO_DeInit :: "gpio_port \<Rightarrow> u32 \<Rightarrow> gpio_hw \<Rightarrow> gpio_hw" where
  "HAL_GPIO_DeInit g pins s = fold (deinit_step g pins) [0..<16] s"

section \<open>Access to the pins\<close>

text \<open>\<open>IDR\<close> is the value of the input register.\<close>

definition HAL_GPIO_ReadPin :: "u32 \<Rightarrow> u16 \<Rightarrow> bool" where
  "HAL_GPIO_ReadPin IDR pins \<longleftrightarrow> IDR AND ucast pins \<noteq> 0"

text \<open>
  What a write to the set/reset register does to the output register, as the reference manual
  has it: the lower half sets, the upper half resets, setting has priority.
\<close>

definition wr_BSRR :: "gpio_port \<Rightarrow> u32 \<Rightarrow> gpio_hw \<Rightarrow> gpio_hw" where
  "wr_BSRR g v s = s\<lparr>GPIOx := (GPIOx s)(g := (GPIOx s g)\<lparr>ODR :=
     (ODR (GPIOx s g) AND NOT (drop_bit 16 v)) OR (v AND 0xFFFF)\<rparr>)\<rparr>"

definition HAL_GPIO_WritePin :: "gpio_port \<Rightarrow> u16 \<Rightarrow> bool \<Rightarrow> gpio_hw \<Rightarrow> gpio_hw" where
  "HAL_GPIO_WritePin g pins pin_set s =
     (if pin_set then wr_BSRR g (ucast pins) s else wr_BSRR g (push_bit 16 (ucast pins)) s)"

definition HAL_GPIO_TogglePin :: "gpio_port \<Rightarrow> u16 \<Rightarrow> gpio_hw \<Rightarrow> gpio_hw" where
  "HAL_GPIO_TogglePin g pins s =
     (if ODR (GPIOx s g) AND ucast pins \<noteq> 0 then wr_BSRR g (push_bit 16 (ucast pins)) s
      else wr_BSRR g (ucast pins) s)"

text \<open>The key sequence written to the lock register; \<open>LCKR\<close> is what the second read delivers.
  The result is whether the lock is active.\<close>

definition HAL_GPIO_LockPin :: "u16 \<Rightarrow> u32 \<Rightarrow> bool \<times> u32 list" where
  "HAL_GPIO_LockPin pins LCKR =
     (let tmp = GPIO_LCKR_LCKK OR ucast pins
      in (LCKR AND GPIO_LCKR_LCKK \<noteq> 0, [tmp, ucast pins, tmp]))"

text \<open>The callback is empty in this program; the model records the call. Writing ones to the
  pending register clears them.\<close>

definition HAL_GPIO_EXTI_IRQHandler :: "u16 \<Rightarrow> gpio_hw \<Rightarrow> gpio_hw" where
  "HAL_GPIO_EXTI_IRQHandler pins s =
     (if PR s AND ucast pins \<noteq> 0
      then s\<lparr>PR := PR s AND NOT (ucast pins), exti_callbacks := exti_callbacks s @ [pins]\<rparr> else s)"

section \<open>Fields of a register\<close>

definition get_bits :: "nat \<Rightarrow> nat \<Rightarrow> u32 \<Rightarrow> u32" where
  "get_bits w k r = take_bit w (drop_bit k r)"

lemma bit_put_bits:
  "bit (put_bits (mask w) k v r) n \<longleftrightarrow> n < 32 \<and> (bit r n \<and> \<not> (k \<le> n \<and> n < k + w) \<or> k \<le> n \<and> bit v (n - k))"
  by (auto simp: put_bits_def bit_simps)

lemma get_put_same:
  assumes "v < 2 ^ w" "k + w \<le> 32"
  shows "get_bits w k (put_bits (mask w) k v r) = v"
proof (rule bit_word_eqI)
  fix n assume "n < LENGTH(32)"
  then show "bit (get_bits w k (put_bits (mask w) k v r)) n = bit v n"
    using assms(2) bit_less_pow [OF assms(1), of n]
    by (auto simp: get_bits_def bit_take_bit_iff bit_drop_bit_eq bit_put_bits)
qed

lemma get_put_other:
  assumes "v < 2 ^ w" "j + w' \<le> k \<or> k + w \<le> j"
  shows "get_bits w' j (put_bits (mask w) k v r) = get_bits w' j r"
proof (rule bit_word_eqI)
  fix n assume "n < LENGTH(32)"
  then show "bit (get_bits w' j (put_bits (mask w) k v r)) n = bit (get_bits w' j r) n"
    using assms(2) bit_less_pow [OF assms(1), of "j + n - k"]
    by (auto simp: get_bits_def bit_take_bit_iff bit_drop_bit_eq bit_put_bits dest: bit_u32)
qed

lemma field_put:
  assumes "v < 2 ^ w" "w * i + w \<le> 32"
  shows "get_bits w (w * j) (put_bits (mask w) (w * i) v r) = (if i = j then v else get_bits w (w * j) r)"
proof (cases "i = j")
  case False
  then have "Suc i \<le> j \<or> Suc j \<le> i" by arith
  then have "w * i + w \<le> w * j \<or> w * j + w \<le> w * i"
    using mult_le_mono2 [of "Suc i" j w] mult_le_mono2 [of "Suc j" i w] by (auto simp: add.commute)
  then show ?thesis using False get_put_other [OF assms(1)] by auto
qed (use assms get_put_same in auto)

text \<open>The fields this driver uses: one, two or four bits for each pin.\<close>

lemma field_put_1: "v < 2 \<Longrightarrow> i < 32 \<Longrightarrow> get_bits 1 j (put_bits 1 i v r) = (if i = j then v else get_bits 1 j r)"
  using field_put [of v 1 i j r] by (simp add: mask_eq_exp_minus_1)

lemmas field_put_1s = field_put_1 [unfolded One_nat_def]

lemma field_put_2:
  "v < 4 \<Longrightarrow> i < 16 \<Longrightarrow> get_bits 2 (j * 2) (put_bits 3 (i * 2) v r) = (if i = j then v else get_bits 2 (j * 2) r)"
  using field_put [of v 2 i j r] by (simp add: mask_eq_exp_minus_1 mult.commute)

lemma field_put_4:
  "v < 16 \<Longrightarrow> i < 8 \<Longrightarrow> get_bits 4 (j * 4) (put_bits 0xF (i * 4) v r) = (if i = j then v else get_bits 4 (j * 4) r)"
  using field_put [of v 4 i j r] by (simp add: mask_eq_exp_minus_1 mult.commute)

lemma clear_bits: "r AND NOT (push_bit k m) = put_bits m k 0 r"
  by (simp add: put_bits_def)

lemma clear_bit: "r AND NOT (2 ^ k) = put_bits 1 k 0 r"
  by (simp add: put_bits_def)

lemma selected: "p < 32 \<Longrightarrow> (pins :: u32) AND push_bit p 1 = push_bit p 1 \<longleftrightarrow> bit pins p"
proof -
  assume "p < 32"
  then have "bit (push_bit p 1 :: u32) p" by (simp add: bit_simps)
  moreover have "bit pins p \<Longrightarrow> pins AND push_bit p 1 = push_bit p 1"
    by (rule bit_word_eqI) (auto simp: bit_simps)
  ultimately show ?thesis by (metis bit_and_iff)
qed

lemma bit_exti_bits:
  "p < 32 \<Longrightarrow> bit (exti_bits on (push_bit p 1) r) q = (if p = q then on else bit r q)"
  by (auto simp: exti_bits_def bit_simps dest: bit_u32)

lemma exticr_owner:
  assumes "v < 16" "k < 8"
  shows "r AND push_bit (4 * k) 0xF = push_bit (4 * k) v \<longleftrightarrow> get_bits 4 (k * 4) r = v"
proof
  have f: "0xF = (mask 4 :: u32)" by (simp add: mask_eq_exp_minus_1)
  have small: "bit v n \<Longrightarrow> n < 4" for n using bit_less_pow [of v 4 n] assms(1) by simp
  {
    assume e: "r AND push_bit (4 * k) 0xF = push_bit (4 * k) v"
    have "bit (get_bits 4 (k * 4) r) n = bit v n" if "n < 32" for n
      using arg_cong [OF e, of "\<lambda>x. bit x (4 * k + n)"] assms(2) small [of n]
      by (auto simp: get_bits_def f bit_simps mult.commute)
    then show "get_bits 4 (k * 4) r = v" by (intro bit_word_eqI) simp
  next
    assume e: "get_bits 4 (k * 4) r = v"
    show "r AND push_bit (4 * k) 0xF = push_bit (4 * k) v"
      unfolding e [symmetric] f by (rule bit_word_eqI) (auto simp: get_bits_def bit_simps mult.commute)
  }
qed

lemmas selected_pow = selected [unfolded push_bit_of_1]

lemmas bit_exti_pow = bit_exti_bits [unfolded push_bit_of_1]

section \<open>What a pin and an interrupt line are configured for\<close>

record pin_view =
  v_mode :: u32
  v_otype :: u32
  v_speed :: u32
  v_pull :: u32
  v_af :: u32

record line_view =
  l_port :: u32
  l_it :: bool
  l_evt :: bool
  l_rise :: bool
  l_fall :: bool

definition pin_of :: "gpio_regs \<Rightarrow> nat \<Rightarrow> pin_view" where
  "pin_of r p = \<lparr>v_mode = get_bits 2 (p * 2) (MODER r), v_otype = get_bits 1 p (OTYPER r),
     v_speed = get_bits 2 (p * 2) (OSPEEDR r), v_pull = get_bits 2 (p * 2) (PUPDR r),
     v_af = get_bits 4 (p mod 8 * 4) (AFR r (p div 8))\<rparr>"

definition line_of :: "gpio_hw \<Rightarrow> nat \<Rightarrow> line_view" where
  "line_of s p = \<lparr>l_port = get_bits 4 (p mod 4 * 4) (EXTICR s (p div 4)), l_it = bit (IMR s) p,
     l_evt = bit (EMR s) p, l_rise = bit (RTSR s) p, l_fall = bit (FTSR s) p\<rparr>"

text \<open>The abstract effect of the two operations on a selected pin and its line.\<close>

definition configure_pin :: "GPIO_InitTypeDef \<Rightarrow> pin_view \<Rightarrow> pin_view" where
  "configure_pin i v = \<lparr>v_mode = Mode i AND 3,
     v_otype = if is_output (Mode i) then (if bit (Mode i) 4 then 1 else 0) else v_otype v,
     v_speed = if is_output (Mode i) then Speed i else v_speed v, v_pull = Pull i,
     v_af = if is_alternate (Mode i) then Alternate i else v_af v\<rparr>"

definition configure_line :: "gpio_port \<Rightarrow> GPIO_InitTypeDef \<Rightarrow> line_view \<Rightarrow> line_view" where
  "configure_line g i l = (if bit (Mode i) 28
     then \<lparr>l_port = ucast (GPIO_GET_INDEX g), l_it = bit (Mode i) 16, l_evt = bit (Mode i) 17,
            l_rise = bit (Mode i) 20, l_fall = bit (Mode i) 21\<rparr> else l)"

definition pin_reset :: pin_view where
  "pin_reset = \<lparr>v_mode = 0, v_otype = 0, v_speed = 0, v_pull = 0, v_af = 0\<rparr>"

definition line_reset :: line_view where
  "line_reset = \<lparr>l_port = 0, l_it = False, l_evt = False, l_rise = False, l_fall = False\<rparr>"

definition release_line :: "gpio_port \<Rightarrow> line_view \<Rightarrow> line_view" where
  "release_line g l = (if l_port l = ucast (GPIO_GET_INDEX g) then line_reset else l)"

text \<open>Values a field can hold.\<close>

definition init_valid :: "GPIO_InitTypeDef \<Rightarrow> bool" where
  "init_valid i \<longleftrightarrow> Speed i < 4 \<and> Pull i < 4 \<and> Alternate i < 16"

section \<open>One pin\<close>

lemma div_mod_eq_iff: "(p :: nat) = q \<longleftrightarrow> p div n = q div n \<and> p mod n = q mod n"
  by (metis div_mult_mod_eq)

lemma index_lt_16: "(ucast (GPIO_GET_INDEX g) :: u32) < 16"
  by (cases g) simp_all

lemma output_type: "drop_bit 4 (m AND GPIO_OUTPUT_TYPE) = (if bit m 4 then 1 else 0 :: u32)"
  by (rule bit_word_eqI) (auto simp: reg_consts bit_simps bit_1_iff intro: gr0I)

lemma mode_lt_4: "(m :: u32) AND 3 < 4"
  using and_mask_less_size [of 2 m] by (simp add: mask_eq_exp_minus_1 word_size)

lemma init_pin_view:
  assumes "p < 16" "q < 16" "init_valid i"
  shows "pin_of (init_pin i p r) q = (if p = q then configure_pin i (pin_of r q) else pin_of r q)"
  using assms mode_lt_4 [of "Mode i"] div_mod_eq_iff [of p q 8]
  by (auto simp: pin_of_def init_pin_def configure_pin_def init_valid_def Let_def output_type GPIO_MODE_def
      field_put_1s field_put_2 field_put_4 simp del: drop_bit_and)

lemma init_exti_line:
  assumes "p < 16" "q < 16"
  shows "line_of (init_exti g i p s) q = (if p = q then \<lparr>l_port = ucast (GPIO_GET_INDEX g), l_it = bit (Mode i) 16,
     l_evt = bit (Mode i) 17, l_rise = bit (Mode i) 20, l_fall = bit (Mode i) 21\<rparr> else line_of s q)"
proof -
  have b: "m AND GPIO_MODE_IT = GPIO_MODE_IT \<longleftrightarrow> bit m 16" "m AND GPIO_MODE_EVT = GPIO_MODE_EVT \<longleftrightarrow> bit m 17"
    "m AND RISING_EDGE = RISING_EDGE \<longleftrightarrow> bit m 20" "m AND FALLING_EDGE = FALLING_EDGE \<longleftrightarrow> bit m 21" for m :: u32
    using selected [of 16 m] selected [of 17 m] selected [of 20 m] selected [of 21 m] by (simp_all add: reg_consts)
  show ?thesis
    using assms div_mod_eq_iff [of p q 4] index_lt_16 [of g]
    by (auto simp: line_of_def init_exti_def Let_def b bit_exti_pow field_put_4 mult.commute [of 4])
qed

text \<open>Pin and line together, and what one turn of each loop does to them.\<close>

definition pin_line :: "gpio_port \<Rightarrow> gpio_hw \<Rightarrow> nat \<Rightarrow> pin_view \<times> line_view" where
  "pin_line g s p = (pin_of (GPIOx s g) p, line_of s p)"

lemma init_step_view:
  assumes "p < 16" "q < 16" "init_valid i"
  shows "pin_line g (init_step g i p s) q =
    (if p = q then if bit (Pin i) q then map_prod (configure_pin i) (configure_line g i) (pin_line g s q) else pin_line g s q
     else pin_line g s q)"
proof -
  have e: "Mode i AND EXTI_MODE = EXTI_MODE \<longleftrightarrow> bit (Mode i) 28" using selected [of 28 "Mode i"] by (simp add: reg_consts)
  have l: "line_of (s\<lparr>GPIOx := f\<rparr>) = line_of s" "GPIOx (init_exti g i p' t) = GPIOx t" for f t p'
    by (auto simp: line_of_def init_exti_def Let_def)
  show ?thesis
    using assms init_pin_view [OF assms, of "GPIOx s g"] init_exti_line [OF assms(1,2), of g i]
    by (auto simp: init_step_def Let_def selected_pow e l pin_line_def configure_line_def)
qed

lemma deinit_pin_view:
  assumes "p < 16" "q < 16"
  shows "pin_of (deinit_pin p r) q = (if p = q then pin_reset else pin_of r q)"
  using assms div_mod_eq_iff [of p q 8]
  by (auto simp: pin_of_def deinit_pin_def pin_reset_def clear_bits clear_bit field_put_1s field_put_2 field_put_4)

lemma deinit_exti_line:
  assumes "p < 16" "q < 16"
  shows "line_of (deinit_exti g p s) q = (if p = q then release_line g (line_of s q) else line_of s q)"
proof -
  have o: "EXTICR s (p div 4) AND push_bit (4 * (p mod 4)) 0xF = push_bit (4 * (p mod 4)) (ucast (GPIO_GET_INDEX g))
      \<longleftrightarrow> l_port (line_of s p) = ucast (GPIO_GET_INDEX g)"
    using exticr_owner [OF index_lt_16, of "p mod 4"] by (simp add: line_of_def)
  have f: "get_bits 4 (b * 4) (r AND NOT (push_bit (4 * a) 0xF)) = (if a = b then 0 else get_bits 4 (b * 4) r)"
    if "a < 8" for a b r
    using field_put_4 [of 0 a b r] that by (simp add: clear_bits mult.commute)
  show ?thesis
  proof (cases "l_port (line_of s p) = ucast (GPIO_GET_INDEX g)")
    case True
    let ?s = "s\<lparr>IMR := exti_bits False (push_bit p 1) (IMR s), EMR := exti_bits False (push_bit p 1) (EMR s),
      RTSR := exti_bits False (push_bit p 1) (RTSR s), FTSR := exti_bits False (push_bit p 1) (FTSR s),
      EXTICR := (EXTICR s)(p div 4 := EXTICR s (p div 4) AND NOT (push_bit (4 * (p mod 4)) 0xF))\<rparr>"
    have "deinit_exti g p s = ?s" using True by (simp add: deinit_exti_def Let_def o exti_bits_def)
    moreover have "line_of ?s q = (if p = q then line_reset else line_of s q)"
      using assms div_mod_eq_iff [of p q 4] by (simp add: line_of_def f line_reset_def bit_exti_pow)
    ultimately show ?thesis using True by (auto simp: release_line_def)
  next
    case False
    then show ?thesis by (auto simp: deinit_exti_def Let_def o release_line_def)
  qed
qed

lemma deinit_step_view:
  assumes "p < 16" "q < 16"
  shows "pin_line g (deinit_step g pins p s) q =
    (if p = q then if bit pins q then map_prod (\<lambda>_. pin_reset) (release_line g) (pin_line g s q) else pin_line g s q
     else pin_line g s q)"
proof -
  have l: "line_of (t\<lparr>GPIOx := f\<rparr>) = line_of t" "GPIOx (deinit_exti g p' t) = GPIOx t" for f t p'
    by (auto simp: line_of_def deinit_exti_def Let_def)
  show ?thesis
    using assms deinit_pin_view [OF assms, of "GPIOx s g"] deinit_exti_line [OF assms, of g s]
    by (auto simp: deinit_step_def Let_def selected_pow l pin_line_def)
qed

section \<open>All pins\<close>

text \<open>
  A loop whose turn \<open>p\<close> changes entry \<open>p\<close> of a view of the state and no other: after the loop
  every entry below the bound has been changed once, whatever the order.
\<close>

locale pointwise_loop =
  fixes step :: "nat \<Rightarrow> 's \<Rightarrow> 's" and view :: "'s \<Rightarrow> nat \<Rightarrow> 'v" and upd :: "nat \<Rightarrow> 'v \<Rightarrow> 'v" and n :: nat
  assumes step_view: "p < n \<Longrightarrow> q < n \<Longrightarrow> view (step p s) q = (if p = q then upd q (view s q) else view s q)"
begin

lemma fold_view:
  "set ps \<subseteq> {..<n} \<Longrightarrow> distinct ps \<Longrightarrow> q < n \<Longrightarrow>
   view (fold step ps s) q = (if q \<in> set ps then upd q (view s q) else view s q)"
  by (induction ps arbitrary: s) (auto simp: step_view)

lemma loop_view: "q < n \<Longrightarrow> view (fold step [0..<n] s) q = upd q (view s q)"
  using fold_view [of "[0..<n]" q s] by (auto simp: atLeast0LessThan)

end

interpretation deinit: pointwise_loop "deinit_step g pins" "pin_line g"
  "\<lambda>q v. if bit pins q then map_prod (\<lambda>_. pin_reset) (release_line g) v else v" 16 for g pins
  by unfold_locales (simp add: deinit_step_view)

lemma init_loop: "init_valid i \<Longrightarrow> pointwise_loop (init_step g i) (pin_line g)
  (\<lambda>q v. if bit (Pin i) q then map_prod (configure_pin i) (configure_line g i) v else v) 16"
  by unfold_locales (simp add: init_step_view)

text \<open>The other ports are not touched.\<close>

lemma fold_keeps: "(\<And>p s. f (step p s) = f s) \<Longrightarrow> f (fold step ps s) = f s"
  by (induction ps arbitrary: s) auto

lemma init_frame:
  "g' \<noteq> g \<Longrightarrow> GPIOx (HAL_GPIO_Init g i s) g' = GPIOx s g'" "ODR (GPIOx (HAL_GPIO_Init g i s) g) = ODR (GPIOx s g)"
  unfolding HAL_GPIO_Init_def
  by (rule fold_keeps [where f = "\<lambda>s. GPIOx s g'"], simp add: init_step_def init_exti_def Let_def)
    (rule fold_keeps [where f = "\<lambda>s. ODR (GPIOx s g)"], simp add: init_step_def init_exti_def init_pin_def Let_def)

lemma deinit_frame:
  "g' \<noteq> g \<Longrightarrow> GPIOx (HAL_GPIO_DeInit g pins s) g' = GPIOx s g'" "ODR (GPIOx (HAL_GPIO_DeInit g pins s) g) = ODR (GPIOx s g)"
  unfolding HAL_GPIO_DeInit_def
  by (rule fold_keeps [where f = "\<lambda>s. GPIOx s g'"], simp add: deinit_step_def deinit_exti_def Let_def)
    (rule fold_keeps [where f = "\<lambda>s. ODR (GPIOx s g)"], simp add: deinit_step_def deinit_exti_def deinit_pin_def Let_def)

text \<open>The pins after either function, for the clients.\<close>

lemma gpio_init_pins:
  assumes "init_valid i" "p < 16"
  shows "pin_of (GPIOx (HAL_GPIO_Init g i s) g') p
    = (if g' = g \<and> bit (Pin i) p then configure_pin i (pin_of (GPIOx s g) p) else pin_of (GPIOx s g') p)"
  using pointwise_loop.loop_view [OF init_loop [OF assms(1), of g] assms(2), of s] init_frame(1) [of g' g i s]
  by (cases "g' = g") (auto simp: HAL_GPIO_Init_def pin_line_def split: if_splits)

lemma gpio_deinit_pins:
  assumes "p < 16"
  shows "pin_of (GPIOx (HAL_GPIO_DeInit g pins s) g') p = (if g' = g \<and> bit pins p then pin_reset else pin_of (GPIOx s g') p)"
  using deinit.loop_view [OF assms, where g = g and pins = pins and s = s] deinit_frame(1) [of g' g pins s]
  by (cases "g' = g") (auto simp: HAL_GPIO_DeInit_def pin_line_def split: if_splits)

section \<open>Properties\<close>

text \<open>
  Configuring pins. \<^verbatim>\<open>HAL_GPIO_Init\<close> gives every selected pin the mode,
  output type, speed, pull resistor and alternate function of the request, gives its interrupt
  line to this port with the requested triggers if an interrupt mode is asked for, and leaves
  every other pin, line and port and all output levels as they were.
\<close>

lemma HAL_GPIO_Init_configures:
  assumes "init_valid i" and "p < 16"
  shows "pin_of (GPIOx (HAL_GPIO_Init g i s) g) p
      = (if bit (Pin i) p then configure_pin i (pin_of (GPIOx s g) p) else pin_of (GPIOx s g) p)
    \<and> line_of (HAL_GPIO_Init g i s) p = (if bit (Pin i) p then configure_line g i (line_of s p) else line_of s p)
    \<and> (\<forall>g'. g' \<noteq> g \<longrightarrow> GPIOx (HAL_GPIO_Init g i s) g' = GPIOx s g')
    \<and> ODR (GPIOx (HAL_GPIO_Init g i s) g) = ODR (GPIOx s g)"
  using pointwise_loop.loop_view [OF init_loop [OF assms(1), of g] assms(2), of s] init_frame(1) [of _ g i s] init_frame(2) [of g i s]
  by (auto simp: HAL_GPIO_Init_def pin_line_def split: if_splits)

text \<open>A port after reset with all pins as floating inputs, for the witnesses.\<close>

definition port_off :: gpio_regs where
  "port_off = \<lparr>MODER = 0, OTYPER = 0, OSPEEDR = 0, PUPDR = 0, ODR = 0, AFR = (\<lambda>_. 0)\<rparr>"

definition gpio_off :: gpio_hw where
  "gpio_off = \<lparr>GPIOx = (\<lambda>_. port_off), EXTICR = (\<lambda>_. 0), IMR = 0, EMR = 0, RTSR = 0, FTSR = 0, PR = 0,
     SYSCFG_clock = False, exti_callbacks = []\<rparr>"

text \<open>
  A pin configured and released. Whatever a valid request made of the selected pins,
  \<^verbatim>\<open>HAL_GPIO_DeInit\<close> of the same pins brings them back to floating inputs and frees
  exactly the interrupt lines that this port owns; the pins not selected keep their configuration
  through both calls.
\<close>

lemma HAL_GPIO_Init_DeInit:
  assumes "init_valid i" and "p < 16"
  shows "pin_of (GPIOx (HAL_GPIO_DeInit g (Pin i) (HAL_GPIO_Init g i s)) g) p
      = (if bit (Pin i) p then pin_reset else pin_of (GPIOx s g) p)
    \<and> line_of (HAL_GPIO_DeInit g (Pin i) (HAL_GPIO_Init g i s)) p
      = (if bit (Pin i) p then if bit (Mode i) 28 then line_reset else release_line g (line_of s p) else line_of s p)"
  using pointwise_loop.loop_view [OF init_loop [OF assms(1), of g] assms(2), of s]
    deinit.loop_view [OF assms(2), where g = g and pins = "Pin i" and s = "HAL_GPIO_Init g i s"]
  by (auto simp: HAL_GPIO_Init_def HAL_GPIO_DeInit_def pin_line_def release_line_def configure_line_def split: if_splits)

section \<open>Levels\<close>

definition pin_level :: "gpio_port \<Rightarrow> gpio_hw \<Rightarrow> nat \<Rightarrow> bool" where
  "pin_level g s p = bit (ODR (GPIOx s g)) p"

lemma bit_FFFF: "bit (0xFFFF :: u32) p \<longleftrightarrow> p < 16"
proof -
  have "(0xFFFF :: u32) = mask 16" by (simp add: mask_eq_exp_minus_1)
  then show ?thesis by (simp only: bit_mask_iff) auto
qed

lemma level_BSRR:
  "p < 16 \<Longrightarrow> pin_level g (wr_BSRR g v s) p = (if bit v p then True else if bit v (16 + p) then False else pin_level g s p)"
  by (auto simp: pin_level_def wr_BSRR_def bit_and_iff bit_or_iff bit_not_iff bit_drop_bit_eq bit_FFFF
      simp del: bit_numeral_word_iff)

lemma write_level:
  "p < 16 \<Longrightarrow> pin_level g (HAL_GPIO_WritePin g pins b s) p = (if bit pins p then b else pin_level g s p)"
  by (auto simp: HAL_GPIO_WritePin_def level_BSRR bit_simps dest: bit_u16)

text \<open>
  Toggling several pins at once: if any of them is high they all go low. Each pin is toggled only
  when all selected pins have the same level.
\<close>

lemma toggle_level:
  assumes "p < 16"
  shows "pin_level g (HAL_GPIO_TogglePin g pins s) p
    = (if bit pins p then \<not> (\<exists>q. bit pins q \<and> pin_level g s q) else pin_level g s p)"
proof -
  have "ODR (GPIOx s g) AND ucast pins \<noteq> 0 \<longleftrightarrow> (\<exists>q. bit pins q \<and> pin_level g s q)"
    by (auto simp: and_eq_0_bits pin_level_def bit_simps dest: bit_u16 bit_u32)
  with assms show ?thesis
    by (auto simp: HAL_GPIO_TogglePin_def level_BSRR bit_simps dest: bit_u16)
qed

lemma toggle_one: "p < 16 \<Longrightarrow> k < 16 \<Longrightarrow> pin_level g (HAL_GPIO_TogglePin g (push_bit k 1) s) p = (pin_level g s p \<noteq> (p = k))"
  by (auto simp: toggle_level bit_simps)

lemma toggle_mixed_lost:
  assumes "pin_level g s p" "\<not> pin_level g s q" "bit pins p" "bit pins q" "q < 16"
  shows "\<not> pin_level g (HAL_GPIO_TogglePin g pins s) q"
  using assms toggle_level [of q g pins s] by auto

text \<open>The interrupt handler clears what it reports, and reports only what is pending.\<close>

lemma exti_handler:
  "PR (HAL_GPIO_EXTI_IRQHandler pins s) AND ucast pins = 0"
  "exti_callbacks (HAL_GPIO_EXTI_IRQHandler pins s) = exti_callbacks s @ (if PR s AND ucast pins = 0 then [] else [pins])"
  by (auto simp: HAL_GPIO_EXTI_IRQHandler_def and.assoc)

end
