(* ===== verification/Hardware.thy ===== *)
theory Hardware
  imports Can Hal_Gpio
begin

text \<open>
  Model of \<^verbatim>\<open>src/src/hardware.c\<close>: LEDs, digital and analogue inputs and outputs, the
  switch of the card reader, power down, and the jump to the CAN boot loader. Register writes go
  to a log in program order; register reads are arguments. Memory barriers have no effect.
\<close>

unbundle bit_operations_syntax

section \<open>State\<close>

datatype hw_write =
    BSRR gpio_port u32
  | SYS_CNTL_SET u32
  | SYS_CNTL_CLR u32
  | SYS_DOUT_WR u32
  | FPGA_CAN_CNTL u8 u32
  | FPGA_CAN_PHY u8 u32
  | ADC2_SQR3 u32
  | ADC2_CR2 u32
  | Nops u32
  | HW_Reset

datatype hw_result = HW_ERR_OK | HW_ERR_ILLPARAMVAL | HW_ERR_RESOURCE

text \<open>The block at \<^verbatim>\<open>BL_INVOKE\<close> through which the CAN boot loader gets its orders.\<close>

record BootLoaderInvoke_t =
  bl_version :: u32
  str_invoke :: string
  bl_timing :: "CANTiming_t list"

record hw_state =
  hw_log :: "hw_write list"
  BL_INVOKE :: BootLoaderInvoke_t

definition hw_put :: "hw_write list \<Rightarrow> hw_state \<Rightarrow> hw_state" where
  "hw_put ws s = s\<lparr>hw_log := hw_log s @ ws\<rparr>"

section \<open>Card reader, reset, inputs and outputs\<close>

text \<open>The waiting loop runs \<open>n * 100\<close> times, with the product in 32 bits.\<close>

definition HW_WaitMicros :: "u32 \<Rightarrow> hw_write list" where
  "HW_WaitMicros n = [Nops (n * 100)]"

definition HW_PassUsbToHost :: "hw_state \<Rightarrow> hw_state" where
  "HW_PassUsbToHost s =
     hw_put (BSRR GPIOJ (push_bit 18 1 OR push_bit 17 1) # HW_WaitMicros 20 @ [BSRR GPIOJ (push_bit 23 1)]) s"

definition i2c_dummy_clock :: "hw_write list" where
  "i2c_dummy_clock = SYS_CNTL_CLR (push_bit 24 1) # HW_WaitMicros 4
     @ SYS_CNTL_SET (push_bit 24 1) # HW_WaitMicros 4"

definition HW_PassUsbToMe :: "hw_state \<Rightarrow> hw_state" where
  "HW_PassUsbToMe s =
     hw_put (BSRR GPIOJ (push_bit 7 1) # HW_WaitMicros 20 @ BSRR GPIOJ (push_bit 2 1 OR push_bit 1 1) # HW_WaitMicros 10
       @ concat (replicate 12 i2c_dummy_clock)) s"

definition HW_ResetModule :: "hw_state \<Rightarrow> hw_state" where
  "HW_ResetModule s = hw_put (BSRR GPIOG (push_bit 22 1) # HW_WaitMicros 50 @ [HW_Reset]) s"

text \<open>The loop that waits for the end of the conversion, by the values of the status register.\<close>

fun wait_eoc :: "u32 list \<Rightarrow> unit res" where
  "wait_eoc [] = Inl Hang"
| "wait_eoc (sr # srs) = (if bit sr 1 then Inr () else wait_eoc srs)"

text \<open>
  The buffer is \<open>None\<close> for the null pointer; what it holds afterwards is returned. \<open>DR\<close> is the
  data register after the conversion; its value before is overwritten.
\<close>

definition HW_GetAIN :: "u32 option \<Rightarrow> u32 \<Rightarrow> u32 list \<Rightarrow> u32 \<Rightarrow> hw_state
    \<Rightarrow> (hw_result \<times> u32 option \<times> hw_state) res" where
  "HW_GetAIN buffer CR2 SRs DR s =
     (case buffer of None \<Rightarrow> Inr (HW_ERR_ILLPARAMVAL, None, s)
      | Some _ \<Rightarrow> res_bind (wait_eoc SRs) (\<lambda>_.
          Inr (HW_ERR_OK, Some (DR AND 0xFFF), hw_put [ADC2_SQR3 6, ADC2_CR2 (CR2 OR push_bit 30 1)] s)))"

definition HW_GetDIN :: "u32 option \<Rightarrow> u32 \<Rightarrow> hw_result \<times> u32 option" where
  "HW_GetDIN buffer IDR = (case buffer of None \<Rightarrow> (HW_ERR_ILLPARAMVAL, None)
     | Some _ \<Rightarrow> (HW_ERR_OK, Some ((drop_bit 4 IDR AND 0xF) XOR 0xF)))"

definition HW_SetDOUT :: "u32 option \<Rightarrow> hw_state \<Rightarrow> hw_result \<times> hw_state" where
  "HW_SetDOUT buffer s = (case buffer of None \<Rightarrow> (HW_ERR_ILLPARAMVAL, s)
     | Some v \<Rightarrow> (HW_ERR_OK, hw_put [SYS_DOUT_WR v] s))"

definition HW_GetModuleID :: "u8 option \<Rightarrow> u32 \<Rightarrow> hw_result \<times> u8 option" where
  "HW_GetModuleID buffer IDR = (case buffer of None \<Rightarrow> (HW_ERR_ILLPARAMVAL, None)
     | Some _ \<Rightarrow> (HW_ERR_OK, Some (ucast ((drop_bit 12 IDR AND 0xF) XOR 0xF))))"

section \<open>The CAN boot loader\<close>

definition CANTiming_zero :: CANTiming_t where
  "CANTiming_zero = \<lparr>can_clk = 0, nom_brp = 0, nom_tseg1 = 0, nom_tseg2 = 0, nom_sjw = 0, warning_limit = 0,
     listen_only = 0, can_mode = 0, data_brp = 0, data_tseg1 = 0, data_tseg2 = 0, data_sjw = 0\<rparr>"

text \<open>\<^verbatim>\<open>strncpy\<close> pads the 32 characters with zeros.\<close>

definition invoke_text :: string where
  "invoke_text = ''call bootloader!'' @ replicate 16 (CHR 0x00)"

text \<open>\<^verbatim>\<open>memcpy\<close> takes six timings; fewer behind the pointer is an access outside them.\<close>

definition HW_JumpToBootloader :: "CANTiming_t list option \<Rightarrow> hw_state \<Rightarrow> hw_state res" where
  "HW_JumpToBootloader timing s =
     (let s1 = hw_put [BSRR GPIOG (push_bit 22 1)] s;
          jump = (\<lambda>ts. hw_put [HW_Reset] (s1\<lparr>BL_INVOKE := \<lparr>bl_version = 1, str_invoke = invoke_text, bl_timing = ts\<rparr>\<rparr>))
      in case timing of None \<Rightarrow> Inr (jump (replicate 6 CANTiming_zero))
         | Some ts \<Rightarrow> if length ts < 6 then Inl Oob else Inr (jump (take 6 ts)))"

section \<open>LEDs\<close>

definition set_status_led :: "u8 \<Rightarrow> hw_write list" where
  "set_status_led color =
     [BSRR GPIOJ (push_bit 9 1), BSRR GPIOB (push_bit 15 1)]
     @ (if color = 1 then [BSRR GPIOJ (push_bit 25 1)]
        else if color = 2 then [BSRR GPIOB (push_bit 31 1)]
        else if color = 3 then [BSRR GPIOJ (push_bit 25 1), BSRR GPIOB (push_bit 31 1)]
        else [])"

definition set_can_led :: "u8 \<Rightarrow> u8 \<Rightarrow> hw_result \<times> hw_write list" where
  "set_can_led i color =
     (if color = 0 then (HW_ERR_OK, [FPGA_CAN_CNTL i (push_bit 10 2 OR push_bit 8 2)])
      else if color = 1 then (HW_ERR_OK, [FPGA_CAN_CNTL i (push_bit 10 2 OR push_bit 8 1)])
      else if color = 2 then (HW_ERR_OK, [FPGA_CAN_CNTL i (push_bit 10 1 OR push_bit 8 2)])
      else if color = 3 then (HW_ERR_OK, [FPGA_CAN_CNTL i (push_bit 10 1 OR push_bit 8 1)])
      else (HW_ERR_ILLPARAMVAL, []))"

text \<open>The two LEDs of the card sockets differ in their first bit \<open>k\<close>.\<close>

definition set_sd_led :: "nat \<Rightarrow> u8 \<Rightarrow> hw_write list" where
  "set_sd_led k color =
     (if color = 0 then [SYS_CNTL_SET (push_bit k 3)]
      else if color = 1 then [SYS_CNTL_CLR (push_bit k 1), SYS_CNTL_SET (push_bit (k + 1) 1)]
      else if color = 2 then [SYS_CNTL_CLR (push_bit (k + 1) 1), SYS_CNTL_SET (push_bit k 1)]
      else if color = 3 then [SYS_CNTL_CLR (push_bit k 3)]
      else [])"

definition HW_SetLED :: "u8 \<Rightarrow> u8 \<Rightarrow> hw_state \<Rightarrow> hw_result \<times> hw_state" where
  "HW_SetLED hLED color s =
     (if hLED = 0 then (HW_ERR_OK, hw_put (set_status_led color) s)
      else if 1 \<le> hLED \<and> hLED \<le> 6 then
        (case set_can_led (hLED - 1) color of (ret, ws) \<Rightarrow> (ret, hw_put ws s))
      else if hLED = 7 then (HW_ERR_OK, hw_put (set_sd_led 20 color) s)
      else if hLED = 8 then (HW_ERR_OK, hw_put (set_sd_led 22 color) s)
      else (HW_ERR_RESOURCE, s))"

section \<open>Power down\<close>

definition phy_sleep :: "u32 list" where
  "phy_sleep = [3, 3, 0, 2, 1, 3, 3, 3, 3, 2, 3, 3, 3, 3, 3, 3]"

text \<open>\<open>phy b\<close> is what the register \<^verbatim>\<open>CAN_PHY\<close> of bus \<open>b\<close> reads.\<close>

definition phy_sleep_cmd :: "(u8 \<Rightarrow> u32) \<Rightarrow> u8 \<Rightarrow> hw_write" where
  "phy_sleep_cmd phy b = FPGA_CAN_PHY b
     (push_bit 31 1 OR push_bit 30 1 OR push_bit 28 (phy_sleep ! unat (phy b AND 0xF)))"

definition HW_EnterPowerDown :: "(u8 \<Rightarrow> u32) \<Rightarrow> hw_state \<Rightarrow> hw_state" where
  "HW_EnterPowerDown phy s =
     hw_put (map (phy_sleep_cmd phy) [0, 1, 2, 3, 4, 5] @ [BSRR GPIOK (push_bit 16 1), BSRR GPIOI (push_bit 24 1)]) s"

section \<open>What the writes do to the outputs\<close>

text \<open>
  The pins of a port follow its bit set and reset register, the FPGA's control word its set and
  clear registers; a two bit field of \<^verbatim>\<open>CAN_CNTL\<close> switches its LED on with 1 and off
  with 2, and 0 leaves it. LEDs on pins and in the control word are lit by a zero.
\<close>

record outputs =
  odr :: "gpio_port \<Rightarrow> u32"
  sys_cntl :: u32
  can_red :: "u8 \<Rightarrow> bool"
  can_green :: "u8 \<Rightarrow> bool"

definition led_field :: "u32 \<Rightarrow> bool \<Rightarrow> bool" where
  "led_field v old = (if v AND 3 = 1 then True else if v AND 3 = 2 then False else old)"

fun drive :: "hw_write \<Rightarrow> outputs \<Rightarrow> outputs" where
  "drive (BSRR p v) out = out\<lparr>odr := (odr out)(p := (odr out p AND NOT (drop_bit 16 v)) OR (v AND 0xFFFF))\<rparr>"
| "drive (SYS_CNTL_SET v) out = out\<lparr>sys_cntl := sys_cntl out OR v\<rparr>"
| "drive (SYS_CNTL_CLR v) out = out\<lparr>sys_cntl := sys_cntl out AND NOT v\<rparr>"
| "drive (FPGA_CAN_CNTL b v) out =
     out\<lparr>can_red := (can_red out)(b := led_field (drop_bit 8 v) (can_red out b)),
         can_green := (can_green out)(b := led_field (drop_bit 10 v) (can_green out b))\<rparr>"
| "drive w out = out"

text \<open>Whether the red and the green half of an LED are lit.\<close>

definition lit :: "outputs \<Rightarrow> u8 \<Rightarrow> bool \<times> bool" where
  "lit out h =
     (if h = 0 then (\<not> bit (odr out GPIOJ) 9, \<not> bit (odr out GPIOB) 15)
      else if h = 7 then (\<not> bit (sys_cntl out) 20, \<not> bit (sys_cntl out) 21)
      else if h = 8 then (\<not> bit (sys_cntl out) 22, \<not> bit (sys_cntl out) 23)
      else (can_red out (h - 1), can_green out (h - 1)))"

definition color_lit :: "u8 \<Rightarrow> bool \<times> bool" where
  "color_lit color = (bit color 0, bit color 1)"

definition outputs_after :: "hw_state \<Rightarrow> outputs \<Rightarrow> outputs" where
  "outputs_after s out = fold drive (hw_log s) out"

lemma outputs_after_put: "outputs_after (hw_put ws s) out = fold drive ws (outputs_after s out)"
  by (simp add: outputs_after_def hw_put_def)

lemma small_u8: "(c :: u8) \<le> 3 \<Longrightarrow> c = 0 \<or> c = 1 \<or> c = 2 \<or> c = 3"
  by (simp add: word_le_nat_alt unat_inject [symmetric]) linarith

lemma status_led:
  "color \<le> 3 \<Longrightarrow> lit (fold drive (set_status_led color) out) h = (if h = 0 then color_lit color else lit out h)"
  by (drule small_u8) (auto simp: set_status_led_def lit_def color_lit_def bit_simps)

lemma sd_led:
  assumes "color \<le> 3" "(k, h0) \<in> {(20, 7), (22, 8)}"
  shows "lit (fold drive (set_sd_led k color) out) h = (if h = h0 then color_lit color else lit out h)"
  using small_u8 [OF assms(1)] assms(2)
  by (auto simp: set_sd_led_def lit_def color_lit_def bit_simps)

lemma can_led:
  assumes "color \<le> 3" "1 \<le> h0" "h0 \<le> 6"
  shows "fst (set_can_led (h0 - 1) color) = HW_ERR_OK"
    and "lit (fold drive (snd (set_can_led (h0 - 1) color)) out) h = (if h = h0 then color_lit color else lit out h)"
  using small_u8 [OF assms(1)] assms(2,3)
  by (auto simp: set_can_led_def lit_def color_lit_def led_field_def)

section \<open>Properties\<close>

text \<open>
  \<^verbatim>\<open>HW_SetLED\<close> shows the colour asked for. For each of the nine LEDs and
  four colours it succeeds, afterwards exactly the halves of that colour are lit on that LED,
  whatever was shown before, and every other LED shows what it did.
\<close>

lemma HW_SetLED_shows:
  assumes "hLED \<le> 8" and "color \<le> 3" and "HW_SetLED hLED color s = (ret, s')" and "h \<le> 8"
  shows "ret = HW_ERR_OK
    \<and> lit (outputs_after s' out) h = (if h = hLED then color_lit color else lit (outputs_after s out) h)"
proof -
  consider "hLED = 0" | "hLED = 7" | "hLED = 8" | "1 \<le> hLED" "hLED \<le> 6"
    using assms(1) by (simp add: word_le_nat_alt unat_inject [symmetric]) linarith
  then show ?thesis
  proof cases
    case 4
    then have "hLED \<noteq> 0" by auto
    with 4 assms(3) can_led [OF assms(2) 4] show ?thesis
      by (auto simp: HW_SetLED_def outputs_after_put split: prod.splits)
  qed (use assms(2,3) in \<open>auto simp: HW_SetLED_def outputs_after_put status_led sd_led\<close>)
qed

definition hw_reset :: hw_state where
  "hw_reset = \<lparr>hw_log = [], BL_INVOKE = \<lparr>bl_version = 0, str_invoke = [], bl_timing = []\<rparr>\<rparr>"

end
