(* ===== verification/Can_User.thy ===== *)
theory Can_User
  imports Hardware
begin

text \<open>
  Model of \<^verbatim>\<open>src/src/can_user.c\<close>: setting up the six buses, reading with recovery from
  bus-off, and the jump to the CAN boot loader with a choice of bit rates.
\<close>

unbundle bit_operations_syntax

section \<open>Definitions\<close>

text \<open>The rows of \<^verbatim>\<open>src/inc/can_user.h\<close> the module uses.\<close>

definition timing_40M_500K_4M :: CANTiming_t where
  "timing_40M_500K_4M = \<lparr>can_clk = 40000000, nom_brp = 1, nom_tseg1 = 63, nom_tseg2 = 16, nom_sjw = 16,
     warning_limit = 96, listen_only = 0, can_mode = 1, data_brp = 1, data_tseg1 = 7, data_tseg2 = 2, data_sjw = 2\<rparr>"

definition timing_80M_125K_2M :: CANTiming_t where
  "timing_80M_125K_2M = \<lparr>can_clk = 80000000, nom_brp = 4, nom_tseg1 = 127, nom_tseg2 = 32, nom_sjw = 32,
     warning_limit = 96, listen_only = 0, can_mode = 1, data_brp = 4, data_tseg1 = 7, data_tseg2 = 2, data_sjw = 2\<rparr>"

definition Timing_CANx :: "CANTiming_t list" where
  "Timing_CANx = replicate 6 timing_40M_500K_4M"

definition TimingForBootloader :: "CANTiming_t list" where
  "TimingForBootloader = replicate 6 timing_80M_125K_2M"

definition CAN_BUFFER_STATUS :: u32 where [reg_consts]: "CAN_BUFFER_STATUS = 3"

text \<open>The fields of a record in the receive cache that every type of record has, and the flag
  \<^verbatim>\<open>bus_status\<close> of a status notification.\<close>

definition rec_bufftype :: "u32 \<Rightarrow> u32" where
  "rec_bufftype w0 = drop_bit 16 w0 AND 0xFFF"

definition rec_hBus :: "u32 \<Rightarrow> u8" where
  "rec_hBus w0 = ucast (drop_bit 28 w0)"

definition rec_bus_status :: "u32 \<Rightarrow> bool" where
  "rec_bus_status w3 \<longleftrightarrow> bit w3 7"

text \<open>
  \<^verbatim>\<open>&Timing_CANx[hBus]\<close> for a bus above the last is a pointer past the table, which
  \<^verbatim>\<open>CAN_Initialize\<close> does not follow.
\<close>

definition bus_timing :: "u8 \<Rightarrow> CANTiming_t option" where
  "bus_timing hBus = Some (if unat hBus < length Timing_CANx then Timing_CANx ! unat hBus else CANTiming_zero)"

text \<open>Restarting a bus; \<open>stats\<close> are the values of its status register while it waits.\<close>

definition restart_bus :: "u8 \<Rightarrow> u32 list \<Rightarrow> can_state \<Rightarrow> can_state res" where
  "restart_bus hBus stats s =
     res_bind (CAN_Initialize hBus (bus_timing hBus) stats (snd (CAN_UnInitialize hBus s)))
       (\<lambda>(_, _, s1). Inr s1)"

text \<open>The record read, if any, is returned beside the result.\<close>

definition CAN_UserRead :: "dma_engine_fn \<Rightarrow> u8 \<Rightarrow> u32 option \<Rightarrow> u32 \<Rightarrow> u32 list \<Rightarrow> u32 list \<Rightarrow> can_state
    \<Rightarrow> (can_result \<times> u32 list option \<times> can_state) res" where
  "CAN_UserRead dma hBus buff SYS_STAT box stats s =
     res_bind (CAN_Read dma hBus buff SYS_STAT box s) (\<lambda>(r, ws, s1).
     case ws of None \<Rightarrow> Inr (CAN_ERR_RX_EMPTY, None, s1)
     | Some rx_buff \<Rightarrow>
       if r \<noteq> CAN_ERR_OK then Inr (CAN_ERR_RX_EMPTY, ws, s1)
       else res_bind (rd rx_buff 0) (\<lambda>w0.
         if rec_bufftype w0 = CAN_BUFFER_STATUS then
           res_bind (rd rx_buff 3) (\<lambda>w3.
             if rec_bus_status w3
             then res_bind (restart_bus (rec_hBus w0) stats s1) (\<lambda>s2. Inr (CAN_ERR_RX_EMPTY, ws, s2))
             else Inr (CAN_ERR_RX_EMPTY, ws, s1))
         else if rec_bufftype w0 = CAN_BUFFER_RX_MSG then Inr (CAN_ERR_OK, ws, s1)
         else Inr (CAN_ERR_RX_EMPTY, ws, s1)))"

definition CAN_UserInvokeBootloader :: "u8 \<Rightarrow> hw_state \<Rightarrow> hw_state res" where
  "CAN_UserInvokeBootloader settings s =
     (if settings = 1 then HW_JumpToBootloader None s
      else if settings = 2 then HW_JumpToBootloader (Some TimingForBootloader) s
      else if settings = 3 then HW_JumpToBootloader (Some Timing_CANx) s
      else Inr s)"

text \<open>One of the six pairs of calls in \<^verbatim>\<open>CAN_UserInit\<close>; the results are not looked at.\<close>

definition init_bus :: "u8 \<Rightarrow> u32 list \<times> can_state \<Rightarrow> (u32 list \<times> can_state) res" where
  "init_bus b st = (case st of (stats, s) \<Rightarrow>
     res_bind (CAN_Initialize b (bus_timing b) stats s) (\<lambda>(_, stats', s1).
     Inr (stats', snd (CAN_FilterAdd b 0 0 0x7FF s1))))"

fun init_buses :: "u8 list \<Rightarrow> u32 list \<times> can_state \<Rightarrow> (u32 list \<times> can_state) res" where
  "init_buses [] st = Inr st"
| "init_buses (b # bs) st = res_bind (init_bus b st) (init_buses bs)"

definition CAN_UserInit :: "u32 list \<Rightarrow> can_state \<Rightarrow> (u32 list \<times> can_state) res" where
  "CAN_UserInit stats s = init_buses [0, 1, 2, 3, 4, 5] (stats, s)"

section \<open>Lemmas\<close>

definition ready_polls :: "u32 list \<Rightarrow> nat" where
  "ready_polls stats = length (filter (\<lambda>v. bit v 1) stats)"

lemma wait_tx_empty_ready:
  "0 < ready_polls stats \<Longrightarrow> \<exists>r. wait_tx_empty stats = Inr r \<and> ready_polls r = ready_polls stats - 1"
  using and_exp_eq_0_iff_not_bit [of _ 1, where 'a = u32]
  by (induction stats) (auto simp: ready_polls_def)

lemma bus_timing_valid:
  "b \<le> CAN_BUS_MAX \<Longrightarrow> bus_timing b = Some timing_40M_500K_4M"
  by (simp add: bus_timing_def Timing_CANx_def word_le_nat_alt reg_consts)

text \<open>What the log gains when a bus is initialised; \<open>started\<close> is the interface to the log.\<close>

definition init_writes :: "u8 \<Rightarrow> CANTiming_t \<Rightarrow> reg_write list" where
  "init_writes b t =
     can_cmd b (push_bit 12 (ucast b) OR PCAN_CORE_FD_CMD_RESETMODE) 0 @ [CAN_CNTL b (push_bit 6 1), CAN_CNTL b (push_bit 6 2)]
     @ CAN_CNTL b (the (clock_cntl (can_clk t))) # can_cmd b (fst (nominal_timing_cmd t)) (snd (nominal_timing_cmd t))
     @ can_cmd b (fst (data_timing_cmd t)) (snd (data_timing_cmd t))
     @ the (mode_cmds b (can_mode t)) @ start_cmd b (listen_only t)"

lemma init_run:
  assumes "b \<le> CAN_BUS_MAX" "0 < ready_polls stats"
  shows "\<exists>stats'. CAN_Initialize b (bus_timing b) stats s
      = Inr (CAN_ERR_OK, stats', log_writes (init_writes b timing_40M_500K_4M) s)
    \<and> ready_polls stats' = ready_polls stats - 1"
proof -
  obtain r where "wait_tx_empty stats = Inr r" "ready_polls r = ready_polls stats - 1"
    using wait_tx_empty_ready [OF assms(2)] by blast
  then show ?thesis
    using assms(1) bus_timing_valid [OF assms(1)]
    by (simp add: CAN_Initialize_def timing_40M_500K_4M_def clock_cntl_def mode_cmds_def Let_def log_writes_def
        init_writes_def not_less)
qed

lemma filters_wf_log: "filters_wf (log_writes ws s) = filters_wf s" "accepted (log_writes ws s) = accepted s"
  by (auto simp: filters_wf_def log_writes_def accepted_def fun_eq_iff)

lemma all_pass_table:
  assumes "length f = 64" "{i. i < 2048 \<and> passes f i} = {0..2047}"
  shows "f = replicate 64 0xFFFFFFFF"
proof (rule nth_equalityI)
  fix i assume i: "i < length f"
  have "f ! i = (0xFFFFFFFF :: u32)"
  proof (rule bit_word_eqI)
    fix n assume "n < LENGTH(32)"
    then have n: "n < 32" by simp
    have "32 * i + n < 2048" using i n assms(1) by linarith
    then have "32 * i + n \<in> {i. i < 2048 \<and> passes f i}" by (simp only: assms(2) atLeastAtMost_iff) linarith
    then have "bit (f ! i) n" using n by (simp add: passes_def)
    moreover have "bit (0xFFFFFFFF :: u32) n"
    proof -
      have "(0xFFFFFFFF :: u32) = - 1" by simp
      then show ?thesis using n by (simp only: bit_minus_1_iff) simp
    qed
    ultimately show "bit (f ! i) n = bit (0xFFFFFFFF :: u32) n" by simp
  qed
  then show "f ! i = replicate 64 0xFFFFFFFF ! i" using i assms(1) by simp
qed (simp add: assms(1))

definition bus_writes :: "u8 \<Rightarrow> reg_write list" where
  "bus_writes b = init_writes b timing_40M_500K_4M @ filter_commands b (replicate 64 0xFFFFFFFF)"

lemma init_bus_run:
  assumes "b \<le> CAN_BUS_MAX" "filters_wf s" "0 < ready_polls stats"
  shows "\<exists>stats' s'. init_bus b (stats, s) = Inr (stats', s') \<and> filters_wf s' \<and> ready_polls stats' = ready_polls stats - 1
    \<and> (\<forall>b'. accepted s' b' = (if b' = b then {0..2047} else accepted s b'))
    \<and> can_log s' = can_log s @ bus_writes b"
proof -
  let ?s1 = "log_writes (init_writes b timing_40M_500K_4M) s"
  obtain stats' where i: "CAN_Initialize b (bus_timing b) stats s = Inr (CAN_ERR_OK, stats', ?s1)"
    "ready_polls stats' = ready_polls stats - 1"
    using init_run [OF assms(1,3)] by blast
  have wf: "filters_wf ?s1" using assms(2) by (simp add: filters_wf_log)
  obtain f where f: "CAN_FilterAdd b 0 0 0x7FF ?s1 = (CAN_ERR_OK, set_filter b f ?s1)" "length f = 64"
    "{i. i < 2048 \<and> passes f i} = accepted ?s1 b \<union> {unat (0 :: u32)..unat (0x7FF :: u32)}"
    by (rule CAN_FilterAdd_run [OF wf assms(1), of 0 "0x7FF" 0]) simp_all
  have "accepted t b \<subseteq> {0..2047}" for t unfolding accepted_def by auto
  then have pass: "{i. i < 2048 \<and> passes f i} = {0..2047}"
    using f(3) by (simp add: Un_absorb1)
  have "StdFilters (set_filter b f ?s1) ! unat b = f"
    using bus_index [OF assms(1) wf] by (simp add: set_filter_def log_writes_def)
  then have "can_log (set_filter b f ?s1) = can_log s @ bus_writes b"
    using set_filter_log [OF assms(1) wf, of f] all_pass_table [OF f(2) pass]
    by (simp add: bus_writes_def) (simp add: log_writes_def)
  with i f(1,2) pass wf assms(1) show ?thesis
    by (simp add: init_bus_def set_filter_wf accepted_set_filter filters_wf_log)
qed

lemma init_buses_run:
  assumes "\<forall>b \<in> set bs. b \<le> CAN_BUS_MAX" "filters_wf s" "length bs \<le> ready_polls stats"
  shows "\<exists>stats' s'. init_buses bs (stats, s) = Inr (stats', s') \<and> filters_wf s'
    \<and> (\<forall>b. accepted s' b = (if b \<in> set bs then {0..2047} else accepted s b))
    \<and> can_log s' = can_log s @ concat (map bus_writes bs)"
  using assms
proof (induction bs arbitrary: s stats)
  case Nil
  then show ?case by simp
next
  case (Cons b bs)
  obtain t1 s1 where 1: "init_bus b (stats, s) = Inr (t1, s1)" "filters_wf s1" "ready_polls t1 = ready_polls stats - 1"
    "\<forall>b'. accepted s1 b' = (if b' = b then {0..2047} else accepted s b')" "can_log s1 = can_log s @ bus_writes b"
    using init_bus_run [of b s stats] Cons.prems by auto
  have "length bs \<le> ready_polls t1" using Cons.prems(3) 1(3) by simp
  with Cons.IH [OF _ 1(2), of t1] Cons.prems(1) 1 show ?case by auto
qed

lemma user_init_run:
  assumes "filters_wf s" and "6 \<le> ready_polls stats"
  shows "\<exists>stats' s'. CAN_UserInit stats s = Inr (stats', s') \<and> filters_wf s'
    \<and> (\<forall>b \<le> CAN_BUS_MAX. accepted s' b = {0..2047})
    \<and> can_log s' = can_log s @ concat (map bus_writes [0, 1, 2, 3, 4, 5])"
proof -
  have "b \<in> set [0, 1, 2, 3, 4, 5] \<longleftrightarrow> b \<le> CAN_BUS_MAX" for b :: u8
    by (simp add: reg_consts word_le_nat_alt unat_inject [symmetric]) linarith
  then show ?thesis
    using init_buses_run [of "[0, 1, 2, 3, 4, 5]" s stats] assms by (auto simp: CAN_UserInit_def simp del: init_buses.simps)
qed

section \<open>Properties\<close>

text \<open>
  \<^verbatim>\<open>CAN_UserInit\<close> brings up all six buses. If the status registers report
  an empty transmit cache six times, it returns, every bus accepts every 11 bit identifier, and
  each controller in turn has been reset, given the clock and the bit timing for 500 kbit/s and
  4 Mbit/s, started, and sent the filter that passes everything.
\<close>

lemma CAN_UserInit_all_buses:
  assumes "filters_wf s" and "6 \<le> ready_polls stats"
  shows "\<exists>stats' s'. CAN_UserInit stats s = Inr (stats', s') \<and> filters_wf s'
    \<and> (\<forall>b \<le> CAN_BUS_MAX. accepted s' b = {0..2047})
    \<and> can_log s' = can_log s @ concat (map bus_writes [0, 1, 2, 3, 4, 5])"
  by (rule user_init_run [OF assms])

text \<open>The writes that restart a bus: the reset command, then the whole initialisation.\<close>

definition restart_writes :: "u8 \<Rightarrow> reg_write list" where
  "restart_writes b = (if b \<le> CAN_BUS_MAX
     then can_cmd b (push_bit 12 (ucast b) OR PCAN_CORE_FD_CMD_RESETMODE) 0 @ init_writes b timing_40M_500K_4M else [])"

lemma restart_bus_run: "0 < ready_polls stats \<Longrightarrow> restart_bus b stats s = Inr (log_writes (restart_writes b) s)"
proof (cases "b \<le> CAN_BUS_MAX")
  case True
  assume "0 < ready_polls stats"
  moreover have "snd (CAN_UnInitialize b s) = log_writes (can_cmd b (push_bit 12 (ucast b) OR PCAN_CORE_FD_CMD_RESETMODE) 0) s"
    using True by (simp add: CAN_UnInitialize_def not_less)
  ultimately show ?thesis
    using init_run [OF True, of stats "snd (CAN_UnInitialize b s)"] True
    by (auto simp: restart_bus_def restart_writes_def log_writes_def)
qed (simp add: restart_bus_def restart_writes_def CAN_UnInitialize_def CAN_Initialize_def log_writes_def not_le)

text \<open>
  What \<^verbatim>\<open>CAN_UserRead\<close> makes of a record. It hands a receive message to
  the caller with success and reports an empty queue for every other record; on a status record
  with the bus-off flag it restarts the bus that record names, and only then, and a bus number
  above the last one does no harm.
\<close>

lemma CAN_UserRead_dispatch:
  assumes "dma_transfer dma" and "dma_inv s" and "bit SYS_STAT 0" and "length box = 24" and "0 < ready_polls stats"
  shows "\<exists>s1. CAN_Read dma hBus (Some addr) SYS_STAT box s = Inr (CAN_ERR_OK, Some box, s1) \<and> dma_inv s1
    \<and> CAN_UserRead dma hBus (Some addr) SYS_STAT box stats s
      = Inr (if rec_bufftype (box ! 0) = CAN_BUFFER_RX_MSG then CAN_ERR_OK else CAN_ERR_RX_EMPTY, Some box,
          log_writes (if rec_bufftype (box ! 0) = CAN_BUFFER_STATUS \<and> rec_bus_status (box ! 3)
            then restart_writes (rec_hBus (box ! 0)) else []) s1)"
proof -
  obtain s1 where r: "CAN_Read dma hBus (Some addr) SYS_STAT box s = Inr (CAN_ERR_OK, Some box, s1)" "dma_inv s1"
    using dma_transfer.read_step [OF assms(1-4)] by blast
  have "rd box 0 = Inr (box ! 0)" "rd box 3 = Inr (box ! 3)" "log_writes [] s1 = s1"
    using assms(4) by (simp_all add: rd_def log_writes_def)
  with r restart_bus_run [OF assms(5)] show ?thesis
    by (auto simp: CAN_UserRead_def reg_consts)
qed


end
