(* ===== verification/Eeprom.thy ===== *)
theory Eeprom
  imports Prelude
begin

text \<open>
  Model of \<^verbatim>\<open>src/src/eeprom.c\<close>: the driver of the serial EEPROM with its write and read
  cache. The I2C controller with the EEPROM behind it is hardware, a parameter \<open>I\<close> of the
  operations; each turn of a waiting loop reads the status register once and then lets time pass.
  A loop that never ends is the fault \<open>Hang\<close>. Memory barriers have no effect.
\<close>

unbundle bit_operations_syntax

section \<open>State\<close>

record 'i i2c_dev =
  rd_ISR :: "'i \<Rightarrow> u32"
  wr_ICR :: "u32 \<Rightarrow> 'i \<Rightarrow> 'i"
  rd_CR2 :: "'i \<Rightarrow> u32"
  wr_CR2 :: "u32 \<Rightarrow> 'i \<Rightarrow> 'i"
  wr_TXDR :: "u8 \<Rightarrow> 'i \<Rightarrow> 'i"
  rd_RXDR :: "'i \<Rightarrow> u8 \<times> 'i"
  tick :: "'i \<Rightarrow> 'i"

datatype eeprom_result = EEPROM_ERR_OK | EEPROM_ERR_ILLDEVICE | EEPROM_ERR_ILLPARAMVAL

record EECache_t =
  startaddr :: u32
  ccount :: u32
  dirty :: bool
  cdata :: "u8 list"

record 'i ee_state =
  Cache :: EECache_t
  LastCntlByte :: u8
  i2c :: 'i

definition EEPROM_DEV_ADDR :: u8 where [reg_consts]: "EEPROM_DEV_ADDR = 0xA0"
definition EEPROM_CACHE_SIZE :: u32 where [reg_consts]: "EEPROM_CACHE_SIZE = 128"
definition EEPROM_MEM_SIZE :: u32 where [reg_consts]: "EEPROM_MEM_SIZE = 256 * 1024 * 2"
definition PAGE_MASK :: u32 where [reg_consts]: "PAGE_MASK = 127"

definition SAMEPAGE :: "u32 \<Rightarrow> u32 \<Rightarrow> bool" where
  "SAMEPAGE a b \<longleftrightarrow> a OR PAGE_MASK = b OR PAGE_MASK"

section \<open>The bus\<close>

definition hang :: "'a option \<Rightarrow> 'a res" where
  "hang r = (case r of None \<Rightarrow> Inl Hang | Some x \<Rightarrow> Inr x)"

text \<open>\<open>while (!(ISR & m)) {}\<close> and \<open>while (ISR & m) ICR = m\<close>.\<close>

partial_function (option) wait_isr :: "'i i2c_dev \<Rightarrow> u32 \<Rightarrow> 'i \<Rightarrow> 'i option" where
  "wait_isr I m d = (if rd_ISR I d AND m \<noteq> 0 then Some d else wait_isr I m (tick I d))"

partial_function (option) clear_isr :: "'i i2c_dev \<Rightarrow> u32 \<Rightarrow> 'i \<Rightarrow> 'i option" where
  "clear_isr I m d = (if rd_ISR I d AND m = 0 then Some d else clear_isr I m (wr_ICR I m d))"

text \<open>The polling loop of \<^verbatim>\<open>ackpoll\<close>: until STOP, noting a NACK on the way.\<close>

partial_function (option) poll_stop :: "'i i2c_dev \<Rightarrow> bool \<Rightarrow> 'i \<Rightarrow> (bool \<times> 'i) option" where
  "poll_stop I nack d =
     (let isr = rd_ISR I d; nack' = (nack \<or> bit isr 4)
      in if bit isr 5 then Some (nack', d) else poll_stop I nack' (tick I d))"

text \<open>Setting up a transfer: the control word first, then the same with the start bit.\<close>

definition start_cr2 :: "'i i2c_dev \<Rightarrow> u32 \<Rightarrow> 'i \<Rightarrow> 'i" where
  "start_cr2 I v d = (let d1 = wr_CR2 I v d in wr_CR2 I (rd_CR2 I d1 OR push_bit 13 1) d1)"

definition stop_cr2 :: "'i i2c_dev \<Rightarrow> 'i \<Rightarrow> 'i" where
  "stop_cr2 I d = wr_CR2 I (push_bit 14 1) (wr_CR2 I 0 d)"

definition ackpoll :: "'i i2c_dev \<Rightarrow> u8 \<Rightarrow> 'i \<Rightarrow> (eeprom_result \<times> 'i) option" where
  "ackpoll I ctl d =
     Option.bind (clear_isr I (push_bit 4 3) d) (\<lambda>d1.
     Option.bind (poll_stop I False (start_cr2 I (push_bit 25 1 OR push_bit 16 0 OR ucast ctl) d1)) (\<lambda>(nack, d2).
     Some (if nack then EEPROM_ERR_ILLDEVICE else EEPROM_ERR_OK, d2)))"

text \<open>\<open>while (ackpoll() != EEPROM_ERR_OK) {}\<close>\<close>

partial_function (option) ack_wait :: "'i i2c_dev \<Rightarrow> u8 \<Rightarrow> 'i \<Rightarrow> 'i option" where
  "ack_wait I ctl d = Option.bind (ackpoll I ctl d) (\<lambda>(st, d1).
     if st = EEPROM_ERR_OK then Some d1 else ack_wait I ctl d1)"

definition send_byte :: "'i i2c_dev \<Rightarrow> u8 \<Rightarrow> 'i \<Rightarrow> 'i option" where
  "send_byte I b d = Option.bind (wait_isr I (push_bit 1 1) d) (\<lambda>d1. Some (wr_TXDR I b d1))"

fun send_bytes :: "'i i2c_dev \<Rightarrow> u8 list \<Rightarrow> 'i \<Rightarrow> 'i option" where
  "send_bytes I [] d = Some d"
| "send_bytes I (b # bs) d = Option.bind (send_byte I b d) (send_bytes I bs)"

fun recv_bytes :: "'i i2c_dev \<Rightarrow> nat \<Rightarrow> 'i \<Rightarrow> (u8 list \<times> 'i) option" where
  "recv_bytes I 0 d = Some ([], d)"
| "recv_bytes I (Suc n) d = Option.bind (wait_isr I (push_bit 2 1) d) (\<lambda>d1.
     case rd_RXDR I d1 of (b, d2) \<Rightarrow>
       Option.bind (recv_bytes I n d2) (\<lambda>(bs, d3). Some (b # bs, d3)))"

definition control_byte :: "u32 \<Rightarrow> u8" where
  "control_byte a = EEPROM_DEV_ADDR OR (ucast (drop_bit 15 a) AND 0x0E)"

section \<open>The cache\<close>

text \<open>
  Sending the \<open>n\<close> cached bytes \<open>bs\<close> of a page; the data bytes are read from the cache one by one,
  so that a count above the size of the cache is an access outside it.
\<close>

definition i2c_write_page :: "'i i2c_dev \<Rightarrow> u32 \<Rightarrow> u32 \<Rightarrow> u8 list \<Rightarrow> 'i \<Rightarrow> 'i option" where
  "i2c_write_page I a n bs d =
     Option.bind (clear_isr I (push_bit 5 1 OR push_bit 1 1) d) (\<lambda>d1.
     Option.bind (send_bytes I (ucast (drop_bit 8 a) # ucast a # bs)
       (start_cr2 I (push_bit 16 (2 + n) OR ucast (control_byte a)) d1)) (\<lambda>d2.
     Option.bind (wait_isr I (push_bit 6 1) d2) (\<lambda>d3.
     wait_isr I (push_bit 5 1) (stop_cr2 I d3))))"

definition writecachepage :: "'i i2c_dev \<Rightarrow> 'i ee_state \<Rightarrow> (eeprom_result \<times> 'i ee_state) res" where
  "writecachepage I s =
     (let c = Cache s in
      if \<not> dirty c \<or> ccount c = 0 then Inr (EEPROM_ERR_OK, s\<lparr>Cache := c\<lparr>dirty := False\<rparr>\<rparr>)
      else if length (cdata c) < unat (ccount c) then Inl Oob
      else res_bind (hang (ack_wait I (LastCntlByte s) (i2c s))) (\<lambda>d1.
        res_bind (hang (i2c_write_page I (startaddr c) (ccount c) (take (unat (ccount c)) (cdata c)) d1)) (\<lambda>d2.
        Inr (EEPROM_ERR_OK, s\<lparr>Cache := c\<lparr>dirty := False\<rparr>, LastCntlByte := control_byte (startaddr c), i2c := d2\<rparr>))))"

definition i2c_read_page :: "'i i2c_dev \<Rightarrow> u32 \<Rightarrow> u32 \<Rightarrow> 'i \<Rightarrow> (u8 list \<times> 'i) option" where
  "i2c_read_page I a n d =
     Option.bind (clear_isr I (push_bit 6 1 OR push_bit 5 1 OR push_bit 2 1 OR push_bit 1 1) d) (\<lambda>d1.
     Option.bind (send_bytes I [ucast (drop_bit 8 a), ucast a]
       (start_cr2 I (push_bit 16 2 OR ucast (control_byte a)) d1)) (\<lambda>d2.
     Option.bind (wait_isr I (push_bit 6 1) d2) (\<lambda>d3.
     Option.bind (recv_bytes I (if n > 1 then unat n else 0)
       (start_cr2 I (push_bit 16 n OR push_bit 10 1 OR ucast (control_byte a)) d3)) (\<lambda>(bs, d4).
     Option.bind (wait_isr I (push_bit 5 1) (stop_cr2 I d4)) (\<lambda>d5. Some (bs, d5))))))"

definition readcachepage :: "'i i2c_dev \<Rightarrow> u32 \<Rightarrow> u32 \<Rightarrow> 'i ee_state \<Rightarrow> (eeprom_result \<times> 'i ee_state) res" where
  "readcachepage I Addr n s =
     res_bind (if dirty (Cache s) then writecachepage I s else Inr (EEPROM_ERR_OK, s)) (\<lambda>(ret, s1).
     if ret \<noteq> EEPROM_ERR_OK then Inr (ret, s1)
     else if 128 < unat n then Inl Oob
     else
       res_bind (hang (ack_wait I (LastCntlByte s1) (i2c s1))) (\<lambda>d1.
       res_bind (hang (i2c_read_page I Addr n d1)) (\<lambda>(bs, d2).
       Inr (EEPROM_ERR_OK, s1\<lparr>Cache := \<lparr>startaddr = Addr, ccount = n, dirty = False,
           cdata = bs @ drop (length bs) (cdata (Cache s1))\<rparr>,
         LastCntlByte := control_byte Addr, i2c := d2\<rparr>))))"

text \<open>The loop of \<^verbatim>\<open>EEPROM_Read\<close>; the bytes stored through \<^verbatim>\<open>pBuff\<close> are returned.\<close>

fun ee_read_loop :: "'i i2c_dev \<Rightarrow> nat \<Rightarrow> u32 \<Rightarrow> 'i ee_state \<Rightarrow> (eeprom_result \<times> u8 list \<times> 'i ee_state) res" where
  "ee_read_loop I 0 addr s = Inr (EEPROM_ERR_OK, [], s)"
| "ee_read_loop I (Suc n) addr s =
     res_bind (if addr < startaddr (Cache s) \<or> addr - startaddr (Cache s) \<ge> ccount (Cache s)
               then readcachepage I (addr AND NOT (EEPROM_CACHE_SIZE - 1)) EEPROM_CACHE_SIZE s
               else Inr (EEPROM_ERR_OK, s)) (\<lambda>(ret, s1).
     if ret \<noteq> EEPROM_ERR_OK then Inr (ret, [], s1)
     else res_bind (rd (cdata (Cache s1)) (unat (addr - startaddr (Cache s1)))) (\<lambda>b.
       res_bind (ee_read_loop I n (addr + 1) s1) (\<lambda>(ret2, bs, s2). Inr (ret2, b # bs, s2))))"

definition bad_range :: "u32 \<Rightarrow> u32 \<Rightarrow> bool" where
  "bad_range addr len \<longleftrightarrow> addr \<ge> EEPROM_MEM_SIZE \<or> len = 0 \<or> addr + len > EEPROM_MEM_SIZE"

text \<open>The user's buffer is its size, \<open>None\<close> for the null pointer.\<close>

definition EEPROM_Read :: "'i i2c_dev \<Rightarrow> u32 \<Rightarrow> nat option \<Rightarrow> u32 \<Rightarrow> 'i ee_state
    \<Rightarrow> (eeprom_result \<times> u8 list \<times> 'i ee_state) res" where
  "EEPROM_Read I addr buffer len s =
     (if bad_range addr len then Inr (EEPROM_ERR_ILLPARAMVAL, [], s)
      else case buffer of None \<Rightarrow> Inr (EEPROM_ERR_ILLPARAMVAL, [], s)
      | Some cap \<Rightarrow>
        res_bind (if dirty (Cache s) then writecachepage I s else Inr (EEPROM_ERR_OK, s)) (\<lambda>(ret, s1).
        if ret \<noteq> EEPROM_ERR_OK then Inr (ret, [], s1)
        else if cap < unat len then Inl Oob
        else ee_read_loop I (unat len) addr s1))"

text \<open>The loop of \<^verbatim>\<open>EEPROM_Write\<close>; the list is what \<^verbatim>\<open>pBuff\<close> still points to.\<close>

definition open_window :: "u32 \<Rightarrow> EECache_t \<Rightarrow> EECache_t" where
  "open_window addr c = (if dirty c then c else c\<lparr>startaddr := addr, dirty := True, ccount := 0\<rparr>)"

fun ee_write_loop :: "'i i2c_dev \<Rightarrow> nat \<Rightarrow> u32 \<Rightarrow> u8 list \<Rightarrow> 'i ee_state \<Rightarrow> (eeprom_result \<times> 'i ee_state) res" where
  "ee_write_loop I 0 addr pBuff s = Inr (EEPROM_ERR_OK, s)"
| "ee_write_loop I (Suc n) addr pBuff s =
     res_bind (let c = Cache s in
               if \<not> SAMEPAGE addr (startaddr c) \<or> addr < startaddr c \<or> addr > startaddr c + ccount c
               then writecachepage I s else Inr (EEPROM_ERR_OK, s)) (\<lambda>(ret, s1).
     if ret \<noteq> EEPROM_ERR_OK then Inr (ret, s1)
     else
       let c = open_window addr (Cache s1) in
       if addr = startaddr c + ccount c then
         (case pBuff of [] \<Rightarrow> Inl Oob
          | b # bs \<Rightarrow>
            if length (cdata c) \<le> unat (ccount c) then Inl Oob
            else ee_write_loop I n (addr + 1) bs
              (s1\<lparr>Cache := c\<lparr>cdata := (cdata c)[unat (ccount c) := b], ccount := ccount c + 1\<rparr>\<rparr>))
       else ee_write_loop I n (addr + 1) pBuff (s1\<lparr>Cache := c\<rparr>))"

definition EEPROM_Write :: "'i i2c_dev \<Rightarrow> u32 \<Rightarrow> u8 list option \<Rightarrow> u32 \<Rightarrow> 'i ee_state
    \<Rightarrow> (eeprom_result \<times> 'i ee_state) res" where
  "EEPROM_Write I addr buffer len s =
     (if bad_range addr len then Inr (EEPROM_ERR_ILLPARAMVAL, s)
      else case buffer of None \<Rightarrow> Inr (EEPROM_ERR_ILLPARAMVAL, s)
      | Some bs \<Rightarrow> ee_write_loop I (unat len) addr bs s)"

definition EEPROM_FlushCache :: "'i i2c_dev \<Rightarrow> 'i ee_state \<Rightarrow> (eeprom_result \<times> 'i ee_state) res" where
  "EEPROM_FlushCache I s =
     res_bind (writecachepage I s) (\<lambda>(ret, s1).
     if ret \<noteq> EEPROM_ERR_OK then Inr (ret, s1)
     else res_bind (hang (ack_wait I (LastCntlByte s1) (i2c s1))) (\<lambda>d.
       Inr (EEPROM_ERR_OK, s1\<lparr>Cache := (Cache s1)\<lparr>ccount := 0\<rparr>, i2c := d\<rparr>)))"

definition EEPROM_Init :: "'i i2c_dev \<Rightarrow> 'i ee_state \<Rightarrow> 'i ee_state res" where
  "EEPROM_Init I s =
     res_bind (hang (ackpoll I EEPROM_DEV_ADDR (i2c s))) (\<lambda>(_, d).
     Inr (s\<lparr>Cache := (Cache s)\<lparr>dirty := False, ccount := 0, startaddr := 0xFFFFFFFF\<rparr>,
       LastCntlByte := EEPROM_DEV_ADDR, i2c := d\<rparr>))"

section \<open>The controller and the chip\<close>

text \<open>
  What the controller is doing: nothing; a control word has been written, with what was sent before
  on the same transfer; an empty transfer that asks for an acknowledge; sending \<open>n\<close> bytes of which
  some have gone out; receiving, with the chip's address and the number of bytes still to come;
  waiting for the stop condition.
\<close>

datatype bus_phase =
    Free
  | Conf u32 "(u8 \<times> u8 list) option"
  | Ack
  | Send u8 nat "u8 list"
  | Recv u32 nat
  | Stopping

definition nbytes :: "u32 \<Rightarrow> nat" where
  "nbytes v = unat (drop_bit 16 v AND 0xFF)"

definition chip_addr :: "u8 \<Rightarrow> u8 \<Rightarrow> u8 \<Rightarrow> u32" where
  "chip_addr ctl hi lo = push_bit 15 (ucast (ctl AND 0x0E)) OR push_bit 8 (ucast hi) OR ucast lo"

text \<open>How the controller reads the control words the driver writes.\<close>

lemma small_bit: "unat (k :: u32) < 256 \<Longrightarrow> bit k n \<Longrightarrow> n < 8"
  using bit_less_pow [of k 8 n] by (simp add: word_less_nat_alt)

lemma cr2_fields:
  fixes k x :: u32 and ctl :: u8
  assumes "unat k < 256" "x \<in> {0, push_bit 10 1}"
  defines "v \<equiv> push_bit 16 k OR x OR ucast ctl"
  shows "nbytes v = unat k" "ucast v = ctl" "bit v 10 \<longleftrightarrow> x \<noteq> 0" "\<not> bit v 13" "\<not> bit v 14"
proof -
  have x: "bit x j \<longleftrightarrow> x \<noteq> 0 \<and> j = 10" for j 
  proof (cases "x = 0")
    case False
    then have "x = push_bit 10 1" using assms(2) by blast
    then show ?thesis by (simp only: bit_push_bit_iff bit_1_iff) auto
  qed simp
  have "drop_bit 16 v AND 0xFF = k"
  proof (rule bit_word_eqI)
    fix n assume "n < LENGTH(32)"
    show "bit (drop_bit 16 v AND 0xFF) n = bit k n"
      using small_bit [OF assms(1), of n] bit_255 [of n]
      by (auto simp: v_def bit_and_iff bit_drop_bit_eq bit_or_iff bit_push_bit_iff bit_255 x bit_ucast_iff dest: bit_imp_le_length)
  qed
  then show "nbytes v = unat k" by (simp add: nbytes_def)
  show "ucast v = ctl" by (rule bit_word_eqI) (auto simp: v_def bit_simps x)
  show "bit v 10 \<longleftrightarrow> x \<noteq> 0" "\<not> bit v 13" "\<not> bit v 14" by (auto simp: v_def bit_simps x dest: bit_imp_le_length)
qed

lemma control_addr:
  assumes "a < EEPROM_MEM_SIZE"
  shows "chip_addr (control_byte a) (ucast (drop_bit 8 a)) (ucast a) = a"
proof (rule bit_word_eqI)
  fix n assume "n < LENGTH(32)"
  have low: "bit a n \<Longrightarrow> n < 19" using bit_less_pow [of a 19 n] assms by (simp add: reg_consts)
  have m: "bit (0x0E :: u8) j \<longleftrightarrow> 1 \<le> j \<and> j \<le> 3" "bit (0x0E :: u32) j \<longleftrightarrow> 1 \<le> j \<and> j \<le> 3" for j
  proof -
    have "(0x0E :: u8) = push_bit 1 (mask 3)" "(0x0E :: u32) = push_bit 1 (mask 3)"
      by (simp_all add: mask_eq_exp_minus_1)
    then show "bit (0x0E :: u8) j \<longleftrightarrow> 1 \<le> j \<and> j \<le> 3" "bit (0x0E :: u32) j \<longleftrightarrow> 1 \<le> j \<and> j \<le> 3"
      by (simp_all only: bit_push_bit_iff bit_mask_iff) auto
  qed
  have dev: "bit (0xA0 :: u8) j \<longleftrightarrow> j = 5 \<or> j = 7" "bit (0xA0 :: u32) j \<longleftrightarrow> j = 5 \<or> j = 7" for j
  proof -
    have "(0xA0 :: u8) = push_bit 5 1 OR push_bit 7 1" "(0xA0 :: u32) = push_bit 5 1 OR push_bit 7 1" by simp_all
    then show "bit (0xA0 :: u8) j \<longleftrightarrow> j = 5 \<or> j = 7" "bit (0xA0 :: u32) j \<longleftrightarrow> j = 5 \<or> j = 7"
      by (simp_all only: bit_or_iff bit_push_bit_iff bit_1_iff) auto
  qed
  show "bit (chip_addr (control_byte a) (ucast (drop_bit 8 a)) (ucast a)) n = bit a n"
    using low
    by (auto simp: chip_addr_def control_byte_def EEPROM_DEV_ADDR_def bit_or_iff bit_and_iff bit_push_bit_iff bit_ucast_iff
        bit_drop_bit_eq m dev dest: bit_imp_le_length simp del: bit_numeral_word_iff)
qed

type_synonym ee_mem = "u32 \<Rightarrow> u8"

text \<open>Bytes stored from an address on.\<close>

definition store :: "u32 \<Rightarrow> u8 list \<Rightarrow> ee_mem \<Rightarrow> ee_mem" where
  "store a bs m = (\<lambda>x. if unat (x - a) < length bs then bs ! unat (x - a) else m x)"

text \<open>The effect of a finished transfer on the memory: address bytes, then data.\<close>

fun commit :: "(u8 \<times> u8 list) option \<Rightarrow> ee_mem \<Rightarrow> ee_mem" where
  "commit (Some (ctl, hi # lo # bs)) m = store (chip_addr ctl hi lo) bs m"
| "commit _ m = m"

text \<open>Data that goes beyond a page of the chip would wrap to its start.\<close>

fun one_page :: "(u8 \<times> u8 list) option \<Rightarrow> bool" where
  "one_page (Some (ctl, hi # lo # bs)) \<longleftrightarrow> unat lo + length bs \<le> 256"
| "one_page _ \<longleftrightarrow> True"

text \<open>
  The documented behaviour the driver relies on. \<open>left\<close> bounds the time to the next flag, \<open>nacks\<close> is
  the number of acknowledge polls the chip still refuses because it is writing.
\<close>

locale ee_chip =
  fixes I :: "'i i2c_dev" and bus :: "'i \<Rightarrow> bus_phase" and emem :: "'i \<Rightarrow> ee_mem"
    and nacks :: "'i \<Rightarrow> nat" and left :: "'i \<Rightarrow> nat"
  assumes free_flags: "bus d = Free \<Longrightarrow> rd_ISR I d AND 0x46 = 0"
    and icr: "bus d = Free \<Longrightarrow> bus (wr_ICR I m d) = Free \<and> emem (wr_ICR I m d) = emem d
      \<and> nacks (wr_ICR I m d) = nacks d \<and> rd_ISR I (wr_ICR I m d) = rd_ISR I d AND NOT (m AND 0x38)"
    and conf_free: "bus d = Free \<Longrightarrow> \<not> bit v 13 \<Longrightarrow> \<not> bit v 14 \<Longrightarrow>
      bus (wr_CR2 I v d) = Conf v None \<and> emem (wr_CR2 I v d) = emem d \<and> nacks (wr_CR2 I v d) = nacks d
      \<and> rd_CR2 I (wr_CR2 I v d) = v \<and> rd_ISR I (wr_CR2 I v d) = rd_ISR I d"
    and conf_sent: "bus d = Send ctl n bs \<Longrightarrow> length bs = n \<Longrightarrow> bit (rd_ISR I d) 6 \<Longrightarrow> \<not> bit v 13 \<Longrightarrow> \<not> bit v 14 \<Longrightarrow>
      bus (wr_CR2 I v d) = Conf v (Some (ctl, bs)) \<and> emem (wr_CR2 I v d) = emem d \<and> nacks (wr_CR2 I v d) = nacks d
      \<and> rd_CR2 I (wr_CR2 I v d) = v"
    and conf_received: "bus d = Recv a 0 \<Longrightarrow> bus (wr_CR2 I 0 d) = Conf 0 None
      \<and> emem (wr_CR2 I 0 d) = emem d"
    and start_ack: "bus d = Conf v None \<Longrightarrow> rd_ISR I d AND 0x30 = 0 \<Longrightarrow> nbytes v = 0 \<Longrightarrow> bit v 25 \<Longrightarrow> \<not> bit v 10 \<Longrightarrow>
      bus (wr_CR2 I (v OR push_bit 13 1) d) = Ack \<and> emem (wr_CR2 I (v OR push_bit 13 1) d) = emem d
      \<and> nacks (wr_CR2 I (v OR push_bit 13 1) d) = nacks d"
    and start_send: "bus d = Conf v None \<Longrightarrow> rd_ISR I d AND 0x20 = 0 \<Longrightarrow> nacks d = 0 \<Longrightarrow> nbytes v \<noteq> 0 \<Longrightarrow> \<not> bit v 10 \<Longrightarrow>
      bus (wr_CR2 I (v OR push_bit 13 1) d) = Send (ucast v) (nbytes v) []
      \<and> emem (wr_CR2 I (v OR push_bit 13 1) d) = emem d \<and> nacks (wr_CR2 I (v OR push_bit 13 1) d) = 0"
    and start_recv: "bus d = Conf v (Some (ctl, [hi, lo])) \<Longrightarrow> nbytes v \<noteq> 0 \<Longrightarrow> bit v 10 \<Longrightarrow> ucast v = ctl \<Longrightarrow>
      bus (wr_CR2 I (v OR push_bit 13 1) d) = Recv (chip_addr ctl hi lo) (nbytes v)
      \<and> emem (wr_CR2 I (v OR push_bit 13 1) d) = emem d"
    and ack_turn: "bus d = Ack \<Longrightarrow> \<not> bit (rd_ISR I d) 5 \<and> (bit (rd_ISR I d) 4 \<longrightarrow> nacks d \<noteq> 0)
      \<and> emem (tick I d) = emem d
      \<and> (bus (tick I d) = Ack \<and> left (tick I d) < left d \<and> nacks (tick I d) = nacks d
         \<or> bus (tick I d) = Free \<and> bit (rd_ISR I (tick I d)) 5 \<and> (bit (rd_ISR I (tick I d)) 4 \<longleftrightarrow> nacks d \<noteq> 0)
           \<and> nacks (tick I d) = nacks d - 1)"
    and send_turn: "bus d = Send ctl n bs \<Longrightarrow> length bs \<le> n \<Longrightarrow> \<not> bit (rd_ISR I d) (if length bs < n then 1 else 6) \<Longrightarrow>
      bus (tick I d) = bus d \<and> emem (tick I d) = emem d \<and> nacks (tick I d) = nacks d \<and> left (tick I d) < left d"
    and send_data: "bus d = Send ctl n bs \<Longrightarrow> length bs < n \<Longrightarrow> bit (rd_ISR I d) 1 \<Longrightarrow>
      bus (wr_TXDR I b d) = Send ctl n (bs @ [b]) \<and> emem (wr_TXDR I b d) = emem d \<and> nacks (wr_TXDR I b d) = nacks d"
    and recv_turn: "bus d = Recv a (Suc n) \<Longrightarrow> \<not> bit (rd_ISR I d) 2 \<Longrightarrow>
      bus (tick I d) = bus d \<and> emem (tick I d) = emem d \<and> left (tick I d) < left d"
    and recv_data: "bus d = Recv a (Suc n) \<Longrightarrow> bit (rd_ISR I d) 2 \<Longrightarrow> rd_RXDR I d = (b, d') \<Longrightarrow>
      b = emem d a \<and> bus d' = Recv (a + 1) n \<and> emem d' = emem d"
    and stop: "bus d = Conf 0 p \<Longrightarrow>
      bus (wr_CR2 I (push_bit 14 1) d) = Stopping
      \<and> (one_page p \<longrightarrow> emem (wr_CR2 I (push_bit 14 1) d) = commit p (emem d))"
    and stop_turn: "bus d = Stopping \<Longrightarrow> \<not> bit (rd_ISR I d) 5 \<and> emem (tick I d) = emem d
      \<and> (bus (tick I d) = Stopping \<and> left (tick I d) < left d
         \<or> bus (tick I d) = Free \<and> bit (rd_ISR I (tick I d)) 5)"
begin

lemma wait_isr_reaches:
  assumes "\<And>d. P d \<Longrightarrow> \<not> bit (rd_ISR I d) k \<Longrightarrow> P (tick I d) \<and> f (tick I d) < (f d :: nat)" "P d"
  shows "\<exists>d'. wait_isr I (push_bit k 1) d = Some d' \<and> P d' \<and> bit (rd_ISR I d') k"
  using assms(2)
proof (induction "f d" arbitrary: d rule: less_induct)
  case less
  have z: "rd_ISR I d AND push_bit k 1 = 0 \<longleftrightarrow> \<not> bit (rd_ISR I d) k"
    using and_exp_eq_0_iff_not_bit [of "rd_ISR I d" k] by (simp add: push_bit_of_1)
  show ?case
  proof (cases "bit (rd_ISR I d) k")
    case True
    with less.prems z show ?thesis by (simp add: wait_isr.simps [of I _ d])
  next
    case False
    with assms(1) [OF less.prems] less.hyps [of "tick I d"] z show ?thesis
      by (simp add: wait_isr.simps [of I _ d])
  qed
qed

text \<open>What no bus access but a finished write changes.\<close>

definition chip :: "'i \<Rightarrow> ee_mem \<times> nat" where
  "chip d = (emem d, nacks d)"

lemma clear_free:
  assumes "bus d = Free" "m \<in> {0x30, 0x22, 0x66}"
  shows "\<exists>d'. clear_isr I m d = Some d' \<and> bus d' = Free \<and> chip d' = chip d \<and> rd_ISR I d' AND m = 0"
proof (cases "rd_ISR I d AND m = 0")
  case True
  with assms(1) show ?thesis by (simp add: clear_isr.simps [of I m d])
next
  case False
  let ?d = "wr_ICR I m d"
  have "rd_ISR I ?d AND m = 0"
    using icr [OF assms(1), of m] free_flags [OF assms(1)] and_zero_and [of "rd_ISR I d" "0x46" 2] assms(2)
    by (auto simp: and.assoc)
  with icr [OF assms(1), of m] False show ?thesis
    by (simp add: clear_isr.simps [of I m d] clear_isr.simps [of I m ?d] chip_def)
qed

lemma wait_send:
  assumes "bus d = Send ctl n bs" "length bs \<le> n"
  shows "\<exists>d'. wait_isr I (push_bit (if length bs < n then 1 else 6) 1) d = Some d'
    \<and> bus d' = Send ctl n bs \<and> chip d' = chip d \<and> bit (rd_ISR I d') (if length bs < n then 1 else 6)"
  using wait_isr_reaches [of "\<lambda>d'. bus d' = Send ctl n bs \<and> chip d' = chip d" "if length bs < n then 1 else 6" left d]
    send_turn [of _ ctl n bs] assms by (auto simp: chip_def)

lemma send_all:
  assumes "bus d = Send ctl n bs" "length bs + length cs \<le> n"
  shows "\<exists>d'. send_bytes I cs d = Some d' \<and> bus d' = Send ctl n (bs @ cs) \<and> chip d' = chip d"
  using assms
proof (induction cs arbitrary: bs d)
  case Nil
  then show ?case by simp
next
  case (Cons c cs)
  then have lt: "length bs < n" by simp
  obtain d1 where 1: "wait_isr I (push_bit 1 1) d = Some d1" "bus d1 = Send ctl n bs" "chip d1 = chip d"
    "bit (rd_ISR I d1) 1"
    using wait_send [OF Cons.prems(1)] lt by auto
  have 2: "bus (wr_TXDR I c d1) = Send ctl n (bs @ [c])" "chip (wr_TXDR I c d1) = chip d"
    using send_data [OF 1(2) lt 1(4)] 1(3) by (simp_all add: chip_def)
  with Cons.IH [of "wr_TXDR I c d1" "bs @ [c]"] Cons.prems 1 show ?case by (simp add: send_byte_def)
qed

lemma recv_all:
  assumes "bus d = Recv a n"
  shows "\<exists>d'. recv_bytes I n d = Some (map (\<lambda>i. emem d (a + of_nat i)) [0..<n], d')
    \<and> bus d' = Recv (a + of_nat n) 0 \<and> emem d' = emem d"
  using assms
proof (induction n arbitrary: a d)
  case 0
  then show ?case by simp
next
  case (Suc n)
  obtain d1 where 1: "wait_isr I (push_bit 2 1) d = Some d1" "bus d1 = Recv a (Suc n)" "emem d1 = emem d" "bit (rd_ISR I d1) 2"
    using wait_isr_reaches [of "\<lambda>d'. bus d' = Recv a (Suc n) \<and> emem d' = emem d" 2 left d] recv_turn [of _ a n] Suc.prems
    by auto
  obtain b d2 where r: "rd_RXDR I d1 = (b, d2)" by (cases "rd_RXDR I d1")
  have 2: "b = emem d a" "bus d2 = Recv (a + 1) n" "emem d2 = emem d"
    using recv_data [OF 1(2,4) r] 1(3) by simp_all
  obtain d3 where "recv_bytes I n d2 = Some (map (\<lambda>i. emem d2 (a + 1 + of_nat i)) [0..<n], d3)"
    "bus d3 = Recv (a + 1 + of_nat n) 0" "emem d3 = emem d2"
    using Suc.IH [OF 2(2)] by blast
  moreover have "map (\<lambda>i. emem d (a + of_nat i)) [0..<Suc n] = emem d a # map (\<lambda>i. emem d (a + 1 + of_nat i)) [0..<n]"
    by (simp add: upt_conv_Cons map_Suc_upt [symmetric] add.assoc del: upt_Suc)
  ultimately show ?case using 1(1) r 2 by (simp add: add.assoc del: upt_Suc)
qed

lemma stop_wait:
  assumes "bus d = Stopping"
  shows "\<exists>d'. wait_isr I (push_bit 5 1) d = Some d' \<and> bus d' = Free \<and> emem d' = emem d"
proof -
  have "\<exists>d'. wait_isr I (push_bit 5 1) d = Some d'
    \<and> (bus d' = Stopping \<or> bus d' = Free \<and> bit (rd_ISR I d') 5) \<and> emem d' = emem d \<and> bit (rd_ISR I d') 5"
    using wait_isr_reaches [of "\<lambda>d'. (bus d' = Stopping \<or> bus d' = Free \<and> bit (rd_ISR I d') 5) \<and> emem d' = emem d" 5
        "\<lambda>d'. if bus d' = Free then 0 else Suc (left d')" d] stop_turn assms
    by fastforce
  then show ?thesis using stop_turn by blast
qed

lemma start_conf:
  assumes "bus d = Free" "\<not> bit v 13" "\<not> bit v 14"
  shows "start_cr2 I v d = wr_CR2 I (v OR push_bit 13 1) (wr_CR2 I v d)" "bus (wr_CR2 I v d) = Conf v None"
    "chip (wr_CR2 I v d) = chip d" "rd_ISR I (wr_CR2 I v d) = rd_ISR I d"
  using conf_free [OF assms] by (simp_all add: start_cr2_def Let_def chip_def)

text \<open>Asking for an acknowledge: refused as long as the chip is writing.\<close>

lemma poll_ack:
  assumes "bus d = Ack" "nack \<longrightarrow> nacks d \<noteq> 0"
  shows "\<exists>d'. poll_stop I nack d = Some (nacks d \<noteq> 0, d') \<and> bus d' = Free \<and> emem d' = emem d \<and> nacks d' = nacks d - 1"
  using assms
proof (induction "left d" arbitrary: d nack rule: less_induct)
  case less
  note t = ack_turn [OF less.prems(1)]
  let ?nack = "nack \<or> bit (rd_ISR I d) 4"
  have step: "poll_stop I nack d = poll_stop I ?nack (tick I d)"
    using t by (simp add: poll_stop.simps [of I nack d] Let_def)
  show ?case
  proof (cases "bus (tick I d) = Ack")
    case True
    with t less.prems(2) have "left (tick I d) < left d" "nacks (tick I d) = nacks d" "emem (tick I d) = emem d"
      "?nack \<longrightarrow> nacks (tick I d) \<noteq> 0"
      by auto
    with less.hyps [OF _ True, of ?nack] step show ?thesis by auto
  next
    case False
    with t less.prems(2) step show ?thesis
      by (auto simp: poll_stop.simps [of I _ "tick I d"] Let_def)
  qed
qed

lemma ack_fields: "nbytes (push_bit 25 1 OR push_bit 16 0 OR ucast (ctl :: u8)) = 0"
  "bit (push_bit 25 1 OR push_bit 16 0 OR ucast (ctl :: u8) :: u32) 25"
  "\<not> bit (push_bit 25 1 OR push_bit 16 0 OR ucast (ctl :: u8) :: u32) 10"
  "\<not> bit (push_bit 25 1 OR push_bit 16 0 OR ucast (ctl :: u8) :: u32) 13"
  "\<not> bit (push_bit 25 1 OR push_bit 16 0 OR ucast (ctl :: u8) :: u32) 14"
proof -
  let ?v = "push_bit 25 1 OR push_bit 16 0 OR ucast ctl :: u32"
  have "drop_bit 16 ?v AND 0xFF = 0"
  proof (rule bit_word_eqI)
    fix n
    show "bit (drop_bit 16 ?v AND 0xFF) n = bit (0 :: u32) n"
      using bit_255 [of n] bit_1_iff [of "16 + n - 25", where 'a = u32]
      by (auto simp: bit_and_iff bit_drop_bit_eq bit_or_iff bit_push_bit_iff bit_ucast_iff dest: bit_imp_le_length
          simp del: push_bit_of_1 push_bit_numeral)
  qed
  then show "nbytes ?v = 0" by (simp add: nbytes_def)
  show "bit ?v 25" "\<not> bit ?v 10" "\<not> bit ?v 13" "\<not> bit ?v 14" by (auto simp: bit_simps dest: bit_imp_le_length)
qed

lemma ackpoll_run:
  assumes "bus d = Free"
  shows "\<exists>d'. ackpoll I ctl d = Some (if nacks d = 0 then EEPROM_ERR_OK else EEPROM_ERR_ILLDEVICE, d')
    \<and> bus d' = Free \<and> emem d' = emem d \<and> nacks d' = nacks d - 1"
proof -
  let ?v = "push_bit 25 1 OR push_bit 16 0 OR ucast ctl :: u32"
  obtain d1 where 1: "clear_isr I 0x30 d = Some d1" "bus d1 = Free" "chip d1 = chip d" "rd_ISR I d1 AND 0x30 = 0"
    using clear_free [OF assms, of "0x30"] by auto
  note v = ack_fields [of ctl]
  have c: "start_cr2 I ?v d1 = wr_CR2 I (?v OR push_bit 13 1) (wr_CR2 I ?v d1)" "bus (wr_CR2 I ?v d1) = Conf ?v None"
    "chip (wr_CR2 I ?v d1) = chip d" "rd_ISR I (wr_CR2 I ?v d1) AND 0x30 = 0"
    using start_conf [OF 1(2), of ?v] 1(3,4) v by simp_all
  have "bus (start_cr2 I ?v d1) = Ack" "chip (start_cr2 I ?v d1) = chip d"
    using start_ack [OF c(2,4)] v c(1,3) by (simp_all add: chip_def)
  then obtain d2 where "poll_stop I False (start_cr2 I ?v d1) = Some (nacks d \<noteq> 0, d2)"
    "bus d2 = Free" "emem d2 = emem d" "nacks d2 = nacks d - 1"
    using poll_ack [of "start_cr2 I ?v d1" False] by (auto simp: chip_def)
  then show ?thesis using 1(1) by (simp add: ackpoll_def)
qed

lemma ack_wait_run:
  assumes "bus d = Free"
  shows "\<exists>d'. ack_wait I ctl d = Some d' \<and> bus d' = Free \<and> emem d' = emem d \<and> nacks d' = 0"
  using assms
proof (induction "nacks d" arbitrary: d)
  case 0
  with ackpoll_run [of d ctl] show ?case by (auto simp: ack_wait.simps [of I ctl d])
next
  case (Suc n)
  obtain d1 where 1: "ackpoll I ctl d = Some (EEPROM_ERR_ILLDEVICE, d1)" "bus d1 = Free" "emem d1 = emem d" "nacks d1 = n"
    using ackpoll_run [OF Suc.prems, of ctl] Suc(2) by auto
  with Suc.hyps(1) [of d1] show ?case by (auto simp: ack_wait.simps [of I ctl d])
qed

lemma start_write:
  assumes "bus d = Free" "nacks d = 0" "rd_ISR I d AND 0x20 = 0" "0 < unat k" "unat k < 256"
  shows "bus (start_cr2 I (push_bit 16 k OR ucast ctl) d) = Send ctl (unat k) []"
    and "chip (start_cr2 I (push_bit 16 k OR ucast ctl) d) = chip d"
proof -
  let ?v = "push_bit 16 k OR ucast ctl :: u32"
  note v = cr2_fields [OF assms(5), of 0 ctl, simplified]
  note c = start_conf [OF assms(1) v(4,5)]
  have n: "nacks (wr_CR2 I ?v d) = 0" using c(3) assms(2) by (simp add: chip_def)
  have "rd_ISR I (wr_CR2 I ?v d) AND 0x20 = 0" using c(4) assms(3) by simp
  from start_send [OF c(2) this n] v assms(2,4) c(1,3) n
  show "bus (start_cr2 I ?v d) = Send ctl (unat k) []" "chip (start_cr2 I ?v d) = chip d"
    by (simp_all add: chip_def)
qed

lemma stop_sent:
  assumes "bus d = Send ctl (length bs) bs" "bit (rd_ISR I d) 6" "one_page (Some (ctl, bs))"
  shows "\<exists>d'. wait_isr I (push_bit 5 1) (stop_cr2 I d) = Some d' \<and> bus d' = Free
    \<and> emem d' = commit (Some (ctl, bs)) (emem d)"
proof -
  have c: "bus (wr_CR2 I 0 d) = Conf 0 (Some (ctl, bs))" "emem (wr_CR2 I 0 d) = emem d"
    using conf_sent [OF assms(1) refl assms(2), of 0] by simp_all
  then have "bus (stop_cr2 I d) = Stopping" "emem (stop_cr2 I d) = commit (Some (ctl, bs)) (emem d)"
    using stop [OF c(1)] assms(3) by (simp_all add: stop_cr2_def)
  then show ?thesis using stop_wait [of "stop_cr2 I d"] by auto
qed

lemma write_page:
  assumes "bus d = Free" "nacks d = 0" "0 < length bs" "unat (a AND 0xFF) + length bs \<le> 256" "length bs \<le> 128"
    "a < EEPROM_MEM_SIZE" "unat n = length bs"
  shows "\<exists>d'. i2c_write_page I a n bs d = Some d' \<and> bus d' = Free \<and> emem d' = store a bs (emem d)"
proof -
  obtain d1 where 1: "clear_isr I 0x22 d = Some d1" "bus d1 = Free" "chip d1 = chip d" "rd_ISR I d1 AND 0x22 = 0"
    using clear_free [OF assms(1), of "0x22"] by auto
  have "rd_ISR I d1 AND 0x20 = 0" using and_zero_sub [OF 1(4), of "0x20"] by simp
  moreover have k: "unat (2 + n) = 2 + length bs" using assms(5,7) by (simp add: unat_word_ariths)
  ultimately have 2: "bus (start_cr2 I (push_bit 16 (2 + n) OR ucast (control_byte a)) d1) = Send (control_byte a) (2 + length bs) []"
    "chip (start_cr2 I (push_bit 16 (2 + n) OR ucast (control_byte a)) d1) = chip d"
    using start_write [OF 1(2), of "2 + n" "control_byte a"] 1(3) assms(2,5) by (simp_all add: chip_def)
  let ?bs = "ucast (drop_bit 8 a) # ucast a # bs"
  obtain d2 where 3: "send_bytes I ?bs (start_cr2 I (push_bit 16 (2 + n) OR ucast (control_byte a)) d1) = Some d2"
    "bus d2 = Send (control_byte a) (length ?bs) ?bs" "chip d2 = chip d"
    using send_all [OF 2(1), of ?bs] 2(2) by auto
  obtain d3 where 4: "wait_isr I (push_bit 6 1) d2 = Some d3" "bus d3 = Send (control_byte a) (length ?bs) ?bs"
    "chip d3 = chip d" "bit (rd_ISR I d3) 6"
    using wait_send [OF 3(2)] 3(3) by auto
  obtain d4 where "wait_isr I (push_bit 5 1) (stop_cr2 I d3) = Some d4" "bus d4 = Free"
    "emem d4 = commit (Some (control_byte a, ?bs)) (emem d3)"
    using stop_sent [OF 4(2,4)] assms(4) by (auto simp: and_mask_u32 unsigned_ucast_eq unsigned_take_bit_eq)
  then show ?thesis
    using 1(1) 3(1) 4(1,3) control_addr [OF assms(6)] by (simp add: i2c_write_page_def chip_def del: send_bytes.simps)
qed

lemma restart_read:
  assumes "bus d = Send ctl 2 [hi, lo]" "bit (rd_ISR I d) 6" "0 < unat k" "unat k < 256"
  shows "bus (start_cr2 I (push_bit 16 k OR push_bit 10 1 OR ucast ctl) d) = Recv (chip_addr ctl hi lo) (unat k)"
    and "emem (start_cr2 I (push_bit 16 k OR push_bit 10 1 OR ucast ctl) d) = emem d"
proof -
  let ?v = "push_bit 16 k OR push_bit 10 1 OR ucast ctl :: u32"
  note v = cr2_fields [OF assms(4), of "push_bit 10 1" ctl]
  have v': "nbytes ?v = unat k" "ucast ?v = ctl" "bit ?v 10" "\<not> bit ?v 13" "\<not> bit ?v 14"
    using v by simp_all
  have c: "bus (wr_CR2 I ?v d) = Conf ?v (Some (ctl, [hi, lo]))" "emem (wr_CR2 I ?v d) = emem d" "rd_CR2 I (wr_CR2 I ?v d) = ?v"
    using conf_sent [OF assms(1) _ assms(2) v'(4,5)] by simp_all
  have "nbytes ?v \<noteq> 0" using v'(1) assms(3) by simp
  from start_recv [OF c(1) this v'(3,2)] c(2,3) v'(1)
  show "bus (start_cr2 I ?v d) = Recv (chip_addr ctl hi lo) (unat k)" "emem (start_cr2 I ?v d) = emem d"
    by (simp_all only: start_cr2_def Let_def)
qed

lemma read_page:
  assumes "bus d = Free" "nacks d = 0" "a < EEPROM_MEM_SIZE" "1 < unat n" "unat n \<le> 128"
  shows "\<exists>d'. i2c_read_page I a n d = Some (map (\<lambda>i. emem d (a + of_nat i)) [0..<unat n], d')
    \<and> bus d' = Free \<and> emem d' = emem d"
proof -
  let ?c = "control_byte a" and ?bs = "[ucast (drop_bit 8 a), ucast a] :: u8 list"
  obtain d1 where 1: "clear_isr I 0x66 d = Some d1" "bus d1 = Free" "chip d1 = chip d" "rd_ISR I d1 AND 0x66 = 0"
    using clear_free [OF assms(1), of "0x66"] by auto
  have "rd_ISR I d1 AND 0x20 = 0" using and_zero_sub [OF 1(4), of "0x20"] by simp
  then have 2: "bus (start_cr2 I (push_bit 16 2 OR ucast ?c) d1) = Send ?c 2 []"
    "chip (start_cr2 I (push_bit 16 2 OR ucast ?c) d1) = chip d"
    using start_write [OF 1(2), of 2 ?c] 1(3) assms(2) by (simp_all add: chip_def)
  obtain d2 where 3: "send_bytes I ?bs (start_cr2 I (push_bit 16 2 OR ucast ?c) d1) = Some d2"
    "bus d2 = Send ?c 2 ?bs" "chip d2 = chip d"
    using send_all [OF 2(1), of ?bs] 2(2) by auto
  obtain d3 where 4: "wait_isr I (push_bit 6 1) d2 = Some d3" "bus d3 = Send ?c 2 ?bs" "chip d3 = chip d" "bit (rd_ISR I d3) 6"
    using wait_send [OF 3(2)] 3(3) by auto
  let ?d = "start_cr2 I (push_bit 16 n OR push_bit 10 1 OR ucast ?c) d3"
  have 5: "bus ?d = Recv a (unat n)" "emem ?d = emem d"
    using restart_read [OF 4(2,4), of n] assms(4,5) 4(3) control_addr [OF assms(3)] by (simp_all add: chip_def)
  obtain d4 where 6: "recv_bytes I (unat n) ?d = Some (map (\<lambda>i. emem d (a + of_nat i)) [0..<unat n], d4)"
    "bus d4 = Recv (a + of_nat (unat n)) 0" "emem d4 = emem d"
    using recv_all [OF 5(1)] 5(2) by auto
  have c: "bus (wr_CR2 I 0 d4) = Conf 0 None" "emem (wr_CR2 I 0 d4) = emem d" using conf_received [OF 6(2)] 6(3) by simp_all
  have "bus (stop_cr2 I d4) = Stopping" "emem (stop_cr2 I d4) = emem d"
    using stop [OF c(1)] c(2) by (simp_all add: stop_cr2_def)
  then obtain d5 where "wait_isr I (push_bit 5 1) (stop_cr2 I d4) = Some d5" "bus d5 = Free" "emem d5 = emem d"
    using stop_wait by metis
  moreover have "n > 1" using assms(4) by (simp add: word_less_nat_alt)
  ultimately show ?thesis
    using 1(1) 3(1) 4(1) 6(1) by (simp add: i2c_read_page_def del: send_bytes.simps)
qed

end

section \<open>The cache as a view of the memory\<close>

text \<open>
  What a user of the driver sees: the memory of the chip with the bytes that wait in a dirty cache
  already in place. The invariant keeps the cached bytes within one page and, unless they are
  waiting to be written, equal to those of the chip.
\<close>

definition view :: "('i \<Rightarrow> ee_mem) \<Rightarrow> 'i ee_state \<Rightarrow> ee_mem" where
  "view emem s = (let c = Cache s in
     if dirty c then store (startaddr c) (take (unat (ccount c)) (cdata c)) (emem (i2c s)) else emem (i2c s))"

definition cache_wf :: "EECache_t \<Rightarrow> bool" where
  "cache_wf c \<longleftrightarrow> length (cdata c) = 128 \<and> (dirty c \<longrightarrow> ccount c \<noteq> 0)
     \<and> (ccount c \<noteq> 0 \<longrightarrow> startaddr c < EEPROM_MEM_SIZE \<and> unat (startaddr c) mod 128 + unat (ccount c) \<le> 128)"

definition ee_inv :: "('i \<Rightarrow> bus_phase) \<Rightarrow> ('i \<Rightarrow> ee_mem) \<Rightarrow> 'i ee_state \<Rightarrow> bool" where
  "ee_inv bus emem s \<longleftrightarrow> bus (i2c s) = Free \<and> cache_wf (Cache s)
     \<and> (\<not> dirty (Cache s) \<longrightarrow> (\<forall>i < unat (ccount (Cache s)). cdata (Cache s) ! i = emem (i2c s) (startaddr (Cache s) + of_nat i)))"

lemma offset_eq: "n < 2 ^ 32 \<Longrightarrow> unat (x - a) = n \<longleftrightarrow> x = a + (of_nat n :: u32)"
proof
  assume "unat (x - a) = n"
  moreover have "of_nat (unat (x - a)) = x - a" by simp
  ultimately have "of_nat n = x - a" by simp
  then show "x = a + of_nat n" by simp
qed (simp add: unat_of_nat_u32)

lemma store_simps [simp]: "store a [] m = m" "store a [b] m = m(a := b)"
  using offset_eq [of 0] by (auto simp: store_def fun_eq_iff)

lemma store_at: "i < length bs \<Longrightarrow> length bs \<le> 2 ^ 32 \<Longrightarrow> store a bs m (a + of_nat i) = bs ! i"
  by (simp add: store_def unat_of_nat_u32)

lemma store_snoc:
  assumes "length bs < 2 ^ 32"
  shows "store a (bs @ [b]) m = (store a bs m)(a + of_nat (length bs) := b)"
proof
  fix x
  from offset_eq [OF assms, of x a] show "store a (bs @ [b]) m x = ((store a bs m)(a + of_nat (length bs) := b)) x"
    by (auto simp: store_def nth_append)
qed

lemma store_Cons:
  assumes "length bs < 2 ^ 32 - 1"
  shows "store a (b # bs) m = store (a + 1) bs (m(a := b))"
proof
  fix x
  show "store a (b # bs) m x = store (a + 1) bs (m(a := b)) x"
  proof (cases "x = a")
    case True
    have "unat (- 1 :: u32) = 2 ^ 32 - 1" using unat_minus_small [of 1] by simp
    then have "\<not> unat (a - (a + 1)) < length bs" using assms by simp
    with True show ?thesis by (simp add: store_def)
  next
    case False
    then have "x - a \<noteq> 0" by simp
    then have "unat (x - (a + 1)) = unat (x - a) - 1" "0 < unat (x - a)"
      by (simp_all add: unat_minus_one diff_diff_eq2 unat_gt_0 flip: diff_diff_eq)
    with False show ?thesis by (cases "unat (x - a)") (auto simp: store_def)
  qed
qed

lemma page_base:
  fixes a :: u32
  shows "unat (a AND NOT 127) = unat a - unat a mod 128" "unat (a AND NOT 127) mod 128 = 0" "a AND NOT 127 \<le> a"
    "unat (a - (a AND NOT 127)) = unat a mod 128"
proof -
  have t: "(127 :: u32) = mask 7" by (simp add: mask_eq_exp_minus_1)
  have "push_bit 7 (drop_bit 7 a) = a AND NOT 127"
    unfolding t by (rule bit_word_eqI) (auto simp: bit_simps)
  with bits_ident [of 7 a] have e: "(a AND NOT 127) + take_bit 7 a = a" by simp
  have m: "unat (take_bit 7 a) = unat a mod 128" by (simp add: unsigned_take_bit_eq) (simp add: take_bit_eq_mod)
  have le: "take_bit 7 a \<le> a" using m by (simp add: word_le_nat_alt)
  have b: "a AND NOT 127 = a - take_bit 7 a" using e by (metis add_diff_cancel_right')
  show u: "unat (a AND NOT 127) = unat a - unat a mod 128" unfolding b using unat_sub [OF le] m by simp
  then show "unat (a AND NOT 127) mod 128 = 0" "a AND NOT 127 \<le> a" by (simp_all add: word_le_nat_alt minus_mod_eq_mult_div)
  show "unat (a - (a AND NOT 127)) = unat a mod 128" unfolding b using m by simp
qed

lemma same_block:
  assumes "(x + n) div 128 = x div (128 :: nat)"
  shows "x mod 128 + n < 128"
proof -
  have "(x mod 128 + n + x div 128 * 128) div 128 = x div 128 + (x mod 128 + n) div 128"
    by (rule div_mult_self1) simp
  moreover have "x mod 128 + n + x div 128 * 128 = x + n" by simp
  ultimately have "x div 128 + (x mod 128 + n) div 128 = x div 128" using assms by (simp only:)
  then show ?thesis by (simp add: div_eq_0_iff)
qed

lemma SAMEPAGE_div: "SAMEPAGE a b \<longleftrightarrow> unat a div 128 = unat b div 128"
proof -
  have t: "(127 :: u32) = mask 7" by (simp add: mask_eq_exp_minus_1)
  have "a OR 127 = b OR 127 \<longleftrightarrow> drop_bit 7 a = drop_bit 7 b"
  proof
    assume "a OR 127 = b OR 127"
    then have "bit (a OR mask 7) (7 + n) = bit (b OR mask 7) (7 + n)" for n unfolding t by simp
    then show "drop_bit 7 a = drop_bit 7 b"
      by (intro bit_word_eqI) (simp add: bit_drop_bit_eq bit_or_iff bit_mask_iff)
  next
    assume d: "drop_bit 7 a = drop_bit 7 b"
    have "bit a (7 + n) = bit b (7 + n)" for n
      using arg_cong [OF d, of "\<lambda>w. bit w n"] by (simp add: bit_drop_bit_eq)
    then have "7 \<le> n \<Longrightarrow> bit a n = bit b n" for n by (metis le_add_diff_inverse)
    then show "a OR 127 = b OR 127" unfolding t
      by (intro bit_word_eqI) (auto simp: bit_or_iff bit_mask_iff not_less)
  qed
  moreover have "unat (drop_bit 7 w) = unat w div 128" for w :: u32
    by (simp add: drop_bit_eq_div unat_div)
  ultimately show ?thesis by (simp add: SAMEPAGE_def reg_consts) (metis unat_inject)
qed

text \<open>Putting a byte at the end of the window.\<close>

definition extend :: "u8 \<Rightarrow> EECache_t \<Rightarrow> EECache_t" where
  "extend b c = c\<lparr>cdata := (cdata c)[unat (ccount c) := b], ccount := ccount c + 1\<rparr>"

definition window_end :: "EECache_t \<Rightarrow> u32" where
  "window_end c = startaddr c + ccount c"

text \<open>An address that does not hit a byte waiting to be written.\<close>

definition clear_of :: "u32 \<Rightarrow> EECache_t \<Rightarrow> bool" where
  "clear_of addr c \<longleftrightarrow> (dirty c \<longrightarrow> ccount c \<le> addr - startaddr c)"

context ee_chip
begin

lemma flush:
  assumes "ee_inv bus emem s"
  shows "\<exists>s'. writecachepage I s = Inr (EEPROM_ERR_OK, s') \<and> ee_inv bus emem s'
    \<and> Cache s' = (Cache s)\<lparr>dirty := False\<rparr> \<and> emem (i2c s') = view emem s"
proof (cases "dirty (Cache s)")
  case False
  with assms show ?thesis by (simp add: writecachepage_def Let_def ee_inv_def view_def cache_wf_def)
next
  case True
  let ?c = "Cache s"
  let ?bs = "take (unat (ccount ?c)) (cdata ?c)"
  have wf: "ccount ?c \<noteq> 0" "startaddr ?c < EEPROM_MEM_SIZE" "unat (startaddr ?c) mod 128 + unat (ccount ?c) \<le> 128"
    "length (cdata ?c) = 128" "bus (i2c s) = Free"
    using assms True by (simp_all add: ee_inv_def cache_wf_def)
  have len: "length ?bs = unat (ccount ?c)" "0 < unat (ccount ?c)" using wf by (simp_all add: unat_gt_0)
  obtain d1 where 1: "ack_wait I (LastCntlByte s) (i2c s) = Some d1" "bus d1 = Free" "emem d1 = emem (i2c s)" "nacks d1 = 0"
    using ack_wait_run [OF wf(5)] by blast
  have "unat (startaddr ?c AND 0xFF) \<le> unat (startaddr ?c) mod 128 + 128"
  proof -
    have "unat (startaddr ?c AND 0xFF) = unat (startaddr ?c) mod 256"
      unfolding and_mask_u32 by (simp add: unsigned_take_bit_eq) (simp add: take_bit_eq_mod)
    moreover have "x mod 256 \<le> x mod 128 + 128" for x :: nat
      using mod_mult2_eq [of x 128 2] by simp
    ultimately show ?thesis by simp
  qed
  then obtain d2 where 2: "i2c_write_page I (startaddr ?c) (ccount ?c) ?bs d1 = Some d2" "bus d2 = Free"
    "emem d2 = store (startaddr ?c) ?bs (emem (i2c s))"
    using write_page [OF 1(2,4), of ?bs "startaddr ?c" "ccount ?c"] len wf 1(3) by auto
  have "cdata ?c ! i = emem d2 (startaddr ?c + of_nat i)" if "i < unat (ccount ?c)" for i
    using store_at [of i ?bs "startaddr ?c" "emem (i2c s)"] len that wf(3) by (simp add: 2(3))
  with 1 2 True wf show ?thesis
    by (simp add: writecachepage_def Let_def hang_def ee_inv_def cache_wf_def view_def)
qed

lemma fill:
  assumes "ee_inv bus emem s" "\<not> dirty (Cache s)" "a < EEPROM_MEM_SIZE" "unat a mod 128 = 0"
  shows "\<exists>s'. readcachepage I a EEPROM_CACHE_SIZE s = Inr (EEPROM_ERR_OK, s') \<and> ee_inv bus emem s'
    \<and> \<not> dirty (Cache s') \<and> startaddr (Cache s') = a \<and> ccount (Cache s') = 128 \<and> emem (i2c s') = emem (i2c s)"
proof -
  have wf: "bus (i2c s) = Free" "length (cdata (Cache s)) = 128" using assms(1) by (simp_all add: ee_inv_def cache_wf_def)
  obtain d1 where 1: "ack_wait I (LastCntlByte s) (i2c s) = Some d1" "bus d1 = Free" "emem d1 = emem (i2c s)" "nacks d1 = 0"
    using ack_wait_run [OF wf(1)] by blast
  obtain d2 where "i2c_read_page I a 128 d1 = Some (map (\<lambda>i. emem (i2c s) (a + of_nat i)) [0..<128], d2)"
    "bus d2 = Free" "emem d2 = emem (i2c s)"
    using read_page [OF 1(2,4) assms(3), of 128] 1(3) by auto
  with 1 wf assms(2-4) show ?thesis
    by (simp add: readcachepage_def hang_def ee_inv_def cache_wf_def reg_consts)
qed

lemma read_bytes:
  assumes "ee_inv bus emem s" "\<not> dirty (Cache s)" "unat addr + n \<le> unat EEPROM_MEM_SIZE"
  shows "\<exists>s'. ee_read_loop I n addr s = Inr (EEPROM_ERR_OK, map (\<lambda>i. emem (i2c s) (addr + of_nat i)) [0..<n], s')
    \<and> ee_inv bus emem s' \<and> \<not> dirty (Cache s') \<and> emem (i2c s') = emem (i2c s)"
  using assms
proof (induction n arbitrary: addr s)
  case 0
  then show ?case by simp
next
  case (Suc n)
  let ?miss = "addr < startaddr (Cache s) \<or> addr - startaddr (Cache s) \<ge> ccount (Cache s)"
  have lt: "addr < EEPROM_MEM_SIZE" using Suc.prems(3) by (simp add: word_less_nat_alt)
  obtain s1 where 1: "(if ?miss then readcachepage I (addr AND NOT (EEPROM_CACHE_SIZE - 1)) EEPROM_CACHE_SIZE s
      else Inr (EEPROM_ERR_OK, s)) = Inr (EEPROM_ERR_OK, s1)" "ee_inv bus emem s1" "\<not> dirty (Cache s1)"
    "emem (i2c s1) = emem (i2c s)" "unat (addr - startaddr (Cache s1)) < unat (ccount (Cache s1))"
  proof (cases ?miss)
    case True
    have m: "EEPROM_CACHE_SIZE - 1 = 127" by (simp add: reg_consts)
    have "addr AND NOT 127 < EEPROM_MEM_SIZE" using page_base(3) [of addr] lt by simp
    with fill [OF Suc.prems(1,2) this page_base(2)] True that page_base(4) [of addr] show ?thesis
      unfolding m by auto
  next
    case False
    then have "addr - startaddr (Cache s) < ccount (Cache s)" by (simp add: not_le)
    with that [of s] False Suc.prems show ?thesis unfolding word_less_nat_alt [of "addr - _"] by simp
  qed
  have wf: "length (cdata (Cache s1)) = 128" "unat (ccount (Cache s1)) \<le> 128"
    using 1(2) by (auto simp: ee_inv_def cache_wf_def)
  have "cdata (Cache s1) ! unat (addr - startaddr (Cache s1)) = emem (i2c s) addr"
    using 1(2-5) by (simp add: ee_inv_def)
  then have b: "rd (cdata (Cache s1)) (unat (addr - startaddr (Cache s1))) = Inr (emem (i2c s) addr)"
    using wf 1(5) by (simp add: rd_def)
  have "unat (addr + 1) = unat addr + 1"
    using lt unat_add_1 [of addr EEPROM_MEM_SIZE] by simp
  then obtain s2 where "ee_read_loop I n (addr + 1) s1
      = Inr (EEPROM_ERR_OK, map (\<lambda>i. emem (i2c s) (addr + 1 + of_nat i)) [0..<n], s2)"
    "ee_inv bus emem s2" "\<not> dirty (Cache s2)" "emem (i2c s2) = emem (i2c s)"
    using Suc.IH [OF 1(2,3), of "addr + 1"] Suc.prems(3) 1(4) by auto
  moreover have "map (\<lambda>i. emem (i2c s) (addr + of_nat i)) [0..<Suc n]
      = emem (i2c s) addr # map (\<lambda>i. emem (i2c s) (addr + 1 + of_nat i)) [0..<n]"
    by (simp add: upt_conv_Cons map_Suc_upt [symmetric] add.assoc del: upt_Suc)
  ultimately show ?case using 1(1) b by (simp del: upt_Suc)
qed

lemma extend_new:
  assumes "ee_inv bus emem s" "\<not> dirty (Cache s)" "addr < EEPROM_MEM_SIZE"
  defines "c \<equiv> open_window addr (Cache s)"
  shows "window_end c = addr" "\<not> length (cdata c) \<le> unat (ccount c)" "ee_inv bus emem (s\<lparr>Cache := extend b c\<rparr>)"
    "dirty (extend b c)" "window_end (extend b c) = addr + 1"
    "view emem (s\<lparr>Cache := extend b c\<rparr>) = (view emem s)(addr := b)"
proof -
  have len: "length (cdata (Cache s)) = 128" using assms(1) by (simp add: ee_inv_def cache_wf_def)
  then have "take 1 ((cdata (Cache s))[0 := b]) = [b]" by (cases "cdata (Cache s)") auto
  then show "view emem (s\<lparr>Cache := extend b c\<rparr>) = (view emem s)(addr := b)"
    using assms(2) by (simp add: c_def extend_def open_window_def view_def Let_def)
  show "ee_inv bus emem (s\<lparr>Cache := extend b c\<rparr>)"
    using assms(1-3) len by (simp add: c_def extend_def open_window_def ee_inv_def cache_wf_def)
qed (use assms(1,2) in \<open>simp_all add: c_def extend_def open_window_def window_end_def ee_inv_def cache_wf_def\<close>)

lemma extend_old:
  assumes "ee_inv bus emem s" "dirty (Cache s)" "addr = window_end (Cache s)" "SAMEPAGE addr (startaddr (Cache s))"
  defines "c \<equiv> Cache s"
  shows "\<not> length (cdata c) \<le> unat (ccount c)" "ee_inv bus emem (s\<lparr>Cache := extend b c\<rparr>)"
    "dirty (extend b c)" "window_end (extend b c) = addr + 1"
    "view emem (s\<lparr>Cache := extend b c\<rparr>) = (view emem s)(addr := b)"
proof -
  let ?n = "unat (ccount c)" and ?a = "startaddr c"
  have wf: "length (cdata c) = 128" "ccount c \<noteq> 0" "?a < EEPROM_MEM_SIZE" "unat ?a mod 128 + ?n \<le> 128" "bus (i2c s) = Free"
    using assms(1,2) by (simp_all add: ee_inv_def cache_wf_def c_def)
  have "unat ?a < 0x80000" using wf(3) by (simp add: word_less_nat_alt reg_consts)
  then have ua: "unat addr = unat ?a + ?n"
    using wf(4) assms(3) by (simp add: window_end_def c_def unat_word_ariths)
  with assms(4) have "(unat ?a + ?n) div 128 = unat ?a div 128" by (simp add: SAMEPAGE_div c_def)
  then have n: "unat ?a mod 128 + ?n < 128" by (rule same_block)
  show "\<not> length (cdata c) \<le> unat (ccount c)" using n wf(1) by simp
  have u: "unat (ccount c + 1) = ?n + 1" using n by (simp add: unat_word_ariths)
  then have nz: "ccount c + 1 \<noteq> 0" by auto
  show "ee_inv bus emem (s\<lparr>Cache := extend b c\<rparr>)"
    using wf n u nz assms(2) by (simp add: extend_def ee_inv_def cache_wf_def c_def)
  show "dirty (extend b c)" "window_end (extend b c) = addr + 1"
    using assms(2,3) by (simp_all add: extend_def window_end_def c_def)
  have "take (?n + 1) ((cdata c)[?n := b]) = take ?n (cdata c) @ [b]"
    using n wf(1) by (simp add: take_Suc_conv_app_nth)
  moreover have "addr = ?a + of_nat (length (take ?n (cdata c)))"
    using n wf(1) assms(3) by (simp add: window_end_def c_def)
  ultimately show "view emem (s\<lparr>Cache := extend b c\<rparr>) = (view emem s)(addr := b)"
    using store_snoc [of "take ?n (cdata c)" ?a b "emem (i2c s)"] n assms(2)
    by (simp add: view_def extend_def u [unfolded c_def] Let_def c_def)
qed

lemma write_step:
  assumes i: "ee_inv bus emem s" and a: "addr < EEPROM_MEM_SIZE" "clear_of addr (Cache s)"
  shows "\<exists>s1. ee_write_loop I (Suc n) addr (b # bs) s = ee_write_loop I n (addr + 1) bs s1 \<and> ee_inv bus emem s1
    \<and> dirty (Cache s1) \<and> window_end (Cache s1) = addr + 1 \<and> view emem s1 = (view emem s)(addr := b)"
proof -
  let ?c = "Cache s"
  let ?out = "\<not> SAMEPAGE addr (startaddr ?c) \<or> addr < startaddr ?c \<or> addr > startaddr ?c + ccount ?c"
  obtain s0 where 0: "(if ?out then writecachepage I s else Inr (EEPROM_ERR_OK, s)) = Inr (EEPROM_ERR_OK, s0)"
    and v: "ee_inv bus emem s0" "view emem s0 = view emem s" and d: "dirty (Cache s0) \<Longrightarrow> s0 = s \<and> \<not> ?out"
  proof (cases ?out)
    case True
    with flush [OF i] that show ?thesis by (force simp: view_def Let_def)
  qed (use i that in simp)
  show ?thesis
  proof (cases "dirty (Cache s0)")
    case False
    note x = extend_new [OF v(1) False a(1)]
    from x(1,2) 0 have "ee_write_loop I (Suc n) addr (b # bs) s
        = ee_write_loop I n (addr + 1) bs (s0\<lparr>Cache := extend b (open_window addr (Cache s0))\<rparr>)"
      by (simp add: Let_def window_end_def extend_def)
    with x v(2) show ?thesis by (intro exI [of _ "s0\<lparr>Cache := extend b (open_window addr (Cache s0))\<rparr>"]) simp
  next
    case True
    with d have s0: "s0 = s" and out: "\<not> ?out" and dirty: "dirty ?c" by auto
    have "ccount ?c \<le> addr - startaddr ?c" using a(2) dirty by (simp add: clear_of_def)
    moreover have "addr - startaddr ?c \<le> ccount ?c"
    proof -
      have "unat (startaddr ?c + ccount ?c) \<le> unat (startaddr ?c) + unat (ccount ?c)" by (simp add: unat_word_ariths)
      moreover have "startaddr ?c \<le> addr" "unat addr \<le> unat (startaddr ?c + ccount ?c)"
        using out by (simp_all add: not_less word_le_nat_alt)
      ultimately show ?thesis by (simp add: word_le_nat_alt unat_sub)
    qed
    ultimately have e: "addr = window_end ?c" by (simp add: window_end_def)
    note x = extend_old [OF i dirty e]
    have "open_window addr ?c = ?c" using dirty by (simp add: open_window_def)
    with x e out have "ee_write_loop I (Suc n) addr (b # bs) s = ee_write_loop I n (addr + 1) bs (s\<lparr>Cache := extend b ?c\<rparr>)"
      by (simp add: Let_def window_end_def extend_def)
    with x out show ?thesis by (intro exI [of _ "s\<lparr>Cache := extend b ?c\<rparr>"]) simp
  qed
qed

lemma write_bytes:
  assumes "ee_inv bus emem s" "clear_of addr (Cache s)" "n \<le> length bs" "unat addr + n \<le> unat EEPROM_MEM_SIZE"
  shows "\<exists>s'. ee_write_loop I n addr bs s = Inr (EEPROM_ERR_OK, s') \<and> ee_inv bus emem s'
    \<and> view emem s' = store addr (take n bs) (view emem s)"
  using assms
proof (induction n arbitrary: addr bs s)
  case 0
  then show ?case by simp
next
  case (Suc n)
  then obtain b bs' where bs: "bs = b # bs'" by (cases bs) auto
  have lt: "addr < EEPROM_MEM_SIZE" using Suc.prems(4) by (simp add: word_less_nat_alt)
  obtain s1 where 1: "ee_write_loop I (Suc n) addr (b # bs') s = ee_write_loop I n (addr + 1) bs' s1" "ee_inv bus emem s1"
    "window_end (Cache s1) = addr + 1" "view emem s1 = (view emem s)(addr := b)"
    using write_step [OF Suc.prems(1) lt Suc.prems(2)] by blast
  have "clear_of (addr + 1) (Cache s1)"
    using 1(3) by (simp add: clear_of_def window_end_def flip: 1(3))
  moreover have "unat (addr + 1) = unat addr + 1" using lt unat_add_1 [of addr EEPROM_MEM_SIZE] by simp
  ultimately obtain s' where "ee_write_loop I n (addr + 1) bs' s1 = Inr (EEPROM_ERR_OK, s')" "ee_inv bus emem s'"
    "view emem s' = store (addr + 1) (take n bs') (view emem s1)"
    using Suc.IH [OF 1(2), of "addr + 1" bs'] Suc.prems(3,4) bs by auto
  moreover have "length (take n bs') < 2 ^ 32 - 1"
    using Suc.prems(4) by (simp add: reg_consts)
  ultimately show ?case using 1(1,4) bs store_Cons [of "take n bs'" addr b "view emem s"] by simp
qed

text \<open>Bytes for addresses that are waiting to be written are passed over.\<close>

lemma skip_step:
  assumes i: "ee_inv bus emem s" and h: "\<not> clear_of addr (Cache s)"
  shows "ee_write_loop I (Suc n) addr bs s = ee_write_loop I n (addr + 1) bs s"
    "unat (window_end (Cache s) - addr) = Suc (unat (window_end (Cache s) - (addr + 1)))"
    "\<not> clear_of (addr + 1) (Cache s) \<longleftrightarrow> addr + 1 \<noteq> window_end (Cache s)" "addr < window_end (Cache s)"
proof -
  let ?c = "Cache s"
  let ?a = "startaddr ?c" and ?n = "unat (ccount ?c)" and ?k = "unat (addr - startaddr ?c)"
  have c: "dirty ?c" "?k < ?n" using h by (auto simp: clear_of_def word_le_nat_alt)
  have wf: "unat ?a mod 128 + ?n \<le> 128" "unat ?a < 0x80000"
    using i c by (auto simp: ee_inv_def cache_wf_def word_less_nat_alt reg_consts)
  have addr: "addr = ?a + of_nat ?k" by simp
  have ua: "unat addr = unat ?a + ?k"
    by (subst addr, subst unat_word_ariths) (use wf c(2) in \<open>simp add: unat_of_nat_u32\<close>)
  have ue: "unat (window_end ?c) = unat ?a + ?n" using wf by (simp add: window_end_def unat_word_ariths)
  have "(unat ?a + ?k) div 128 = unat ?a div 128"
  proof -
    have "(unat ?a mod 128 + ?k + unat ?a div 128 * 128) div 128 = unat ?a div 128 + (unat ?a mod 128 + ?k) div 128"
      by (rule div_mult_self1) simp
    moreover have "unat ?a mod 128 + ?k + unat ?a div 128 * 128 = unat ?a + ?k" by simp
    moreover have "(unat ?a mod 128 + ?k) div 128 = 0" using wf(1) c(2) by simp
    ultimately show ?thesis by simp
  qed
  then have "SAMEPAGE addr ?a" by (simp add: SAMEPAGE_div ua)
  moreover have "\<not> addr < ?a" "\<not> addr > window_end ?c" "addr \<noteq> window_end ?c"
    using ua ue c(2) by (auto simp: word_less_nat_alt)
  ultimately show "ee_write_loop I (Suc n) addr bs s = ee_write_loop I n (addr + 1) bs s"
    using c(1) by (simp add: Let_def open_window_def window_end_def)
  have lt: "addr < window_end ?c" using ua ue c(2) by (simp add: word_less_nat_alt)
  have u1: "unat (addr + 1) = unat addr + 1" using unat_add_1 [OF lt] by simp
  then have "addr + 1 \<le> window_end ?c" using lt by (simp add: word_le_nat_alt word_less_nat_alt)
  then show "unat (window_end ?c - addr) = Suc (unat (window_end ?c - (addr + 1)))"
    using lt u1 ua ue c(2) by (simp add: unat_sub)
  have "unat (addr + 1 - ?a) = ?k + 1"
    using u1 ua by (subst unat_sub) (simp_all add: word_le_nat_alt)
  moreover have "addr + 1 = window_end ?c \<longleftrightarrow> ?k + 1 = ?n"
    unfolding unat_inject [symmetric] using u1 ua ue by simp
  ultimately show "\<not> clear_of (addr + 1) ?c \<longleftrightarrow> addr + 1 \<noteq> window_end ?c"
    using c by (simp add: clear_of_def word_le_nat_alt) linarith
  show "addr < window_end ?c" by (rule lt)
qed

lemma write_overlap:
  assumes "ee_inv bus emem s" "\<not> clear_of addr (Cache s)"
  shows "ee_write_loop I n addr bs s = (if n \<le> unat (window_end (Cache s) - addr) then Inr (EEPROM_ERR_OK, s)
     else ee_write_loop I (n - unat (window_end (Cache s) - addr)) (window_end (Cache s)) bs s)"
  using assms(2)
proof (induction n arbitrary: addr)
  case 0
  then show ?case by simp
next
  case (Suc n)
  note k = skip_step [OF assms(1) Suc.prems]
  show ?case
  proof (cases "addr + 1 = window_end (Cache s)")
    case True
    then have "unat (window_end (Cache s) - addr) = 1" using k(2) by simp
    then show ?thesis using k(1) True by (cases n) simp_all
  next
    case False
    with Suc.IH [of "addr + 1"] k show ?thesis by simp
  qed
qed

end

section \<open>A controller and chip that meet the contract\<close>

record ee_sim =
  q_bus :: bus_phase
  q_mem :: ee_mem
  q_nacks :: nat
  q_left :: nat
  q_flags :: u32
  q_cr2 :: u32

definition sim_started :: "u32 \<Rightarrow> (u8 \<times> u8 list) option \<Rightarrow> bus_phase" where
  "sim_started v p =
     (if bit v 10 then (case p of Some (ctl, [hi, lo]) \<Rightarrow> Recv (chip_addr ctl hi lo) (nbytes v) | _ \<Rightarrow> Free)
      else if nbytes v = 0 then Ack else Send (ucast v) (nbytes v) [])"

definition sim_wr_CR2 :: "u32 \<Rightarrow> ee_sim \<Rightarrow> ee_sim" where
  "sim_wr_CR2 v d = (case q_bus d of
       Free \<Rightarrow> d\<lparr>q_bus := Conf v None, q_cr2 := v\<rparr>
     | Send ctl n bs \<Rightarrow> d\<lparr>q_bus := Conf v (Some (ctl, bs)), q_cr2 := v\<rparr>
     | Recv a n \<Rightarrow> d\<lparr>q_bus := Conf v None, q_cr2 := v\<rparr>
     | Conf v0 p \<Rightarrow>
         if bit v 13 then d\<lparr>q_bus := sim_started v0 p, q_left := 2, q_cr2 := v\<rparr>
         else d\<lparr>q_bus := Stopping, q_left := 1, q_cr2 := v, q_mem := commit p (q_mem d), q_nacks := (if p = None then 0 else 3)\<rparr>
     | _ \<Rightarrow> d)"

definition sim_ISR :: "ee_sim \<Rightarrow> u32" where
  "sim_ISR d = (case q_bus d of
       Send ctl n bs \<Rightarrow> if q_left d = 0 then (if length bs < n then 0x02 else 0x40) else 0
     | Recv a n \<Rightarrow> if q_left d = 0 then 0x04 else 0
     | Ack \<Rightarrow> 0 | Stopping \<Rightarrow> 0
     | _ \<Rightarrow> q_flags d AND 0x30)"

definition sim_tick :: "ee_sim \<Rightarrow> ee_sim" where
  "sim_tick d = (if q_left d \<noteq> 0 then d\<lparr>q_left := q_left d - 1\<rparr> else case q_bus d of
       Ack \<Rightarrow> d\<lparr>q_bus := Free, q_flags := (if q_nacks d \<noteq> 0 then 0x30 else 0x20), q_nacks := q_nacks d - 1\<rparr>
     | Stopping \<Rightarrow> d\<lparr>q_bus := Free, q_flags := 0x20\<rparr>
     | _ \<Rightarrow> d)"

definition sim_TXDR :: "u8 \<Rightarrow> ee_sim \<Rightarrow> ee_sim" where
  "sim_TXDR b d = (case q_bus d of Send ctl n bs \<Rightarrow> d\<lparr>q_bus := Send ctl n (bs @ [b]), q_left := 1\<rparr> | _ \<Rightarrow> d)"

definition sim_RXDR :: "ee_sim \<Rightarrow> u8 \<times> ee_sim" where
  "sim_RXDR d = (case q_bus d of Recv a (Suc n) \<Rightarrow> (q_mem d a, d\<lparr>q_bus := Recv (a + 1) n, q_left := 1\<rparr>) | _ \<Rightarrow> (0, d))"

definition i2c_sim :: "ee_sim i2c_dev" where
  "i2c_sim = \<lparr>rd_ISR = sim_ISR, wr_ICR = (\<lambda>m d. d\<lparr>q_flags := q_flags d AND NOT (m AND 0x38)\<rparr>), rd_CR2 = q_cr2,
     wr_CR2 = sim_wr_CR2, wr_TXDR = sim_TXDR, rd_RXDR = sim_RXDR, tick = sim_tick\<rparr>"

lemma ee_sim_flags: "((x :: u32) AND 0x30) AND 0x46 = 0" "((x :: u32) AND y) AND 0x30 = (x AND 0x30) AND y"
  by (simp add: and.assoc) (simp only: and.assoc and.commute [of y])

interpretation eesim: ee_chip i2c_sim q_bus q_mem q_nacks q_left
  by unfold_locales
    (auto simp: i2c_sim_def sim_wr_CR2_def sim_ISR_def sim_tick_def sim_TXDR_def sim_RXDR_def sim_started_def ee_sim_flags
      bit_simps split: if_splits)

section \<open>Operations\<close>

context ee_chip
begin

lemma range_ok:
  assumes "0 < unat len" "unat addr + unat len \<le> 0x80000"
  shows "\<not> bad_range addr len" "unat addr + unat len \<le> unat EEPROM_MEM_SIZE"
proof -
  have "unat (addr + len) = unat addr + unat len" using assms by (simp add: unat_word_ariths)
  then show "\<not> bad_range addr len"
    using assms by (auto simp: bad_range_def word_le_nat_alt word_less_nat_alt reg_consts)
qed (use assms in \<open>simp add: reg_consts\<close>)

lemma init_inv:
  assumes "bus (i2c s) = Free" "length (cdata (Cache s)) = 128"
  shows "\<exists>s'. EEPROM_Init I s = Inr s' \<and> ee_inv bus emem s' \<and> view emem s' = emem (i2c s)"
  using ackpoll_run [OF assms(1), of EEPROM_DEV_ADDR] assms(2)
  by (auto simp: EEPROM_Init_def hang_def ee_inv_def cache_wf_def view_def Let_def)

lemma write_view:
  assumes "ee_inv bus emem s" "clear_of addr (Cache s)" "0 < unat len" "unat addr + unat len \<le> 0x80000" "unat len \<le> length bs"
  shows "\<exists>s'. EEPROM_Write I addr (Some bs) len s = Inr (EEPROM_ERR_OK, s') \<and> ee_inv bus emem s'
    \<and> view emem s' = store addr (take (unat len) bs) (view emem s)"
  using write_bytes [OF assms(1,2,5)] range_ok [OF assms(3,4)] by (simp add: EEPROM_Write_def)

lemma write_inv:
  assumes i: "ee_inv bus emem s" and r: "unat addr + unat len \<le> 0x80000" "unat len \<le> length bs"
  shows "\<exists>r s'. EEPROM_Write I addr (Some bs) len s = Inr (r, s') \<and> ee_inv bus emem s'"
proof (cases "len = 0 \<or> clear_of addr (Cache s)")
  case True
  then show ?thesis
    using write_view [OF i _ _ r] i by (cases "len = 0") (auto simp: EEPROM_Write_def bad_range_def unat_gt_0)
next
  case False
  let ?e = "window_end (Cache s)"
  let ?n = "unat len - unat (?e - addr)"
  have "addr < ?e" using skip_step(4) [OF i] False by blast
  then have e: "unat (?e - addr) = unat ?e - unat addr" "unat addr < unat ?e"
    by (simp add: unat_sub less_imp_le) (simp add: \<open>addr < ?e\<close> flip: word_less_nat_alt)
  have "clear_of ?e (Cache s)" by (simp add: clear_of_def window_end_def)
  then have "\<exists>s'. ee_write_loop I ?n ?e bs s = Inr (EEPROM_ERR_OK, s') \<and> ee_inv bus emem s'"
    if "\<not> unat len \<le> unat (?e - addr)"
  proof -
    have "?n \<le> length bs" "unat ?e + ?n \<le> unat EEPROM_MEM_SIZE" using that e r by (simp_all add: reg_consts)
    with write_bytes [OF i] \<open>clear_of ?e (Cache s)\<close> show ?thesis by blast
  qed
  with write_overlap [OF i, of addr "unat len" bs] range_ok [OF _ r(1)] i False show ?thesis
    by (auto simp: EEPROM_Write_def unat_gt_0)
qed

lemma read_view:
  assumes "ee_inv bus emem s" "0 < unat len" "unat addr + unat len \<le> 0x80000" "unat len \<le> cap"
  shows "\<exists>s'. EEPROM_Read I addr (Some cap) len s
      = Inr (EEPROM_ERR_OK, map (\<lambda>i. view emem s (addr + of_nat i)) [0..<unat len], s')
    \<and> ee_inv bus emem s' \<and> view emem s' = view emem s"
proof -
  obtain s1 where 1: "(if dirty (Cache s) then writecachepage I s else Inr (EEPROM_ERR_OK, s)) = Inr (EEPROM_ERR_OK, s1)"
    "ee_inv bus emem s1" "\<not> dirty (Cache s1)" "emem (i2c s1) = view emem s"
  proof (cases "dirty (Cache s)")
    case True
    with flush [OF assms(1)] that show ?thesis by auto
  qed (use assms(1) that in \<open>simp add: view_def Let_def\<close>)
  obtain s2 where 2: "ee_read_loop I (unat len) addr s1
      = Inr (EEPROM_ERR_OK, map (\<lambda>i. view emem s (addr + of_nat i)) [0..<unat len], s2)"
    "ee_inv bus emem s2" "\<not> dirty (Cache s2)" "emem (i2c s2) = view emem s"
    using read_bytes [OF 1(2,3) range_ok(2) [OF assms(2,3)]] 1(4) by auto
  have "view emem s2 = view emem s" using 2(3,4) by (simp add: view_def [of _ s2] Let_def)
  with 1(1) 2 range_ok(1) [OF assms(2,3)] assms(4) show ?thesis by (simp add: EEPROM_Read_def)
qed

lemma flush_view:
  assumes "ee_inv bus emem s"
  shows "\<exists>s'. EEPROM_FlushCache I s = Inr (EEPROM_ERR_OK, s') \<and> ee_inv bus emem s' \<and> view emem s' = view emem s
    \<and> emem (i2c s') = view emem s"
proof -
  obtain s1 where 1: "writecachepage I s = Inr (EEPROM_ERR_OK, s1)" "ee_inv bus emem s1" "\<not> dirty (Cache s1)"
    "emem (i2c s1) = view emem s"
    using flush [OF assms] by auto
  then have "bus (i2c s1) = Free" by (simp add: ee_inv_def)
  from ack_wait_run [OF this, of "LastCntlByte s1"] 1 show ?thesis
    by (auto simp: EEPROM_FlushCache_def hang_def ee_inv_def cache_wf_def view_def Let_def)
qed

end

section \<open>Properties\<close>

text \<open>A driver just initialised over the simulated chip, which holds \<open>m\<close>, for the witnesses.\<close>

definition ee_on :: "ee_mem \<Rightarrow> ee_sim ee_state" where
  "ee_on m = \<lparr>Cache = \<lparr>startaddr = 0xFFFFFFFF, ccount = 0, dirty = False, cdata = replicate 128 0\<rparr>, LastCntlByte = 0xA0,
     i2c = \<lparr>q_bus = Free, q_mem = m, q_nacks = 2, q_left = 0, q_flags = 0x20, q_cr2 = 0\<rparr>\<rparr>"

lemma ee_on_inv: "ee_inv q_bus q_mem (ee_on m)" "view q_mem (ee_on m) = m" "clear_of a (Cache (ee_on m))"
  by (simp_all add: ee_on_def ee_inv_def cache_wf_def view_def clear_of_def)







text \<open>
  A write over waiting bytes is lost. If the first address still waits in the cache,
  \<^verbatim>\<open>EEPROM_Write\<close> reports success, keeps the old values of all waiting bytes, and puts the
  start of the buffer, instead of its remainder, behind them.
\<close>

lemma EEPROM_Write_over_waiting_lost:
  assumes "ee_chip I bus emem nacks left" and "ee_inv bus emem s" and "\<not> clear_of addr (Cache s)" and "0 < unat len"
    and "unat addr + unat len \<le> 0x80000"
  shows "EEPROM_Write I addr (Some bs) len s
    = (if unat len \<le> unat (window_end (Cache s) - addr) then Inr (EEPROM_ERR_OK, s)
       else ee_write_loop I (unat len - unat (window_end (Cache s) - addr)) (window_end (Cache s)) bs s)"
  using ee_chip.write_overlap [OF assms(1-3)] ee_chip.range_ok(1) [OF assms(1,4,5)] by (simp add: EEPROM_Write_def)

definition ee_waiting :: "ee_sim ee_state" where
  "ee_waiting = (ee_on (\<lambda>a. 0))\<lparr>Cache := \<lparr>startaddr = 16, ccount = 2, dirty = True, cdata = 5 # 6 # replicate 126 0\<rparr>\<rparr>"

text \<open>
  Property C38: the invariant of the driver. \<^verbatim>\<open>EEPROM_Init\<close> establishes it, whatever the
  cache held before, and with it every operation returns: no call hangs and no access leaves the
  cache, whether or not a write hits waiting bytes.
\<close>

theorem EEPROM_invariant:
  assumes "ee_chip I bus emem nacks left"
  shows "(bus (i2c s) = Free \<longrightarrow> length (cdata (Cache s)) = 128 \<longrightarrow> (\<exists>s'. EEPROM_Init I s = Inr s' \<and> ee_inv bus emem s'))
    \<and> (ee_inv bus emem s \<longrightarrow>
        (\<exists>r s'. EEPROM_FlushCache I s = Inr (r, s') \<and> ee_inv bus emem s')
      \<and> (unat addr + unat len \<le> 0x80000 \<longrightarrow> unat len \<le> length bs \<longrightarrow>
           (\<exists>r s'. EEPROM_Write I addr (Some bs) len s = Inr (r, s') \<and> ee_inv bus emem s')
         \<and> (\<exists>r out s'. EEPROM_Read I addr (Some (length bs)) len s = Inr (r, out, s') \<and> ee_inv bus emem s')))"
proof (intro conjI impI)
  assume "bus (i2c s) = Free" "length (cdata (Cache s)) = 128"
  then show "\<exists>s'. EEPROM_Init I s = Inr s' \<and> ee_inv bus emem s'" using ee_chip.init_inv [OF assms] by blast
next
  assume i: "ee_inv bus emem s"
  then show "\<exists>r s'. EEPROM_FlushCache I s = Inr (r, s') \<and> ee_inv bus emem s'"
    using ee_chip.flush_view [OF assms] by blast
  assume r: "unat addr + unat len \<le> 0x80000" "unat len \<le> length bs"
  show "\<exists>r s'. EEPROM_Write I addr (Some bs) len s = Inr (r, s') \<and> ee_inv bus emem s'"
    by (rule ee_chip.write_inv [OF assms i r])
  show "\<exists>r out s'. EEPROM_Read I addr (Some (length bs)) len s = Inr (r, out, s') \<and> ee_inv bus emem s'"
  proof (cases "len = 0")
    case True
    then show ?thesis using i by (simp add: EEPROM_Read_def bad_range_def)
  next
    case False
    with ee_chip.read_view [OF assms i _ r] show ?thesis by (auto simp: unat_gt_0)
  qed
qed

theorem EEPROM_invariant_witness:
  "ee_inv q_bus q_mem ee_waiting
   \<and> (\<exists>r s'. EEPROM_Write i2c_sim 17 (Some [7, 8, 9]) 3 ee_waiting = Inr (r, s') \<and> ee_inv q_bus q_mem s')"
proof -
  have "ee_inv q_bus q_mem ee_waiting"
    by (simp add: ee_waiting_def ee_inv_def cache_wf_def ee_on_def reg_consts)
  with EEPROM_invariant [OF eesim.ee_chip_axioms, of ee_waiting 17 3 "[7, 8, 9]"] show ?thesis by simp
qed

end
