(* ===== verification/Sys_Arch.thy ===== *)
theory Sys_Arch
  imports Prelude
begin

text \<open>
  Model of \<^verbatim>\<open>src/src/sys_arch.c\<close>: the port layer of the network stack, which maps its
  clock, threads, mutexes, mailboxes and semaphores to the kernel. The kernel is a parameter, a
  record of its CMSIS-RTOS2 calls; \<open>None\<close> as result of a call means that it never returns. The
  locale \<open>rtos_kernel\<close> states what the CMSIS-RTOS2 interface documents for queues and semaphores;
  it says nothing of calls that have to wait, since other threads run meanwhile, except which
  status they can end with.
\<close>

section \<open>The kernel\<close>

datatype osStatus = osOK | osError | osErrorTimeout | osErrorResource | osErrorParameter | osErrorNoMemory | osErrorISR

definition osWaitForever :: u32 where [reg_consts]: "osWaitForever = 0xFFFFFFFF"
definition osMutexRecursive :: u32 where [reg_consts]: "osMutexRecursive = 1"
definition osMutexPrioInherit :: u32 where [reg_consts]: "osMutexPrioInherit = 2"

record osThreadAttr =
  attr_name :: string
  stack_size :: u32
  priority :: int

text \<open>\<open>osMessageQueueGet\<close> takes the variable it writes to and returns its value afterwards.\<close>

record 'k rtos =
  osKernelGetTickCount :: "'k \<Rightarrow> u32"
  osDelay :: "u32 \<Rightarrow> 'k \<Rightarrow> 'k"
  osThreadNew :: "u32 \<Rightarrow> u32 \<Rightarrow> osThreadAttr \<Rightarrow> 'k \<Rightarrow> u32 \<times> 'k"
  osMutexNew :: "u32 \<Rightarrow> 'k \<Rightarrow> u32 \<times> 'k"
  osMutexAcquire :: "u32 \<Rightarrow> u32 \<Rightarrow> 'k \<Rightarrow> (osStatus \<times> 'k) option"
  osMutexRelease :: "u32 \<Rightarrow> 'k \<Rightarrow> osStatus \<times> 'k"
  osMutexDelete :: "u32 \<Rightarrow> 'k \<Rightarrow> osStatus \<times> 'k"
  osMessageQueueNew :: "u32 \<Rightarrow> u32 \<Rightarrow> 'k \<Rightarrow> u32 \<times> 'k"
  osMessageQueuePut :: "u32 \<Rightarrow> u32 \<Rightarrow> u8 \<Rightarrow> u32 \<Rightarrow> 'k \<Rightarrow> (osStatus \<times> 'k) option"
  osMessageQueueGet :: "u32 \<Rightarrow> u32 \<Rightarrow> u32 \<Rightarrow> 'k \<Rightarrow> (osStatus \<times> u32 \<times> 'k) option"
  osMessageQueueDelete :: "u32 \<Rightarrow> 'k \<Rightarrow> osStatus \<times> 'k"
  osSemaphoreNew :: "u32 \<Rightarrow> u32 \<Rightarrow> 'k \<Rightarrow> u32 \<times> 'k"
  osSemaphoreAcquire :: "u32 \<Rightarrow> u32 \<Rightarrow> 'k \<Rightarrow> (osStatus \<times> 'k) option"
  osSemaphoreRelease :: "u32 \<Rightarrow> 'k \<Rightarrow> osStatus \<times> 'k"
  osSemaphoreDelete :: "u32 \<Rightarrow> 'k \<Rightarrow> osStatus \<times> 'k"

definition returns :: "'a option \<Rightarrow> 'a res" where
  "returns r = (case r of None \<Rightarrow> Inl Hang | Some x \<Rightarrow> Inr x)"

section \<open>Clock and threads\<close>

definition OS_TICKS_PER_MILLI :: u32 where [reg_consts]: "OS_TICKS_PER_MILLI = 5"

definition DLY_MS :: "u32 \<Rightarrow> u32" where [reg_consts]: "DLY_MS n = n * OS_TICKS_PER_MILLI"

definition HAL_Delay :: "'k rtos \<Rightarrow> u32 \<Rightarrow> 'k \<Rightarrow> 'k" where
  "HAL_Delay K n k = osDelay K (DLY_MS n) k"

definition sys_now :: "'k rtos \<Rightarrow> 'k \<Rightarrow> u32" where
  "sys_now K k = osKernelGetTickCount K k div OS_TICKS_PER_MILLI"

definition HAL_GetTick :: "'k rtos \<Rightarrow> 'k \<Rightarrow> u32" where
  "HAL_GetTick K k = sys_now K k"

definition sys_thread_new :: "'k rtos \<Rightarrow> string \<Rightarrow> u32 \<Rightarrow> u32 \<Rightarrow> int \<Rightarrow> int \<Rightarrow> 'k \<Rightarrow> u32 \<times> 'k" where
  "sys_thread_new K nm fn arg stacksize prio k =
     osThreadNew K fn arg \<lparr>attr_name = nm, stack_size = of_int stacksize, priority = prio\<rparr> k"

section \<open>Mutexes\<close>

datatype err_t = ERR_OK | ERR_MEM

text \<open>The variable the caller points to gets the new identifier also when it is null.\<close>

definition sys_mutex_new :: "'k rtos \<Rightarrow> 'k \<Rightarrow> err_t \<times> u32 \<times> 'k" where
  "sys_mutex_new K k = (case osMutexNew K (osMutexPrioInherit OR osMutexRecursive) k of (mutex, k1) \<Rightarrow>
     (if mutex \<noteq> 0 then ERR_OK else ERR_MEM, mutex, k1))"

definition sys_mutex_lock :: "'k rtos \<Rightarrow> u32 \<Rightarrow> 'k \<Rightarrow> 'k res" where
  "sys_mutex_lock K mutex k = res_bind (returns (osMutexAcquire K mutex osWaitForever k)) (\<lambda>(_, k1). Inr k1)"

definition sys_mutex_unlock :: "'k rtos \<Rightarrow> u32 \<Rightarrow> 'k \<Rightarrow> 'k" where
  "sys_mutex_unlock K mutex k = snd (osMutexRelease K mutex k)"

definition sys_mutex_free :: "'k rtos \<Rightarrow> u32 \<Rightarrow> 'k \<Rightarrow> 'k" where
  "sys_mutex_free K mutex k = snd (osMutexDelete K mutex k)"

section \<open>Mailboxes\<close>

definition SYS_ARCH_TIMEOUT :: u32 where [reg_consts]: "SYS_ARCH_TIMEOUT = 0xFFFFFFFF"
definition SYS_MBOX_EMPTY :: u32 where [reg_consts]: "SYS_MBOX_EMPTY = SYS_ARCH_TIMEOUT"

definition sys_mbox_new :: "'k rtos \<Rightarrow> int \<Rightarrow> 'k \<Rightarrow> err_t \<times> u32 \<times> 'k" where
  "sys_mbox_new K n k = (case osMessageQueueNew K (of_int n) 4 k of (mbox, k1) \<Rightarrow>
     (if mbox \<noteq> 0 then ERR_OK else ERR_MEM, mbox, k1))"

definition sys_mbox_post :: "'k rtos \<Rightarrow> u32 \<Rightarrow> u32 \<Rightarrow> 'k \<Rightarrow> 'k res" where
  "sys_mbox_post K q msg k = res_bind (returns (osMessageQueuePut K q msg 0 osWaitForever k)) (\<lambda>(_, k1). Inr k1)"

definition sys_mbox_trypost :: "'k rtos \<Rightarrow> u32 \<Rightarrow> u32 \<Rightarrow> 'k \<Rightarrow> (err_t \<times> 'k) res" where
  "sys_mbox_trypost K q msg k = res_bind (returns (osMessageQueuePut K q msg 0 0 k)) (\<lambda>(stat, k1).
     Inr (if stat = osOK then ERR_OK else ERR_MEM, k1))"

definition sys_mbox_trypost_fromisr :: "'k rtos \<Rightarrow> u32 \<Rightarrow> u32 \<Rightarrow> 'k \<Rightarrow> (err_t \<times> 'k) res" where
  "sys_mbox_trypost_fromisr K q msg k = sys_mbox_trypost K q msg k"

text \<open>
  \<open>msg\<close> is the pointer for the message, \<open>None\<close> the null pointer, and \<open>Some v\<close> one to a variable
  with value \<open>v\<close>; \<open>tmp\<close> is what the uninitialised local variable holds. The result is the return
  value and the variable afterwards.
\<close>

definition sys_arch_mbox_fetch :: "'k rtos \<Rightarrow> u32 \<Rightarrow> u32 option \<Rightarrow> u32 \<Rightarrow> u32 \<Rightarrow> 'k \<Rightarrow> (u32 \<times> u32 option \<times> 'k) res" where
  "sys_arch_mbox_fetch K q msg timeout tmp k =
     res_bind (returns (if timeout \<noteq> 0 then osMessageQueueGet K q tmp (DLY_MS timeout) k
                        else osMessageQueueGet K q tmp osWaitForever k)) (\<lambda>(stat, tmp1, k1).
     if stat = osErrorTimeout then Inr (SYS_ARCH_TIMEOUT, msg, k1)
     else case msg of None \<Rightarrow> Inl Oob | Some _ \<Rightarrow> Inr (0, Some tmp1, k1))"

definition sys_arch_mbox_tryfetch :: "'k rtos \<Rightarrow> u32 \<Rightarrow> u32 option \<Rightarrow> u32 \<Rightarrow> 'k \<Rightarrow> (u32 \<times> u32 option \<times> 'k) res" where
  "sys_arch_mbox_tryfetch K q msg tmp k =
     res_bind (returns (osMessageQueueGet K q tmp 0 k)) (\<lambda>(status, tmp1, k1).
     if status \<noteq> osOK then Inr (SYS_MBOX_EMPTY, msg, k1)
     else case msg of None \<Rightarrow> Inl Oob | Some _ \<Rightarrow> Inr (0, Some tmp1, k1))"

definition sys_mbox_free :: "'k rtos \<Rightarrow> u32 \<Rightarrow> 'k \<Rightarrow> 'k" where
  "sys_mbox_free K mbox k = snd (osMessageQueueDelete K mbox k)"

section \<open>Semaphores\<close>

text \<open>The caller's variable is set only on success.\<close>

definition sys_sem_new :: "'k rtos \<Rightarrow> u8 \<Rightarrow> u32 \<Rightarrow> 'k \<Rightarrow> err_t \<times> u32 \<times> 'k" where
  "sys_sem_new K count sem k = (case osSemaphoreNew K 1 (ucast count) k of (new_id, k1) \<Rightarrow>
     if new_id = 0 then (ERR_MEM, sem, k1) else (ERR_OK, new_id, k1))"

definition sys_sem_signal :: "'k rtos \<Rightarrow> u32 \<Rightarrow> 'k \<Rightarrow> 'k" where
  "sys_sem_signal K sem k = snd (osSemaphoreRelease K sem k)"

definition sys_sem_free :: "'k rtos \<Rightarrow> u32 \<Rightarrow> 'k \<Rightarrow> 'k" where
  "sys_sem_free K sem k = snd (osSemaphoreDelete K sem k)"

definition sys_arch_sem_wait :: "'k rtos \<Rightarrow> u32 \<Rightarrow> u32 \<Rightarrow> 'k \<Rightarrow> (u32 \<times> 'k) res" where
  "sys_arch_sem_wait K sem timeout k =
     res_bind (returns (if timeout \<noteq> 0 then osSemaphoreAcquire K sem (DLY_MS timeout) k
                        else osSemaphoreAcquire K sem osWaitForever k)) (\<lambda>(status, k1).
     Inr (if status \<noteq> osOK then SYS_ARCH_TIMEOUT else 0, k1))"

section \<open>The kernel's contract\<close>

text \<open>
  \<open>queues k q\<close> is the capacity of a queue and the messages in it, \<open>sems k i\<close> the maximal and the
  actual number of tokens of a semaphore.
\<close>

locale rtos_kernel =
  fixes K :: "'k rtos"
    and queues :: "'k \<Rightarrow> u32 \<Rightarrow> (nat \<times> u32 list) option"
    and sems :: "'k \<Rightarrow> u32 \<Rightarrow> (nat \<times> nat) option"
  assumes queue_new: "osMessageQueueNew K wn 4 k = (q, k') \<Longrightarrow> q \<noteq> 0 \<Longrightarrow>
        0 < wn \<and> queues k q = None \<and> queues k' = (queues k)(q \<mapsto> (unat wn, [])) \<and> sems k' = sems k"
    and put_ok: "queues k q = Some (c, xs) \<Longrightarrow> length xs < c \<Longrightarrow>
        \<exists>k'. osMessageQueuePut K q m 0 t k = Some (osOK, k') \<and> queues k' = (queues k)(q \<mapsto> (c, xs @ [m])) \<and> sems k' = sems k"
    and put_full: "queues k q = Some (c, xs) \<Longrightarrow> c \<le> length xs \<Longrightarrow>
        \<exists>k'. osMessageQueuePut K q m 0 0 k = Some (osErrorResource, k') \<and> queues k' = queues k \<and> sems k' = sems k"
    and get_ok: "queues k q = Some (c, x # xs) \<Longrightarrow>
        \<exists>k'. osMessageQueueGet K q tmp t k = Some (osOK, x, k') \<and> queues k' = (queues k)(q \<mapsto> (c, xs)) \<and> sems k' = sems k"
    and get_empty: "queues k q = Some (c, []) \<Longrightarrow>
        \<exists>k'. osMessageQueueGet K q tmp 0 k = Some (osErrorResource, tmp, k') \<and> queues k' = queues k \<and> sems k' = sems k"
    and get_timed: "queues k q = Some (c, []) \<Longrightarrow> t \<noteq> osWaitForever \<Longrightarrow>
        \<exists>stat x k'. osMessageQueueGet K q tmp t k = Some (stat, x, k')"
    and get_invalid: "queues k q = None \<Longrightarrow>
        \<exists>k'. osMessageQueueGet K q tmp t k = Some (osErrorParameter, tmp, k') \<and> queues k' = queues k \<and> sems k' = sems k"
    and sem_new: "osSemaphoreNew K wmx wn k = (i, k') \<Longrightarrow> i \<noteq> 0 \<Longrightarrow>
        wn \<le> wmx \<and> sems k i = None \<and> sems k' = (sems k)(i \<mapsto> (unat wmx, unat wn)) \<and> queues k' = queues k"
    and release: "sems k i = Some (mx, n) \<Longrightarrow> n \<le> mx \<Longrightarrow>
        \<exists>st k'. osSemaphoreRelease K i k = (st, k') \<and> sems k' = (sems k)(i \<mapsto> (mx, min mx (n + 1))) \<and> queues k' = queues k"
    and acquire: "sems k i = Some (mx, Suc n) \<Longrightarrow>
        \<exists>k'. osSemaphoreAcquire K i t k = Some (osOK, k') \<and> sems k' = (sems k)(i \<mapsto> (mx, n)) \<and> queues k' = queues k"

text \<open>The mailbox the network stack expects: a bounded first-in first-out queue. \<open>None\<close> blocks.\<close>

datatype mbox_op = Post u32 | Try_Post u32 | Fetch u32 | Try_Fetch

datatype mbox_result = Posted | Refused | Message u32 | Nothing

fun mbox_spec :: "nat \<Rightarrow> mbox_op \<Rightarrow> u32 list \<Rightarrow> (mbox_result \<times> u32 list) option" where
  "mbox_spec c (Post m) xs = (if length xs < c then Some (Posted, xs @ [m]) else None)"
| "mbox_spec c (Try_Post m) xs = Some (if length xs < c then (Posted, xs @ [m]) else (Refused, xs))"
| "mbox_spec c (Fetch t) xs = (case xs of [] \<Rightarrow> None | x # ys \<Rightarrow> Some (Message x, ys))"
| "mbox_spec c Try_Fetch xs = Some (case xs of [] \<Rightarrow> (Nothing, []) | x # ys \<Rightarrow> (Message x, ys))"

text \<open>The same on the code. \<open>old\<close> is what the two variables of the caller and of the callee hold.\<close>

fun mbox_do :: "'k rtos \<Rightarrow> u32 \<Rightarrow> u32 \<Rightarrow> mbox_op \<Rightarrow> 'k \<Rightarrow> (mbox_result \<times> 'k) res" where
  "mbox_do K q old (Post m) k = res_bind (sys_mbox_post K q m k) (\<lambda>k1. Inr (Posted, k1))"
| "mbox_do K q old (Try_Post m) k = res_bind (sys_mbox_trypost K q m k) (\<lambda>(e, k1).
     Inr (if e = ERR_OK then Posted else Refused, k1))"
| "mbox_do K q old (Fetch t) k = res_bind (sys_arch_mbox_fetch K q (Some old) t old k) (\<lambda>(r, m, k1).
     Inr (case m of Some x \<Rightarrow> if r = SYS_ARCH_TIMEOUT then Nothing else Message x | None \<Rightarrow> Nothing, k1))"
| "mbox_do K q old Try_Fetch k = res_bind (sys_arch_mbox_tryfetch K q (Some old) old k) (\<lambda>(r, m, k1).
     Inr (case m of Some x \<Rightarrow> if r = SYS_MBOX_EMPTY then Nothing else Message x | None \<Rightarrow> Nothing, k1))"

fun mbox_spec_run :: "nat \<Rightarrow> mbox_op list \<Rightarrow> u32 list \<Rightarrow> (mbox_result list \<times> u32 list) option" where
  "mbox_spec_run c [] xs = Some ([], xs)"
| "mbox_spec_run c (p # ps) xs = (case mbox_spec c p xs of None \<Rightarrow> None
     | Some (r, ys) \<Rightarrow> (case mbox_spec_run c ps ys of None \<Rightarrow> None | Some (rs, zs) \<Rightarrow> Some (r # rs, zs)))"

fun mbox_run :: "'k rtos \<Rightarrow> u32 \<Rightarrow> (nat \<Rightarrow> u32) \<Rightarrow> mbox_op list \<Rightarrow> 'k \<Rightarrow> (mbox_result list \<times> 'k) res" where
  "mbox_run K q old [] k = Inr ([], k)"
| "mbox_run K q old (p # ps) k = res_bind (mbox_do K q (old 0) p k) (\<lambda>(r, k1).
     res_bind (mbox_run K q (\<lambda>i. old (Suc i)) ps k1) (\<lambda>(rs, k2). Inr (r # rs, k2)))"

context rtos_kernel
begin

lemma mbox_step:
  assumes "queues k q = Some (c, xs)" "mbox_spec c p xs = Some (r, ys)"
  shows "\<exists>k'. mbox_do K q old p k = Inr (r, k') \<and> queues k' = (queues k)(q \<mapsto> (c, ys)) \<and> sems k' = sems k"
proof (cases p)
  case (Post m)
  then have xs: "length xs < c" "r = Posted" "ys = xs @ [m]" using assms(2) by (auto split: if_splits)
  with put_ok [OF assms(1), of m osWaitForever] Post show ?thesis
    by (auto simp: sys_mbox_post_def returns_def)
next
  case (Try_Post m)
  then show ?thesis
    using put_ok [OF assms(1), of m 0] put_full [OF assms(1), of m] assms
    by (cases "length xs < c") (auto simp: sys_mbox_trypost_def returns_def fun_upd_idem)
next
  case (Fetch t)
  with assms obtain x where x: "queues k q = Some (c, x # ys)" "r = Message x" by (auto split: list.splits)
  from get_ok [OF x(1), of old "if t = 0 then osWaitForever else DLY_MS t"] x(2) Fetch show ?thesis
    by (cases "t = 0") (auto simp: sys_arch_mbox_fetch_def returns_def SYS_ARCH_TIMEOUT_def)
next
  case Try_Fetch
  show ?thesis
  proof (cases xs)
    case Nil
    with assms get_empty [of k q c old] Try_Fetch show ?thesis
      by (auto simp: sys_arch_mbox_tryfetch_def returns_def fun_upd_idem)
  next
    case (Cons x zs)
    with assms get_ok [of k q c x zs old 0] Try_Fetch show ?thesis
      by (auto simp: sys_arch_mbox_tryfetch_def returns_def reg_consts)
  qed
qed

lemma mbox_sequence:
  assumes "queues k q = Some (c, xs)" "mbox_spec_run c ps xs = Some (rs, ys)"
  shows "\<exists>k'. mbox_run K q old ps k = Inr (rs, k') \<and> queues k' = (queues k)(q \<mapsto> (c, ys)) \<and> sems k' = sems k"
  using assms
proof (induction ps arbitrary: k xs rs old)
  case Nil
  then show ?case by (auto simp: fun_upd_idem)
next
  case (Cons p ps)
  obtain r zs where p: "mbox_spec c p xs = Some (r, zs)" using Cons.prems(2) by (auto split: option.splits)
  obtain rs' where ps: "mbox_spec_run c ps zs = Some (rs', ys)" "rs = r # rs'"
    using Cons.prems(2) p by (auto split: option.splits)
  obtain k1 where k1: "mbox_do K q (old 0) p k = Inr (r, k1)" "queues k1 = (queues k)(q \<mapsto> (c, zs))" "sems k1 = sems k"
    using mbox_step [OF Cons.prems(1) p] by blast
  from Cons.IH [of k1 zs rs' "\<lambda>i. old (Suc i)"] k1 ps show ?case by fastforce
qed

lemma fetch_invalid:
  assumes "queues k q = None"
  shows "\<exists>k'. sys_arch_mbox_fetch K q (Some v) t tmp k = Inr (0, Some tmp, k')"
  using get_invalid [OF assms, of tmp "DLY_MS t"] get_invalid [OF assms, of tmp osWaitForever]
  by (cases "t = 0") (auto simp: sys_arch_mbox_fetch_def returns_def)

lemma sem_signalled:
  assumes "sems k i = Some (1, n)" "n \<le> 1"
  shows "sems (sys_sem_signal K i k) i = Some (1, 1)"
  using release [OF assms] by (auto simp: sys_sem_signal_def)

lemma sem_wait_signalled:
  assumes "sems k i = Some (1, 1)"
  shows "\<exists>k'. sys_arch_sem_wait K i t k = Inr (0, k') \<and> sems k' i = Some (1, 0)"
  using acquire [of k i 1 0 "if t = 0 then osWaitForever else DLY_MS t"] assms
  by (cases "t = 0") (auto simp: sys_arch_sem_wait_def returns_def)

end

section \<open>A kernel that meets the contract\<close>

text \<open>A kernel with a single thread: whoever has to wait waits in vain.\<close>

record ksim =
  k_tick :: u32
  k_next :: u32
  k_queues :: "u32 \<Rightarrow> (nat \<times> u32 list) option"
  k_sems :: "u32 \<Rightarrow> (nat \<times> nat) option"

definition sim_id :: "ksim \<Rightarrow> u32" where
  "sim_id k = (if k_queues k (k_next k) = None \<and> k_sems k (k_next k) = None then k_next k else 0)"

definition sim_queue_new :: "u32 \<Rightarrow> u32 \<Rightarrow> ksim \<Rightarrow> u32 \<times> ksim" where
  "sim_queue_new n w k = (if n = 0 \<or> sim_id k = 0 then (0, k)
     else (sim_id k, k\<lparr>k_queues := (k_queues k)(sim_id k \<mapsto> (unat n, [])), k_next := k_next k + 1\<rparr>))"

definition sim_wait :: "u32 \<Rightarrow> ksim \<Rightarrow> (osStatus \<times> ksim) option" where
  "sim_wait t k = (if t = 0 then Some (osErrorResource, k) else if t = osWaitForever then None
     else Some (osErrorTimeout, k\<lparr>k_tick := k_tick k + t\<rparr>))"

definition sim_put :: "u32 \<Rightarrow> u32 \<Rightarrow> u8 \<Rightarrow> u32 \<Rightarrow> ksim \<Rightarrow> (osStatus \<times> ksim) option" where
  "sim_put q m p t k = (case k_queues k q of None \<Rightarrow> Some (osErrorParameter, k)
     | Some (c, xs) \<Rightarrow> if length xs < c then Some (osOK, k\<lparr>k_queues := (k_queues k)(q \<mapsto> (c, xs @ [m]))\<rparr>) else sim_wait t k)"

definition sim_get :: "u32 \<Rightarrow> u32 \<Rightarrow> u32 \<Rightarrow> ksim \<Rightarrow> (osStatus \<times> u32 \<times> ksim) option" where
  "sim_get q tmp t k = (case k_queues k q of None \<Rightarrow> Some (osErrorParameter, tmp, k)
     | Some (c, []) \<Rightarrow> map_option (\<lambda>(st, k1). (st, tmp, k1)) (sim_wait t k)
     | Some (c, x # xs) \<Rightarrow> Some (osOK, x, k\<lparr>k_queues := (k_queues k)(q \<mapsto> (c, xs))\<rparr>))"

definition sim_sem_new :: "u32 \<Rightarrow> u32 \<Rightarrow> ksim \<Rightarrow> u32 \<times> ksim" where
  "sim_sem_new mx n k = (if mx < n \<or> sim_id k = 0 then (0, k)
     else (sim_id k, k\<lparr>k_sems := (k_sems k)(sim_id k \<mapsto> (unat mx, unat n)), k_next := k_next k + 1\<rparr>))"

definition sim_release :: "u32 \<Rightarrow> ksim \<Rightarrow> osStatus \<times> ksim" where
  "sim_release i k = (case k_sems k i of None \<Rightarrow> (osErrorParameter, k)
     | Some (mx, n) \<Rightarrow> if n < mx then (osOK, k\<lparr>k_sems := (k_sems k)(i \<mapsto> (mx, n + 1))\<rparr>) else (osErrorResource, k))"

definition sim_acquire :: "u32 \<Rightarrow> u32 \<Rightarrow> ksim \<Rightarrow> (osStatus \<times> ksim) option" where
  "sim_acquire i t k = (case k_sems k i of None \<Rightarrow> Some (osErrorParameter, k)
     | Some (mx, 0) \<Rightarrow> sim_wait t k
     | Some (mx, Suc n) \<Rightarrow> Some (osOK, k\<lparr>k_sems := (k_sems k)(i \<mapsto> (mx, n))\<rparr>))"

definition kernel_sim :: "ksim rtos" where
  "kernel_sim = \<lparr>osKernelGetTickCount = k_tick, osDelay = (\<lambda>t k. k\<lparr>k_tick := k_tick k + t\<rparr>),
     osThreadNew = (\<lambda>f a at k. (0, k)), osMutexNew = (\<lambda>a k. (0, k)), osMutexAcquire = (\<lambda>i t k. Some (osErrorParameter, k)),
     osMutexRelease = (\<lambda>i k. (osErrorParameter, k)), osMutexDelete = (\<lambda>i k. (osErrorParameter, k)),
     osMessageQueueNew = sim_queue_new, osMessageQueuePut = sim_put, osMessageQueueGet = sim_get,
     osMessageQueueDelete = (\<lambda>q k. (osOK, k\<lparr>k_queues := (k_queues k)(q := None)\<rparr>)), osSemaphoreNew = sim_sem_new,
     osSemaphoreAcquire = sim_acquire, osSemaphoreRelease = sim_release,
     osSemaphoreDelete = (\<lambda>i k. (osOK, k\<lparr>k_sems := (k_sems k)(i := None)\<rparr>))\<rparr>"

interpretation ksim: rtos_kernel kernel_sim k_queues k_sems
  by unfold_locales
    (auto simp: kernel_sim_def sim_queue_new_def sim_id_def sim_put_def sim_get_def sim_wait_def sim_sem_new_def
      sim_release_def sim_acquire_def word_gt_0 not_less min_def fun_upd_idem split: if_splits)

section \<open>Properties\<close>

definition kernel_on :: "(nat \<times> u32 list) \<Rightarrow> ksim" where
  "kernel_on q = \<lparr>k_tick = 0, k_next = 8, k_queues = (\<lambda>_. None)(7 \<mapsto> q), k_sems = (\<lambda>_. None)\<rparr>"

text \<open>
  Property C24: a mailbox is a bounded first-in first-out queue. Any sequence of operations on a
  mailbox that does not have to wait gives exactly the results such a queue gives: messages come
  out once, complete and in the order they went in, an attempt to post to a full mailbox is
  refused without loss, and one to fetch from an empty mailbox finds nothing.
\<close>

theorem sys_mbox_fifo:
  assumes "rtos_kernel K queues sems" and "queues k q = Some (c, xs)" and "mbox_spec_run c ops xs = Some (rs, ys)"
  shows "\<exists>k'. mbox_run K q old ops k = Inr (rs, k') \<and> queues k' = (queues k)(q \<mapsto> (c, ys)) \<and> sems k' = sems k"
  by (rule rtos_kernel.mbox_sequence [OF assms])

theorem sys_mbox_fifo_witness:
  "\<exists>k'. mbox_run kernel_sim 7 (\<lambda>_. 99) [Try_Post 3, Try_Post 4, Fetch 0, Try_Fetch, Try_Fetch] (kernel_on (2, [5]))
    = Inr ([Posted, Refused, Message 5, Message 3, Nothing], k')"
  using sys_mbox_fifo [OF ksim.rtos_kernel_axioms, of "kernel_on (2, [5])" 7 2 "[5]"
      "[Try_Post 3, Try_Post 4, Fetch 0, Try_Fetch, Try_Fetch]"]
  by (auto simp: kernel_on_def simp del: mbox_run.simps)

text \<open>
  The millisecond clock. Between two readings of \<^verbatim>\<open>sys_now\<close> the difference is
  the number of milliseconds that passed, up to less than one, as long as the tick counter of the
  kernel has not wrapped between them. If it has, the difference is at least \<open>0xCCCCCCCD\<close>, which
  every timeout of the HAL drivers takes for expired, unless almost a whole period of
  the counter lies between the readings. For the timers of the stack see \<open>Lwip_Timeouts\<close>.
\<close>

lemma sys_now_elapsed:
  "let t1 = osKernelGetTickCount K k1; t2 = osKernelGetTickCount K k2; e = unat (t2 - t1);
       d = unat (sys_now K k2 - sys_now K k1)
   in if t1 \<le> t2 then 5 * d < e + 5 \<and> e < 5 * d + 5 else 0xCCCCCCCD \<le> d \<or> (d = 0 \<and> 2 ^ 32 - 5 < e)"
proof -
  let ?t1 = "osKernelGetTickCount K k1" and ?t2 = "osKernelGetTickCount K k2"
  let ?a = "unat ?t1" and ?b = "unat ?t2"
  have n: "unat (sys_now K k1) = ?a div 5" "unat (sys_now K k2) = ?b div 5"
    by (simp_all add: sys_now_def reg_consts unat_div)
  have bound: "?a < 2 ^ 32" "?b < 2 ^ 32" using unsigned_less [of ?t1, where 'a = nat] unsigned_less [of ?t2, where 'a = nat] by simp_all
  have sub: "unat (y - x) = (if unat x \<le> unat y then unat y - unat x else 2 ^ 32 + unat y - unat x)" for x y :: u32
    by (auto simp: unat_sub_if')
  have "?a div 5 \<le> 858993459" using bound by simp
  moreover have "?t1 \<le> ?t2 \<longleftrightarrow> ?a \<le> ?b" by (rule word_le_nat_alt)
  ultimately show ?thesis
    unfolding Let_def sub n using bound by (auto simp: div_le_mono)
qed

text \<open>
  Semaphores are binary. One can be created with a count of at most one, which fits
  in the caller's variable; however often it is signalled, exactly one wait succeeds at once for
  it, whatever its timeout.
\<close>

lemma sys_sem_binary:
  assumes "rtos_kernel K queues sems"
  shows "(sys_sem_new K count v k = (ERR_OK, i, k') \<longrightarrow> unat count \<le> 1 \<and> sems k i = None \<and> sems k' i = Some (1, unat count))
    \<and> (sems k i = Some (1, n) \<and> n \<le> 1 \<longrightarrow>
        (\<exists>k2. sys_arch_sem_wait K i t (((sys_sem_signal K i) ^^ Suc j) k) = Inr (0, k2) \<and> sems k2 i = Some (1, 0)))"
proof (intro conjI impI)
  assume "sys_sem_new K count v k = (ERR_OK, i, k')"
  then have "osSemaphoreNew K 1 (ucast count) k = (i, k')" "i \<noteq> 0" by (auto simp: sys_sem_new_def split: prod.splits if_splits)
  from rtos_kernel.sem_new [OF assms this]
  show "unat count \<le> 1" "sems k i = None" "sems k' i = Some (1, unat count)" 
    by (simp_all add: word_le_nat_alt unsigned_ucast_eq take_bit_nat_eq_self unsigned_less [THEN less_le_trans])
next
  assume "sems k i = Some (1, n) \<and> n \<le> 1"
  then have "sems (((sys_sem_signal K i) ^^ Suc j) k) i = Some (1, 1)"
    using rtos_kernel.sem_signalled [OF assms, of k i n]
      rtos_kernel.sem_signalled [OF assms, of "((sys_sem_signal K i) ^^ Suc _) k" i 1]
    by (induction j) simp_all
  from rtos_kernel.sem_wait_signalled [OF assms this]
  show "\<exists>k2. sys_arch_sem_wait K i t (((sys_sem_signal K i) ^^ Suc j) k) = Inr (0, k2) \<and> sems k2 i = Some (1, 0)"
    by blast
qed

end
