(* ===== verification/Boot.thy ===== *)
theory Boot
  imports Tftp Can_User Eeprom Sys_Arch
begin

text \<open>
  Model of \<^verbatim>\<open>src/src/main.c\<close>, and of \<^verbatim>\<open>HW_Init\<close> in
  \<^verbatim>\<open>src/src/hardware.c\<close>: the decision at power-up between the firmware in the user area
  and the boot loader, the start of the boot loader's thread and its loop. The state joins those
  of all modules. Calls into kernel and network stack that set up threads, timers and interfaces
  are outputs of the model.
\<close>

unbundle bit_operations_syntax

section \<open>State\<close>

text \<open>\<open>srv\<close> is the state of the update server with the board and its outputs; \<open>IWDGRST\<close> is the flag
  in \<^verbatim>\<open>RCC->CSR\<close> as the last reset left it.\<close>

record ('d, 'c, 'i) sys =
  srv :: "('d, 'c) iap"
  can_st :: can_state
  hw_st :: hw_state
  ee_st :: "'i ee_state"
  IWDGRST :: bool
  check :: u8

text \<open>The flag reads as set until the program clears the reset flags.\<close>

definition watchdog_reset :: "('d, 'c, 'i) sys \<Rightarrow> bool" where
  "watchdog_reset s \<longleftrightarrow> IWDGRST s \<and> Clear_Reset_Flags \<notin> set (events (srv s))"

section \<open>Initialisation\<close>

definition HW_Init :: "'i i2c_dev \<Rightarrow> ('d, 'c, 'i) sys \<Rightarrow> (hw_result \<times> ('d, 'c, 'i) sys) res" where
  "HW_Init I s =
     res_bind (EEPROM_Init I (ee_st s)) (\<lambda>e.
     Inr (HW_ERR_OK, s\<lparr>can_st := CAN_Startup (can_st s), ee_st := e\<rparr>))"

text \<open>The configuration \<^verbatim>\<open>MX_CRC_Init\<close> fills in; the result is not looked at.\<close>

definition MX_CRC_Init :: "'c crc_dev \<Rightarrow> ('d, 'c) iap \<Rightarrow> ('d, 'c) iap" where
  "MX_CRC_Init C s =
     (let h = (hcrc s)\<lparr>DefaultPolynomialUse := 0, DefaultInitValueUse := 0, InputDataInversionMode := 0,
            OutputDataInversionMode := 0, InputDataFormat := CRC_INPUTDATA_FORMAT_BYTES\<rparr>
      in case HAL_CRC_Init C (Some h) (crcu s) of (_, h', c) \<Rightarrow>
        s\<lparr>hcrc := (case h' of Some x \<Rightarrow> x | None \<Rightarrow> h), crcu := c\<rparr>)"

definition hiwdg_boot :: iwdg_handle where
  "hiwdg_boot = \<lparr>Prescaler = 3, Reload = 4095, Window = 4095\<rparr>"

text \<open>What the watchdog's registers and the clock deliver while it starts.\<close>

record iwdg_input =
  iwdg_tick :: u32
  iwdg_polls :: "(u32 \<times> u32 \<times> u32) list"
  iwdg_WINR :: u32

definition MX_IWDG_Init :: "iwdg_input \<Rightarrow> ('d, 'c) iap \<Rightarrow> ('d, 'c) iap res" where
  "MX_IWDG_Init w s =
     res_bind (HAL_IWDG_Init (Some hiwdg_boot) (iwdg_tick w) (iwdg_polls w) (iwdg_WINR w) s) (\<lambda>(_, s1). Inr s1)"

section \<open>The decision at power-up\<close>

text \<open>How \<^verbatim>\<open>main\<close> ends: with the stack pointer, vector table and entry of the firmware, with
  a reset, or by starting the kernel.\<close>

datatype boot_exit = Jump_To_Application u32 u32 u32 | Board_Reset | Kernel_Start

definition isr_vector_addr :: u32 where
  [reg_consts]: "isr_vector_addr = USER_FLASH_FIRST_PAGE_ADDRESS + 0x400"

definition boot_decision :: "'d flash_dev \<Rightarrow> ('d, 'c, 'i) sys \<Rightarrow> boot_exit \<times> ('d, 'c, 'i) sys" where
  "boot_decision D s =
     (if is_soft_reset (srv s) = 0 \<and> \<not> watchdog_reset s then
        let m = fmem D (flash (srv s)); app_sp_value = read32 m isr_vector_addr in
        if app_sp_value \<ge> 0x20000000 \<and> app_sp_value \<le> 0x20080000 then
          (Jump_To_Application app_sp_value USER_FLASH_FIRST_PAGE_ADDRESS (read32 m (isr_vector_addr + 4)),
           s\<lparr>srv := snd (HAL_IWDG_Refresh (srv s))\<rparr>)
        else (Board_Reset, s\<lparr>srv := NVIC_SystemReset (write_boot_flag_soft_reset (srv s))\<rparr>)
      else (Kernel_Start, s))"

definition main_boot :: "'i i2c_dev \<Rightarrow> 'd flash_dev \<Rightarrow> iwdg_input \<Rightarrow> ('d, 'c, 'i) sys
    \<Rightarrow> (boot_exit \<times> ('d, 'c, 'i) sys) res" where
  "main_boot I D w s =
     res_bind (HW_Init I s) (\<lambda>(_, s1).
     res_bind (MX_IWDG_Init w (srv s1)) (\<lambda>b.
     Inr (boot_decision D (s1\<lparr>srv := b\<rparr>))))"

section \<open>The thread of the boot loader\<close>

definition IP_ADDRESS :: "u8 list" where "IP_ADDRESS = [192, 168, 20, 72]"
definition NETMASK_ADDRESS :: "u8 list" where "NETMASK_ADDRESS = [255, 255, 255, 0]"
definition GATEWAY_ADDRESS :: "u8 list" where "GATEWAY_ADDRESS = [192, 168, 20, 1]"

text \<open>
  What the thread does before its loop: \<open>stats\<close> are the values of the CAN status registers, \<open>link\<close>
  whether the network link is up.
\<close>

definition net_start :: "bool \<Rightarrow> ('d, 'c) iap \<Rightarrow> ('d, 'c) iap" where
  "net_start link s =
     (let s1 = emit (Netif_Up link) (emit (Netif_Add IP_ADDRESS NETMASK_ADDRESS GATEWAY_ADDRESS) s);
          s2 = IAP_tftpd_init (snd (udp_total_connect s1))
      in snd (HAL_IWDG_Refresh (emit (Delay_Ticks 1000) (snd (HAL_IWDG_Refresh s2)))))"

definition thread_main_start :: "'c crc_dev \<Rightarrow> u32 list \<Rightarrow> bool \<Rightarrow> ('d, 'c, 'i) sys \<Rightarrow> ('d, 'c, 'i) sys res" where
  "thread_main_start C stats link s =
     res_bind (CAN_UserInit stats (can_st s)) (\<lambda>(_, c).
     let b1 = MX_CRC_Init C (emit (Timer_Start (DLY_MS 1)) (srv s));
         b2 = snd (HAL_IWDG_Refresh (emit (Delay_Ticks (DLY_MS 75)) b1))
     in Inr (s\<lparr>can_st := c, hw_st := hw_put [BSRR GPIOB (push_bit 13 1 OR push_bit 12 1)] (hw_st s),
          srv := net_start link b2\<rparr>))"

text \<open>One turn of its loop.\<close>

definition thread_main_turn :: "'d flash_dev \<Rightarrow> ('d, 'c, 'i) sys \<Rightarrow> ('d, 'c, 'i) sys res" where
  "thread_main_turn D s =
     res_bind
       (if watchdog_reset s then
          WDGbackup D (emit (Delay_Ticks 500)
            (udp_client_send (''----CATCH WDG---- back to before FW'' @ newline) (snd (HAL_IWDG_Refresh (srv s)))))
        else Inr (srv s)) (\<lambda>b1.
     let start = is_soft_reset b1 \<noteq> 0 \<and> check s \<noteq> 0;
         b2 = (if start then udp_client_send (''[BOOT]  START BOOT...'' @ newline) b1 else b1)
     in Inr (s\<lparr>srv := emit (Delay_Ticks 1) (snd (HAL_IWDG_Refresh b2)), check := (if start then 0 else check s)\<rparr>))"

section \<open>Lemmas\<close>

text \<open>Frames of the calls on the way to the decision.\<close>

lemma IWDG_Init_frame:
  assumes "HAL_IWDG_Init h t polls r s = Inr (st, s')"
  shows "BKP1R s' = BKP1R s" "choices s' = choices s" "board.more s' = board.more s"
    "Clear_Reset_Flags \<in> set (events s') \<longleftrightarrow> Clear_Reset_Flags \<in> set (events s)"
  using assms by (auto simp: HAL_IWDG_Init_def Let_def res_bind_eq_Inr more_frames split: option.splits if_splits)

lemma iwdg_wait_returns: "(sr, now, sr2) \<in> set polls \<Longrightarrow> sr AND IWDG_KERNEL_UPDATE_FLAGS = 0 \<Longrightarrow>
  \<exists>st. iwdg_wait t polls = Inr st"
  by (induction polls) auto

lemma IWDG_Init_returns:
  assumes "(sr, now, sr2) \<in> set polls" "sr AND IWDG_KERNEL_UPDATE_FLAGS = 0"
  shows "\<exists>st s'. HAL_IWDG_Init h t polls r s = Inr (st, s')"
  using iwdg_wait_returns [OF assms, of t] by (auto simp: HAL_IWDG_Init_def Let_def split: option.split)

lemma MX_CRC_Init_fields:
  "crc_default (hcrc (MX_CRC_Init C s))" "flash (MX_CRC_Init C s) = flash s" "BKP1R (MX_CRC_Init C s) = BKP1R s"
  "choices (MX_CRC_Init C s) = choices s" "events (MX_CRC_Init C s) = events s" "listening (MX_CRC_Init C s) = listening s"
  by (simp_all add: MX_CRC_Init_def HAL_CRC_Init_def crc_default_def Let_def split: prod.split)

section \<open>What a boot depends on\<close>

text \<open>The state that outlives a reset, as \<^verbatim>\<open>main\<close> finds it.\<close>

record nonvolatile =
  nv_mem :: mem
  nv_flag :: u32
  nv_watchdog :: bool

definition nv_of :: "'d flash_dev \<Rightarrow> ('d, 'c, 'i) sys \<Rightarrow> nonvolatile" where
  "nv_of D s = \<lparr>nv_mem = fmem D (flash (srv s)), nv_flag = BKP1R (srv s), nv_watchdog = watchdog_reset s\<rparr>"

text \<open>Firmware that can be started: its initial stack pointer lies in RAM.\<close>

definition startable :: "mem \<Rightarrow> bool" where
  "startable m \<longleftrightarrow> read32 m 0x08040400 \<in> {0x20000000..0x20080000}"

definition boot_spec :: "nonvolatile \<Rightarrow> boot_exit" where
  "boot_spec nv =
     (if nv_flag nv = 0xA5A5 \<or> nv_watchdog nv then Kernel_Start
      else if startable (nv_mem nv)
      then Jump_To_Application (read32 (nv_mem nv) 0x08040400) 0x08040000 (read32 (nv_mem nv) 0x08040404)
      else Board_Reset)"

lemma boot_decision_spec:
  "fst (boot_decision D s) = boot_spec (nv_of D s)"
  "nv_mem (nv_of D (snd (boot_decision D s))) = nv_mem (nv_of D s)"
  "nv_flag (nv_of D (snd (boot_decision D s))) = (if boot_spec (nv_of D s) = Board_Reset then 0xA5A5 else nv_flag (nv_of D s))"
  "nv_watchdog (nv_of D (snd (boot_decision D s))) = nv_watchdog (nv_of D s)"
  by (auto simp: boot_decision_def boot_spec_def nv_of_def startable_def is_soft_reset_def Let_def reg_consts
      NVIC_SystemReset_def write_boot_flag_soft_reset_def HAL_IWDG_Refresh_def emit_def watchdog_reset_def)

lemma main_boot_nv:
  assumes "HW_Init I s = Inr (r, s1)" "MX_IWDG_Init w (srv s1) = Inr b"
  shows "nv_of D (s1\<lparr>srv := b\<rparr>) = nv_of D s"
proof -
  obtain st where i: "HAL_IWDG_Init (Some hiwdg_boot) (iwdg_tick w) (iwdg_polls w) (iwdg_WINR w) (srv s1) = Inr (st, b)"
    using assms(2) by (auto simp: MX_IWDG_Init_def res_bind_eq_Inr)
  have "srv s1 = srv s" "IWDGRST s1 = IWDGRST s" using assms(1) by (auto simp: HW_Init_def res_bind_eq_Inr)
  then show ?thesis
    using IWDG_Init_frame [OF i] more_fields [OF IWDG_Init_frame(3) [OF i]] by (simp add: nv_of_def watchdog_reset_def)
qed

lemma main_boot_run:
  assumes "main_boot I D w s = Inr (e, s')"
  shows "e = boot_spec (nv_of D s)" "nv_mem (nv_of D s') = nv_mem (nv_of D s)"
    "nv_flag (nv_of D s') = (if e = Board_Reset then 0xA5A5 else nv_flag (nv_of D s))"
    "nv_watchdog (nv_of D s') = nv_watchdog (nv_of D s)"
proof -
  obtain r s1 b where "HW_Init I s = Inr (r, s1)" "MX_IWDG_Init w (srv s1) = Inr b"
    and d: "boot_decision D (s1\<lparr>srv := b\<rparr>) = (e, s')"
    using assms by (auto simp: main_boot_def res_bind_eq_Inr)
  then have nv: "nv_of D (s1\<lparr>srv := b\<rparr>) = nv_of D s" by (intro main_boot_nv)
  note spec = boot_decision_spec [of D "s1\<lparr>srv := b\<rparr>", unfolded d nv fst_conv snd_conv]
  show "e = boot_spec (nv_of D s)" by (rule spec(1))
  with spec(2-4) show "nv_mem (nv_of D s') = nv_mem (nv_of D s)"
    "nv_flag (nv_of D s') = (if e = Board_Reset then 0xA5A5 else nv_flag (nv_of D s))"
    "nv_watchdog (nv_of D s') = nv_watchdog (nv_of D s)"
    by simp_all
qed

lemma main_boot_returns:
  assumes "ee_chip I bus emem nacks left" "bus (i2c (ee_st s)) = Free" "length (cdata (Cache (ee_st s))) = 128"
    and "(sr, now, sr2) \<in> set (iwdg_polls w)" "sr AND IWDG_KERNEL_UPDATE_FLAGS = 0"
  shows "\<exists>e s'. main_boot I D w s = Inr (e, s') \<and> ee_inv bus emem (ee_st s') \<and> view emem (ee_st s') = emem (i2c (ee_st s))
    \<and> dma_inv (can_st s')"
proof -
  obtain q where q: "EEPROM_Init I (ee_st s) = Inr q" "ee_inv bus emem q" "view emem q = emem (i2c (ee_st s))"
    using ee_chip.init_inv [OF assms(1-3)] by blast
  let ?s1 = "s\<lparr>can_st := CAN_Startup (can_st s), ee_st := q\<rparr>"
  obtain b where b: "MX_IWDG_Init w (srv s) = Inr b"
    using IWDG_Init_returns [OF assms(4,5), of "Some hiwdg_boot" "iwdg_tick w" "iwdg_WINR w" "srv s"]
    by (auto simp: MX_IWDG_Init_def)
  obtain e s' where d: "boot_decision D (?s1\<lparr>srv := b\<rparr>) = (e, s')" by fastforce
  have "ee_st s' = q" "can_st s' = CAN_Startup (can_st s)"
    using d by (auto simp: boot_decision_def Let_def split: if_splits)
  with q b d show ?thesis by (simp add: main_boot_def HW_Init_def dma_inv_Startup)
qed

text \<open>The frames of the thread.\<close>

lemma thread_turn_quiet:
  assumes "\<not> watchdog_reset s"
  shows "\<exists>s'. thread_main_turn D s = Inr s' \<and> flash (srv s') = flash (srv s) \<and> BKP1R (srv s') = BKP1R (srv s)
    \<and> \<not> watchdog_reset s'"
proof -
  have n: "Clear_Reset_Flags \<in> set (events t) \<Longrightarrow> Clear_Reset_Flags \<in> set (events (udp_client_send msg t))"
    for msg and t :: "('a, 'b) iap"
    using client_send_frame(2) [of msg t] by auto
  show ?thesis using assms
    by (auto simp: thread_main_turn_def Let_def watchdog_reset_def HAL_IWDG_Refresh_def client_send_frame(1) intro!: n)
qed

lemma net_start_ready:
  assumes "choices s = []"
  shows "listening (net_start link s)" "choices (net_start link s) = []" "BKP1R (net_start link s) = BKP1R s"
    "flash (net_start link s) = flash s" "hcrc (net_start link s) = hcrc s"
    "Clear_Reset_Flags \<in> set (events (net_start link s)) \<longleftrightarrow> Clear_Reset_Flags \<in> set (events s)"
  using assms
  by (simp_all add: net_start_def Let_def udp_total_connect_def IAP_tftpd_init_def udp_new_def HAL_IWDG_Refresh_def)

lemma thread_main_ready:
  assumes "filters_wf (can_st s)" "6 \<le> ready_polls stats" "choices (srv s) = []"
  shows "\<exists>s'. thread_main_start C stats link s = Inr s' \<and> (\<forall>b \<le> CAN_BUS_MAX. accepted (can_st s') b = {0..2047})
    \<and> crc_default (hcrc (srv s')) \<and> flash (srv s') = flash (srv s) \<and> BKP1R (srv s') = BKP1R (srv s)
    \<and> choices (srv s') = [] \<and> listening (srv s') \<and> watchdog_reset s' = watchdog_reset s"
proof -
  obtain st c where c: "CAN_UserInit stats (can_st s) = Inr (st, c)" "\<forall>b \<le> CAN_BUS_MAX. accepted c b = {0..2047}"
    using user_init_run [OF assms(1,2)] by blast
  let ?b = "snd (HAL_IWDG_Refresh (emit (Delay_Ticks (DLY_MS 75)) (MX_CRC_Init C (emit (Timer_Start (DLY_MS 1)) (srv s)))))"
  have "choices ?b = []" "BKP1R ?b = BKP1R (srv s)" "flash ?b = flash (srv s)" "crc_default (hcrc ?b)"
    "Clear_Reset_Flags \<in> set (events ?b) \<longleftrightarrow> Clear_Reset_Flags \<in> set (events (srv s))"
    using assms(3) MX_CRC_Init_fields(1) by (simp_all add: HAL_IWDG_Refresh_def MX_CRC_Init_fields)
  with c net_start_ready [of ?b link] show ?thesis
    by (simp add: thread_main_start_def Let_def watchdog_reset_def)
qed

section \<open>Recovery after a watchdog reset\<close>

context iap_hw
begin

lemma watchdog_restore:
  fixes s :: "('d, 'c) iap"
  defines "m \<equiv> fmem D (flash s)" and "U \<equiv> USER_FLASH_FIRST_PAGE_ADDRESS" and "B \<equiv> BACKUP_FLASH_FIRST_PAGE_ADDRESS"
  assumes "flash_quiet D (flash s)"
  shows "\<exists>s'. WDGbackup D s = Inr s' \<and> flash_idle D (flash s') \<and> BKP1R s' = 0 \<and> Clear_Reset_Flags \<in> set (events s')
    \<and> words_at (fmem D (flash s')) U (unat (copy_len m B)) = words_at m B (unat (copy_len m B))
    \<and> (\<forall>b. 0xC0000 \<le> unat (b - U) \<longrightarrow> fmem D (flash s') b = m b)"
proof -
  let ?s = "snd (HAL_IWDG_Refresh (unlock_flash D s))"
  have "flash_idle D (flash ?s)" "fmem D (flash ?s) = m"
    using unlock_idle [OF assms(4)] by (simp_all add: unlock_flash_def m_def)
  with restore [of ?s] show ?thesis
    by (auto simp: WDGbackup_def clear_boot_flag_def emit_def U_def B_def)
qed

lemma turn_recovers:
  fixes s :: "('d, 'c, 'i) sys"
  defines "m \<equiv> fmem D (flash (srv s))"
  assumes "flash_quiet D (flash (srv s))" "watchdog_reset s"
  shows "\<exists>s'. thread_main_turn D s = Inr s' \<and> flash_idle D (flash (srv s')) \<and> BKP1R (srv s') = 0 \<and> \<not> watchdog_reset s'
    \<and> words_at (fmem D (flash (srv s'))) USER_FLASH_FIRST_PAGE_ADDRESS (unat (copy_len m BACKUP_FLASH_FIRST_PAGE_ADDRESS))
      = words_at m BACKUP_FLASH_FIRST_PAGE_ADDRESS (unat (copy_len m BACKUP_FLASH_FIRST_PAGE_ADDRESS))
    \<and> (\<forall>b. 0xC0000 \<le> unat (b - USER_FLASH_FIRST_PAGE_ADDRESS) \<longrightarrow> fmem D (flash (srv s')) b = m b)"
proof -
  let ?b = "emit (Delay_Ticks 500)
    (udp_client_send (''----CATCH WDG---- back to before FW'' @ newline) (snd (HAL_IWDG_Refresh (srv s))))"
  have "flash_quiet D (flash ?b)" using assms(2) by simp
  then obtain b1 where b1: "WDGbackup D ?b = Inr b1" "flash_idle D (flash b1)" "BKP1R b1 = 0"
    "Clear_Reset_Flags \<in> set (events b1)"
    "words_at (fmem D (flash b1)) USER_FLASH_FIRST_PAGE_ADDRESS (unat (copy_len m BACKUP_FLASH_FIRST_PAGE_ADDRESS))
      = words_at m BACKUP_FLASH_FIRST_PAGE_ADDRESS (unat (copy_len m BACKUP_FLASH_FIRST_PAGE_ADDRESS))"
    "\<forall>b. 0xC0000 \<le> unat (b - USER_FLASH_FIRST_PAGE_ADDRESS) \<longrightarrow> fmem D (flash b1) b = m b"
    using watchdog_restore [of ?b] by (auto simp: m_def)
  then have "thread_main_turn D s = Inr (s\<lparr>srv := emit (Delay_Ticks 1) (snd (HAL_IWDG_Refresh b1)), check := check s\<rparr>)"
    using assms(3) by (simp add: thread_main_turn_def is_soft_reset_def reg_consts)
  with b1 show ?thesis by (simp add: watchdog_reset_def HAL_IWDG_Refresh_def)
qed

end

section \<open>Properties\<close>

text \<open>A board before \<^verbatim>\<open>main\<close> runs, with memory \<open>m\<close> and boot flag \<open>flag\<close>, for the witnesses.\<close>

definition sys_on :: "mem \<Rightarrow> u32 \<Rightarrow> bool \<Rightarrow> (fsim, crc_regs, ee_sim) sys" where
  "sys_on m flag wd = \<lparr>srv = iap_on\<lparr>flash := sim_with m, BKP1R := flag, listening := False\<rparr>, can_st = can_reset,
     hw_st = hw_reset, ee_st = ee_on (\<lambda>a. 0), IWDGRST = wd, check = 1\<rparr>"

definition iwdg_prompt :: iwdg_input where
  "iwdg_prompt = \<lparr>iwdg_tick = 0, iwdg_polls = [(7, 1, 7), (0, 2, 0)], iwdg_WINR = 4095\<rparr>"

lemma sys_on_ready:
  "bus_phase.Free = q_bus (i2c (ee_st (sys_on m f wd)))" "length (cdata (Cache (ee_st (sys_on m f wd)))) = 128"
  "(0, 2, 0) \<in> set (iwdg_polls iwdg_prompt)"
  by (simp_all add: sys_on_def ee_on_def iwdg_prompt_def)

lemma sys_on_nv: "nv_of flash_sim (sys_on m f wd) = \<lparr>nv_mem = m, nv_flag = f, nv_watchdog = wd\<rparr>"
  by (simp add: nv_of_def sys_on_def watchdog_reset_def iap_on_def sim_with_idle)

text \<open>An erased board resets.\<close>

lemma blank_boot:
  assumes "s = sys_on (\<lambda>a. 0xFF) 0 False \<or> s = (sys_on (\<lambda>a. 0xFF) 0 False)\<lparr>check := 0\<rparr>"
  shows "boot_spec (nv_of flash_sim s) = Board_Reset"
    and "\<exists>s1. main_boot i2c_sim flash_sim iwdg_prompt s = Inr (Board_Reset, s1)"
proof -
  have "nv_of flash_sim s = nv_of flash_sim (sys_on (\<lambda>a. 0xFF) 0 False)"
    using assms by (auto simp: nv_of_def watchdog_reset_def)
  then show b: "boot_spec (nv_of flash_sim s) = Board_Reset"
    by (simp add: sys_on_nv boot_spec_def startable_def read32_def word_of_bytes_def)
  have "q_bus (i2c (ee_st s)) = Free" "length (cdata (Cache (ee_st s))) = 128"
    using assms by (auto simp: sys_on_def ee_on_def)
  from main_boot_returns [OF eesim.ee_chip_axioms this sys_on_ready(3), of flash_sim] b
  show "\<exists>s1. main_boot i2c_sim flash_sim iwdg_prompt s = Inr (Board_Reset, s1)"
    using main_boot_run(1) by fastforce
qed

text \<open>
  Property C5: the decision at power-up. With an EEPROM that answers and a watchdog that gets
  ready, \<^verbatim>\<open>main\<close> always comes to its decision, and it is the one of the specification: the
  boot loader runs when it was asked for or the watchdog bit, else firmware with a plausible
  stack pointer is started at its entry, else the board resets with the boot flag set. The flash
  is untouched, and EEPROM and CAN driver are initialised.
\<close>

theorem main_boot_decides:
  assumes "ee_chip I bus emem nacks left" and "bus (i2c (ee_st s)) = Free" and "length (cdata (Cache (ee_st s))) = 128"
    and "(sr, now, sr2) \<in> set (iwdg_polls w)" and "sr AND IWDG_KERNEL_UPDATE_FLAGS = 0"
  shows "\<exists>s'. main_boot I D w s = Inr (boot_spec (nv_of D s), s')
    \<and> fmem D (flash (srv s')) = fmem D (flash (srv s))
    \<and> BKP1R (srv s') = (if boot_spec (nv_of D s) = Board_Reset then 0xA5A5 else BKP1R (srv s))
    \<and> ee_inv bus emem (ee_st s') \<and> view emem (ee_st s') = emem (i2c (ee_st s)) \<and> dma_inv (can_st s')"
proof -
  obtain e s' where r: "main_boot I D w s = Inr (e, s')" and i: "ee_inv bus emem (ee_st s')"
    "view emem (ee_st s') = emem (i2c (ee_st s))" "dma_inv (can_st s')"
    using main_boot_returns [OF assms] by blast
  note run = main_boot_run [OF r]
  from run(1) r i run(2,3) show ?thesis by (simp add: nv_of_def)
qed

theorem main_boot_decides_witness:
  "\<exists>s'. main_boot i2c_sim flash_sim iwdg_prompt (sys_on (\<lambda>a. 0xFF) 0 False) = Inr (Board_Reset, s')"
  using main_boot_decides [OF eesim.ee_chip_axioms sys_on_ready(1) [symmetric] sys_on_ready(2,3),
      of flash_sim "\<lambda>a. 0xFF" 0 False]
  by (auto simp: blank_boot(1))



text \<open>
  The boot flag decides it. If the write to the backup register has no effect, as
  the hardware documents for a board on which nobody has enabled write access to the backup
  domain (\<^verbatim>\<open>MX_RTC_Init\<close> would, but is called nowhere), the second run of \<^verbatim>\<open>main\<close>
  resets the board again, and so does every further one.
\<close>

lemma boot_flag_lost_resets_again:
  assumes "main_boot I D w s = Inr (Board_Reset, s1)" and "BKP1R (srv s2) = BKP1R (srv s)"
    and "fmem D (flash (srv s2)) = fmem D (flash (srv s1))" and "watchdog_reset s2 = watchdog_reset s"
    and "main_boot I D w2 s2 = Inr (e, s3)"
  shows "e = Board_Reset"
proof -
  have "nv_of D s2 = nv_of D s" using assms(2-4) main_boot_run(2) [OF assms(1)] by (simp add: nv_of_def)
  with main_boot_run(1) [OF assms(1)] main_boot_run(1) [OF assms(5)] show ?thesis by simp
qed



end
