(* ===== verification/Flash_Safety.thy ===== *)
theory Flash_Safety
  imports Flash_If
begin

text \<open>
  What the flash operations can never change, errors included. The locale \<open>flash_frame\<close> adds to the
  contract of the controller what it leaves alone when an operation is refused, fails or runs into
  its timeout; its lemmas show that every operation of the driver and of
  \<^verbatim>\<open>src/src/flash_if.c\<close> on the two firmware areas keeps the rest of the flash, whatever
  status it returns.
\<close>

unbundle bit_operations_syntax

section \<open>The firmware areas\<close>

text \<open>The bytes of user and backup area, sectors 5 to 10.\<close>

definition firmware_area :: "u32 \<Rightarrow> bool" where
  "firmware_area b \<longleftrightarrow> 0x08040000 \<le> b \<and> b < 0x081C0000"

lemma firmware_sector: "in_sector n b \<Longrightarrow> 5 \<le> n \<Longrightarrow> n < 11 \<Longrightarrow> firmware_area b"
proof -
  assume s: "in_sector n b" and n: "5 \<le> n" "n < 11"
  then have "n \<in> {5, 6, 7, 8, 9, 10}" by (simp; presburger)
  with s show "firmware_area b"
    by (auto simp: firmware_area_def in_sector_def sector_base_def word_le_nat_alt word_less_nat_alt)
qed

text \<open>A word written by the loop of \<^verbatim>\<open>FLASH_If_Write\<close> lies in the areas.\<close>

lemma firmware_word:
  assumes "USER_FLASH_FIRST_PAGE_ADDRESS \<le> a" "a \<le> USER_FLASH_END_ADDRESS - 4" "\<not> firmware_area b"
  shows "4 \<le> unat (b - a)"
proof (rule ccontr)
  assume "\<not> 4 \<le> unat (b - a)"
  then have "unat (a + (b - a)) = unat a + unat (b - a)"
    using assms(2) by (subst unat_word_ariths) (simp add: word_le_nat_alt reg_consts)
  with \<open>\<not> 4 \<le> unat (b - a)\<close> assms show False
    by (simp add: firmware_area_def word_le_nat_alt word_less_nat_alt reg_consts)
qed

text \<open>
  A control register that can only start operations on the firmware areas: no mass erase, and a
  sector erase only with one of their sectors selected.
\<close>

definition cr_safe :: "u32 \<Rightarrow> bool" where
  "cr_safe c \<longleftrightarrow> c AND FLASH_MER_BIT = 0 \<and>
     (c AND FLASH_CR_SER = 0 \<or> (\<exists>n. 5 \<le> n \<and> n < 11 \<and> c AND FLASH_CR_SNB = push_bit 3 (of_nat n)))"

text \<open>The bits \<open>cr_safe\<close> looks at.\<close>

definition CR_SAFE_BITS :: u32 where [reg_consts]: "CR_SAFE_BITS = 0x80FE"

lemma cr_safe_masked: "cr_safe c \<longleftrightarrow> cr_safe (c AND CR_SAFE_BITS)"
  by (simp add: cr_safe_def and.assoc reg_consts)

lemma cr_safe_cong: "c AND CR_SAFE_BITS = c' AND CR_SAFE_BITS \<Longrightarrow> cr_safe c = cr_safe c'"
  using cr_safe_masked [of c] cr_safe_masked [of c'] by simp

lemma cr_safe_keep: "k AND CR_SAFE_BITS = CR_SAFE_BITS \<Longrightarrow> cr_safe (c AND k) = cr_safe c"
  by (rule cr_safe_cong) (simp add: and.assoc)

lemma cr_safe_or: "k AND CR_SAFE_BITS = 0 \<Longrightarrow> cr_safe (c OR k) = cr_safe c"
  by (rule cr_safe_cong) (simp add: bit.conj_disj_distrib2)

lemma cr_safe_drop_ser: "cr_safe c \<Longrightarrow> k AND FLASH_CR_SER = 0 \<Longrightarrow> cr_safe (c AND k)"
  by (simp add: cr_safe_def and.assoc and.left_commute [of c])

lemma cr_safe_strt: "c AND NOT FLASH_CR_STRT = c' AND NOT FLASH_CR_STRT \<Longrightarrow> cr_safe c = cr_safe c'"
proof -
  assume "c AND NOT FLASH_CR_STRT = c' AND NOT FLASH_CR_STRT"
  then have "(c AND NOT FLASH_CR_STRT) AND CR_SAFE_BITS = (c' AND NOT FLASH_CR_STRT) AND CR_SAFE_BITS" by simp
  then show "cr_safe c = cr_safe c'" by (intro cr_safe_cong) (simp add: and.assoc reg_consts)
qed

lemma push3_unat: "i < 12 \<Longrightarrow> unat (push_bit 3 (of_nat i) :: u32) = 8 * i"
proof -
  assume "i < 12"
  then have "i \<in> {0,1,2,3,4,5,6,7,8,9,10,11}" by (simp; presburger)
  then show ?thesis by auto
qed

lemma push3_inj: "n < 12 \<Longrightarrow> k < 12 \<Longrightarrow> push_bit 3 (of_nat n :: u32) = push_bit 3 (of_nat k) \<Longrightarrow> n = k"
  using push3_unat [of n] push3_unat [of k] by (metis mult_cancel1 zero_neq_numeral)

section \<open>What the controller leaves alone\<close>

locale flash_frame = flash_ctrl +
  assumes cr_write_frame: "ld8 D (wr_CR D v d) b \<noteq> ld8 D d b \<Longrightarrow>
      v AND FLASH_CR_STRT \<noteq> 0 \<and> (v AND FLASH_MER_BIT \<noteq> 0 \<or> v AND FLASH_CR_SER \<noteq> 0
        \<and> (\<exists>n < 12. v AND FLASH_CR_SNB = push_bit 3 (of_nat n) \<and> in_sector n b))"
    and cr_write_bits: "rd_CR D (wr_CR D v d) AND NOT FLASH_CR_STRT = (v AND CR_BITS) AND NOT FLASH_CR_STRT
      \<or> rd_CR D (wr_CR D v d) AND NOT FLASH_CR_STRT = rd_CR D d AND NOT FLASH_CR_STRT"
    and cr_locked: "\<not> unlocked D d \<Longrightarrow> ld8 D (wr_CR D v d) = ld8 D d \<and> rd_CR D (wr_CR D v d) = rd_CR D d
      \<and> rd_SR D (wr_CR D v d) = rd_SR D d"
    and store_frame: "4 \<le> unat (b - a) \<Longrightarrow> ld8 D (st32 D a w d) b = ld8 D d b"
    and store_cr: "rd_CR D (st32 D a w d) AND NOT FLASH_CR_STRT = rd_CR D d AND NOT FLASH_CR_STRT"
begin

text \<open>\<open>keeps f f'\<close>: from a state with a safe control register, \<open>f'\<close> has one too and holds the same
  outside the firmware areas.\<close>

definition safe :: "'a flash_state \<Rightarrow> bool" where
  "safe f \<longleftrightarrow> cr_safe (rd_CR D (dev f))"

definition keeps :: "'a flash_state \<Rightarrow> 'a flash_state \<Rightarrow> bool" where
  "keeps f f' \<longleftrightarrow> (safe f \<longrightarrow> safe f' \<and> (\<forall>b. \<not> firmware_area b \<longrightarrow> fmem D f' b = fmem D f b))"

lemma keeps_refl [simp, intro]: "keeps f f"
  by (simp add: keeps_def)

lemma keeps_trans [trans]: "keeps f g \<Longrightarrow> keeps g h \<Longrightarrow> keeps f h"
  by (simp add: keeps_def)

lemma keeps_same: "dev f' = dev f \<Longrightarrow> keeps f f'"
  by (simp add: keeps_def safe_def fmem_def)

lemma keeps_lock [simp]: "keeps f (g\<lparr>Lock := l\<rparr>) = keeps f g" "keeps (f\<lparr>Lock := l\<rparr>) g = keeps f g"
  by (simp_all add: keeps_def safe_def fmem_def)

text \<open>Writing a safe value to the control register, whatever the state of the controller.\<close>

lemma cr_write_safe:
  assumes "cr_safe v"
  shows "keeps f (f\<lparr>dev := wr_CR D v (dev f)\<rparr>)"
proof -
  let ?c = "rd_CR D (wr_CR D v (dev f))"
  have v: "cr_safe (v AND CR_BITS)"
    using assms cr_safe_keep [of CR_BITS v] by (simp add: reg_consts)
  have "cr_safe ?c" if "safe f"
    using cr_write_bits [of v "dev f"]
  proof
    assume "?c AND NOT FLASH_CR_STRT = (v AND CR_BITS) AND NOT FLASH_CR_STRT"
    from cr_safe_strt [OF this] v show ?thesis by simp
  next
    assume "?c AND NOT FLASH_CR_STRT = rd_CR D (dev f) AND NOT FLASH_CR_STRT"
    from cr_safe_strt [OF this] that show ?thesis by (simp add: safe_def)
  qed
  moreover have "firmware_area b" if ch: "ld8 D (wr_CR D v (dev f)) b \<noteq> ld8 D (dev f) b" for b
  proof -
    obtain n where n: "v AND FLASH_CR_SER \<noteq> 0" "n < 12" "v AND FLASH_CR_SNB = push_bit 3 (of_nat n)" "in_sector n b"
      using cr_write_frame [OF ch] assms by (auto simp: cr_safe_def)
    then obtain k where "5 \<le> k" "k < 11" "push_bit 3 (of_nat n :: u32) = push_bit 3 (of_nat k)"
      using assms by (auto simp: cr_safe_def)
    with push3_inj [of n k] n show ?thesis by (auto intro: firmware_sector)
  qed
  ultimately show ?thesis by (auto simp: keeps_def safe_def fmem_def)
qed

lemma cr_and_keep: "k AND CR_SAFE_BITS = CR_SAFE_BITS \<or> k AND FLASH_CR_SER = 0 \<Longrightarrow> keeps f (cr_and D k f)"
  using cr_write_safe [of "rd_CR D (dev f) AND k" f] cr_safe_keep [of k] cr_safe_drop_ser [of _ k]
  by (auto simp: cr_and_def keeps_def safe_def)

lemma cr_or_keep: "k AND CR_SAFE_BITS = 0 \<Longrightarrow> keeps f (cr_or D k f)"
  using cr_write_safe [of "rd_CR D (dev f) OR k" f] cr_safe_or [of k]
  by (auto simp: cr_or_def keeps_def safe_def)

lemma psize_pg_keep: "psize AND CR_SAFE_BITS = 0 \<Longrightarrow> keeps f (set_psize_pg D psize f)"
  unfolding set_psize_pg_def
  by (rule keeps_trans [OF keeps_trans [OF cr_and_keep cr_or_keep] cr_or_keep]) (simp_all add: reg_consts)

text \<open>Waiting changes neither contents nor selected operation, however it ends.\<close>

lemma wait_bsy_passes:
  assumes "wait_bsy D T t0 d = Some (ok, d')"
  shows "ld8 D d' = ld8 D d \<and> rd_CR D d' AND NOT FLASH_CR_STRT = rd_CR D d AND NOT FLASH_CR_STRT
    \<and> (ok \<longrightarrow> busy d' = 0)"
  using assms
proof (induction "busy d" arbitrary: d)
  case 0
  then show ?case using busy_flag [of d] by (simp add: wait_bsy.simps [of D T t0 d])
next
  case (Suc n)
  have "n = busy (pass D d)" using Suc(2) pass_busy [of d] by simp
  from Suc.hyps(1) [OF this] Suc.prems Suc(2) show ?case
    using busy_flag [of d]
    by (auto simp: wait_bsy.simps [of D T t0 d] pass_mem pass_cr split: if_splits)
qed

lemma set_error_dev: "dev (FLASH_SetErrorCode D s) = wr_SR D FLASH_FLAG_ALL_ERRORS (dev s)"
  by (simp add: FLASH_SetErrorCode_def Let_def clear_flag_def or_error_def)

lemma wait_keeps:
  assumes "FLASH_WaitForLastOperation D T f = Inr (st, f')"
  shows "keeps f f'" "st = HAL_OK \<Longrightarrow> busy (dev f') = 0 \<and> no_error D (dev f')"
proof -
  obtain ok d where w: "wait_bsy D T (ms D (dev f)) (dev f) = Some (ok, d)"
    using assms by (auto simp: FLASH_WaitForLastOperation_def Let_def split: option.splits)
  note p = wait_bsy_passes [OF w]
  have "ld8 D (dev f') = ld8 D (dev f)
      \<and> rd_CR D (dev f') AND NOT FLASH_CR_STRT = rd_CR D (dev f) AND NOT FLASH_CR_STRT"
    using assms w p by (auto simp: FLASH_WaitForLastOperation_def Let_def sr_frame set_error_dev clear_flag_def
        split: bool.splits if_splits)
  then show "keeps f f'"
    using cr_safe_strt [of "rd_CR D (dev f')" "rd_CR D (dev f)"] by (simp add: keeps_def safe_def fmem_def)
  assume ok: "st = HAL_OK"
  then have d: "busy d = 0" "no_error D d" "dev f' = d \<or> dev f' = wr_SR D FLASH_FLAG_EOP d"
    using assms w p by (auto simp: FLASH_WaitForLastOperation_def Let_def clear_flag_def flag_set_def no_error_def
        split: bool.splits if_splits)
  moreover have "busy (wr_SR D FLASH_FLAG_EOP d) = 0 \<and> no_error D (wr_SR D FLASH_FLAG_EOP d)"
    using d(1,2) sr_clear [of FLASH_FLAG_EOP d] busy_flag [of d] busy_flag [of "wr_SR D FLASH_FLAG_EOP d"]
    by (simp add: no_error_def reg_consts and_zero_and)
  ultimately show "busy (dev f') = 0 \<and> no_error D (dev f')" by auto
qed

text \<open>
  Starting a sector erase. On a locked controller nothing happens; on an unlocked one that is not
  busy the register holds exactly the selected sector when the erase starts.
\<close>

lemma locked_cr:
  assumes "\<not> unlocked D (dev f)"
  shows "\<not> unlocked D (dev (cr_and D k f)) \<and> keeps f (cr_and D k f)"
    and "\<not> unlocked D (dev (cr_or D k f)) \<and> keeps f (cr_or D k f)"
  using assms cr_locked [of "dev f"] by (simp_all add: cr_and_def cr_or_def unlocked_def keeps_def safe_def fmem_def)

lemma erase_sector_keep:
  assumes "busy (dev f) = 0" "no_error D (dev f)" "5 \<le> n" "n < 11"
  shows "keeps f (FLASH_Erase_Sector D (of_nat n) vr f)"
proof (cases "unlocked D (dev f)")
  case False
  then show ?thesis
    unfolding FLASH_Erase_Sector_def Let_def by (meson locked_cr keeps_trans)
next
  case True
  let ?c = "rd_CR D (dev f)"
  let ?v = "((?c AND CR_PSIZE_MASK OR erase_psize vr) AND NOT FLASH_CR_SNB) OR (FLASH_CR_SER OR push_bit 3 (of_nat n))"
  have "at f ?c (fmem D f)" using assms True by (simp add: at_def unlocked_def fmem_def)
  moreover have "n < 12" using assms(4) by simp
  ultimately obtain g where g: "FLASH_Erase_Sector D (of_nat n) vr f = cr_or D FLASH_CR_STRT g" "at g ?v (fmem D f)"
    using erase_sector_setup [of f ?c "fmem D f" n vr] by blast
  have n: "n \<in> {5, 6, 7, 8, 9, 10}" using assms(3,4) by (simp; presburger)
  have ps: "erase_psize vr \<in> {0, 0x100, 0x200, 0x300}" by (simp add: erase_psize_def reg_consts)
  have "cr_safe (?v OR FLASH_CR_STRT)" if "safe f"
  proof -
    have "?c AND FLASH_MER_BIT = 0" using that by (simp add: safe_def cr_safe_def)
    then have "(?v OR FLASH_CR_STRT) AND FLASH_MER_BIT = 0"
      using n ps by (auto simp: bit.conj_disj_distrib2 and.assoc reg_consts)
    moreover have "(?v OR FLASH_CR_STRT) AND FLASH_CR_SNB = push_bit 3 (of_nat n)"
      using n ps by (auto simp: bit.conj_disj_distrib2 and.assoc reg_consts)
    ultimately show ?thesis using assms(3,4) unfolding cr_safe_def by blast
  qed
  moreover have "safe g \<longleftrightarrow> cr_safe (?v OR FLASH_CR_STRT)" "fmem D g = fmem D f"
    using g(2) cr_safe_or [of FLASH_CR_STRT ?v] by (simp_all add: safe_def at_def fmem_def reg_consts)
  ultimately show ?thesis
    using cr_or_keep [of FLASH_CR_STRT g] unfolding g(1) by (simp add: keeps_def reg_consts)
qed

lemma ready_cr_and:
  assumes "busy (dev f) = 0" "no_error D (dev f)"
  shows "busy (dev (cr_and D k f)) = 0 \<and> no_error D (dev (cr_and D k f))"
proof -
  let ?v = "rd_CR D (dev f) AND k"
  have "?v AND NOT CR_BITS = 0" "?v AND FLASH_CR_STRT = 0"
    using cr_reserved [of "dev f"] strt_cleared [OF assms(1)] by (simp_all add: and_zero_and)
  then have "rd_SR D (wr_CR D ?v (dev f)) = rd_SR D (dev f)"
    using cr_write [of "dev f" ?v] cr_locked [of "dev f" ?v] assms(1) by (cases "unlocked D (dev f)") auto
  with assms show ?thesis
    using busy_flag [of "dev f"] busy_flag [of "wr_CR D ?v (dev f)"] by (simp add: cr_and_def no_error_def)
qed

lemma erase_loop_keep:
  assumes "erase_loop D vr (of_nat k) bound (st, se, f) = Inr (st', se', f')" "busy (dev f) = 0" "no_error D (dev f)"
    "5 \<le> k" "unat bound \<le> 11" "k \<le> 11"
  shows "keeps f f'"
  using assms
proof (induction "unat bound - k" arbitrary: k st se f)
  case 0
  then have "\<not> (of_nat k :: u32) < bound" by (simp add: word_less_nat_alt unat_of_nat_u32)
  with 0 show ?case by (auto simp: erase_loop.simps [of D vr "of_nat k"])
next
  case (Suc j)
  then have k: "k < 11" "(of_nat k :: u32) < bound" by (auto simp: word_less_nat_alt unat_of_nat_u32)
  obtain st1 f1 where w: "FLASH_WaitForLastOperation D FLASH_TIMEOUT_VALUE (FLASH_Erase_Sector D (of_nat k) vr f) = Inr (st1, f1)"
    using Suc.prems(1) k(2) by (auto simp: erase_loop.simps [of D vr "of_nat k"] split: sum.splits)
  let ?f2 = "cr_and D (NOT (FLASH_CR_SER OR FLASH_CR_SNB)) f1"
  have "keeps f1 ?f2" by (rule cr_and_keep) (simp add: reg_consts)
  then have f2: "keeps f ?f2"
    using erase_sector_keep [OF Suc.prems(2,3,4) k(1)] wait_keeps(1) [OF w] by (blast intro: keeps_trans)
  show ?case
  proof (cases "st1 = HAL_OK")
    case True
    have l: "erase_loop D vr (of_nat (Suc k)) bound (st1, se, ?f2) = Inr (st', se', f')"
      using Suc.prems(1) k(2) w True by (simp add: erase_loop.simps [of D vr "of_nat k"] Let_def add.commute)
    have j: "j = unat bound - Suc k" using Suc(2) by simp
    have "keeps ?f2 f'"
      using Suc.hyps(1) [OF j l] ready_cr_and [of f1] wait_keeps(2) [OF w True] Suc.prems(4,5) k(1) by simp
    with f2 show ?thesis by (rule keeps_trans)
  next
    case False
    then have "f' = ?f2"
      using Suc.prems(1) k(2) w by (simp add: erase_loop.simps [of D vr "of_nat k"] Let_def)
    with f2 show ?thesis by simp
  qed
qed

lemma erase_keep:
  assumes "HAL_FLASHEx_Erase D e se f = Inr (st, se', f')" "TypeErase e \<noteq> FLASH_TYPEERASE_MASSERASE"
    and "ESector e = of_nat k" "5 \<le> k" "k \<le> 11" "unat (NbSectors e + ESector e) \<le> 11"
  shows "keeps f f'"
proof (cases "Lock f")
  case False
  then obtain st1 f1 where w: "FLASH_WaitForLastOperation D FLASH_TIMEOUT_VALUE (f\<lparr>Lock := True\<rparr>) = Inr (st1, f1)"
    using assms(1) by (auto simp: HAL_FLASHEx_Erase_def res_bind_eq_Inr)
  have f1: "keeps f f1" using wait_keeps(1) [OF w] by simp
  show ?thesis
  proof (cases "st1 = HAL_OK")
    case True
    then obtain f2 where l: "erase_loop D (ucast (VoltageRange e)) (of_nat k) (NbSectors e + ESector e)
        (HAL_OK, 0xFFFFFFFF, f1) = Inr (st, se', f2)" and f': "f' = f2\<lparr>Lock := False\<rparr>"
      using assms(1-3) False w by (auto simp: HAL_FLASHEx_Erase_def res_bind_eq_Inr)
    have "keeps f1 f2" using erase_loop_keep [OF l _ _ assms(4,6,5)] wait_keeps(2) [OF w True] by simp
    with f1 show ?thesis by (simp add: f' keeps_trans)
  qed (use assms(1) False w f1 in \<open>auto simp: HAL_FLASHEx_Erase_def\<close>)
qed (use assms(1) in \<open>simp add: HAL_FLASHEx_Erase_def\<close>)

lemma program_keep:
  assumes "HAL_FLASH_Program D FLASH_TYPEPROGRAM_WORD a data f = Inr (st, f')"
    and "USER_FLASH_FIRST_PAGE_ADDRESS \<le> a" "a \<le> USER_FLASH_END_ADDRESS - 4"
  shows "keeps f f'"
proof (cases "Lock f")
  case False
  then obtain st1 f1 where w: "FLASH_WaitForLastOperation D FLASH_TIMEOUT_VALUE (f\<lparr>Lock := True\<rparr>) = Inr (st1, f1)"
    using assms(1) by (auto simp: HAL_FLASH_Program_def res_bind_eq_Inr)
  have f1: "keeps f f1" using wait_keeps(1) [OF w] by simp
  show ?thesis
  proof (cases "st1 = HAL_OK")
    case True
    let ?g = "set_psize_pg D FLASH_PSIZE_WORD f1"
    let ?h = "?g\<lparr>dev := st32 D a (ucast data) (dev ?g)\<rparr>"
    have "program_switch D FLASH_TYPEPROGRAM_WORD a data f1 = ?h"
      by (simp add: program_switch_def FLASH_Program_Word_def Let_def reg_consts)
    then obtain f2 where w2: "FLASH_WaitForLastOperation D FLASH_TIMEOUT_VALUE ?h = Inr (st, f2)"
      and f': "f' = (cr_and D (NOT FLASH_CR_PG) f2)\<lparr>Lock := False\<rparr>"
      using assms(1) False w True by (auto simp: HAL_FLASH_Program_def res_bind_eq_Inr)
    have "keeps ?g ?h"
      using store_frame [OF firmware_word [OF assms(2,3)]] cr_safe_strt [OF store_cr]
      by (simp add: keeps_def safe_def fmem_def)
    moreover have "keeps f1 ?g" by (rule psize_pg_keep) (simp add: reg_consts)
    moreover have "keeps f2 (cr_and D (NOT FLASH_CR_PG) f2)" by (rule cr_and_keep) (simp add: reg_consts)
    ultimately show ?thesis
      using f1 wait_keeps(1) [OF w2] unfolding f' keeps_lock by (blast intro: keeps_trans)
  qed (use assms(1) False w f1 in \<open>auto simp: HAL_FLASH_Program_def\<close>)
qed (use assms(1) in \<open>simp add: HAL_FLASH_Program_def\<close>)

text \<open>The operations of \<^verbatim>\<open>flash_if.c\<close> and \<^verbatim>\<open>backup.c\<close>.\<close>

lemma write_loop_keep:
  assumes "write_loop D src n i a f = Inr (r, a', f')" "USER_FLASH_FIRST_PAGE_ADDRESS \<le> a"
  shows "keeps f f' \<and> USER_FLASH_FIRST_PAGE_ADDRESS \<le> a'"
  using assms
proof (induction n arbitrary: i a f)
  case (Suc n)
  show ?case
  proof (cases "a \<le> USER_FLASH_END_ADDRESS - 4")
    case True
    then obtain w :: u32 and st f1 where p: "HAL_FLASH_Program D FLASH_TYPEPROGRAM_WORD a (ucast w) f = Inr (st, f1)"
      and q: "(if st = HAL_OK then res_bind (src f1 i) (\<lambda>w1. if read32 (fmem D f1) a \<noteq> w1 then Inr (2, a, f1)
          else write_loop D src n (Suc i) (a + 4) f1) else Inr (1, a, f1)) = Inr (r, a', f')"
      using Suc.prems(1) by (auto simp: res_bind_eq_Inr)
    have c: "f' = f1 \<and> a' = a \<or> write_loop D src n (Suc i) (a + 4) f1 = Inr (r, a', f')"
      using q by (auto simp: res_bind_eq_Inr split: if_splits)
    have k: "keeps f f1" using program_keep [OF p Suc.prems(2) True] .
    have "USER_FLASH_FIRST_PAGE_ADDRESS \<le> a + 4"
      using True Suc.prems(2) by (simp add: word_le_nat_alt unat_word_ariths reg_consts)
    with Suc.IH [of "Suc i" "a + 4" f1] c k Suc.prems(2) show ?thesis by (blast intro: keeps_trans)
  qed (use Suc.prems in simp)
qed simp

lemma If_Write_keep:
  assumes "FLASH_If_Write D a src len f = Inr (r, a', f')" "USER_FLASH_FIRST_PAGE_ADDRESS \<le> a"
  shows "keeps f f'" "USER_FLASH_FIRST_PAGE_ADDRESS \<le> a'"
  using write_loop_keep [of src "unat len" 0 a f] assms by (simp_all add: FLASH_If_Write_def)

lemma If_Erase_keep: "FLASH_If_Erase D USER_FLASH_FIRST_PAGE_ADDRESS f = Inr (r, f') \<Longrightarrow> keeps f f'"
  by (auto simp: FLASH_If_Erase_def res_bind_eq_Inr erase_request_def GetSectorNumber_def reg_consts
      split: if_splits intro: erase_keep [where k = 5])

lemma Backup_Erase_keep: "FLASH_Backup_Erase D BACKUP_FLASH_FIRST_PAGE_ADDRESS f = Inr (r, f') \<Longrightarrow> keeps f f'"
  by (auto simp: FLASH_Backup_Erase_def res_bind_eq_Inr erase_request_def GetSectorNumber_def reg_consts
      split: if_splits intro: erase_keep [where k = 8])

lemma unlock_keep: "keeps f (snd (HAL_FLASH_Unlock D f))"
  using key_unlock [of "dev f"] cr_safe_keep [of "NOT FLASH_CR_LOCK" "rd_CR D (dev f)"]
  by (simp add: HAL_FLASH_Unlock_def Let_def keeps_def safe_def fmem_def unlocked_def) (simp add: reg_consts)

end

section \<open>The executable controller\<close>

lemma sim_erase_bits: "push_bit 3 (of_nat (unat (drop_bit 3 v AND 0x1F :: u32))) = v AND FLASH_CR_SNB"
proof -
  have "drop_bit 3 v AND 0x1F = drop_bit 3 (v AND 0xF8)"
    by (rule bit_word_eqI) (auto simp: bit_simps)
  moreover have "take_bit 3 (v AND 0xF8) = 0" by (simp add: take_bit_eq_mask mask_eq_exp_minus_1 and.assoc)
  ultimately show ?thesis using bits_ident [of 3 "v AND 0xF8"] by (simp add: FLASH_CR_SNB_def)
qed

lemma sim_wr_CR_cases:
  "sim_wr_CR v d = d \<or> f_cr (sim_wr_CR v d) = v AND CR_BITS AND NOT FLASH_CR_STRT"
  by (simp add: sim_wr_CR_def Let_def)

lemma sim_wr_CR_mem:
  assumes "f_mem (sim_wr_CR v d) b \<noteq> f_mem d b"
  shows "v AND FLASH_CR_STRT \<noteq> 0 \<and> v AND FLASH_CR_SER \<noteq> 0
    \<and> (\<exists>n < 12. v AND FLASH_CR_SNB = push_bit 3 (of_nat n) \<and> in_sector n b)"
proof -
  let ?n = "unat (drop_bit 3 v AND 0x1F)"
  have c: "v AND FLASH_CR_STRT \<noteq> 0" "v AND (FLASH_CR_SER OR FLASH_MER_BIT OR FLASH_CR_PG) = FLASH_CR_SER"
    "?n < 12" "in_sector ?n b"
    using assms by (auto simp: sim_wr_CR_def Let_def erase_sector_def split: if_splits)
  have "v AND FLASH_CR_SER = (v AND (FLASH_CR_SER OR FLASH_MER_BIT OR FLASH_CR_PG)) AND FLASH_CR_SER"
    by (simp add: and.assoc reg_consts)
  then have "v AND FLASH_CR_SER \<noteq> 0" unfolding c(2) by (simp add: reg_consts)
  with c(1,3,4) sim_erase_bits [of v] show ?thesis by auto
qed

interpretation fsim: flash_frame flash_sim f_left
proof (unfold_locales, goal_cases)
  case (1 v d b)
  then show ?case using sim_wr_CR_mem [of v d b] by simp
next
  case (2 v d)
  then show ?case using sim_wr_CR_cases [of v d] by (auto simp: and.assoc reg_consts)
next
  case (3 d v)
  then show ?case by (simp add: sim_unlocked sim_wr_CR_def)
next
  case (4 b a w d)
  then show ?case using write32_other [where a = a and b = b] by (simp add: sim_st32_def word_le_nat_alt)
next
  case (5 a w d)
  then show ?case by (simp add: sim_st32_def)
qed

end
