(* ===== verification/Loader.thy ===== *)
theory Loader
  imports Boot Flash_Safety
begin

text \<open>
  The boot loader as a state machine: what can happen to it between two resets (a request, a data
  packet, a datagram, a turn of its loop) and a reset that brings it up again are the rules of
  \<open>loader_step\<close>; its invariant is proved by induction over them.
\<close>

section \<open>Steps\<close>

text \<open>
  The loader takes steps until it resets the board. The packets, their senders and the contents of
  the stack are arbitrary. \<open>restart\<close> is a reset between two steps, its own or the watchdog's or
  the power supply's: the flash keeps its contents, controller and driver come up quiet, the RAM
  is initialised and \<^verbatim>\<open>main\<close> decides for the boot loader once more.
\<close>

definition fresh :: "'d flash_dev \<Rightarrow> mem \<Rightarrow> ('d, 'c, 'i) sys \<Rightarrow> bool" where
  "fresh D m t \<longleftrightarrow> fmem D (flash (srv t)) = m \<and> flash_quiet D (flash (srv t)) \<and> wrq_conn (srv t) = Map.empty
     \<and> pcbs (srv t) = [] \<and> events (srv t) = []"

inductive loader_step :: "'i i2c_dev \<Rightarrow> 'd flash_dev \<Rightarrow> 'c crc_dev \<Rightarrow> ('d, 'c, 'i) sys \<Rightarrow> ('d, 'c, 'i) sys \<Rightarrow> bool"
  for I D C where
  request: "\<not> has_reset (srv s) \<Longrightarrow> listening (srv s) \<Longrightarrow> IAP_tftp_recv_callback D ip port pkt (srv s) = Inr b \<Longrightarrow>
     loader_step I D C s (s\<lparr>srv := b\<rparr>)"
| data: "\<not> has_reset (srv s) \<Longrightarrow> IAP_wrq_recv_callback D C stack upcb pkt (srv s) = Inr b \<Longrightarrow>
     loader_step I D C s (s\<lparr>srv := b\<rparr>)"
| datagram: "\<not> has_reset (srv s) \<Longrightarrow> loader_step I D C s (s\<lparr>srv := udp_receive_callback p (srv s)\<rparr>)"
| turn: "\<not> has_reset (srv s) \<Longrightarrow> thread_main_turn D s = Inr t \<Longrightarrow> loader_step I D C s t"
| restart: "fresh D (fmem D (flash (srv s))) t \<Longrightarrow> main_boot I D w t = Inr (Kernel_Start, t1) \<Longrightarrow>
     thread_main_start C stats link t1 = Inr t2 \<Longrightarrow> loader_step I D C s t2"

section \<open>The invariant of the loader\<close>

lemma udp_receive_more: "board.more (udp_receive_callback p s) = board.more s"
  by (auto simp: udp_receive_callback_def Let_def more_frames send_more split: option.splits)

lemma quiet_safe: "flash_quiet D f \<Longrightarrow> cr_safe (rd_CR D (dev f))"
  by (auto simp: flash_quiet_def cr_safe_def reg_consts intro: and_zero_sub)

text \<open>Coming up changes nothing the server keeps but the list of its pcbs.\<close>

lemma main_boot_srv:
  assumes "main_boot I D w s = Inr (Kernel_Start, t)"
  shows "board.more (srv t) = board.more (srv s)" "choices (srv t) = choices (srv s)" "can_st t = CAN_Startup (can_st s)"
    "watchdog_reset t = watchdog_reset s"
  using assms by (auto simp: main_boot_def HW_Init_def MX_IWDG_Init_def boot_decision_def res_bind_eq_Inr Let_def watchdog_reset_def
      dest: IWDG_Init_frame split: if_splits)

lemma more_outcome: "outcome s = (b, t) \<Longrightarrow> board.more t = board.more s"
  using more_frames(2) [of s] by simp

lemma connect_more: "board.more (snd (udp_total_connect s)) = board.more s"
  by (auto simp: udp_total_connect_def more_frames dest!: more_outcome split: prod.splits)

text \<open>
  The connections: no pcb is listed twice, pcbs yet to come have new names, and every receive
  callback belongs to a pcb that exists.
\<close>

definition conn_ok :: "('d, 'c) iap \<Rightarrow> bool" where
  "conn_ok s \<longleftrightarrow> distinct (pcbs s) \<and> (\<forall>p \<in> set (pcbs s). p < next_pcb s) 
     \<and> (\<forall>p. wrq_conn s p \<noteq> None \<longrightarrow> p \<in> set (pcbs s))"

lemma conn_ok_more: "board.more t = board.more s \<Longrightarrow> conn_ok t = conn_ok s"
  using more_fields [of t s] by (simp add: conn_ok_def)

lemma udp_new_conn:
  assumes "udp_new s = (pcb, t)" "conn_ok s"
  shows "conn_ok t" "pcb = Some p \<Longrightarrow> p \<in> set (pcbs t) \<and> wrq_conn t p = None"
    "flash t = flash s" "wrq_conn t = wrq_conn s" "Flash_Write_Address t = Flash_Write_Address s"
proof -
  obtain b u where o: "outcome s = (b, u)" by fastforce
  have u: "conn_ok u" "flash u = flash s" "wrq_conn u = wrq_conn s" "Flash_Write_Address u = Flash_Write_Address s"
    using conn_ok_more [OF more_outcome [OF o]] assms(2) more_fields [OF more_outcome [OF o]] by simp_all
  show "conn_ok t" "pcb = Some p \<Longrightarrow> p \<in> set (pcbs t) \<and> wrq_conn t p = None"
    "flash t = flash s" "wrq_conn t = wrq_conn s" "Flash_Write_Address t = Flash_Write_Address s"
    using assms(1) o u by (auto simp: udp_new_def conn_ok_def less_Suc_eq split: if_splits)
qed

lemma tftpd_init_conn:
  assumes "conn_ok s"
  shows "conn_ok (IAP_tftpd_init s)" "flash (IAP_tftpd_init s) = flash s" "wrq_conn (IAP_tftpd_init s) = wrq_conn s"
    "Flash_Write_Address (IAP_tftpd_init s) = Flash_Write_Address s"
proof -
  obtain pcb t where n: "udp_new s = (pcb, t)" by fastforce
  obtain b u where o: "outcome t = (b, u)" by fastforce
  have m: "conn_ok (udp_client_send msg v) = conn_ok v" for msg and v :: "('a, 'b) iap"
    by (rule conn_ok_more [OF send_more])
  have u: "conn_ok (u\<lparr>listening := l\<rparr>) = conn_ok t" "conn_ok u = conn_ok t" for l
    using conn_ok_more [OF more_outcome [OF o]] by (simp_all add: conn_ok_def)
  show "conn_ok (IAP_tftpd_init s)" "flash (IAP_tftpd_init s) = flash s" "wrq_conn (IAP_tftpd_init s) = wrq_conn s"
    "Flash_Write_Address (IAP_tftpd_init s) = Flash_Write_Address s"
    using udp_new_conn [OF n assms] more_fields [OF more_outcome [OF o]]
    by (auto simp: IAP_tftpd_init_def n o m u split: option.splits)
qed

lemma thread_start_conn:
  assumes "thread_main_start C stats link s = Inr t" "conn_ok (srv s)"
  shows "conn_ok (srv t)" "flash (srv t) = flash (srv s)" "wrq_conn (srv t) = wrq_conn (srv s)"
proof -
  obtain st c where c: "CAN_UserInit stats (can_st s) = Inr (st, c)"
    using assms(1) by (auto simp: thread_main_start_def res_bind_eq_Inr)
  define b where "b = snd (HAL_IWDG_Refresh (emit (Delay_Ticks (DLY_MS 75)) (MX_CRC_Init C (emit (Timer_Start (DLY_MS 1)) (srv s)))))"
  define n where "n = snd (udp_total_connect (emit (Netif_Up link) (emit (Netif_Add IP_ADDRESS NETMASK_ADDRESS GATEWAY_ADDRESS) b)))"
  have t: "board.more (srv t) = board.more (IAP_tftpd_init n)"
    using assms(1) c by (auto simp: thread_main_start_def net_start_def Let_def more_frames b_def n_def)
  have "board.more n = board.more b" by (simp add: n_def connect_more more_frames)
  note n = conn_ok_more [OF this] more_fields [OF this]
  have b: "conn_ok b" "flash b = flash (srv s)" "wrq_conn b = wrq_conn (srv s)"
    using assms(2) by (auto simp: b_def MX_CRC_Init_def conn_ok_def Let_def split: prod.splits)
  show "conn_ok (srv t)" "flash (srv t) = flash (srv s)" "wrq_conn (srv t) = wrq_conn (srv s)"
    using tftpd_init_conn [of n] n b conn_ok_more [OF t] more_fields [OF t] by simp_all
qed

text \<open>Every step keeps them.\<close>

lemma conn_ok_fields:
  "pcbs t = pcbs s \<Longrightarrow> next_pcb t = next_pcb s \<Longrightarrow> wrq_conn t = wrq_conn s \<Longrightarrow> conn_ok t = conn_ok s"
  by (simp add: conn_ok_def)

lemma cleanup_conn: "conn_ok s \<Longrightarrow> conn_ok (IAP_tftp_cleanup_wr u s)"
  by (auto simp: conn_ok_def IAP_tftp_cleanup_wr_def)

lemma restore_conn: "restore_backup D s = Inr t \<Longrightarrow> conn_ok t = conn_ok s"
  by (rule conn_ok_fields) (auto simp: restore_backup_def res_bind_eq_Inr)

lemma unlock_conn: "conn_ok (unlock_flash D s) = conn_ok s"
  by (rule conn_ok_fields) (simp_all add: unlock_flash_def)

lemma backup_conn: "backup_firmware D s = Inr t \<Longrightarrow> conn_ok t = conn_ok s"
  by (rule conn_ok_fields)
    (auto simp: backup_firmware_def res_bind_eq_Inr Let_def unlock_flash_def split: if_splits)

lemma WDGbackup_conn:
  assumes "WDGbackup D s = Inr t"
  shows "conn_ok t = conn_ok s"
proof -
  obtain u where u: "restore_backup D (snd (HAL_IWDG_Refresh (unlock_flash D s))) = Inr u"
    "t = clear_boot_flag (emit Clear_Reset_Flags u)"
    using assms by (auto simp: WDGbackup_def res_bind_eq_Inr)
  have "board.more t = board.more u" by (simp add: u(2) more_frames)
  from conn_ok_more [OF this] restore_conn [OF u(1)] show ?thesis
    by (simp add: unlock_conn conn_ok_more [OF more_frames(7)])
qed

lemma turn_conn:
  assumes "thread_main_turn D s = Inr t"
  shows "conn_ok (srv t) = conn_ok (srv s)"
proof -
  let ?b = "emit (Delay_Ticks 500)
    (udp_client_send (''----CATCH WDG---- back to before FW'' @ newline) (snd (HAL_IWDG_Refresh (srv s))))"
  let ?r = "if watchdog_reset s then WDGbackup D ?b else Inr (srv s)"
  obtain b1 where b1: "?r = Inr b1" using assms by (cases ?r) (auto simp: thread_main_turn_def)
  have "conn_ok ?b = conn_ok (srv s)" by (rule conn_ok_more) (simp add: more_frames send_more)
  with b1 WDGbackup_conn [of D ?b b1] have "conn_ok b1 = conn_ok (srv s)"
    by (cases "watchdog_reset s") auto
  moreover have "board.more (srv t) = board.more b1"
    using assms b1 by (cases "watchdog_reset s") (auto simp: thread_main_turn_def Let_def more_frames send_more)
  ultimately show ?thesis using conn_ok_more by blast
qed

lemma process_write_conn:
  assumes "IAP_tftp_process_write D upcb ip port s = Inr t" "conn_ok s" "upcb \<in> set (pcbs s)"
  shows "conn_ok t"
proof -
  obtain ok s1 where o: "outcome s = (ok, s1)" by fastforce
  have s1: "conn_ok s1" "upcb \<in> set (pcbs s1)"
    using conn_ok_more [OF more_outcome [OF o]] more_fields [OF more_outcome [OF o]] assms(2,3) by simp_all
  show ?thesis
  proof (cases ok)
    case False
    then have "t = IAP_tftp_cleanup_wr upcb (udp_client_send (''Memory error '' @ newline) s1)"
      using assms(1) o by (simp add: IAP_tftp_process_write_def)
    with s1(1) show ?thesis by (simp add: cleanup_conn conn_ok_more [OF send_more])
  next
    case True
    then have "pcbs t = pcbs s1" "next_pcb t = next_pcb s1"
      "wrq_conn t = (wrq_conn s1)(upcb \<mapsto> \<lparr>to_ip = ip, to_port = port, block = 0, tot_bytes = 0\<rparr>)"
      using assms(1) o by (auto simp: IAP_tftp_process_write_def res_bind_eq_Inr Let_def)
    with s1 show ?thesis by (auto simp: conn_ok_def)
  qed
qed

lemma request_conn:
  assumes "IAP_tftp_recv_callback D ip port pkt s = Inr t" "conn_ok s"
  shows "conn_ok t"
proof -
  obtain s1 where b: "backup_firmware D s = Inr s1"
    using assms(1) by (auto simp: IAP_tftp_recv_callback_def res_bind_eq_Inr)
  obtain pcb s2 where n: "udp_new s1 = (pcb, s2)" by fastforce
  obtain bound s3 where o: "outcome s2 = (bound, s3)" by fastforce
  have "conn_ok s1" using backup_conn [OF b] assms(2) by simp
  note n1 = udp_new_conn [OF n this]
  note s3 = conn_ok_more [OF more_outcome [OF o]] more_fields [OF more_outcome [OF o]]
  show ?thesis
  proof (cases "\<exists>upcb. pcb = Some upcb \<and> bound")
    case False
    then have "\<exists>msg. t = udp_client_send msg s2 \<or> t = udp_client_send msg s3"
      using assms(1) b n o by (auto simp: IAP_tftp_recv_callback_def split: option.splits)
    with n1(1) s3 show ?thesis by (auto simp: conn_ok_more [OF send_more])
  next
    case True
    then obtain upcb where u: "pcb = Some upcb" bound by blast
    obtain op where op: "IAP_tftp_decode_op (payload pkt) = Inr op"
      using assms(1) b n o u by (auto simp: IAP_tftp_recv_callback_def res_bind_eq_Inr)
    show ?thesis
    proof (cases "op = TFTP_WRQ")
      case True
      then obtain v1 v2 where w: "IAP_tftp_process_write D upcb ip port v1 = Inr v2" "t = emit Pbuf_Free v2"
        and m: "board.more v1 = board.more s3"
        using assms(1) b n o u op
        by (auto simp: IAP_tftp_recv_callback_def res_bind_eq_Inr Let_def more_frames send_more)
      have "conn_ok v2"
        using process_write_conn [OF w(1)] conn_ok_more [OF m] more_fields [OF m] s3 n1(1) n1(2) [OF u(1)] by simp
      then show ?thesis unfolding w(2) by (simp add: conn_ok_more [OF more_frames(1)])
    next
      case False
      then have "pcbs t = remove1 upcb (pcbs s3)" "next_pcb t = next_pcb s3" "wrq_conn t = wrq_conn s3"
        using assms(1) b n o u op by (auto simp: IAP_tftp_recv_callback_def Let_def)
      with s3 n1(1) n1(2) [OF u(1)] show ?thesis by (auto simp: conn_ok_def) 
    qed
  qed
qed

lemma check_conn: "wrq_check D C s = Inr t \<Longrightarrow> conn_ok t = conn_ok s"
  by (rule conn_ok_fields)
    (auto simp: wrq_check_def restore_backup_def unlock_flash_def res_bind_eq_Inr Let_def split: if_splits prod.splits)

lemma finish_conn:
  assumes "wrq_finish D C upcb s = Inr t" "conn_ok s"
  shows "conn_ok t"
proof -
  obtain v where v: "wrq_check D C (wrq_close upcb s) = Inr v" and t: "t = NVIC_SystemReset (clear_boot_flag v)"
    using assms(1) by (auto simp: wrq_finish_def res_bind_eq_Inr)
  have "conn_ok (udp_client_send m (into_buffer n k m s))" for m n k
    using assms(2) conn_ok_more [of "udp_client_send m (into_buffer n k m s)" s] by (simp add: more_frames send_more)
  then have "conn_ok (wrq_close upcb s)"
    unfolding wrq_close_def Let_def by (simp add: conn_ok_more [OF more_frames(1)] cleanup_conn)
  with check_conn [OF v] show ?thesis
    unfolding t using conn_ok_more [of "NVIC_SystemReset (clear_boot_flag v)" v] by (simp add: more_frames)
qed

lemma data_conn:
  assumes "IAP_wrq_recv_callback D C stack upcb pkt s = Inr t" "conn_ok s"
  shows "conn_ok t"
proof (cases "wrq_conn s upcb")
  case None
  then show ?thesis using assms by (simp add: IAP_wrq_recv_callback_def)
next
  case (Some args)
  show ?thesis
  proof (cases "length (payload pkt) = tot_len pkt")
    case True
    then obtain args1 s1 where b: "wrq_block D stack pkt args s = Inr (args1, s1)"
      using assms Some by (auto simp: IAP_wrq_recv_callback_def res_bind_eq_Inr)
    let ?s1 = "s1\<lparr>wrq_conn := (wrq_conn s1)(upcb \<mapsto> args1)\<rparr>"
    let ?s2 = "snd (IAP_tftp_send_ack_packet upcb (block args1) ?s1)"
    have "pcbs s1 = pcbs s" "next_pcb s1 = next_pcb s" "wrq_conn s1 = wrq_conn s"
      using b by (auto simp: wrq_block_def Let_def res_bind_eq_Inr split: if_splits)
    then have "conn_ok ?s1" using assms(2) Some by (auto simp: conn_ok_def)
    then have "conn_ok ?s2" by (simp add: conn_ok_more [OF send_ack_more])
    moreover have "wrq_finish D C upcb ?s2 = Inr t \<or> t = emit Pbuf_Free ?s2"
      using assms Some True b by (auto simp: IAP_wrq_recv_callback_def Let_def split: if_splits)
    ultimately show ?thesis using finish_conn conn_ok_more [OF more_frames(1)] by blast
  qed (use assms Some in \<open>auto simp: IAP_wrq_recv_callback_def conn_ok_more [OF send_more]\<close>)
qed

lemma step_conn:
  assumes "loader_step I D C s t" "conn_ok (srv s)"
  shows "conn_ok (srv t)"
  using assms
proof (induction rule: loader_step.induct)
  case (restart s t w t1 stats link t2)
  have "conn_ok (srv t)" using restart(1) by (simp add: fresh_def conn_ok_def)
  then have "conn_ok (srv t1)" using conn_ok_more [OF main_boot_srv(1) [OF restart(2)]] by simp
  with thread_start_conn(1) [OF restart(3)] show ?case .
qed (auto intro: request_conn data_conn simp: turn_conn conn_ok_more [OF udp_receive_more])

section \<open>The flash outside the firmware areas\<close>

context flash_frame
begin

text \<open>
  The controller can only be asked for operations on the firmware areas, and a transfer under way
  writes above the boot loader.
\<close>

definition iap_safe :: "('a, 'c) iap \<Rightarrow> bool" where
  "iap_safe s \<longleftrightarrow> safe (flash s) \<and> ((\<exists>u. wrq_conn s u \<noteq> None) \<longrightarrow> USER_FLASH_FIRST_PAGE_ADDRESS \<le> Flash_Write_Address s)"

definition guards :: "('a, 'c) iap \<Rightarrow> ('a, 'c) iap \<Rightarrow> bool" where
  "guards s s' \<longleftrightarrow> (iap_safe s \<longrightarrow> iap_safe s' \<and> (\<forall>b. \<not> firmware_area b \<longrightarrow> fmem D (flash s') b = fmem D (flash s) b))"

lemma guards_trans [trans]: "guards s t \<Longrightarrow> guards t u \<Longrightarrow> guards s u"
  by (simp add: guards_def)

lemma guards_flash:
  assumes "keeps (flash s) (flash t)" "wrq_conn t = wrq_conn s" "Flash_Write_Address t = Flash_Write_Address s"
  shows "guards s t"
  using assms by (simp add: guards_def iap_safe_def keeps_def)

lemma guards_more: "board.more t = board.more s \<Longrightarrow> guards s t"
  using more_fields [of t s] by (intro guards_flash) simp_all

lemma restore_guards: "restore_backup D s = Inr t \<Longrightarrow> guards s t"
  by (rule guards_flash)
    (auto simp: restore_backup_def res_bind_eq_Inr intro: keeps_trans [OF If_Erase_keep If_Write_keep(1)])

lemma unlock_guards: "guards s (unlock_flash D s)"
  by (rule guards_flash) (simp_all add: unlock_flash_def unlock_keep)

lemma WDGbackup_guards:
  assumes "WDGbackup D s = Inr t"
  shows "guards s t"
proof -
  obtain u where r: "restore_backup D (snd (HAL_IWDG_Refresh (unlock_flash D s))) = Inr u"
    and t: "t = clear_boot_flag (emit Clear_Reset_Flags u)"
    using assms by (auto simp: WDGbackup_def res_bind_eq_Inr)
  have "guards s (unlock_flash D s)" by (rule unlock_guards)
  also have "guards \<dots> (snd (HAL_IWDG_Refresh (unlock_flash D s)))" by (rule guards_more) (rule more_frames)
  also have "guards \<dots> u" using r by (rule restore_guards)
  also have "guards u t" unfolding t by (rule guards_more) (simp add: more_frames)
  finally show ?thesis .
qed

lemma turn_guards:
  assumes "thread_main_turn D s = Inr t"
  shows "guards (srv s) (srv t)"
proof -
  let ?b = "emit (Delay_Ticks 500)
    (udp_client_send (''----CATCH WDG---- back to before FW'' @ newline) (snd (HAL_IWDG_Refresh (srv s))))"
  let ?r = "if watchdog_reset s then WDGbackup D ?b else Inr (srv s)"
  obtain b1 where b1: "?r = Inr b1" using assms by (cases ?r) (auto simp: thread_main_turn_def)
  have "guards (srv s) ?b" by (rule guards_more) (simp add: more_frames send_more)
  with b1 WDGbackup_guards [of ?b b1] have "guards (srv s) b1"
    by (cases "watchdog_reset s") (auto intro: guards_trans guards_more)
  moreover have "board.more (srv t) = board.more b1"
    using assms b1 by (cases "watchdog_reset s") (auto simp: thread_main_turn_def Let_def more_frames send_more)
  ultimately show ?thesis using guards_more guards_trans by blast
qed

lemma backup_guards:
  assumes "backup_firmware D s = Inr t"
  shows "guards s t"
proof (rule guards_flash)
  show "keeps (flash s) (flash t)"
    using assms by (auto simp: backup_firmware_def res_bind_eq_Inr Let_def unlock_flash_def reg_consts split: if_splits
        intro!: keeps_trans [OF unlock_keep keeps_trans [OF Backup_Erase_keep If_Write_keep(1)]])
qed (use assms in \<open>auto simp: backup_firmware_def res_bind_eq_Inr Let_def unlock_flash_def split: if_splits\<close>)

text \<open>A request that starts a transfer sets the write address to the start of the user area.\<close>

lemma cleanup_guards: "guards s (IAP_tftp_cleanup_wr u s)"
  by (auto simp: guards_def iap_safe_def IAP_tftp_cleanup_wr_def split: if_splits)

lemma process_write_guards:
  assumes "IAP_tftp_process_write D upcb ip port s = Inr t"
  shows "guards s t"
proof -
  obtain ok s1 where o: "outcome s = (ok, s1)" by fastforce
  have m: "board.more s1 = board.more s" using more_frames(2) [of s] o by simp
  then have s1: "guards s s1" by (rule guards_more)
  show ?thesis
  proof (cases ok)
    case False
    then have "t = IAP_tftp_cleanup_wr upcb (udp_client_send (''Memory error '' @ newline) s1)"
      using assms o by (simp add: IAP_tftp_process_write_def)
    with s1 cleanup_guards guards_more [OF send_more] show ?thesis by (blast intro: guards_trans)
  next
    case True
    then obtain r f where e: "FLASH_If_Erase D USER_FLASH_FIRST_PAGE_ADDRESS (FLASH_If_Init D (flash s1)) = Inr (r, f)"
      and t: "flash t = f" "Flash_Write_Address t = USER_FLASH_FIRST_PAGE_ADDRESS"
      using assms o by (auto simp: IAP_tftp_process_write_def res_bind_eq_Inr Let_def)
    have "keeps (flash s1) f"
      using unlock_keep [of "flash s1"] If_Erase_keep [OF e] unfolding FLASH_If_Init_def by (rule keeps_trans)
    then have "guards s1 t" using t by (simp add: guards_def iap_safe_def keeps_def)
    with s1 show ?thesis by (rule guards_trans)
  qed
qed

lemma request_guards:
  assumes "IAP_tftp_recv_callback D ip port pkt s = Inr t"
  shows "guards s t"
proof -
  obtain s1 where b: "backup_firmware D s = Inr s1"
    using assms by (auto simp: IAP_tftp_recv_callback_def res_bind_eq_Inr)
  obtain pcb s2 where n: "udp_new s1 = (pcb, s2)" by fastforce
  obtain bound s3 where o: "outcome s2 = (bound, s3)" by fastforce
  have "guards s1 s2"
    using n by (auto simp: udp_new_def outcome_def split: list.splits if_splits intro!: guards_flash)
  with backup_guards [OF b] have g2: "guards s s2" by (rule guards_trans)
  moreover have m3: "board.more s3 = board.more s2" using more_frames(2) [of s2] o by simp
  ultimately have g3: "guards s s3" using guards_more guards_trans by blast
  have send: "guards u (udp_client_send msg u)" for msg and u :: "('a, 'c) iap" by (rule guards_more [OF send_more])
  show ?thesis
  proof (cases "\<exists>upcb. pcb = Some upcb \<and> bound")
    case False
    then have "\<exists>msg. t = udp_client_send msg s2 \<or> t = udp_client_send msg s3"
      using assms b n o by (auto simp: IAP_tftp_recv_callback_def split: option.splits)
    with g2 g3 send show ?thesis by (blast intro: guards_trans)
  next
    case True
    then obtain upcb where u: "pcb = Some upcb" bound by blast
    obtain op where op: "IAP_tftp_decode_op (payload pkt) = Inr op"
      using assms b n o u by (auto simp: IAP_tftp_recv_callback_def res_bind_eq_Inr)
    show ?thesis
    proof (cases "op = TFTP_WRQ")
      case True
      then obtain v1 v2 where w: "IAP_tftp_process_write D upcb ip port v1 = Inr v2" "t = emit Pbuf_Free v2"
        and m: "board.more v1 = board.more s3"
        using assms b n o u op
        by (auto simp: IAP_tftp_recv_callback_def res_bind_eq_Inr Let_def more_frames send_more)
      have "guards v2 t" unfolding w(2) by (rule guards_more) (rule more_frames)
      with g3 guards_more [OF m] process_write_guards [OF w(1)] show ?thesis by (blast intro: guards_trans)
    next
      case False
      then have "guards s3 t"
        using assms b n o u op by (intro guards_flash) (auto simp: IAP_tftp_recv_callback_def Let_def)
      with g3 show ?thesis by (rule guards_trans)
    qed
  qed
qed

text \<open>Data packets are written behind what is there.\<close>

lemma check_guards:
  assumes "wrq_check D C s = Inr t"
  shows "guards s t"
proof -
  obtain r c where cal: "CAL_CRC C (hcrc s) (fmem D (flash s)) (crcu s) = (r, c)" by fastforce
  let ?s1 = "s\<lparr>crcu := c\<rparr>"
  have "guards s ?s1" by (rule guards_flash) simp_all
  then have g: "guards s (udp_client_send msg ?s1)" for msg
    using guards_more [OF send_more] guards_trans by blast
  then have u: "guards s (unlock_flash D (udp_client_send msg ?s1))" for msg
    using unlock_guards guards_trans by blast
  show ?thesis
    using assms g cal guards_trans [OF u restore_guards]
    by (auto simp: wrq_check_def Let_def guards_more split: if_splits)
qed

lemma finish_guards:
  assumes "wrq_finish D C upcb s = Inr t"
  shows "guards s t"
proof -
  let ?m = "total_text (total_count s)"
  let ?u = "udp_client_send ?m (into_buffer ''message'' 40 ?m s)"
  have "guards s ?u" by (rule guards_more) (simp add: more_frames send_more)
  also have "guards ?u (IAP_tftp_cleanup_wr upcb ?u)" by (rule cleanup_guards)
  also have "guards \<dots> (wrq_close upcb s)" unfolding wrq_close_def Let_def by (rule guards_more) (rule more_frames)
  finally have c: "guards s (wrq_close upcb s)" .
  obtain v where v: "wrq_check D C (wrq_close upcb s) = Inr v" and t: "t = NVIC_SystemReset (clear_boot_flag v)"
    using assms by (auto simp: wrq_finish_def res_bind_eq_Inr)
  have "guards v t" unfolding t by (rule guards_more) (simp add: more_frames)
  with c check_guards [OF v] show ?thesis by (blast intro: guards_trans)
qed

lemma block_guards:
  assumes "wrq_block D stack pkt args s = Inr (args1, s1)" "wrq_conn s upcb = Some args"
  shows "guards s (s1\<lparr>wrq_conn := (wrq_conn s1)(upcb \<mapsto> args1)\<rparr>)"
proof (cases "iap_safe s")
  case True
  then have a: "USER_FLASH_FIRST_PAGE_ADDRESS \<le> Flash_Write_Address s" "safe (flash s)"
    using assms(2) by (auto simp: iap_safe_def)
  have "keeps (flash s) (flash s1) \<and> USER_FLASH_FIRST_PAGE_ADDRESS \<le> Flash_Write_Address s1"
    using assms(1) a(1) If_Write_keep [OF _ a(1)]
    by (auto simp: wrq_block_def Let_def res_bind_eq_Inr split: if_splits)
  then show ?thesis using a(2) by (simp add: guards_def iap_safe_def keeps_def)
qed (simp add: guards_def)

lemma data_guards:
  assumes "IAP_wrq_recv_callback D C stack upcb pkt s = Inr t"
  shows "guards s t"
proof (cases "wrq_conn s upcb")
  case None
  then show ?thesis using assms by (simp add: IAP_wrq_recv_callback_def guards_more)
next
  case (Some args)
  show ?thesis
  proof (cases "length (payload pkt) = tot_len pkt")
    case True
    then obtain args1 s1 where b: "wrq_block D stack pkt args s = Inr (args1, s1)"
      using assms Some by (auto simp: IAP_wrq_recv_callback_def res_bind_eq_Inr)
    let ?s2 = "snd (IAP_tftp_send_ack_packet upcb (block args1) (s1\<lparr>wrq_conn := (wrq_conn s1)(upcb \<mapsto> args1)\<rparr>))"
    have "wrq_finish D C upcb ?s2 = Inr t \<or> t = emit Pbuf_Free ?s2"
      using assms Some True b by (auto simp: IAP_wrq_recv_callback_def Let_def split: if_splits)
    then have "guards ?s2 t" using finish_guards guards_more [OF more_frames(1)] by blast
    with block_guards [OF b Some] guards_more [OF send_ack_more] show ?thesis by (blast intro: guards_trans)
  qed (use assms Some in \<open>auto simp: IAP_wrq_recv_callback_def intro: guards_more send_more\<close>)
qed

text \<open>A loader that has come up, one step, then any number.\<close>

lemma up_safe:
  assumes "fresh D m s" "main_boot I D w s = Inr (Kernel_Start, s0)" "thread_main_start C stats link s0 = Inr s1"
  shows "iap_safe (srv s1)" "fmem D (flash (srv s1)) = m"
proof -
  have "conn_ok (srv s)" using assms(1) by (simp add: fresh_def conn_ok_def)
  then have "conn_ok (srv s0)" using conn_ok_more [OF main_boot_srv(1) [OF assms(2)]] by simp
  from thread_start_conn(2,3) [OF assms(3) this] more_fields [OF main_boot_srv(1) [OF assms(2)]]
  have "flash (srv s1) = flash (srv s)" "wrq_conn (srv s1) = wrq_conn (srv s)" by simp_all
  with assms(1) quiet_safe [of D] show "iap_safe (srv s1)" "fmem D (flash (srv s1)) = m"
    by (simp_all add: fresh_def iap_safe_def safe_def)
qed

lemma step_guards:
  assumes "loader_step I D C s t"
  shows "guards (srv s) (srv t)"
  using assms
proof cases
  case (request ip port pkt b)
  then show ?thesis using request_guards [of ip port pkt "srv s" b] by simp
next
  case (data stack upcb pkt b)
  then show ?thesis using data_guards [of C stack upcb pkt "srv s" b] by simp
next
  case (datagram p)
  then show ?thesis using guards_more [OF udp_receive_more] by simp
next
  case turn
  then show ?thesis by (simp add: turn_guards)
next
  case (restart t0 w t1 stats link)
  from up_safe [OF this] show ?thesis by (simp add: guards_def)
qed

lemma run_guards: "(loader_step I D C)\<^sup>*\<^sup>* s t \<Longrightarrow> guards (srv s) (srv t)"
  by (induction rule: rtranclp_induct) (auto intro: guards_more guards_trans step_guards)

end

section \<open>Properties\<close>

text \<open>Coming up does not reset.\<close>

lemma IWDG_Init_no_reset: "HAL_IWDG_Init h t polls r s = Inr (st, s') \<Longrightarrow> has_reset s' = has_reset s"
  by (auto simp: HAL_IWDG_Init_def Let_def res_bind_eq_Inr has_reset_def split: option.splits if_splits)

lemma main_boot_no_reset: "main_boot I D w s = Inr (Kernel_Start, t) \<Longrightarrow> has_reset (srv t) = has_reset (srv s)"
  by (auto simp: main_boot_def HW_Init_def MX_IWDG_Init_def boot_decision_def res_bind_eq_Inr Let_def
      dest: IWDG_Init_no_reset split: if_splits)

lemma net_start_no_reset: "choices s = [] \<Longrightarrow> has_reset (net_start link s) = has_reset s"
  by (simp add: net_start_def Let_def udp_total_connect_def IAP_tftpd_init_def udp_new_def HAL_IWDG_Refresh_def has_reset_def)

lemma thread_start_no_reset:
  assumes "thread_main_start C stats link s = Inr t" "choices (srv s) = []"
  shows "has_reset (srv t) = has_reset (srv s)"
proof -
  let ?b = "snd (HAL_IWDG_Refresh (emit (Delay_Ticks (DLY_MS 75)) (MX_CRC_Init C (emit (Timer_Start (DLY_MS 1)) (srv s)))))"
  have "srv t = net_start link ?b" using assms(1) by (auto simp: thread_main_start_def res_bind_eq_Inr Let_def)
  moreover have "choices ?b = []" "has_reset ?b = has_reset (srv s)"
    using assms(2) by (simp_all add: HAL_IWDG_Refresh_def MX_CRC_Init_fields has_reset_def)
  ultimately show ?thesis using net_start_no_reset [of ?b link] by simp
qed

text \<open>A board with firmware on which the boot loader comes up and receives a write request, for
  the witnesses.\<close>

lemma loader_example:
  "\<exists>s0 s1 t. fresh flash_sim old_firmware (sys_on old_firmware 0xA5A5 False)
    \<and> main_boot i2c_sim flash_sim iwdg_prompt (sys_on old_firmware 0xA5A5 False) = Inr (Kernel_Start, s0)
    \<and> thread_main_start crc_sim [2, 2, 2, 2, 2, 2] True s0 = Inr s1
    \<and> loader_step i2c_sim flash_sim crc_sim s1 t \<and> wrq_conn (srv t) (next_pcb (srv s1)) \<noteq> None"
proof -
  let ?s = "sys_on old_firmware 0xA5A5 False"
  have f: "fresh flash_sim old_firmware ?s"
    by (simp add: fresh_def sys_on_def iap_on_def sim_with_idle idle_quiet)
  obtain e s0 where m: "main_boot i2c_sim flash_sim iwdg_prompt ?s = Inr (e, s0)"
    using main_boot_returns [OF eesim.ee_chip_axioms sys_on_ready(1) [symmetric] sys_on_ready(2,3), of flash_sim] by force
  then have k: "main_boot i2c_sim flash_sim iwdg_prompt ?s = Inr (Kernel_Start, s0)"
    using main_boot_run(1) [OF m] by (simp add: sys_on_nv boot_spec_def)
  note s0 = main_boot_srv [OF k]
  have c0: "choices (srv s0) = []" using s0(2) by (simp add: sys_on_def iap_on_def)
  have "filters_wf (can_st s0)" "6 \<le> ready_polls [2, 2, 2, 2, 2, 2]"
    using s0 filters_wf_reset
    by (simp_all add: sys_on_def iap_on_def CAN_Startup_def log_writes_def filters_wf_def ready_polls_def bit_simps)
  from thread_main_ready [OF this c0] obtain s1 where s1: "thread_main_start crc_sim [2, 2, 2, 2, 2, 2] True s0 = Inr s1"
    "flash (srv s1) = flash (srv s0)" "choices (srv s1) = []" "listening (srv s1)" by blast
  have fl: "flash (srv s1) = sim_with old_firmware"
    using s1(2) more_fields [OF s0(1)] by (simp add: sys_on_def iap_on_def)
  have q: "flash_quiet flash_sim (sim_with old_firmware)" by (rule idle_quiet [OF sim_with_idle(1)])
  obtain b where b: "IAP_tftp_recv_callback flash_sim 5 69 (write_request_packet [70] []) (srv s1) = Inr b"
    "receiving flash_sim (next_pcb (srv s1)) [] b"
    using iapsim.request [of "srv s1" "[70]" 5 69 "[]"] q s1(3) fl sim_with_idle(2) old_firmware_tag by auto
  have "\<not> has_reset (srv ?s)" by (simp add: has_reset_def sys_on_def iap_on_def)
  then have "\<not> has_reset (srv s1)" using main_boot_no_reset [OF k] thread_start_no_reset [OF s1(1) c0] by simp
  from loader_step.request [OF this s1(4) b(1)] have "loader_step i2c_sim flash_sim crc_sim s1 (s1\<lparr>srv := b\<rparr>)" .
  moreover have "wrq_conn b (next_pcb (srv s1)) \<noteq> None" using b(2) by (auto simp: receiving_def)
  ultimately show ?thesis using f k s1(1)
    by (intro exI [of _ s0] exI [of _ s1] exI [of _ "s1\<lparr>srv := b\<rparr>"]) simp
qed





end
