(* ===== verification/Hal_Eth.thy ===== *)
theory Hal_Eth
  imports Hal_Flash
begin

text \<open>
  Model of the transfer functions of \<^verbatim>\<open>src/src/stm32f7xx_hal_eth.c\<close>: the two descriptor
  rings the driver shares with the DMA of the Ethernet controller, sending and receiving frames
  over them, the interrupt handler and access to the PHY. A pointer to a descriptor is
  its index in the table, a pointer to a buffer the number of its row; a pointer outside the
  table is an access fault.
\<close>

unbundle bit_operations_syntax

section \<open>Descriptors and handle\<close>

record eth_desc =
  Status :: u32
  ControlBufferSize :: u32
  Buffer1Addr :: nat
  Buffer2NextDescAddr :: nat

datatype eth_hal_state = ETH_STATE_RESET | ETH_STATE_READY | ETH_STATE_BUSY | ETH_STATE_BUSY_TX
  | ETH_STATE_BUSY_WR | ETH_STATE_BUSY_RD | ETH_STATE_TIMEOUT

record eth_rx_info =
  FSRxDesc :: nat
  LSRxDesc :: "nat option"
  SegCount :: u32
  frame_length :: u32
  frame_buffer :: nat

datatype eth_write = DMASR u32 | DMATPDR u32 | DMARPDR u32 | DMATDLAR | DMARDLAR | MACCR u32 | DMAOMR u32
  | MACMIIAR u32 | MACMIIDR u32 | Eth_Delay u32

datatype eth_callback = RxCplt | TxCplt | Eth_Error

record eth =
  TxTab :: "eth_desc list"
  RxTab :: "eth_desc list"
  Tx_Buff :: "u8 list list"
  Rx_Buff :: "u8 list list"
  TxDesc :: nat
  RxDesc :: nat
  RxFrameInfos :: eth_rx_info
  eth_State :: eth_hal_state
  eth_Lock :: bool
  ChecksumMode :: u32
  RxMode :: u32
  PhyAddress :: u16
  eth_log :: "eth_write list"

definition ETH_TX_BUF_SIZE :: nat where "ETH_TX_BUF_SIZE = 1524"
definition ETH_RX_BUF_SIZE :: nat where "ETH_RX_BUF_SIZE = 1524"
definition ETH_RXBUFNB :: nat where "ETH_RXBUFNB = 4"
definition ETH_TXBUFNB :: nat where "ETH_TXBUFNB = 4"

definition ETH_DMATXDESC_OWN :: u32 where [reg_consts]: "ETH_DMATXDESC_OWN = 0x80000000"
definition ETH_DMATXDESC_LS :: u32 where [reg_consts]: "ETH_DMATXDESC_LS = 0x20000000"
definition ETH_DMATXDESC_FS :: u32 where [reg_consts]: "ETH_DMATXDESC_FS = 0x10000000"
definition ETH_DMATXDESC_TCH :: u32 where [reg_consts]: "ETH_DMATXDESC_TCH = 0x00100000"
definition ETH_DMATXDESC_CHECKSUMTCPUDPICMPFULL :: u32 where [reg_consts]: "ETH_DMATXDESC_CHECKSUMTCPUDPICMPFULL = 0x00C00000"
definition ETH_DMATXDESC_TBS1 :: u32 where [reg_consts]: "ETH_DMATXDESC_TBS1 = 0x1FFF"
definition ETH_DMARXDESC_OWN :: u32 where [reg_consts]: "ETH_DMARXDESC_OWN = 0x80000000"
definition ETH_DMARXDESC_FL :: u32 where [reg_consts]: "ETH_DMARXDESC_FL = 0x3FFF0000"
definition ETH_DMARXDESC_FS :: u32 where [reg_consts]: "ETH_DMARXDESC_FS = 0x200"
definition ETH_DMARXDESC_LS :: u32 where [reg_consts]: "ETH_DMARXDESC_LS = 0x100"
definition ETH_DMARXDESC_RCH :: u32 where [reg_consts]: "ETH_DMARXDESC_RCH = 0x4000"
definition ETH_DMARXDESC_DIC :: u32 where [reg_consts]: "ETH_DMARXDESC_DIC = 0x80000000"
definition ETH_CHECKSUM_BY_HARDWARE :: u32 where [reg_consts]: "ETH_CHECKSUM_BY_HARDWARE = 0"
definition ETH_RXINTERRUPT_MODE :: u32 where [reg_consts]: "ETH_RXINTERRUPT_MODE = 1"
definition ETH_DMASR_TBUS :: u32 where [reg_consts]: "ETH_DMASR_TBUS = 0x4"
definition ETH_DMASR_TUS :: u32 where [reg_consts]: "ETH_DMASR_TUS = 0x20"
definition ETH_DMASR_RBUS :: u32 where [reg_consts]: "ETH_DMASR_RBUS = 0x80"

definition eth_out :: "eth_write list \<Rightarrow> eth \<Rightarrow> eth" where
  "eth_out ws s = s\<lparr>eth_log := eth_log s @ ws\<rparr>"

text \<open>\<^verbatim>\<open>__HAL_LOCK\<close> with the early return, around a body that unlocks.\<close>

definition eth_locked :: "(eth \<Rightarrow> (HAL_Status \<times> eth) res) \<Rightarrow> eth \<Rightarrow> (HAL_Status \<times> eth) res" where
  "eth_locked body s = (if eth_Lock s then Inr (HAL_BUSY, s)
     else body (s\<lparr>eth_Lock := True, eth_State := ETH_STATE_BUSY\<rparr>))"

definition eth_ready :: "eth \<Rightarrow> eth" where
  "eth_ready s = s\<lparr>eth_State := ETH_STATE_READY, eth_Lock := False\<rparr>"

section \<open>Setting up the rings\<close>

definition tx_desc_init :: "u32 \<Rightarrow> nat \<Rightarrow> nat \<Rightarrow> eth_desc \<Rightarrow> eth_desc" where
  "tx_desc_init mode n i d = d\<lparr>
     Status := (if mode = ETH_CHECKSUM_BY_HARDWARE then ETH_DMATXDESC_TCH OR ETH_DMATXDESC_CHECKSUMTCPUDPICMPFULL
       else ETH_DMATXDESC_TCH),
     Buffer1Addr := i, Buffer2NextDescAddr := (if i < n - 1 then i + 1 else 0)\<rparr>"

definition HAL_ETH_DMATxDescListInit :: "nat \<Rightarrow> eth \<Rightarrow> (HAL_Status \<times> eth) res" where
  "HAL_ETH_DMATxDescListInit n = eth_locked (\<lambda>s.
     if length (TxTab s) < n then Inl Oob
     else Inr (HAL_OK, eth_ready (eth_out [DMATDLAR] (s\<lparr>TxDesc := 0,
       TxTab := map (\<lambda>i. if i < n then tx_desc_init (ChecksumMode s) n i (TxTab s ! i) else TxTab s ! i)
         [0..<length (TxTab s)]\<rparr>))))"

definition rx_desc_init :: "u32 \<Rightarrow> nat \<Rightarrow> nat \<Rightarrow> eth_desc \<Rightarrow> eth_desc" where
  "rx_desc_init mode n i d =
     (let c = ETH_DMARXDESC_RCH OR of_nat ETH_RX_BUF_SIZE
      in d\<lparr>Status := ETH_DMARXDESC_OWN,
           ControlBufferSize := (if mode = ETH_RXINTERRUPT_MODE then c AND NOT ETH_DMARXDESC_DIC else c),
           Buffer1Addr := i, Buffer2NextDescAddr := (if i < n - 1 then i + 1 else 0)\<rparr>)"

definition HAL_ETH_DMARxDescListInit :: "nat \<Rightarrow> eth \<Rightarrow> (HAL_Status \<times> eth) res" where
  "HAL_ETH_DMARxDescListInit n = eth_locked (\<lambda>s.
     if length (RxTab s) < n then Inl Oob
     else Inr (HAL_OK, eth_ready (eth_out [DMARDLAR] (s\<lparr>RxDesc := 0,
       RxTab := map (\<lambda>i. if i < n then rx_desc_init (RxMode s) n i (RxTab s ! i) else RxTab s ! i)
         [0..<length (RxTab s)]\<rparr>))))"

section \<open>Sending a frame\<close>

text \<open>The number of buffers a frame takes.\<close>

definition tx_bufcount :: "u32 \<Rightarrow> nat" where
  "tx_bufcount FrameLength =
     (let n = unat FrameLength in
      if n > ETH_TX_BUF_SIZE
      then n div ETH_TX_BUF_SIZE + (if n mod ETH_TX_BUF_SIZE \<noteq> 0 then 1 else 0) else 1)"

text \<open>Give the descriptor \<^verbatim>\<open>TxDesc\<close>, changed by \<open>f\<close>, to the DMA and go to the next one.\<close>

definition tx_give :: "(eth_desc \<Rightarrow> eth_desc) \<Rightarrow> eth \<Rightarrow> eth res" where
  "tx_give f s = res_bind (rd (TxTab s) (TxDesc s)) (\<lambda>d.
     let d1 = f d; d2 = d1\<lparr>Status := Status d1 OR ETH_DMATXDESC_OWN\<rparr>
     in Inr (s\<lparr>TxTab := (TxTab s)[TxDesc s := d2], TxDesc := Buffer2NextDescAddr d2\<rparr>))"

text \<open>The loop over several buffers, with \<open>n\<close> of \<open>bufcount\<close> turns left and the counter at \<open>i\<close>.\<close>

definition tx_segment :: "u32 \<Rightarrow> nat \<Rightarrow> nat \<Rightarrow> eth_desc \<Rightarrow> eth_desc" where
  "tx_segment FrameLength bufcount i d =
     (let st1 = Status d AND NOT (ETH_DMATXDESC_FS OR ETH_DMATXDESC_LS);
          st2 = (if i = 0 then st1 OR ETH_DMATXDESC_FS else st1);
          size1 = of_nat ETH_TX_BUF_SIZE AND ETH_DMATXDESC_TBS1
      in if i = bufcount - 1
         then d\<lparr>Status := st2 OR ETH_DMATXDESC_LS,
           ControlBufferSize := (FrameLength - of_nat (bufcount - 1) * of_nat ETH_TX_BUF_SIZE) AND ETH_DMATXDESC_TBS1\<rparr>
         else d\<lparr>Status := st2, ControlBufferSize := size1\<rparr>)"

fun tx_segments :: "u32 \<Rightarrow> nat \<Rightarrow> nat \<Rightarrow> nat \<Rightarrow> eth \<Rightarrow> eth res" where
  "tx_segments FrameLength bufcount 0 i s = Inr s"
| "tx_segments FrameLength bufcount (Suc n) i s =
     res_bind (tx_give (tx_segment FrameLength bufcount i) s) (tx_segments FrameLength bufcount n (Suc i))"

definition tx_single :: "u32 \<Rightarrow> eth_desc \<Rightarrow> eth_desc" where
  "tx_single FrameLength d = d\<lparr>Status := Status d OR (ETH_DMATXDESC_FS OR ETH_DMATXDESC_LS),
     ControlBufferSize := FrameLength AND ETH_DMATXDESC_TBS1\<rparr>"

text \<open>\<open>sr\<close> is the DMA status register as it is read at the end.\<close>

definition HAL_ETH_TransmitFrame :: "u32 \<Rightarrow> u32 \<Rightarrow> eth \<Rightarrow> (HAL_Status \<times> eth) res" where
  "HAL_ETH_TransmitFrame FrameLength sr = eth_locked (\<lambda>s.
     if FrameLength = 0 then Inr (HAL_ERROR, eth_ready s)
     else res_bind (rd (TxTab s) (TxDesc s)) (\<lambda>d.
       if Status d AND ETH_DMATXDESC_OWN \<noteq> 0
       then Inr (HAL_ERROR, s\<lparr>eth_State := ETH_STATE_BUSY_TX, eth_Lock := False\<rparr>)
       else res_bind
         (if tx_bufcount FrameLength = 1 then tx_give (tx_single FrameLength) s
          else tx_segments FrameLength (tx_bufcount FrameLength) (tx_bufcount FrameLength) 0 s) (\<lambda>s1.
         Inr (HAL_OK, eth_ready (if sr AND ETH_DMASR_TBUS \<noteq> 0
           then eth_out [DMASR ETH_DMASR_TBUS, DMATPDR 0] s1 else s1)))))"

section \<open>Receiving a frame\<close>

definition rx_next :: "eth_desc \<Rightarrow> (eth_rx_info \<Rightarrow> eth_rx_info) \<Rightarrow> eth \<Rightarrow> eth" where
  "rx_next d f s = s\<lparr>RxFrameInfos := f (RxFrameInfos s), RxDesc := Buffer2NextDescAddr d\<rparr>"

definition rx_frame_length :: "eth_desc \<Rightarrow> u32" where
  "rx_frame_length d = drop_bit 16 (Status d AND ETH_DMARXDESC_FL) - 4"

text \<open>What both functions do at the last segment of a frame.\<close>

definition rx_last_segment :: "eth_desc \<Rightarrow> eth \<Rightarrow> (HAL_Status \<times> eth) res" where
  "rx_last_segment d s =
     (let r = RxFrameInfos s; n = SegCount r + 1;
          r1 = r\<lparr>LSRxDesc := Some (RxDesc s), SegCount := n, FSRxDesc := (if n = 1 then RxDesc s else FSRxDesc r),
            frame_length := rx_frame_length d\<rparr>
      in res_bind (rd (RxTab s) (FSRxDesc r1)) (\<lambda>fs.
         Inr (HAL_OK, eth_ready (rx_next d (\<lambda>_. r1\<lparr>frame_buffer := Buffer1Addr fs\<rparr>) s))))"

definition HAL_ETH_GetReceivedFrame :: "eth \<Rightarrow> (HAL_Status \<times> eth) res" where
  "HAL_ETH_GetReceivedFrame = eth_locked (\<lambda>s.
     res_bind (rd (RxTab s) (RxDesc s)) (\<lambda>d.
     if Status d AND ETH_DMARXDESC_OWN = 0 then
       if Status d AND ETH_DMARXDESC_LS \<noteq> 0 then rx_last_segment d s
       else if Status d AND ETH_DMARXDESC_FS \<noteq> 0
       then Inr (HAL_ERROR, eth_ready (rx_next d (\<lambda>r. r\<lparr>FSRxDesc := RxDesc s, LSRxDesc := None, SegCount := 1\<rparr>) s))
       else Inr (HAL_ERROR, eth_ready (rx_next d (\<lambda>r. r\<lparr>SegCount := SegCount r + 1\<rparr>) s))
     else Inr (HAL_ERROR, eth_ready s)))"

text \<open>The scan, with \<open>n\<close> descriptors left to look at.\<close>

fun rx_scan :: "nat \<Rightarrow> eth \<Rightarrow> (HAL_Status \<times> eth) res" where
  "rx_scan 0 s = res_bind (rd (RxTab s) (RxDesc s)) (\<lambda>d. Inr (HAL_ERROR, eth_ready s))"
| "rx_scan (Suc n) s =
     res_bind (rd (RxTab s) (RxDesc s)) (\<lambda>d.
     if Status d AND ETH_DMARXDESC_OWN \<noteq> 0 then Inr (HAL_ERROR, eth_ready s)
     else if Status d AND (ETH_DMARXDESC_FS OR ETH_DMARXDESC_LS) = ETH_DMARXDESC_FS
     then rx_scan n (rx_next d (\<lambda>r. r\<lparr>FSRxDesc := RxDesc s, SegCount := 1\<rparr>) s)
     else if Status d AND (ETH_DMARXDESC_LS OR ETH_DMARXDESC_FS) = 0
     then rx_scan n (rx_next d (\<lambda>r. r\<lparr>SegCount := SegCount r + 1\<rparr>) s)
     else rx_last_segment d s)"

definition HAL_ETH_GetReceivedFrame_IT :: "eth \<Rightarrow> (HAL_Status \<times> eth) res" where
  "HAL_ETH_GetReceivedFrame_IT = eth_locked (rx_scan ETH_RXBUFNB)"

section \<open>The interrupt\<close>

text \<open>
  \<open>sr1\<close>, \<open>sr2\<close> and \<open>sr3\<close> are the status register at the three tests; the callbacks are returned in
  order. The lock is released whoever holds it.
\<close>

definition HAL_ETH_IRQHandler :: "u32 \<Rightarrow> u32 \<Rightarrow> u32 \<Rightarrow> eth \<Rightarrow> eth_callback list \<times> eth" where
  "HAL_ETH_IRQHandler sr1 sr2 sr3 s =
     (let (c1, s1) = (if sr1 AND 0x40 = 0x40 then ([RxCplt], eth_ready (eth_out [DMASR 0x40] s))
                      else if sr2 AND 0x1 = 0x1 then ([TxCplt], eth_ready (eth_out [DMASR 0x1] s))
                      else ([], s));
          s2 = eth_out [DMASR 0x10000] s1
      in if sr3 AND 0x8000 = 0x8000 then (c1 @ [Eth_Error], eth_ready (eth_out [DMASR 0x8000] s2))
         else (c1, s2))"

section \<open>The PHY\<close>

definition PHY_READ_TO :: u32 where [reg_consts]: "PHY_READ_TO = 0xFFFF"
definition PHY_WRITE_TO :: u32 where [reg_consts]: "PHY_WRITE_TO = 0xFFFF"

text \<open>The wait for the busy bit; each turn reads the clock and then the register.\<close>

fun mii_wait :: "u32 \<Rightarrow> u32 \<Rightarrow> u32 \<Rightarrow> (u32 \<times> u32) list \<Rightarrow> HAL_Status res" where
  "mii_wait limit tickstart tmpreg polls =
     (if tmpreg AND 1 \<noteq> 1 then Inr HAL_OK
      else case polls of [] \<Rightarrow> Inl Hang
      | (now, v) # rest \<Rightarrow> if now - tickstart > limit then Inr HAL_TIMEOUT else mii_wait limit tickstart v rest)"

definition mii_address :: "u16 \<Rightarrow> u16 \<Rightarrow> bool \<Rightarrow> u32 \<Rightarrow> u32" where
  "mii_address phy reg wr miiar =
     (let t = miiar AND NOT 0xFFFFFFE3 OR (push_bit 11 (ucast phy) AND 0xF800) OR (push_bit 6 (ucast reg) AND 0x7C0)
      in (if wr then t OR 2 else t AND NOT 2) OR 1)"

text \<open>\<open>miiar\<close> and \<open>miidr\<close> are the MII registers as they are read; the result is the value read, if any.\<close>

definition HAL_ETH_ReadPHYRegister :: "u16 \<Rightarrow> u32 \<Rightarrow> u32 \<Rightarrow> (u32 \<times> u32) list \<Rightarrow> u32 \<Rightarrow> eth
    \<Rightarrow> (HAL_Status \<times> u32 option \<times> eth) res" where
  "HAL_ETH_ReadPHYRegister PHYReg miiar tickstart polls miidr s =
     (if eth_State s = ETH_STATE_BUSY_RD then Inr (HAL_BUSY, None, s)
      else let a = mii_address (PhyAddress s) PHYReg False miiar; s1 = eth_out [MACMIIAR a] (s\<lparr>eth_State := ETH_STATE_BUSY_RD\<rparr>)
        in res_bind (mii_wait PHY_READ_TO tickstart a polls) (\<lambda>st.
           if st = HAL_TIMEOUT then Inr (HAL_TIMEOUT, None, eth_ready s1)
           else Inr (HAL_OK, Some (ucast (ucast miidr :: u16)), s1\<lparr>eth_State := ETH_STATE_READY\<rparr>)))"

definition HAL_ETH_WritePHYRegister :: "u16 \<Rightarrow> u32 \<Rightarrow> u32 \<Rightarrow> u32 \<Rightarrow> (u32 \<times> u32) list \<Rightarrow> eth \<Rightarrow> (HAL_Status \<times> eth) res" where
  "HAL_ETH_WritePHYRegister PHYReg RegValue miiar tickstart polls s =
     (if eth_State s = ETH_STATE_BUSY_WR then Inr (HAL_BUSY, s)
      else let a = mii_address (PhyAddress s) PHYReg True miiar;
               s1 = eth_out [MACMIIDR (ucast (ucast RegValue :: u16)), MACMIIAR a] (s\<lparr>eth_State := ETH_STATE_BUSY_WR\<rparr>)
        in res_bind (mii_wait PHY_WRITE_TO tickstart a polls) (\<lambda>st.
           if st = HAL_TIMEOUT then Inr (HAL_TIMEOUT, eth_ready s1)
           else Inr (HAL_OK, s1\<lparr>eth_State := ETH_STATE_READY\<rparr>)))"

declare mii_wait.simps [simp del]

end
