(* ===== verification/Hal_Cortex.thy ===== *)
theory Hal_Cortex
  imports Prelude
begin

text \<open>
  Model of \<^verbatim>\<open>src/src/stm32f7xx_hal_cortex.c\<close> with the functions of
  \<^verbatim>\<open>src/inc/core_cm7.h\<close> it calls: interrupt controller, system timer and memory
  protection unit. The registers behave as the architecture documents: writing ones to the enable
  and pending registers sets or clears bits, and the reset and interrupt control register takes a
  write only with its key.
\<close>

unbundle bit_operations_syntax

section \<open>State\<close>

text \<open>An array write in C: the index must lie inside the array.\<close>

definition wr :: "'a list \<Rightarrow> nat \<Rightarrow> 'a \<Rightarrow> 'a list res" where
  "wr xs i v = (if i < length xs then Inr (xs[i := v]) else Inl Oob)"

record core_regs =
  AIRCR :: u32
  IP :: "u8 list"
  SHPR :: "u8 list"
  ISER :: "u32 list"
  ISPR :: "u32 list"
  IABR :: "u32 list"
  SysTick_LOAD :: u32
  SysTick_VAL :: u32
  SysTick_CTRL :: u32
  SHCSR :: u32
  MPU_CTRL :: u32
  MPU_RNR :: u32
  MPU_RBAR :: u32
  MPU_RASR :: u32

text \<open>The sizes of the register arrays.\<close>

definition core_wf :: "core_regs \<Rightarrow> bool" where
  "core_wf s \<longleftrightarrow> length (IP s) = 240 \<and> length (SHPR s) = 12 \<and> length (ISER s) = 8 \<and> length (ISPR s) = 8
     \<and> length (IABR s) = 8"

definition NVIC_PRIO_BITS :: nat where [reg_consts]: "NVIC_PRIO_BITS = 4"
definition SysTick_LOAD_RELOAD_Msk :: u32 where [reg_consts]: "SysTick_LOAD_RELOAD_Msk = 0xFFFFFF"
definition SYSTICK_CLKSOURCE_HCLK :: u32 where [reg_consts]: "SYSTICK_CLKSOURCE_HCLK = 4"
definition SCB_SHCSR_MEMFAULTENA_Msk :: u32 where [reg_consts]: "SCB_SHCSR_MEMFAULTENA_Msk = 0x10000"
definition SysTick_IRQn :: int where [reg_consts]: "SysTick_IRQn = - 1"

section \<open>Priorities\<close>

definition wr_AIRCR :: "u32 \<Rightarrow> core_regs \<Rightarrow> core_regs" where
  "wr_AIRCR v s = (if drop_bit 16 v = 0x5FA then s\<lparr>AIRCR := v\<rparr> else s)"

definition NVIC_SetPriorityGrouping :: "u32 \<Rightarrow> core_regs \<Rightarrow> core_regs" where
  "NVIC_SetPriorityGrouping PriorityGroup s =
     (let PriorityGroupTmp = PriorityGroup AND 7; reg_value = AIRCR s AND NOT (0xFFFF0000 OR 0x700)
      in wr_AIRCR (reg_value OR push_bit 16 0x5FA OR push_bit 8 PriorityGroupTmp) s)"

definition NVIC_GetPriorityGrouping :: "core_regs \<Rightarrow> u32" where
  "NVIC_GetPriorityGrouping s = drop_bit 8 (AIRCR s AND 0x700)"

definition preempt_bits :: "u32 \<Rightarrow> u32" where
  "preempt_bits g = (if 7 - g > of_nat NVIC_PRIO_BITS then of_nat NVIC_PRIO_BITS else 7 - g)"

definition sub_bits :: "u32 \<Rightarrow> u32" where
  "sub_bits g = (if g + of_nat NVIC_PRIO_BITS < 7 then 0 else (g - 7) + of_nat NVIC_PRIO_BITS)"

definition low_mask :: "u32 \<Rightarrow> u32" where
  "low_mask n = push_bit (unat n) 1 - 1"

definition NVIC_EncodePriority :: "u32 \<Rightarrow> u32 \<Rightarrow> u32 \<Rightarrow> u32" where
  "NVIC_EncodePriority PriorityGroup PreemptPriority SubPriority =
     (let g = PriorityGroup AND 7 in
      push_bit (unat (sub_bits g)) (PreemptPriority AND low_mask (preempt_bits g)) OR (SubPriority AND low_mask (sub_bits g)))"

definition NVIC_DecodePriority :: "u32 \<Rightarrow> u32 \<Rightarrow> u32 \<times> u32" where
  "NVIC_DecodePriority Priority PriorityGroup =
     (let g = PriorityGroup AND 7 in
      (drop_bit (unat (sub_bits g)) Priority AND low_mask (preempt_bits g), Priority AND low_mask (sub_bits g)))"

text \<open>The index into \<open>SHPR\<close> is computed in 32 bits; for the exceptions without a priority it lies
  far outside.\<close>

definition shpr_index :: "int \<Rightarrow> nat" where
  "shpr_index IRQn = unat ((of_int IRQn AND 0xF) - 4 :: u32)"

definition NVIC_SetPriority :: "int \<Rightarrow> u32 \<Rightarrow> core_regs \<Rightarrow> core_regs res" where
  "NVIC_SetPriority IRQn priority s =
     (let v = ucast (push_bit (8 - NVIC_PRIO_BITS) priority AND 0xFF) in
      if IRQn \<ge> 0 then res_bind (wr (IP s) (nat IRQn) v) (\<lambda>a. Inr (s\<lparr>IP := a\<rparr>))
      else res_bind (wr (SHPR s) (shpr_index IRQn) v) (\<lambda>a. Inr (s\<lparr>SHPR := a\<rparr>)))"

definition NVIC_GetPriority :: "int \<Rightarrow> core_regs \<Rightarrow> u32 res" where
  "NVIC_GetPriority IRQn s =
     res_bind (if IRQn \<ge> 0 then rd (IP s) (nat IRQn) else rd (SHPR s) (shpr_index IRQn))
       (\<lambda>v. Inr (drop_bit (8 - NVIC_PRIO_BITS) (ucast v)))"

definition HAL_NVIC_SetPriorityGrouping :: "u32 \<Rightarrow> core_regs \<Rightarrow> core_regs" where
  "HAL_NVIC_SetPriorityGrouping PriorityGroup s = NVIC_SetPriorityGrouping PriorityGroup s"

definition HAL_NVIC_GetPriorityGrouping :: "core_regs \<Rightarrow> u32" where
  "HAL_NVIC_GetPriorityGrouping s = NVIC_GetPriorityGrouping s"

definition HAL_NVIC_SetPriority :: "int \<Rightarrow> u32 \<Rightarrow> u32 \<Rightarrow> core_regs \<Rightarrow> core_regs res" where
  "HAL_NVIC_SetPriority IRQn PreemptPriority SubPriority s =
     NVIC_SetPriority IRQn (NVIC_EncodePriority (NVIC_GetPriorityGrouping s) PreemptPriority SubPriority) s"

definition HAL_NVIC_GetPriority :: "int \<Rightarrow> u32 \<Rightarrow> core_regs \<Rightarrow> (u32 \<times> u32) res" where
  "HAL_NVIC_GetPriority IRQn PriorityGroup s =
     res_bind (NVIC_GetPriority IRQn s) (\<lambda>p. Inr (NVIC_DecodePriority p PriorityGroup))"

section \<open>Enabling and pending\<close>

definition irq_bit :: "int \<Rightarrow> u32" where
  "irq_bit IRQn = push_bit (nat IRQn mod 32) 1"

definition HAL_NVIC_EnableIRQ :: "int \<Rightarrow> core_regs \<Rightarrow> core_regs res" where
  "HAL_NVIC_EnableIRQ IRQn s =
     (if IRQn \<ge> 0 then
        res_bind (rd (ISER s) (nat IRQn div 32)) (\<lambda>r.
        Inr (s\<lparr>ISER := (ISER s)[nat IRQn div 32 := r OR irq_bit IRQn]\<rparr>))
      else Inr s)"

definition HAL_NVIC_DisableIRQ :: "int \<Rightarrow> core_regs \<Rightarrow> core_regs res" where
  "HAL_NVIC_DisableIRQ IRQn s =
     (if IRQn \<ge> 0 then
        res_bind (rd (ISER s) (nat IRQn div 32)) (\<lambda>r.
        Inr (s\<lparr>ISER := (ISER s)[nat IRQn div 32 := r AND NOT (irq_bit IRQn)]\<rparr>))
      else Inr s)"

definition HAL_NVIC_SetPendingIRQ :: "int \<Rightarrow> core_regs \<Rightarrow> core_regs res" where
  "HAL_NVIC_SetPendingIRQ IRQn s =
     (if IRQn \<ge> 0 then
        res_bind (rd (ISPR s) (nat IRQn div 32)) (\<lambda>r.
        Inr (s\<lparr>ISPR := (ISPR s)[nat IRQn div 32 := r OR irq_bit IRQn]\<rparr>))
      else Inr s)"

definition HAL_NVIC_ClearPendingIRQ :: "int \<Rightarrow> core_regs \<Rightarrow> core_regs res" where
  "HAL_NVIC_ClearPendingIRQ IRQn s =
     (if IRQn \<ge> 0 then
        res_bind (rd (ISPR s) (nat IRQn div 32)) (\<lambda>r.
        Inr (s\<lparr>ISPR := (ISPR s)[nat IRQn div 32 := r AND NOT (irq_bit IRQn)]\<rparr>))
      else Inr s)"

definition irq_test :: "u32 list \<Rightarrow> int \<Rightarrow> u32 res" where
  "irq_test regs IRQn =
     (if IRQn \<ge> 0 then res_bind (rd regs (nat IRQn div 32)) (\<lambda>r. Inr (if r AND irq_bit IRQn \<noteq> 0 then 1 else 0))
      else Inr 0)"

definition HAL_NVIC_GetPendingIRQ :: "int \<Rightarrow> core_regs \<Rightarrow> u32 res" where
  "HAL_NVIC_GetPendingIRQ IRQn s = irq_test (ISPR s) IRQn"

definition HAL_NVIC_GetActive :: "int \<Rightarrow> core_regs \<Rightarrow> u32 res" where
  "HAL_NVIC_GetActive IRQn s = irq_test (IABR s) IRQn"

definition NVIC_GetEnableIRQ :: "int \<Rightarrow> core_regs \<Rightarrow> u32 res" where
  "NVIC_GetEnableIRQ IRQn s = irq_test (ISER s) IRQn"

section \<open>System timer\<close>

definition SysTick_Config :: "u32 \<Rightarrow> core_regs \<Rightarrow> (u32 \<times> core_regs) res" where
  "SysTick_Config ticks s =
     (if ticks - 1 > SysTick_LOAD_RELOAD_Msk then Inr (1, s)
      else res_bind (NVIC_SetPriority SysTick_IRQn (push_bit NVIC_PRIO_BITS 1 - 1) (s\<lparr>SysTick_LOAD := ticks - 1\<rparr>)) (\<lambda>s1.
        Inr (0, s1\<lparr>SysTick_VAL := 0, SysTick_CTRL := 7\<rparr>)))"

definition HAL_SYSTICK_Config :: "u32 \<Rightarrow> core_regs \<Rightarrow> (u32 \<times> core_regs) res" where
  "HAL_SYSTICK_Config TicksNumb s = SysTick_Config TicksNumb s"

definition HAL_SYSTICK_CLKSourceConfig :: "u32 \<Rightarrow> core_regs \<Rightarrow> core_regs" where
  "HAL_SYSTICK_CLKSourceConfig CLKSource s =
     (if CLKSource = SYSTICK_CLKSOURCE_HCLK then s\<lparr>SysTick_CTRL := SysTick_CTRL s OR SYSTICK_CLKSOURCE_HCLK\<rparr>
      else s\<lparr>SysTick_CTRL := SysTick_CTRL s AND NOT SYSTICK_CLKSOURCE_HCLK\<rparr>)"

section \<open>Memory protection unit\<close>

record MPU_Region_InitTypeDef =
  mpu_Enable :: u8
  mpu_Number :: u8
  mpu_BaseAddress :: u32
  mpu_Size :: u8
  mpu_SubRegionDisable :: u8
  mpu_TypeExtField :: u8
  mpu_AccessPermission :: u8
  mpu_DisableExec :: u8
  mpu_IsShareable :: u8
  mpu_IsCacheable :: u8
  mpu_IsBufferable :: u8

definition HAL_MPU_Disable :: "core_regs \<Rightarrow> core_regs" where
  "HAL_MPU_Disable s = s\<lparr>SHCSR := SHCSR s AND NOT SCB_SHCSR_MEMFAULTENA_Msk, MPU_CTRL := 0\<rparr>"

definition HAL_MPU_Enable :: "u32 \<Rightarrow> core_regs \<Rightarrow> core_regs" where
  "HAL_MPU_Enable MPU_Control s =
     s\<lparr>MPU_CTRL := MPU_Control OR 1, SHCSR := SHCSR s OR SCB_SHCSR_MEMFAULTENA_Msk\<rparr>"

definition HAL_MPU_ConfigRegion :: "MPU_Region_InitTypeDef \<Rightarrow> core_regs \<Rightarrow> core_regs" where
  "HAL_MPU_ConfigRegion i s =
     (let s1 = s\<lparr>MPU_RNR := ucast (mpu_Number i)\<rparr> in
      if mpu_Enable i \<noteq> 0 then
        s1\<lparr>MPU_RBAR := mpu_BaseAddress i,
           MPU_RASR := push_bit 28 (ucast (mpu_DisableExec i)) OR push_bit 24 (ucast (mpu_AccessPermission i))
             OR push_bit 19 (ucast (mpu_TypeExtField i)) OR push_bit 18 (ucast (mpu_IsShareable i))
             OR push_bit 17 (ucast (mpu_IsCacheable i)) OR push_bit 16 (ucast (mpu_IsBufferable i))
             OR push_bit 8 (ucast (mpu_SubRegionDisable i)) OR push_bit 1 (ucast (mpu_Size i))
             OR push_bit 0 (ucast (mpu_Enable i))\<rparr>
      else s1\<lparr>MPU_RBAR := 0, MPU_RASR := 0\<rparr>)"

section \<open>Encoding of priorities\<close>

text \<open>A priority group splits the four implemented bits.\<close>

lemma group_cases:
  obtains k :: nat where "(g :: u32) AND 7 = of_nat k" "k \<in> {0, 1, 2, 3, 4, 5, 6, 7}"
proof
  have "g AND 7 < 8" using and_mask_less_size [of 3 g] by (simp add: mask_eq_exp_minus_1 word_size)
  then have "unat (g AND 7) < 8" by (simp add: word_less_nat_alt)
  then show "unat (g AND 7) \<in> {0, 1, 2, 3, 4, 5, 6, 7}" by (simp; presburger)
qed simp

lemma group_bits: "unat (preempt_bits (g AND 7)) + unat (sub_bits (g AND 7)) \<le> 4"
  by (rule group_cases [of g]) (auto simp: preempt_bits_def sub_bits_def reg_consts)

lemma low_mask_eq: "low_mask n = mask (unat n)"
  by (simp add: low_mask_def mask_eq_exp_minus_1)

lemma bit_encode:
  "bit (NVIC_EncodePriority g p s) n \<longleftrightarrow> n < 4 \<and>
     (if n < unat (sub_bits (g AND 7)) then bit s n
      else n < unat (preempt_bits (g AND 7)) + unat (sub_bits (g AND 7)) \<and> bit p (n - unat (sub_bits (g AND 7))))"
  using group_bits [of g]
  by (auto simp: NVIC_EncodePriority_def Let_def low_mask_eq bit_simps)

lemma decode_encode:
  "NVIC_DecodePriority (NVIC_EncodePriority g p s) g
     = (p AND low_mask (preempt_bits (g AND 7)), s AND low_mask (sub_bits (g AND 7)))"
proof -
  let ?e = "NVIC_EncodePriority g p s" and ?pb = "unat (preempt_bits (g AND 7))" and ?sb = "unat (sub_bits (g AND 7))"
  have "drop_bit ?sb ?e AND mask ?pb = p AND mask ?pb"
    using group_bits [of g] by (intro bit_word_eqI) (auto simp: bit_encode bit_and_iff bit_drop_bit_eq bit_mask_iff)
  moreover have "?e AND mask ?sb = s AND mask ?sb"
    using group_bits [of g] by (intro bit_word_eqI) (auto simp: bit_encode bit_and_iff bit_mask_iff)
  ultimately show ?thesis by (simp add: NVIC_DecodePriority_def Let_def low_mask_eq)
qed

lemma priority_register: "drop_bit 4 (ucast (ucast (push_bit 4 (NVIC_EncodePriority g p s) AND 0xFF :: u32) :: u8)) = NVIC_EncodePriority g p s"
proof -
  have f: "(0xFF :: u32) = mask 8" by (simp add: mask_eq_exp_minus_1)
  show ?thesis unfolding f by (rule bit_word_eqI) (auto simp: bit_simps bit_encode)
qed

text \<open>The index of an exception with a priority.\<close>

lemma shpr_index_in: "- 12 \<le> n \<Longrightarrow> n < 0 \<Longrightarrow> shpr_index n = nat (n + 12)"
proof -
  assume "- 12 \<le> n" "n < 0"
  then have "n \<in> {-12, -11, -10, -9, -8, -7, -6, -5, -4, -3, -2, -1}" by (simp; presburger)
  then show ?thesis by (auto simp: shpr_index_def)
qed

lemma set_get_priority:
  assumes "core_wf s" "- 12 \<le> n" "n < 240"
  shows "\<exists>s'. HAL_NVIC_SetPriority n p q s = Inr s' \<and> core_wf s' \<and> AIRCR s' = AIRCR s
    \<and> NVIC_GetPriority n s' = Inr (NVIC_EncodePriority (NVIC_GetPriorityGrouping s) p q)
    \<and> (\<forall>m. - 12 \<le> m \<longrightarrow> m < 240 \<longrightarrow> m \<noteq> n \<longrightarrow> NVIC_GetPriority m s' = NVIC_GetPriority m s)"
proof (cases "n \<ge> 0")
  case True
  then show ?thesis
    using assms
    by (auto simp: HAL_NVIC_SetPriority_def NVIC_SetPriority_def NVIC_GetPriority_def wr_def core_wf_def NVIC_PRIO_BITS_def
        priority_register nth_list_update)
next
  case False
  then show ?thesis
    using assms
    by (auto simp: HAL_NVIC_SetPriority_def NVIC_SetPriority_def NVIC_GetPriority_def wr_def core_wf_def NVIC_PRIO_BITS_def
        priority_register nth_list_update shpr_index_in)
qed

lemma and_low_mask: "(p :: u32) < 2 ^ unat n \<Longrightarrow> p AND low_mask n = p"
  by (simp add: low_mask_eq flip: take_bit_eq_mask) (metis less_mask_eq take_bit_eq_mask)

text \<open>The priority group is kept by a write with the key.\<close>

lemma set_grouping: "NVIC_GetPriorityGrouping (NVIC_SetPriorityGrouping g s) = g AND 7"
proof -
  let ?a = "AIRCR s AND NOT (0xFFFF0000 OR 0x700)"
  let ?r = "?a OR push_bit 16 0x5FA OR push_bit 8 (g AND 7)"
  have m: "(7 :: u32) = mask 3" "(0x700 :: u32) = push_bit 8 (mask 3)" "(0xFFFF0000 :: u32) = push_bit 16 (mask 16)"
    by (simp_all add: mask_eq_exp_minus_1)
  have "drop_bit 16 ?a = 0" "drop_bit 16 (push_bit 8 (g AND 7)) = 0"
    unfolding m by (rule bit_word_eqI, auto simp: bit_simps simp del: push_bit_mask_eq)+
  then have "drop_bit 16 ?r = 0x5FA" by simp
  moreover have "drop_bit 8 (?r AND 0x700) = g AND 7"
  proof -
    have "?a AND 0x700 = 0" "push_bit 8 (g AND 7) AND 0x700 = push_bit 8 (g AND 7)"
      unfolding m by (rule bit_word_eqI, auto simp: bit_simps)+
    then have "?r AND 0x700 = push_bit 8 (g AND 7)" by (simp add: bit.conj_disj_distrib2)
    moreover have "drop_bit 8 (push_bit 8 (g AND 7)) = g AND 7"
      unfolding m by (rule bit_word_eqI) (auto simp: bit_simps)
    ultimately show ?thesis by simp
  qed
  ultimately show ?thesis by (simp add: NVIC_SetPriorityGrouping_def NVIC_GetPriorityGrouping_def wr_AIRCR_def Let_def)
qed

text \<open>Enabling and disabling.\<close>

lemma irq_test_bit:
  "0 \<le> n \<Longrightarrow> n < 240 \<Longrightarrow> length regs = 8 \<Longrightarrow>
   irq_test regs n = Inr (if bit (regs ! (nat n div 32)) (nat n mod 32) then 1 else 0)"
  by (simp add: irq_test_def irq_bit_def and_exp_eq_0_iff_not_bit)

lemma irq_index_eq: "0 \<le> n \<Longrightarrow> 0 \<le> m \<Longrightarrow> n = m \<longleftrightarrow> nat n div 32 = nat m div 32 \<and> nat n mod 32 = nat m mod 32"
  by (metis div_mult_mod_eq nat_eq_iff2)

lemma enable_irq:
  assumes "core_wf s" "0 \<le> n" "n < 240"
  shows "\<exists>s'. HAL_NVIC_EnableIRQ n s = Inr s' \<and> core_wf s' \<and> IP s' = IP s \<and> AIRCR s' = AIRCR s
    \<and> (\<forall>m. 0 \<le> m \<longrightarrow> m < 240 \<longrightarrow> NVIC_GetEnableIRQ m s' = (if m = n then Inr 1 else NVIC_GetEnableIRQ m s))"
proof -
  let ?s = "s\<lparr>ISER := (ISER s)[nat n div 32 := ISER s ! (nat n div 32) OR irq_bit n]\<rparr>"
  have i: "nat n div 32 < 8" "length (ISER s) = 8" using assms by (auto simp: core_wf_def)
  have "NVIC_GetEnableIRQ m ?s = (if m = n then Inr 1 else NVIC_GetEnableIRQ m s)" if "0 \<le> m" "m < 240" for m
    using that i irq_index_eq [OF that(1) assms(2)]
    by (auto simp: NVIC_GetEnableIRQ_def irq_test_bit nth_list_update irq_bit_def bit_or_iff bit_exp_iff)
  with assms i show ?thesis
    by (intro exI [of _ ?s]) (simp add: HAL_NVIC_EnableIRQ_def core_wf_def)
qed

lemma disable_irq:
  assumes "core_wf s" "0 \<le> n" "n < 240"
  shows "\<exists>s'. HAL_NVIC_DisableIRQ n s = Inr s' \<and> core_wf s' \<and> IP s' = IP s \<and> AIRCR s' = AIRCR s
    \<and> (\<forall>m. 0 \<le> m \<longrightarrow> m < 240 \<longrightarrow> NVIC_GetEnableIRQ m s' = (if m = n then Inr 0 else NVIC_GetEnableIRQ m s))"
proof -
  let ?s = "s\<lparr>ISER := (ISER s)[nat n div 32 := ISER s ! (nat n div 32) AND NOT (irq_bit n)]\<rparr>"
  have i: "nat n div 32 < 8" "length (ISER s) = 8" using assms by (auto simp: core_wf_def)
  have "NVIC_GetEnableIRQ m ?s = (if m = n then Inr 0 else NVIC_GetEnableIRQ m s)" if "0 \<le> m" "m < 240" for m
    using that i irq_index_eq [OF that(1) assms(2)]
    by (auto simp: NVIC_GetEnableIRQ_def irq_test_bit nth_list_update irq_bit_def bit_and_iff bit_not_iff bit_exp_iff)
  with assms i show ?thesis
    by (intro exI [of _ ?s]) (simp add: HAL_NVIC_DisableIRQ_def core_wf_def)
qed

text \<open>The system timer.\<close>

lemma SysTick_Config_ok:
  assumes "core_wf s" "ticks - 1 \<le> 0xFFFFFF"
  shows "\<exists>s'. SysTick_Config ticks s = Inr (0, s') \<and> core_wf s' \<and> SysTick_LOAD s' = ticks - 1 \<and> SysTick_CTRL s' = 7
    \<and> AIRCR s' = AIRCR s"
  using assms shpr_index_in [of "- 1"]
  by (auto simp: SysTick_Config_def NVIC_SetPriority_def wr_def core_wf_def reg_consts)

section \<open>Properties\<close>

text \<open>
  Interrupt priorities. For every priority grouping and every preemption and
  subpriority that fit it, \<^verbatim>\<open>HAL_NVIC_SetPriority\<close> of an interrupt or of an exception with
  a priority makes \<^verbatim>\<open>HAL_NVIC_GetPriority\<close> return exactly these two numbers, and no
  other priority changes.
\<close>

lemma nvic_priority_roundtrip:
  assumes "core_wf s" and "- 12 \<le> n" and "n < 240" and "g = HAL_NVIC_GetPriorityGrouping s"
    and "p < 2 ^ unat (preempt_bits (g AND 7))" and "q < 2 ^ unat (sub_bits (g AND 7))"
  shows "\<exists>s'. HAL_NVIC_SetPriority n p q s = Inr s' \<and> HAL_NVIC_GetPriority n g s' = Inr (p, q)
    \<and> (\<forall>m h. - 12 \<le> m \<longrightarrow> m < 240 \<longrightarrow> m \<noteq> n \<longrightarrow> HAL_NVIC_GetPriority m h s' = HAL_NVIC_GetPriority m h s)"
  using set_get_priority [OF assms(1-3), of p q] assms(4-6)
  by (auto simp: HAL_NVIC_GetPriority_def HAL_NVIC_GetPriorityGrouping_def decode_encode and_low_mask)

text \<open>The registers after reset, for the witnesses.\<close>

definition core_reset :: core_regs where
  "core_reset = \<lparr>AIRCR = 0, IP = replicate 240 0, SHPR = replicate 12 0, ISER = replicate 8 0, ISPR = replicate 8 0,
     IABR = replicate 8 0, SysTick_LOAD = 0, SysTick_VAL = 0, SysTick_CTRL = 0, SHCSR = 0, MPU_CTRL = 0, MPU_RNR = 0,
     MPU_RBAR = 0, MPU_RASR = 0\<rparr>"

lemma core_wf_reset [simp]: "core_wf core_reset"
  by (simp add: core_wf_def core_reset_def)

end
