(* ===== verification/Hal_Eth_Init.thy ===== *)
theory Hal_Eth_Init
  imports Hal_Eth Hal_Gpio Hal_Cortex
begin

text \<open>
  Model of the set-up functions of \<^verbatim>\<open>src/src/stm32f7xx_hal_eth.c\<close>: reset of the controller,
  the dialogue with the PHY, configuration of MAC and DMA, start and stop, and the board's part of
  it, \<^verbatim>\<open>HAL_ETH_MspInit\<close> and \<^verbatim>\<open>HAL_ETH_MspDeInit\<close> of
  \<^verbatim>\<open>src/src/ethernetif.c\<close>, on the models of the pins and of the interrupt controller.
  The registers of the controller keep what is written to them; what the program polls (clock,
  reset and busy bits, answers of the PHY) comes from the environment.
\<close>

unbundle bit_operations_syntax

section \<open>State\<close>

record mac_regs =
  r_MACCR :: u32
  r_MACFFR :: u32
  r_MACHTHR :: u32
  r_MACHTLR :: u32
  r_MACMIIAR :: u32
  r_MACFCR :: u32
  r_MACVLANTR :: u32
  r_MACAHR :: "u32 \<Rightarrow> u32"
  r_MACALR :: "u32 \<Rightarrow> u32"
  r_DMABMR :: u32
  r_DMAOMR :: u32
  r_DMAIER :: u32

text \<open>The handle with its \<^verbatim>\<open>Init\<close> part, and the registers the functions reach.\<close>

record eth_sys =
  heth :: eth
  Instance :: u32
  AutoNegotiation :: u32
  EthSpeed :: u32
  DuplexMode :: u32
  MediaInterface :: u32
  MACAddr :: "u8 list"
  mac :: mac_regs
  eth_gpio :: gpio_hw
  eth_core :: core_regs
  AHB1ENR :: u32
  APB2ENR :: u32
  SYSCFG_PMC :: u32

record ETH_MACInitTypeDef =
  Watchdog :: u32
  Jabber :: u32
  InterFrameGap :: u32
  CarrierSense :: u32
  ReceiveOwn :: u32
  LoopbackMode :: u32
  ChecksumOffload :: u32
  RetryTransmission :: u32
  AutomaticPadCRCStrip :: u32
  BackOffLimit :: u32
  DeferralCheck :: u32
  ReceiveAll :: u32
  SourceAddrFilter :: u32
  PassControlFrames :: u32
  BroadcastFramesReception :: u32
  DestinationAddrFilter :: u32
  PromiscuousMode :: u32
  MulticastFramesFilter :: u32
  UnicastFramesFilter :: u32
  HashTableHigh :: u32
  HashTableLow :: u32
  PauseTime :: u32
  ZeroQuantaPause :: u32
  PauseLowThreshold :: u32
  UnicastPauseFrameDetect :: u32
  ReceiveFlowControl :: u32
  TransmitFlowControl :: u32
  VLANTagComparison :: u32
  VLANTagIdentifier :: u32

record ETH_DMAInitTypeDef =
  DropTCPIPChecksumErrorFrame :: u32
  ReceiveStoreForward :: u32
  FlushReceivedFrame :: u32
  TransmitStoreForward :: u32
  TransmitThresholdControl :: u32
  ForwardErrorFrames :: u32
  ForwardUndersizedGoodFrames :: u32
  ReceiveThresholdControl :: u32
  SecondFrameOperate :: u32
  AddressAlignedBeats :: u32
  FixedBurst :: u32
  RxDMABurstLength :: u32
  TxDMABurstLength :: u32
  EnhancedDescriptorFormat :: u32
  DescriptorSkipLength :: u32
  DMAArbitration :: u32

definition ETH_BASE :: u32 where [reg_consts]: "ETH_BASE = 0x40028000"
definition ETH_IRQn :: int where [reg_consts]: "ETH_IRQn = 61"
definition ETH_REG_WRITE_DELAY :: u32 where [reg_consts]: "ETH_REG_WRITE_DELAY = 1"
definition ETH_MACMIIAR_CR_MASK :: u32 where [reg_consts]: "ETH_MACMIIAR_CR_MASK = 0xFFFFFFE3"
definition ETH_MACCR_CLEAR_MASK :: u32 where [reg_consts]: "ETH_MACCR_CLEAR_MASK = 0xFF20810F"
definition ETH_MACFCR_CLEAR_MASK :: u32 where [reg_consts]: "ETH_MACFCR_CLEAR_MASK = 0xFF41"
definition ETH_DMAOMR_CLEAR_MASK :: u32 where [reg_consts]: "ETH_DMAOMR_CLEAR_MASK = 0xF8DE3F23"
definition ETH_MACCR_TE :: u32 where [reg_consts]: "ETH_MACCR_TE = 8"
definition ETH_MACCR_RE :: u32 where [reg_consts]: "ETH_MACCR_RE = 4"
definition ETH_DMAOMR_ST :: u32 where [reg_consts]: "ETH_DMAOMR_ST = 0x2000"
definition ETH_DMAOMR_SR :: u32 where [reg_consts]: "ETH_DMAOMR_SR = 2"
definition ETH_DMAOMR_FTF :: u32 where [reg_consts]: "ETH_DMAOMR_FTF = 0x100000"
definition ETH_DMABMR_SR :: u32 where [reg_consts]: "ETH_DMABMR_SR = 1"
definition ETH_DMABMR_USP :: u32 where [reg_consts]: "ETH_DMABMR_USP = 0x800000"
definition SYSCFG_PMC_MII_RMII_SEL :: u32 where [reg_consts]: "SYSCFG_PMC_MII_RMII_SEL = 0x800000"
definition ETH_MODE_FULLDUPLEX :: u32 where [reg_consts]: "ETH_MODE_FULLDUPLEX = 0x800"
definition ETH_MODE_HALFDUPLEX :: u32 where [reg_consts]: "ETH_MODE_HALFDUPLEX = 0"
definition ETH_SPEED_100M :: u32 where [reg_consts]: "ETH_SPEED_100M = 0x4000"
definition ETH_SPEED_10M :: u32 where [reg_consts]: "ETH_SPEED_10M = 0"
definition ETH_AUTONEGOTIATION_DISABLE :: u32 where [reg_consts]: "ETH_AUTONEGOTIATION_DISABLE = 0"
definition ETH_AUTONEGOTIATION_ENABLE :: u32 where [reg_consts]: "ETH_AUTONEGOTIATION_ENABLE = 1"
definition ETH_MAC_ADDRESS0 :: u32 where [reg_consts]: "ETH_MAC_ADDRESS0 = 0"
definition ETH_TIMEOUT_SWRESET :: u32 where [reg_consts]: "ETH_TIMEOUT_SWRESET = 500"
definition ETH_TIMEOUT_LINKED_STATE :: u32 where [reg_consts]: "ETH_TIMEOUT_LINKED_STATE = 5000"
definition ETH_TIMEOUT_AUTONEGO_COMPLETED :: u32 where [reg_consts]: "ETH_TIMEOUT_AUTONEGO_COMPLETED = 5000"
definition PHY_BCR :: u16 where [reg_consts]: "PHY_BCR = 0"
definition PHY_BSR :: u16 where [reg_consts]: "PHY_BSR = 1"
definition PHY_SR :: u16 where [reg_consts]: "PHY_SR = 0x10"
definition PHY_RESET :: u32 where [reg_consts]: "PHY_RESET = 0x8000"
definition PHY_AUTONEGOTIATION :: u32 where [reg_consts]: "PHY_AUTONEGOTIATION = 0x1000"
definition PHY_AUTONEGO_COMPLETE :: u32 where [reg_consts]: "PHY_AUTONEGO_COMPLETE = 0x20"
definition PHY_LINKED_STATUS :: u32 where [reg_consts]: "PHY_LINKED_STATUS = 4"
definition PHY_SPEED_STATUS :: u32 where [reg_consts]: "PHY_SPEED_STATUS = 2"
definition PHY_DUPLEX_STATUS :: u32 where [reg_consts]: "PHY_DUPLEX_STATUS = 4"
definition PHY_RESET_DELAY :: u32 where [reg_consts]: "PHY_RESET_DELAY = 0xFF"
definition PHY_CONFIG_DELAY :: u32 where [reg_consts]: "PHY_CONFIG_DELAY = 0xFFF"

section \<open>Writing the registers\<close>

definition eth_do :: "(eth \<Rightarrow> eth) \<Rightarrow> eth_sys \<Rightarrow> eth_sys" where
  "eth_do f s = s\<lparr>heth := f (heth s)\<rparr>"

definition mac_do :: "(mac_regs \<Rightarrow> mac_regs) \<Rightarrow> eth_sys \<Rightarrow> eth_sys" where
  "mac_do f s = s\<lparr>mac := f (mac s)\<rparr>"

text \<open>A call of \<^verbatim>\<open>HAL_Delay\<close> goes to the log of the handle.\<close>

definition eth_delay :: "u32 \<Rightarrow> eth_sys \<Rightarrow> eth_sys" where
  "eth_delay n = eth_do (eth_out [Eth_Delay n])"

text \<open>Write a register, read it back, wait, write what was read.\<close>

definition settle :: "(mac_regs \<Rightarrow> u32) \<Rightarrow> ((u32 \<Rightarrow> u32) \<Rightarrow> mac_regs \<Rightarrow> mac_regs) \<Rightarrow> u32 \<Rightarrow> eth_sys \<Rightarrow> eth_sys" where
  "settle get upd v s =
     (let s1 = mac_do (upd (\<lambda>_. v)) s; tmpreg = get (mac s1)
      in mac_do (upd (\<lambda>_. tmpreg)) (eth_delay ETH_REG_WRITE_DELAY s1))"

definition ETH_MACTransmissionEnable :: "eth_sys \<Rightarrow> eth_sys" where
  "ETH_MACTransmissionEnable s = settle r_MACCR r_MACCR_update (r_MACCR (mac s) OR ETH_MACCR_TE) s"

definition ETH_MACTransmissionDisable :: "eth_sys \<Rightarrow> eth_sys" where
  "ETH_MACTransmissionDisable s = settle r_MACCR r_MACCR_update (r_MACCR (mac s) AND NOT ETH_MACCR_TE) s"

definition ETH_MACReceptionEnable :: "eth_sys \<Rightarrow> eth_sys" where
  "ETH_MACReceptionEnable s = settle r_MACCR r_MACCR_update (r_MACCR (mac s) OR ETH_MACCR_RE) s"

definition ETH_MACReceptionDisable :: "eth_sys \<Rightarrow> eth_sys" where
  "ETH_MACReceptionDisable s = settle r_MACCR r_MACCR_update (r_MACCR (mac s) AND NOT ETH_MACCR_RE) s"

definition ETH_DMATransmissionEnable :: "eth_sys \<Rightarrow> eth_sys" where
  "ETH_DMATransmissionEnable = mac_do (r_DMAOMR_update (\<lambda>r. r OR ETH_DMAOMR_ST))"

definition ETH_DMATransmissionDisable :: "eth_sys \<Rightarrow> eth_sys" where
  "ETH_DMATransmissionDisable = mac_do (r_DMAOMR_update (\<lambda>r. r AND NOT ETH_DMAOMR_ST))"

definition ETH_DMAReceptionEnable :: "eth_sys \<Rightarrow> eth_sys" where
  "ETH_DMAReceptionEnable = mac_do (r_DMAOMR_update (\<lambda>r. r OR ETH_DMAOMR_SR))"

definition ETH_DMAReceptionDisable :: "eth_sys \<Rightarrow> eth_sys" where
  "ETH_DMAReceptionDisable = mac_do (r_DMAOMR_update (\<lambda>r. r AND NOT ETH_DMAOMR_SR))"

text \<open>The controller clears the flush bit when it is done; \<open>flushed\<close> tells whether that is before the
  register is read back.\<close>

definition ETH_FlushTransmitFIFO :: "bool \<Rightarrow> eth_sys \<Rightarrow> eth_sys" where
  "ETH_FlushTransmitFIFO flushed s =
     (let v = r_DMAOMR (mac s) OR ETH_DMAOMR_FTF;
          tmpreg = (if flushed then v AND NOT ETH_DMAOMR_FTF else v)
      in mac_do (r_DMAOMR_update (\<lambda>_. tmpreg)) (eth_delay ETH_REG_WRITE_DELAY (mac_do (r_DMAOMR_update (\<lambda>_. v)) s)))"

text \<open>\<^verbatim>\<open>__HAL_LOCK\<close> around a body that ends with the handle ready and unlocked.\<close>

definition sys_locked :: "(eth_sys \<Rightarrow> eth_sys) \<Rightarrow> eth_sys \<Rightarrow> HAL_Status \<times> eth_sys" where
  "sys_locked body s =
     (if eth_Lock (heth s) then (HAL_BUSY, s)
      else (HAL_OK, eth_do eth_ready (body (eth_do (\<lambda>h. h\<lparr>eth_Lock := True, eth_State := ETH_STATE_BUSY\<rparr>) s))))"

definition HAL_ETH_Start :: "bool \<Rightarrow> eth_sys \<Rightarrow> HAL_Status \<times> eth_sys" where
  "HAL_ETH_Start flushed = sys_locked (\<lambda>s.
     ETH_DMAReceptionEnable (ETH_DMATransmissionEnable (ETH_FlushTransmitFIFO flushed
       (ETH_MACReceptionEnable (ETH_MACTransmissionEnable s)))))"

definition HAL_ETH_Stop :: "bool \<Rightarrow> eth_sys \<Rightarrow> HAL_Status \<times> eth_sys" where
  "HAL_ETH_Stop flushed = sys_locked (\<lambda>s.
     ETH_MACTransmissionDisable (ETH_FlushTransmitFIFO flushed (ETH_MACReceptionDisable
       (ETH_DMAReceptionDisable (ETH_DMATransmissionDisable s)))))"

section \<open>Configuration of MAC and DMA\<close>

definition mac_config :: "ETH_MACInitTypeDef \<Rightarrow> eth_sys \<Rightarrow> eth_sys" where
  "mac_config macconf s =
     (let s1 = settle r_MACCR r_MACCR_update ((r_MACCR (mac s) AND ETH_MACCR_CLEAR_MASK) OR
            (Watchdog macconf OR Jabber macconf OR InterFrameGap macconf OR CarrierSense macconf OR EthSpeed s
             OR ReceiveOwn macconf OR LoopbackMode macconf OR DuplexMode s OR ChecksumOffload macconf
             OR RetryTransmission macconf OR AutomaticPadCRCStrip macconf OR BackOffLimit macconf OR DeferralCheck macconf)) s;
          s2 = settle r_MACFFR r_MACFFR_update (ReceiveAll macconf OR SourceAddrFilter macconf OR PassControlFrames macconf
             OR BroadcastFramesReception macconf OR DestinationAddrFilter macconf OR PromiscuousMode macconf
             OR MulticastFramesFilter macconf OR UnicastFramesFilter macconf) s1;
          s3 = mac_do (\<lambda>m. m\<lparr>r_MACHTHR := HashTableHigh macconf, r_MACHTLR := HashTableLow macconf\<rparr>) s2;
          s4 = settle r_MACFCR r_MACFCR_update ((r_MACFCR (mac s3) AND ETH_MACFCR_CLEAR_MASK) OR
            (push_bit 16 (PauseTime macconf) OR ZeroQuantaPause macconf OR PauseLowThreshold macconf
             OR UnicastPauseFrameDetect macconf OR ReceiveFlowControl macconf OR TransmitFlowControl macconf)) s3
      in settle r_MACVLANTR r_MACVLANTR_update (VLANTagComparison macconf OR VLANTagIdentifier macconf) s4)"

text \<open>\<open>None\<close> is the null pointer: only speed and duplex mode are set.\<close>

definition HAL_ETH_ConfigMAC :: "ETH_MACInitTypeDef option \<Rightarrow> eth_sys \<Rightarrow> HAL_Status \<times> eth_sys" where
  "HAL_ETH_ConfigMAC macconf = sys_locked (\<lambda>s.
     case macconf of Some c \<Rightarrow> mac_config c s
     | None \<Rightarrow> settle r_MACCR r_MACCR_update ((r_MACCR (mac s) AND NOT 0x4800) OR (EthSpeed s OR DuplexMode s)) s)"

definition dma_config :: "ETH_DMAInitTypeDef \<Rightarrow> eth_sys \<Rightarrow> eth_sys" where
  "dma_config dmaconf s =
     settle r_DMABMR r_DMABMR_update (AddressAlignedBeats dmaconf OR FixedBurst dmaconf OR RxDMABurstLength dmaconf
         OR TxDMABurstLength dmaconf OR EnhancedDescriptorFormat dmaconf OR push_bit 2 (DescriptorSkipLength dmaconf)
         OR DMAArbitration dmaconf OR ETH_DMABMR_USP)
       (settle r_DMAOMR r_DMAOMR_update ((r_DMAOMR (mac s) AND ETH_DMAOMR_CLEAR_MASK) OR
         (DropTCPIPChecksumErrorFrame dmaconf OR ReceiveStoreForward dmaconf OR FlushReceivedFrame dmaconf
          OR TransmitStoreForward dmaconf OR TransmitThresholdControl dmaconf OR ForwardErrorFrames dmaconf
          OR ForwardUndersizedGoodFrames dmaconf OR ReceiveThresholdControl dmaconf OR SecondFrameOperate dmaconf)) s)"

definition HAL_ETH_ConfigDMA :: "ETH_DMAInitTypeDef \<Rightarrow> eth_sys \<Rightarrow> HAL_Status \<times> eth_sys" where
  "HAL_ETH_ConfigDMA dmaconf = sys_locked (dma_config dmaconf)"

definition ETH_MACAddressConfig :: "u32 \<Rightarrow> u8 list \<Rightarrow> eth_sys \<Rightarrow> eth_sys res" where
  "ETH_MACAddressConfig MacAddr Addr s =
     (if length Addr < 6 then Inl Oob
      else let b = (\<lambda>i. ucast (Addr ! i) :: u32) in
        Inr (mac_do (\<lambda>m. m\<lparr>r_MACAHR := (r_MACAHR m)(MacAddr := push_bit 8 (b 5) OR b 4),
               r_MACALR := (r_MACALR m)(MacAddr := push_bit 24 (b 3) OR push_bit 16 (b 2) OR push_bit 8 (b 1) OR b 0)\<rparr>) s))"

definition macinit :: "u32 \<Rightarrow> ETH_MACInitTypeDef" where
  "macinit mode = \<lparr>Watchdog = 0, Jabber = 0, InterFrameGap = 0, CarrierSense = 0, ReceiveOwn = 0, LoopbackMode = 0,
     ChecksumOffload = (if mode = ETH_CHECKSUM_BY_HARDWARE then 0x400 else 0), RetryTransmission = 0x200,
     AutomaticPadCRCStrip = 0, BackOffLimit = 0, DeferralCheck = 0, ReceiveAll = 0, SourceAddrFilter = 0,
     PassControlFrames = 0x40, BroadcastFramesReception = 0, DestinationAddrFilter = 0, PromiscuousMode = 0,
     MulticastFramesFilter = 0, UnicastFramesFilter = 0, HashTableHigh = 0, HashTableLow = 0, PauseTime = 0,
     ZeroQuantaPause = 0x80, PauseLowThreshold = 0, UnicastPauseFrameDetect = 0, ReceiveFlowControl = 0,
     TransmitFlowControl = 0, VLANTagComparison = 0, VLANTagIdentifier = 0\<rparr>"

definition dmainit :: ETH_DMAInitTypeDef where
  "dmainit = \<lparr>DropTCPIPChecksumErrorFrame = 0, ReceiveStoreForward = 0x2000000, FlushReceivedFrame = 0,
     TransmitStoreForward = 0x200000, TransmitThresholdControl = 0, ForwardErrorFrames = 0, ForwardUndersizedGoodFrames = 0,
     ReceiveThresholdControl = 0, SecondFrameOperate = 4, AddressAlignedBeats = 0x2000000, FixedBurst = 0x10000,
     RxDMABurstLength = 0x400000, TxDMABurstLength = 0x2000, EnhancedDescriptorFormat = 0x80, DescriptorSkipLength = 0,
     DMAArbitration = 0\<rparr>"

text \<open>\<open>err\<close> is \<^verbatim>\<open>err != ETH_SUCCESS\<close>.\<close>

definition ETH_MACDMAConfig :: "bool \<Rightarrow> eth_sys \<Rightarrow> eth_sys res" where
  "ETH_MACDMAConfig err s =
     (let s1 = (if err then s\<lparr>DuplexMode := ETH_MODE_FULLDUPLEX, EthSpeed := ETH_SPEED_100M\<rparr> else s);
          s2 = dma_config dmainit (mac_config (macinit (ChecksumMode (heth s1))) s1);
          s3 = (if RxMode (heth s2) = ETH_RXINTERRUPT_MODE then mac_do (r_DMAIER_update (\<lambda>r. r OR (0x10000 OR 0x40))) s2 else s2)
      in ETH_MACAddressConfig ETH_MAC_ADDRESS0 (MACAddr s3) s3)"

section \<open>The board's part\<close>

definition eth_pin_init :: "u32 \<Rightarrow> GPIO_InitTypeDef" where
  "eth_pin_init pins = \<lparr>Pin = pins, Mode = GPIO_MODE_AF_PP, Pull = 0, Speed = 3, Alternate = 0xB\<rparr>"

definition HAL_ETH_MspInit :: "eth_sys \<Rightarrow> eth_sys res" where
  "HAL_ETH_MspInit s =
     (if Instance s = ETH_BASE then
        let g1 = HAL_GPIO_Init GPIOG (eth_pin_init (0x4000 OR 0x2000)) (eth_gpio s);
            g2 = HAL_GPIO_Init GPIOC (eth_pin_init (0x2 OR 0x10 OR 0x20)) g1;
            g3 = HAL_GPIO_Init GPIOA (eth_pin_init (0x2 OR 0x4 OR 0x80)) g2;
            g4 = HAL_GPIO_Init GPIOB (eth_pin_init 0x800) g3
        in res_bind (HAL_NVIC_SetPriority ETH_IRQn 5 0 (eth_core s)) (\<lambda>c1.
           res_bind (HAL_NVIC_EnableIRQ ETH_IRQn c1) (\<lambda>c2.
           Inr (s\<lparr>AHB1ENR := AHB1ENR s OR 0x2000000 OR 0x4000000 OR 0x8000000, eth_gpio := g4, eth_core := c2\<rparr>)))
      else Inr s)"

definition HAL_ETH_MspDeInit :: "eth_sys \<Rightarrow> eth_sys res" where
  "HAL_ETH_MspDeInit s =
     (if Instance s = ETH_BASE then
        let g1 = HAL_GPIO_DeInit GPIOG (0x4000 OR 0x2000) (eth_gpio s);
            g2 = HAL_GPIO_DeInit GPIOC (0x2 OR 0x10 OR 0x20) g1;
            g3 = HAL_GPIO_DeInit GPIOA (0x2 OR 0x4 OR 0x80) g2;
            g4 = HAL_GPIO_DeInit GPIOB 0x800 g3
        in res_bind (HAL_NVIC_DisableIRQ ETH_IRQn (eth_core s)) (\<lambda>c.
           Inr (s\<lparr>AHB1ENR := AHB1ENR s AND NOT 0x8000000 AND NOT 0x4000000 AND NOT 0x2000000, eth_gpio := g4, eth_core := c\<rparr>))
      else Inr s)"

definition HAL_ETH_DeInit :: "eth_sys \<Rightarrow> (HAL_Status \<times> eth_sys) res" where
  "HAL_ETH_DeInit s =
     res_bind (HAL_ETH_MspDeInit (eth_do (\<lambda>h. h\<lparr>eth_State := ETH_STATE_BUSY\<rparr>) s)) (\<lambda>s1.
     Inr (HAL_OK, eth_do (\<lambda>h. h\<lparr>eth_State := ETH_STATE_RESET, eth_Lock := False\<rparr>) s1))"

definition HAL_ETH_GetState :: "eth_sys \<Rightarrow> eth_hal_state" where
  "HAL_ETH_GetState s = eth_State (heth s)"

section \<open>The dialogue with the PHY\<close>

text \<open>One access: the clock at its start, clock and busy bit at every poll, the data register. When
  the access is over the controller has cleared the busy bit of the address register.\<close>

type_synonym phy_access = "u32 \<times> (u32 \<times> u32) list \<times> u32"

definition mii_done :: "u16 \<Rightarrow> bool \<Rightarrow> HAL_Status \<Rightarrow> eth_sys \<Rightarrow> eth_sys" where
  "mii_done reg w st s =
     (let a = mii_address (PhyAddress (heth s)) reg w (r_MACMIIAR (mac s))
      in if st = HAL_BUSY then s else mac_do (r_MACMIIAR_update (\<lambda>_. if st = HAL_OK then a AND NOT 1 else a)) s)"

definition phy_read :: "u16 \<Rightarrow> phy_access \<Rightarrow> u32 \<Rightarrow> eth_sys \<Rightarrow> (HAL_Status \<times> u32 \<times> eth_sys) res" where
  "phy_read reg acc phyreg s =
     (case acc of (tickstart, polls, miidr) \<Rightarrow>
      res_bind (HAL_ETH_ReadPHYRegister reg (r_MACMIIAR (mac s)) tickstart polls miidr (heth s)) (\<lambda>(st, v, h).
      Inr (st, case v of None \<Rightarrow> phyreg | Some x \<Rightarrow> x, mii_done reg False st (s\<lparr>heth := h\<rparr>))))"

definition phy_write :: "u16 \<Rightarrow> u32 \<Rightarrow> phy_access \<Rightarrow> eth_sys \<Rightarrow> (HAL_Status \<times> eth_sys) res" where
  "phy_write reg v acc s =
     (case acc of (tickstart, polls, _) \<Rightarrow>
      res_bind (HAL_ETH_WritePHYRegister reg v (r_MACMIIAR (mac s)) tickstart polls (heth s)) (\<lambda>(st, h).
      Inr (st, mii_done reg True st (s\<lparr>heth := h\<rparr>))))"

text \<open>Wait for bits of the status register; every turn ends with a look at the clock. The result tells
  whether the bits came before the timeout.\<close>

fun phy_wait :: "u32 \<Rightarrow> u32 \<Rightarrow> u32 \<Rightarrow> (phy_access \<times> u32) list \<Rightarrow> u32 \<Rightarrow> eth_sys \<Rightarrow> (bool \<times> u32 \<times> eth_sys) res" where
  "phy_wait limit bits tickstart [] phyreg s = Inl Hang"
| "phy_wait limit bits tickstart ((acc, now) # turns) phyreg s =
     res_bind (phy_read PHY_BSR acc phyreg s) (\<lambda>(_, r, s1).
     if now - tickstart > limit then Inr (False, r, s1)
     else if r AND bits \<noteq> bits then phy_wait limit bits tickstart turns r s1
     else Inr (True, r, s1))"

text \<open>The wait for the end of the software reset; each turn reads the register and then the clock.\<close>

fun reset_wait :: "u32 \<Rightarrow> (u32 \<times> u32) list \<Rightarrow> bool res" where
  "reset_wait tickstart [] = Inl Hang"
| "reset_wait tickstart ((v, now) # polls) =
     (if v AND ETH_DMABMR_SR = 0 then Inr True
      else if now - tickstart > ETH_TIMEOUT_SWRESET then Inr False else reset_wait tickstart polls)"

definition mdc_range :: "u32 \<Rightarrow> u32" where
  "mdc_range hclk =
     (if hclk \<ge> 20000000 \<and> hclk < 35000000 then 0x8
      else if hclk \<ge> 35000000 \<and> hclk < 60000000 then 0xC
      else if hclk \<ge> 60000000 \<and> hclk < 100000000 then 0x0
      else if hclk \<ge> 100000000 \<and> hclk < 150000000 then 0x4
      else 0x10)"

text \<open>What the functions below see of their environment, and the registers as the software reset leaves
  them.\<close>

record eth_env =
  env_reset :: "u32 \<times> (u32 \<times> u32) list"
  env_mac :: mac_regs
  env_hclk :: u32
  env_phy_reset :: phy_access
  env_link :: "u32 \<times> (phy_access \<times> u32) list"
  env_autoneg :: phy_access
  env_complete :: "u32 \<times> (phy_access \<times> u32) list"
  env_result :: phy_access
  env_forced :: phy_access

text \<open>The error exits of \<^verbatim>\<open>HAL_ETH_Init\<close>: \<open>unlock\<close> where the code unlocks the handle.\<close>

definition init_failed :: "HAL_Status \<Rightarrow> bool \<Rightarrow> eth_sys \<Rightarrow> (HAL_Status \<times> eth_sys) res" where
  "init_failed st unlock s = res_bind (ETH_MACDMAConfig True s) (\<lambda>s1.
     Inr (st, eth_do (\<lambda>h. h\<lparr>eth_State := ETH_STATE_READY, eth_Lock := (if unlock then False else eth_Lock h)\<rparr>) s1))"

definition init_ok :: "eth_sys \<Rightarrow> (HAL_Status \<times> eth_sys) res" where
  "init_ok s = res_bind (ETH_MACDMAConfig False s) (\<lambda>s1.
     Inr (HAL_OK, eth_do (\<lambda>h. h\<lparr>eth_State := ETH_STATE_READY\<rparr>) s1))"

definition negotiated :: "u32 \<Rightarrow> eth_sys \<Rightarrow> eth_sys" where
  "negotiated phyreg s = s\<lparr>
     DuplexMode := (if phyreg AND PHY_DUPLEX_STATUS \<noteq> 0 then ETH_MODE_FULLDUPLEX else ETH_MODE_HALFDUPLEX),
     EthSpeed := (if phyreg AND PHY_SPEED_STATUS = PHY_SPEED_STATUS then ETH_SPEED_10M else ETH_SPEED_100M)\<rparr>"

definition init_autonegotiation :: "eth_env \<Rightarrow> eth_sys \<Rightarrow> (HAL_Status \<times> eth_sys) res" where
  "init_autonegotiation e s =
     res_bind (phy_wait ETH_TIMEOUT_LINKED_STATE PHY_LINKED_STATUS (fst (env_link e)) (snd (env_link e)) 0 s) (\<lambda>(linked, r1, s1).
     if \<not> linked then init_failed HAL_TIMEOUT True s1
     else res_bind (phy_write PHY_BCR PHY_AUTONEGOTIATION (env_autoneg e) s1) (\<lambda>(st, s2).
       if st \<noteq> HAL_OK then init_failed HAL_ERROR False s2
       else res_bind (phy_wait ETH_TIMEOUT_AUTONEGO_COMPLETED PHY_AUTONEGO_COMPLETE (fst (env_complete e)) (snd (env_complete e))
           r1 s2) (\<lambda>(complete, r2, s3).
         if \<not> complete then init_failed HAL_TIMEOUT True s3
         else res_bind (phy_read PHY_SR (env_result e) r2 s3) (\<lambda>(st, r3, s4).
           if st \<noteq> HAL_OK then init_failed HAL_ERROR False s4
           else init_ok (negotiated r3 s4)))))"

definition forced_mode :: "eth_sys \<Rightarrow> u32" where
  "forced_mode s = ucast (ucast (drop_bit 3 (DuplexMode s)) OR ucast (drop_bit 1 (EthSpeed s)) :: u16)"

definition init_forced :: "eth_env \<Rightarrow> eth_sys \<Rightarrow> (HAL_Status \<times> eth_sys) res" where
  "init_forced e s =
     res_bind (phy_write PHY_BCR (forced_mode s) (env_forced e) s) (\<lambda>(st, s1).
     if st \<noteq> HAL_OK then init_failed HAL_ERROR False s1
     else init_ok (eth_delay PHY_CONFIG_DELAY s1))"

definition HAL_ETH_Init :: "eth_env \<Rightarrow> eth_sys \<Rightarrow> (HAL_Status \<times> eth_sys) res" where
  "HAL_ETH_Init e s =
     res_bind (if eth_State (heth s) = ETH_STATE_RESET
               then HAL_ETH_MspInit (eth_do (\<lambda>h. h\<lparr>eth_Lock := False\<rparr>) s) else Inr s) (\<lambda>s1.
     let s2 = s1\<lparr>APB2ENR := APB2ENR s1 OR 0x4000,
                 SYSCFG_PMC := (SYSCFG_PMC s1 AND NOT SYSCFG_PMC_MII_RMII_SEL) OR MediaInterface s1\<rparr>;
         s3 = mac_do (r_DMABMR_update (\<lambda>r. r OR ETH_DMABMR_SR)) s2 in
     res_bind (reset_wait (fst (env_reset e)) (snd (env_reset e))) (\<lambda>done.
     if \<not> done then Inr (HAL_TIMEOUT, eth_do (\<lambda>h. h\<lparr>eth_State := ETH_STATE_TIMEOUT, eth_Lock := False\<rparr>) s3)
     else
       let s4 = s3\<lparr>mac := env_mac e\<rparr>;
           s5 = mac_do (r_MACMIIAR_update (\<lambda>r. (r AND ETH_MACMIIAR_CR_MASK) OR mdc_range (env_hclk e))) s4 in
       res_bind (phy_write PHY_BCR PHY_RESET (env_phy_reset e) s5) (\<lambda>(st, s6).
       if st \<noteq> HAL_OK then init_failed HAL_ERROR False s6
       else
         let s7 = eth_delay PHY_RESET_DELAY s6 in
         if AutoNegotiation s7 \<noteq> ETH_AUTONEGOTIATION_DISABLE then init_autonegotiation e s7 else init_forced e s7)))"

section \<open>What an access to the PHY changes\<close>

lemma mii_wait_ends:
  "list_ex (\<lambda>(now, v). now - t > limit) polls \<Longrightarrow> \<exists>st. mii_wait limit t v polls = Inr st \<and> st \<in> {HAL_OK, HAL_TIMEOUT}"
proof (induction polls arbitrary: v)
  case (Cons p polls)
  obtain now w where p: "p = (now, w)" by (cases p)
  show ?case
  proof (cases "v AND 1 \<noteq> 1 \<or> now - t > limit")
    case True
    then show ?thesis by (auto simp: mii_wait.simps p)
  next
    case False
    then show ?thesis using Cons.IH [of w] Cons.prems by (auto simp: mii_wait.simps p)
  qed
qed simp

text \<open>The clock goes on: every access and every wait would reach its timeout.\<close>

definition access_live :: "phy_access \<Rightarrow> bool" where
  "access_live acc = (case acc of (t, polls, _) \<Rightarrow> list_ex (\<lambda>(now, v). now - t > 0xFFFF) polls)"

definition wait_live :: "u32 \<Rightarrow> u32 \<times> (phy_access \<times> u32) list \<Rightarrow> bool" where
  "wait_live limit w = (case w of (t, turns) \<Rightarrow>
     list_all (\<lambda>(acc, now). access_live acc) turns \<and> list_ex (\<lambda>(acc, now). now - t > limit) turns)"

definition env_live :: "eth_env \<Rightarrow> bool" where
  "env_live e \<longleftrightarrow> list_ex (\<lambda>(v, now). now - fst (env_reset e) > ETH_TIMEOUT_SWRESET) (snd (env_reset e))
     \<and> access_live (env_phy_reset e) \<and> wait_live ETH_TIMEOUT_LINKED_STATE (env_link e) \<and> access_live (env_autoneg e)
     \<and> wait_live ETH_TIMEOUT_AUTONEGO_COMPLETED (env_complete e) \<and> access_live (env_result e) \<and> access_live (env_forced e)"

text \<open>The clock range of the MII management interface.\<close>

definition mdc_bits :: "eth_sys \<Rightarrow> u32" where
  "mdc_bits s = r_MACMIIAR (mac s) AND 0x1C"

lemma mii_range: "mii_address phy reg w a AND 0x1C = a AND 0x1C" "(mii_address phy reg w a AND NOT 1) AND 0x1C = a AND 0x1C"
    "(mii_address phy reg w a AND - 2) AND 0x1C = a AND 0x1C"
  by (simp_all add: mii_address_def Let_def bit.conj_disj_distrib2 and.assoc)

text \<open>Everything but the handle's state, lock and log and the MII address register is kept.\<close>

definition phy_mask :: "eth_sys \<Rightarrow> eth_sys" where
  "phy_mask s = s\<lparr>heth := (heth s)\<lparr>eth_State := ETH_STATE_READY, eth_Lock := False, eth_log := []\<rparr>,
     mac := (mac s)\<lparr>r_MACMIIAR := 0\<rparr>\<rparr>"

definition phy_only :: "eth_sys \<Rightarrow> eth_sys \<Rightarrow> bool" where
  "phy_only s s' \<longleftrightarrow> phy_mask s' = phy_mask s \<and> (eth_Lock (heth s') \<longrightarrow> eth_Lock (heth s)) \<and> mdc_bits s' = mdc_bits s"

lemma phy_only_refl [simp]: "phy_only s s"
  by (simp add: phy_only_def)

lemma phy_only_trans [trans]: "phy_only s s1 \<Longrightarrow> phy_only s1 s2 \<Longrightarrow> phy_only s s2"
  by (auto simp: phy_only_def)

lemma phy_only_delay: "phy_only s (eth_delay n s)"
  by (simp add: phy_only_def phy_mask_def mdc_bits_def eth_delay_def eth_do_def eth_out_def)

lemma phy_write_ends:
  assumes "access_live acc"
  shows "\<exists>st s'. phy_write reg v acc s = Inr (st, s') \<and> phy_only s s'"
proof -
  obtain t polls d where acc: "acc = (t, polls, d)" by (cases acc)
  let ?a = "mii_address (PhyAddress (heth s)) reg True (r_MACMIIAR (mac s))"
  obtain st where st: "mii_wait PHY_WRITE_TO t ?a polls = Inr st" "st = HAL_OK \<or> st = HAL_TIMEOUT"
    using assms mii_wait_ends [where limit = PHY_WRITE_TO and t = t and polls = polls and v = ?a] by (auto simp: acc access_live_def reg_consts)
  show ?thesis
  proof (cases "eth_State (heth s) = ETH_STATE_BUSY_WR")
    case True
    then show ?thesis by (simp add: phy_write_def acc HAL_ETH_WritePHYRegister_def mii_done_def)
  next
    case False
    then show ?thesis using st
      by (auto simp: phy_write_def acc HAL_ETH_WritePHYRegister_def mii_done_def mac_do_def eth_out_def eth_ready_def Let_def
          phy_only_def phy_mask_def mdc_bits_def mii_range)
  qed
qed

lemma phy_read_ends:
  assumes "access_live acc"
  shows "\<exists>st r s'. phy_read reg acc r0 s = Inr (st, r, s') \<and> phy_only s s'
    \<and> (st = HAL_OK \<longrightarrow> r = ucast (ucast (snd (snd acc)) :: u16))"
proof -
  obtain t polls d where acc: "acc = (t, polls, d)" by (cases acc)
  let ?a = "mii_address (PhyAddress (heth s)) reg False (r_MACMIIAR (mac s))"
  obtain st where st: "mii_wait PHY_READ_TO t ?a polls = Inr st" "st = HAL_OK \<or> st = HAL_TIMEOUT"
    using assms mii_wait_ends [where limit = PHY_READ_TO and t = t and polls = polls and v = ?a] by (auto simp: acc access_live_def reg_consts)
  show ?thesis
  proof (cases "eth_State (heth s) = ETH_STATE_BUSY_RD")
    case True
    then show ?thesis by (simp add: phy_read_def acc HAL_ETH_ReadPHYRegister_def mii_done_def)
  next
    case False
    then show ?thesis using st
      by (auto simp: phy_read_def acc HAL_ETH_ReadPHYRegister_def mii_done_def mac_do_def eth_out_def eth_ready_def Let_def
          phy_only_def phy_mask_def mdc_bits_def mii_range)
  qed
qed

lemma phy_wait_ends:
  "wait_live limit (t, turns) \<Longrightarrow> \<exists>b r s'. phy_wait limit bits t turns r0 s = Inr (b, r, s') \<and> phy_only s s'"
proof (induction turns arbitrary: r0 s)
  case (Cons x turns)
  obtain acc now where x: "x = (acc, now)" by (cases x)
  from Cons.prems have l: "access_live acc" by (simp add: wait_live_def x)
  obtain st r s1 where r: "phy_read PHY_BSR acc r0 s = Inr (st, r, s1)" "phy_only s s1" using phy_read_ends [OF l] by blast
  show ?case
  proof (cases "now - t > limit \<or> r AND bits = bits")
    case True
    with r show ?thesis by (auto simp: x)
  next
    case False
    with Cons.prems have "wait_live limit (t, turns)" by (auto simp: wait_live_def x)
    with False r Cons.IH [of r s1] show ?thesis by (auto simp: x intro: phy_only_trans)
  qed
qed (simp add: wait_live_def)

lemma reset_wait_ends:
  "list_ex (\<lambda>(v, now). now - t > ETH_TIMEOUT_SWRESET) polls \<Longrightarrow> \<exists>b. reset_wait t polls = Inr b"
  by (induction t polls rule: reset_wait.induct) auto

section \<open>The configured controller\<close>

text \<open>The address in the two registers of the first address filter.\<close>

definition mac_address :: "mac_regs \<Rightarrow> u8 list" where
  "mac_address m = map (\<lambda>k. ucast (drop_bit (8 * k) (r_MACALR m ETH_MAC_ADDRESS0))) [0, 1, 2, 3]
     @ map (\<lambda>k. ucast (drop_bit (8 * k) (r_MACAHR m ETH_MAC_ADDRESS0))) [0, 1]"

text \<open>The registers as they must be after the configuration that started from \<open>m\<close>.\<close>

definition mac_configured :: "mac_regs \<Rightarrow> eth_sys \<Rightarrow> bool" where
  "mac_configured m s \<longleftrightarrow>
     r_MACCR (mac s) = (r_MACCR m AND ETH_MACCR_CLEAR_MASK) OR (EthSpeed s OR DuplexMode s OR
       (if ChecksumMode (heth s) = ETH_CHECKSUM_BY_HARDWARE then 0x600 else 0x200))
     \<and> r_MACFFR (mac s) = 0x40 \<and> r_MACHTHR (mac s) = 0 \<and> r_MACHTLR (mac s) = 0
     \<and> r_MACFCR (mac s) = (r_MACFCR m AND ETH_MACFCR_CLEAR_MASK) OR 0x80 \<and> r_MACVLANTR (mac s) = 0
     \<and> r_DMAOMR (mac s) = (r_DMAOMR m AND ETH_DMAOMR_CLEAR_MASK) OR 0x2200004 \<and> r_DMABMR (mac s) = 0x2C12080
     \<and> r_DMAIER (mac s) = (if RxMode (heth s) = ETH_RXINTERRUPT_MODE then r_DMAIER m OR 0x10040 else r_DMAIER m)
     \<and> mac_address (mac s) = take 6 (MACAddr s)"

text \<open>What the set-up may change.\<close>

definition setup_mask :: "eth_sys \<Rightarrow> eth_sys" where
  "setup_mask s = s\<lparr>heth := (heth s)\<lparr>eth_State := ETH_STATE_READY, eth_Lock := False, eth_log := []\<rparr>,
     mac := \<lparr>r_MACCR = 0, r_MACFFR = 0, r_MACHTHR = 0, r_MACHTLR = 0, r_MACMIIAR = 0, r_MACFCR = 0, r_MACVLANTR = 0,
       r_MACAHR = (\<lambda>_. 0), r_MACALR = (\<lambda>_. 0), r_DMABMR = 0, r_DMAOMR = 0, r_DMAIER = 0\<rparr>,
     EthSpeed := 0, DuplexMode := 0\<rparr>"

definition setup_only :: "eth_sys \<Rightarrow> eth_sys \<Rightarrow> bool" where
  "setup_only s s' \<longleftrightarrow> setup_mask s' = setup_mask s \<and> (eth_Lock (heth s') \<longrightarrow> eth_Lock (heth s))"

lemma setup_phy_mask: "setup_mask (phy_mask s) = setup_mask s"
  by (simp add: setup_mask_def phy_mask_def)

lemma phy_setup_only: "phy_only s s' \<Longrightarrow> setup_only s s'"
  unfolding phy_only_def setup_only_def by (metis setup_phy_mask)

lemma setup_only_trans [trans]: "setup_only s s1 \<Longrightarrow> setup_only s1 s2 \<Longrightarrow> setup_only s s2"
  by (auto simp: setup_only_def)

lemma setup_mask_sel:
    "MACAddr (setup_mask s) = MACAddr s" "Instance (setup_mask s) = Instance s" "AutoNegotiation (setup_mask s) = AutoNegotiation s"
    "MediaInterface (setup_mask s) = MediaInterface s" "eth_gpio (setup_mask s) = eth_gpio s" "eth_core (setup_mask s) = eth_core s"
    "AHB1ENR (setup_mask s) = AHB1ENR s" "APB2ENR (setup_mask s) = APB2ENR s" "SYSCFG_PMC (setup_mask s) = SYSCFG_PMC s"
    "TxTab (heth (setup_mask s)) = TxTab (heth s)" "RxTab (heth (setup_mask s)) = RxTab (heth s)" "Tx_Buff (heth (setup_mask s)) = Tx_Buff (heth s)"
    "Rx_Buff (heth (setup_mask s)) = Rx_Buff (heth s)" "ChecksumMode (heth (setup_mask s)) = ChecksumMode (heth s)" "RxMode (heth (setup_mask s)) = RxMode (heth s)"
    "PhyAddress (heth (setup_mask s)) = PhyAddress (heth s)"
    "TxDesc (heth (setup_mask s)) = TxDesc (heth s)" "RxDesc (heth (setup_mask s)) = RxDesc (heth s)"
  by (simp_all add: setup_mask_def)

lemma setup_mask_fields:
  assumes "setup_mask s' = setup_mask s"
  shows "MACAddr s' = MACAddr s" "Instance s' = Instance s" "AutoNegotiation s' = AutoNegotiation s"
    "MediaInterface s' = MediaInterface s" "eth_gpio s' = eth_gpio s" "eth_core s' = eth_core s"
    "AHB1ENR s' = AHB1ENR s" "APB2ENR s' = APB2ENR s" "SYSCFG_PMC s' = SYSCFG_PMC s"
    "TxTab (heth s') = TxTab (heth s)" "RxTab (heth s') = RxTab (heth s)" "Tx_Buff (heth s') = Tx_Buff (heth s)"
    "Rx_Buff (heth s') = Rx_Buff (heth s)" "ChecksumMode (heth s') = ChecksumMode (heth s)" "RxMode (heth s') = RxMode (heth s)"
    "PhyAddress (heth s') = PhyAddress (heth s)"
    "TxDesc (heth s') = TxDesc (heth s)" "RxDesc (heth s') = RxDesc (heth s)"
  using assms by (metis setup_mask_sel)+

lemma mac_address_bytes:
  fixes b0 b1 b2 b3 b4 b5 :: u8
  shows "mac_address (m\<lparr>r_MACAHR := (r_MACAHR m)(0 := push_bit 8 (ucast b5) OR ucast b4),
      r_MACALR := (r_MACALR m)(0 := push_bit 24 (ucast b3) OR push_bit 16 (ucast b2) OR push_bit 8 (ucast b1) OR ucast b0)\<rparr>)
    = [b0, b1, b2, b3, b4, b5]"
proof -
  have "ucast (push_bit 24 (ucast b3 :: u32) OR push_bit 16 (ucast b2) OR push_bit 8 (ucast b1) OR ucast b0) = b0"
       "ucast (drop_bit 8 (push_bit 24 (ucast b3 :: u32) OR push_bit 16 (ucast b2) OR push_bit 8 (ucast b1) OR ucast b0)) = b1"
       "ucast (drop_bit 16 (push_bit 24 (ucast b3 :: u32) OR push_bit 16 (ucast b2) OR push_bit 8 (ucast b1) OR ucast b0)) = b2"
       "ucast (drop_bit 24 (push_bit 24 (ucast b3 :: u32) OR push_bit 16 (ucast b2) OR push_bit 8 (ucast b1) OR ucast b0)) = b3"
       "ucast (push_bit 8 (ucast b5 :: u32) OR ucast b4) = b4" "ucast (drop_bit 8 (push_bit 8 (ucast b5 :: u32) OR ucast b4)) = b5"
    by (rule bit_word_eqI, auto simp: bit_simps dest: bit_imp_le_length)+
  then show ?thesis by (simp add: mac_address_def ETH_MAC_ADDRESS0_def del: drop_bit_or)
qed

lemmas config_simps = settle_def mac_do_def eth_do_def eth_delay_def eth_out_def Let_def

lemma take_six: "6 \<le> length xs \<Longrightarrow> take 6 xs = [xs ! 0, xs ! 1, xs ! 2, xs ! 3, xs ! 4, xs ! 5]"
  by (rule nth_equalityI) (auto simp: nth_Cons less_Suc_eq numeral_eq_Suc)

lemma ETH_MACDMAConfig_ok:
  assumes "6 \<le> length (MACAddr s)"
  shows "\<exists>s'. ETH_MACDMAConfig err s = Inr s' \<and> mac_configured (mac s) s' \<and> setup_only s s' \<and> mdc_bits s' = mdc_bits s
    \<and> EthSpeed s' = (if err then ETH_SPEED_100M else EthSpeed s)
    \<and> DuplexMode s' = (if err then ETH_MODE_FULLDUPLEX else DuplexMode s)"
proof -
  let ?s1 = "if err then s\<lparr>DuplexMode := ETH_MODE_FULLDUPLEX, EthSpeed := ETH_SPEED_100M\<rparr> else s"
  let ?s2 = "dma_config dmainit (mac_config (macinit (ChecksumMode (heth ?s1))) ?s1)"
  let ?s3 = "if RxMode (heth ?s2) = ETH_RXINTERRUPT_MODE then mac_do (r_DMAIER_update (\<lambda>r. r OR (0x10000 OR 0x40))) ?s2 else ?s2"
  let ?b = "\<lambda>i. ucast (MACAddr s ! i) :: u32"
  let ?m = "(mac ?s3)\<lparr>r_MACAHR := (r_MACAHR (mac ?s3))(0 := push_bit 8 (?b 5) OR ?b 4),
     r_MACALR := (r_MACALR (mac ?s3))(0 := push_bit 24 (?b 3) OR push_bit 16 (?b 2) OR push_bit 8 (?b 1) OR ?b 0)\<rparr>"
  have k: "MACAddr ?s3 = MACAddr s" "EthSpeed ?s3 = EthSpeed ?s1" "DuplexMode ?s3 = DuplexMode ?s1"
      "ChecksumMode (heth ?s3) = ChecksumMode (heth s)" "RxMode (heth ?s3) = RxMode (heth s)" "setup_only s ?s3" "mdc_bits ?s3 = mdc_bits s"
    by (simp_all add: dma_config_def mac_config_def config_simps setup_only_def setup_mask_def mdc_bits_def)
  have r: "r_MACCR (mac ?s3) = (r_MACCR (mac s) AND ETH_MACCR_CLEAR_MASK) OR (EthSpeed ?s1 OR DuplexMode ?s1 OR
       (if ChecksumMode (heth s) = ETH_CHECKSUM_BY_HARDWARE then 0x600 else 0x200))"
     "r_MACFFR (mac ?s3) = 0x40" "r_MACHTHR (mac ?s3) = 0" "r_MACHTLR (mac ?s3) = 0"
     "r_MACFCR (mac ?s3) = (r_MACFCR (mac s) AND ETH_MACFCR_CLEAR_MASK) OR 0x80" "r_MACVLANTR (mac ?s3) = 0"
     "r_DMAOMR (mac ?s3) = (r_DMAOMR (mac s) AND ETH_DMAOMR_CLEAR_MASK) OR 0x2200004" "r_DMABMR (mac ?s3) = 0x2C12080"
     "r_DMAIER (mac ?s3) = (if RxMode (heth s) = ETH_RXINTERRUPT_MODE then r_DMAIER (mac s) OR 0x10040 else r_DMAIER (mac s))"
    by (simp_all add: dma_config_def mac_config_def config_simps macinit_def dmainit_def ETH_DMABMR_USP_def or.assoc)
  have e: "ETH_MACDMAConfig err s = Inr (?s3\<lparr>mac := ?m\<rparr>)"
    using assms k(1) by (simp add: ETH_MACDMAConfig_def ETH_MACAddressConfig_def mac_do_def Let_def ETH_MAC_ADDRESS0_def)
  have "mac_address ?m = take 6 (MACAddr s)"
    by (simp only: mac_address_bytes take_six [OF assms])
  with r k show ?thesis
    by (intro exI [of _ "?s3\<lparr>mac := ?m\<rparr>"])
      (simp only: e mac_configured_def, simp add: setup_only_def setup_mask_def mdc_bits_def)
qed

section \<open>Initialisation\<close>

text \<open>The result of the set-up that started in \<open>s\<close> with the controller just reset.\<close>

definition init_post :: "eth_sys \<Rightarrow> eth_sys \<Rightarrow> bool" where
  "init_post s s' \<longleftrightarrow> eth_State (heth s') = ETH_STATE_READY \<and> mac_configured (mac s) s' \<and> mdc_bits s' = mdc_bits s \<and> setup_only s s'"

lemma phy_mask_sel:
  "MACAddr (phy_mask s) = MACAddr s" "EthSpeed (phy_mask s) = EthSpeed s" "DuplexMode (phy_mask s) = DuplexMode s"
  "AutoNegotiation (phy_mask s) = AutoNegotiation s" "r_MACCR (mac (phy_mask s)) = r_MACCR (mac s)"
  "r_MACFCR (mac (phy_mask s)) = r_MACFCR (mac s)" "r_DMAOMR (mac (phy_mask s)) = r_DMAOMR (mac s)"
  "r_DMAIER (mac (phy_mask s)) = r_DMAIER (mac s)"
  by (simp_all add: phy_mask_def)

lemma phy_only_fields:
  assumes "phy_only s s1"
  shows "MACAddr s1 = MACAddr s" "EthSpeed s1 = EthSpeed s" "DuplexMode s1 = DuplexMode s" "AutoNegotiation s1 = AutoNegotiation s"
    "r_MACCR (mac s1) = r_MACCR (mac s)" "r_MACFCR (mac s1) = r_MACFCR (mac s)" "r_DMAOMR (mac s1) = r_DMAOMR (mac s)"
    "r_DMAIER (mac s1) = r_DMAIER (mac s)"
proof -
  from assms have "phy_mask s1 = phy_mask s" by (simp add: phy_only_def)
  then show "MACAddr s1 = MACAddr s" "EthSpeed s1 = EthSpeed s" "DuplexMode s1 = DuplexMode s" "AutoNegotiation s1 = AutoNegotiation s"
    "r_MACCR (mac s1) = r_MACCR (mac s)" "r_MACFCR (mac s1) = r_MACFCR (mac s)" "r_DMAOMR (mac s1) = r_DMAOMR (mac s)"
    "r_DMAIER (mac s1) = r_DMAIER (mac s)"
    by (metis phy_mask_sel)+
qed

lemma mac_configured_cong: "phy_only s s1 \<Longrightarrow> mac_configured (mac s1) s' \<Longrightarrow> mac_configured (mac s) s'"
  by (simp add: mac_configured_def phy_only_fields)

lemma init_failed_post:
  assumes "phy_only s s1" "6 \<le> length (MACAddr s)"
  shows "\<exists>s'. init_failed st u s1 = Inr (st, s') \<and> init_post s s' \<and> EthSpeed s' = ETH_SPEED_100M \<and> DuplexMode s' = ETH_MODE_FULLDUPLEX"
proof -
  have "6 \<le> length (MACAddr s1)" using assms phy_only_fields(1) by simp
  from ETH_MACDMAConfig_ok [OF this, of True] obtain s2 where s2: "ETH_MACDMAConfig True s1 = Inr s2" "mac_configured (mac s1) s2"
      "setup_only s1 s2" "mdc_bits s2 = mdc_bits s1" "EthSpeed s2 = ETH_SPEED_100M" "DuplexMode s2 = ETH_MODE_FULLDUPLEX"
    by auto
  let ?s' = "eth_do (\<lambda>h. h\<lparr>eth_State := ETH_STATE_READY, eth_Lock := (if u then False else eth_Lock h)\<rparr>) s2"
  have "mac_configured (mac s) ?s'"
    using mac_configured_cong [OF assms(1) s2(2)] by (simp add: mac_configured_def eth_do_def)
  moreover have "setup_only s ?s'"
    using setup_only_trans [OF phy_setup_only [OF assms(1)] s2(3)] by (simp add: setup_only_def setup_mask_def eth_do_def)
  moreover have "mdc_bits ?s' = mdc_bits s" using assms(1) s2(4) by (simp add: phy_only_def mdc_bits_def eth_do_def)
  ultimately show ?thesis using s2 by (simp add: init_failed_def init_post_def eth_do_def)
qed

lemma init_ok_post:
  assumes "phy_only s s1" "6 \<le> length (MACAddr s)"
  shows "\<exists>s'. init_ok (s1\<lparr>EthSpeed := a, DuplexMode := b\<rparr>) = Inr (HAL_OK, s') \<and> init_post s s' \<and> EthSpeed s' = a \<and> DuplexMode s' = b"
proof -
  let ?s1 = "s1\<lparr>EthSpeed := a, DuplexMode := b\<rparr>"
  have "6 \<le> length (MACAddr ?s1)" using assms phy_only_fields(1) by simp
  from ETH_MACDMAConfig_ok [OF this, of False] obtain s2 where s2: "ETH_MACDMAConfig False ?s1 = Inr s2" "mac_configured (mac s1) s2"
      "setup_only ?s1 s2" "mdc_bits s2 = mdc_bits s1" "EthSpeed s2 = a" "DuplexMode s2 = b"
    by (auto simp: mdc_bits_def)
  have o: "setup_only s1 ?s1" by (simp add: setup_only_def setup_mask_def)
  let ?s' = "eth_do (\<lambda>h. h\<lparr>eth_State := ETH_STATE_READY\<rparr>) s2"
  have "mac_configured (mac s) ?s'"
    using mac_configured_cong [OF assms(1) s2(2)] by (simp add: mac_configured_def eth_do_def)
  moreover have "setup_only s ?s'"
    using setup_only_trans [OF setup_only_trans [OF phy_setup_only [OF assms(1)] o] s2(3)]
    by (simp add: setup_only_def setup_mask_def eth_do_def)
  moreover have "mdc_bits ?s' = mdc_bits s" using assms(1) s2(4) by (simp add: phy_only_def mdc_bits_def eth_do_def)
  ultimately show ?thesis using s2 by (simp add: init_ok_def init_post_def eth_do_def)
qed

text \<open>What the negotiation of the PHY asks for.\<close>

definition phy_speed :: "u32 \<Rightarrow> u32" where
  "phy_speed r = (if bit r 1 then ETH_SPEED_10M else ETH_SPEED_100M)"

definition phy_duplex :: "u32 \<Rightarrow> u32" where
  "phy_duplex r = (if bit r 2 then ETH_MODE_FULLDUPLEX else ETH_MODE_HALFDUPLEX)"

lemma and_two_pow: "(r :: u32) AND 2 = 2 \<longleftrightarrow> bit r 1" "(r :: u32) AND 4 \<noteq> 0 \<longleftrightarrow> bit r 2"
proof -
  have p: "(2 :: u32) = push_bit 1 1" "(4 :: u32) = push_bit 2 1" by simp_all
  show "(r :: u32) AND 2 = 2 \<longleftrightarrow> bit r 1" unfolding p by (rule selected) simp
  have "(4 :: u32) = 2 ^ 2" by simp
  then show "(r :: u32) AND 4 \<noteq> 0 \<longleftrightarrow> bit r 2" by (simp only: and_exp_eq_0_iff_not_bit) simp
qed

lemma negotiated_eq: "negotiated (ucast (ucast d :: u16)) s = s\<lparr>EthSpeed := phy_speed d, DuplexMode := phy_duplex d\<rparr>"
proof -
  have "bit (ucast (ucast d :: u16) :: u32) n = bit d n" if "n < 16" for n
    using that by (simp add: bit_simps)
  then show ?thesis
    by (simp add: negotiated_def PHY_DUPLEX_STATUS_def PHY_SPEED_STATUS_def and_two_pow phy_speed_def phy_duplex_def)
qed

text \<open>Which mode the controller is in at the end.\<close>

definition mode_of :: "eth_env \<Rightarrow> eth_sys \<Rightarrow> HAL_Status \<Rightarrow> u32 \<times> u32" where
  "mode_of e s st =
     (if st \<noteq> HAL_OK then (ETH_SPEED_100M, ETH_MODE_FULLDUPLEX)
      else if AutoNegotiation s = ETH_AUTONEGOTIATION_DISABLE then (EthSpeed s, DuplexMode s)
      else (phy_speed (snd (snd (env_result e))), phy_duplex (snd (snd (env_result e)))))"

lemma init_forced_post:
  assumes "phy_only s s1" "6 \<le> length (MACAddr s)" "env_live e" "AutoNegotiation s = ETH_AUTONEGOTIATION_DISABLE"
  shows "\<exists>st s'. init_forced e s1 = Inr (st, s') \<and> init_post s s' \<and> (EthSpeed s', DuplexMode s') = mode_of e s st"
proof -
  from assms(3) obtain st s2 where w: "phy_write PHY_BCR (forced_mode s1) (env_forced e) s1 = Inr (st, s2)" "phy_only s1 s2"
    using phy_write_ends by (metis env_live_def)
  have s2: "phy_only s s2" by (rule phy_only_trans [OF assms(1) w(2)])
  show ?thesis
  proof (cases "st = HAL_OK")
    case True
    have d: "phy_only s (eth_delay PHY_CONFIG_DELAY s2)" by (rule phy_only_trans [OF s2 phy_only_delay])
    have "(eth_delay PHY_CONFIG_DELAY s2)\<lparr>EthSpeed := EthSpeed s, DuplexMode := DuplexMode s\<rparr> = eth_delay PHY_CONFIG_DELAY s2"
      using phy_only_fields [OF d] by simp
    then show ?thesis
      using init_ok_post [OF d assms(2), where a = "EthSpeed s" and b = "DuplexMode s"] w True assms(4)
      by (auto simp: init_forced_def mode_of_def)
  next
    case False
    then show ?thesis
      using init_failed_post [OF s2 assms(2), of HAL_ERROR False] w by (auto simp: init_forced_def mode_of_def)
  qed
qed

lemma init_autonegotiation_post:
  assumes "phy_only s s1" "6 \<le> length (MACAddr s)" "env_live e" "AutoNegotiation s \<noteq> ETH_AUTONEGOTIATION_DISABLE"
  shows "\<exists>st s'. init_autonegotiation e s1 = Inr (st, s') \<and> init_post s s' \<and> (EthSpeed s', DuplexMode s') = mode_of e s st"
proof -
  have failed: "\<exists>s'. init_failed st u t = Inr (st, s') \<and> init_post s s' \<and> (EthSpeed s', DuplexMode s') = mode_of e s st"
    if "phy_only s t" "st \<noteq> HAL_OK" for st u t
    using init_failed_post [OF that(1) assms(2), of st u] that(2) by (auto simp: mode_of_def)
  note live = assms(3) [unfolded env_live_def]
  obtain b r s2 where l: "phy_wait ETH_TIMEOUT_LINKED_STATE PHY_LINKED_STATUS (fst (env_link e)) (snd (env_link e)) 0 s1 = Inr (b, r, s2)"
      "phy_only s1 s2"
    using phy_wait_ends [of ETH_TIMEOUT_LINKED_STATE "fst (env_link e)" "snd (env_link e)"] live by auto blast
  obtain st s3 where w: "phy_write PHY_BCR PHY_AUTONEGOTIATION (env_autoneg e) s2 = Inr (st, s3)" "phy_only s2 s3"
    using phy_write_ends live by blast
  obtain c r2 s4 where n: "phy_wait ETH_TIMEOUT_AUTONEGO_COMPLETED PHY_AUTONEGO_COMPLETE (fst (env_complete e)) (snd (env_complete e)) r s3
      = Inr (c, r2, s4)" "phy_only s3 s4"
    using phy_wait_ends [of ETH_TIMEOUT_AUTONEGO_COMPLETED "fst (env_complete e)" "snd (env_complete e)"] live by auto blast
  obtain st2 r3 s5 where q: "phy_read PHY_SR (env_result e) r2 s4 = Inr (st2, r3, s5)" "phy_only s4 s5"
      "st2 = HAL_OK \<longrightarrow> r3 = ucast (ucast (snd (snd (env_result e))) :: u16)"
    using phy_read_ends live by blast
  have p2: "phy_only s s2" by (rule phy_only_trans [OF assms(1) l(2)])
  have p3: "phy_only s s3" by (rule phy_only_trans [OF p2 w(2)])
  have p4: "phy_only s s4" by (rule phy_only_trans [OF p3 n(2)])
  have p5: "phy_only s s5" by (rule phy_only_trans [OF p4 q(2)])
  have ok: "\<exists>s'. init_ok (negotiated r3 s5) = Inr (HAL_OK, s') \<and> init_post s s' \<and> (EthSpeed s', DuplexMode s') = mode_of e s HAL_OK"
    if "st2 = HAL_OK"
    using init_ok_post [OF p5 assms(2), where a = "phy_speed (snd (snd (env_result e)))" and b = "phy_duplex (snd (snd (env_result e)))"] q(3) that assms(4)
    by (auto simp: negotiated_eq mode_of_def)
  show ?thesis
    using l(1) w(1) n(1) q(1) ok failed [OF p2, of HAL_TIMEOUT True] failed [OF p3, of HAL_ERROR False]
      failed [OF p4, of HAL_TIMEOUT True] failed [OF p5, of HAL_ERROR False]
    by (cases b; cases "st = HAL_OK"; cases c; cases "st2 = HAL_OK") (auto simp: init_autonegotiation_def)
qed

section \<open>Pins and interrupt\<close>

text \<open>The nine pins of the interface to the PHY.\<close>

definition eth_pins :: "(gpio_port \<times> nat) list" where
  "eth_pins = [(GPIOG, 13), (GPIOG, 14), (GPIOC, 1), (GPIOC, 4), (GPIOC, 5), (GPIOA, 1), (GPIOA, 2), (GPIOA, 7), (GPIOB, 11)]"

definition eth_pin_on :: pin_view where
  "eth_pin_on = \<lparr>v_mode = 2, v_otype = 0, v_speed = 3, v_pull = 0, v_af = 0xB\<rparr>"

lemma eth_pin_init_valid: "init_valid (eth_pin_init pins)"
  by (simp add: init_valid_def eth_pin_init_def reg_consts)

lemma eth_pin_configured: "configure_pin (eth_pin_init pins) v = eth_pin_on"
  by (simp add: configure_pin_def eth_pin_init_def eth_pin_on_def is_output_def is_alternate_def reg_consts)

lemma pins_of_mask:
  "p < 16 \<Longrightarrow> bit (0x6000 :: u32) p \<longleftrightarrow> p \<in> {13, 14}" "p < 16 \<Longrightarrow> bit (0x32 :: u32) p \<longleftrightarrow> p \<in> {1, 4, 5}"
  "p < 16 \<Longrightarrow> bit (0x86 :: u32) p \<longleftrightarrow> p \<in> {1, 2, 7}" "p < 16 \<Longrightarrow> bit (0x800 :: u32) p \<longleftrightarrow> p = 11"
proof -
  show "bit (0x6000 :: u32) p \<longleftrightarrow> p \<in> {13, 14}" "bit (0x32 :: u32) p \<longleftrightarrow> p \<in> {1, 4, 5}"
    "bit (0x86 :: u32) p \<longleftrightarrow> p \<in> {1, 2, 7}" "bit (0x800 :: u32) p \<longleftrightarrow> p = 11" if "p < 16"
  proof -
    from that have "p \<in> {0, 1, 2, 3, 4, 5, 6, 7, 8, 9, 10, 11, 12, 13, 14, 15}" by (simp; presburger)
    then show "bit (0x6000 :: u32) p \<longleftrightarrow> p \<in> {13, 14}" "bit (0x32 :: u32) p \<longleftrightarrow> p \<in> {1, 4, 5}"
      "bit (0x86 :: u32) p \<longleftrightarrow> p \<in> {1, 2, 7}" "bit (0x800 :: u32) p \<longleftrightarrow> p = 11"
      by (elim insertE emptyE; simp add: bit_simps)+
  qed
qed

lemma msp_init:
  assumes "core_wf (eth_core s)" "Instance s = ETH_BASE"
  shows "\<exists>g c. HAL_ETH_MspInit s = Inr (s\<lparr>AHB1ENR := AHB1ENR s OR 0xE000000, eth_gpio := g, eth_core := c\<rparr>)
    \<and> (\<forall>port p. p < 16 \<longrightarrow> pin_of (GPIOx g port) p
         = (if (port, p) \<in> set eth_pins then eth_pin_on else pin_of (GPIOx (eth_gpio s) port) p))
    \<and> core_wf c \<and> NVIC_GetEnableIRQ ETH_IRQn c = Inr 1
    \<and> NVIC_GetPriority ETH_IRQn c = Inr (NVIC_EncodePriority (NVIC_GetPriorityGrouping (eth_core s)) 5 0)"
proof -
  let ?g1 = "HAL_GPIO_Init GPIOG (eth_pin_init 0x6000) (eth_gpio s)"
  let ?g2 = "HAL_GPIO_Init GPIOC (eth_pin_init 0x32) ?g1"
  let ?g3 = "HAL_GPIO_Init GPIOA (eth_pin_init 0x86) ?g2"
  let ?g4 = "HAL_GPIO_Init GPIOB (eth_pin_init 0x800) ?g3"
  have pin: "Pin (eth_pin_init n) = n" for n by (simp add: eth_pin_init_def)
  have pins: "pin_of (GPIOx ?g4 port) p = (if (port, p) \<in> set eth_pins then eth_pin_on else pin_of (GPIOx (eth_gpio s) port) p)"
    if "p < 16" for port p
    using that by (cases port) (simp_all add: gpio_init_pins [OF eth_pin_init_valid] eth_pin_configured pin pins_of_mask eth_pins_def
        del: bit_numeral_word_iff)
  obtain c1 where c1: "HAL_NVIC_SetPriority ETH_IRQn 5 0 (eth_core s) = Inr c1" "core_wf c1"
      "NVIC_GetPriority ETH_IRQn c1 = Inr (NVIC_EncodePriority (NVIC_GetPriorityGrouping (eth_core s)) 5 0)"
    using set_get_priority [OF assms(1), of ETH_IRQn 5 0] by (auto simp: ETH_IRQn_def)
  obtain c2 where c2: "HAL_NVIC_EnableIRQ ETH_IRQn c1 = Inr c2" "core_wf c2" "IP c2 = IP c1" "NVIC_GetEnableIRQ ETH_IRQn c2 = Inr 1"
    using enable_irq [OF c1(2), of ETH_IRQn] by (auto simp: ETH_IRQn_def)
  have "NVIC_GetPriority ETH_IRQn c2 = NVIC_GetPriority ETH_IRQn c1" using c2(3) by (simp add: NVIC_GetPriority_def ETH_IRQn_def)
  with pins c1 c2 assms(2) show ?thesis
    by (intro exI [of _ ?g4] exI [of _ c2]) (simp add: HAL_ETH_MspInit_def Let_def or.assoc)
qed

lemma msp_deinit:
  assumes "core_wf (eth_core s)" "Instance s = ETH_BASE"
  shows "\<exists>g c. HAL_ETH_MspDeInit s = Inr (s\<lparr>AHB1ENR := AHB1ENR s AND NOT 0xE000000, eth_gpio := g, eth_core := c\<rparr>)
    \<and> (\<forall>port p. p < 16 \<longrightarrow> pin_of (GPIOx g port) p
         = (if (port, p) \<in> set eth_pins then pin_reset else pin_of (GPIOx (eth_gpio s) port) p))
    \<and> core_wf c \<and> NVIC_GetEnableIRQ ETH_IRQn c = Inr 0"
proof -
  let ?g4 = "HAL_GPIO_DeInit GPIOB 0x800 (HAL_GPIO_DeInit GPIOA 0x86 (HAL_GPIO_DeInit GPIOC 0x32
    (HAL_GPIO_DeInit GPIOG 0x6000 (eth_gpio s))))"
  have pins: "pin_of (GPIOx ?g4 port) p = (if (port, p) \<in> set eth_pins then pin_reset else pin_of (GPIOx (eth_gpio s) port) p)"
    if "p < 16" for port p
    using that by (cases port) (simp_all add: gpio_deinit_pins pins_of_mask eth_pins_def del: bit_numeral_word_iff)
  obtain c where c: "HAL_NVIC_DisableIRQ ETH_IRQn (eth_core s) = Inr c" "core_wf c" "NVIC_GetEnableIRQ ETH_IRQn c = Inr 0"
    using disable_irq [OF assms(1), of ETH_IRQn] by (auto simp: ETH_IRQn_def)
  from pins c assms(2) show ?thesis
    by (intro exI [of _ ?g4] exI [of _ c]) (simp add: HAL_ETH_MspDeInit_def Let_def and.assoc)
qed

section \<open>Start and stop\<close>

text \<open>The four machines of the controller: transmitter, receiver and the two of the DMA.\<close>

definition eth_running :: "eth_sys \<Rightarrow> bool list" where
  "eth_running s = [bit (r_MACCR (mac s)) 3, bit (r_MACCR (mac s)) 2, bit (r_DMAOMR (mac s)) 13, bit (r_DMAOMR (mac s)) 1]"

lemma start_running:
  assumes "\<not> eth_Lock (heth s)"
  shows "\<exists>s'. HAL_ETH_Start flushed s = (HAL_OK, s') \<and> eth_running s' = [True, True, True, True] \<and> setup_only s s'
    \<and> eth_State (heth s') = ETH_STATE_READY \<and> \<not> eth_Lock (heth s') \<and> EthSpeed s' = EthSpeed s \<and> DuplexMode s' = DuplexMode s
    \<and> mac_address (mac s') = mac_address (mac s)"
  using assms
  by (simp add: HAL_ETH_Start_def sys_locked_def ETH_MACTransmissionEnable_def ETH_MACReceptionEnable_def ETH_FlushTransmitFIFO_def
      ETH_DMATransmissionEnable_def ETH_DMAReceptionEnable_def config_simps eth_ready_def eth_running_def setup_only_def
      setup_mask_def mac_address_def reg_consts bit_or_iff)

lemma stop_running:
  assumes "\<not> eth_Lock (heth s)"
  shows "\<exists>s'. HAL_ETH_Stop flushed s = (HAL_OK, s') \<and> eth_running s' = [False, False, False, False] \<and> setup_only s s'
    \<and> eth_State (heth s') = ETH_STATE_READY \<and> \<not> eth_Lock (heth s')"
  using assms
  by (simp add: HAL_ETH_Stop_def sys_locked_def ETH_MACTransmissionDisable_def ETH_MACReceptionDisable_def ETH_FlushTransmitFIFO_def
      ETH_DMATransmissionDisable_def ETH_DMAReceptionDisable_def config_simps eth_ready_def eth_running_def setup_only_def
      setup_mask_def reg_consts bit_and_iff bit_or_iff)

section \<open>The outcome\<close>

text \<open>The state in which the wait for the reset starts, and the one after it.\<close>

definition reset_state :: "eth_env \<Rightarrow> eth_sys \<Rightarrow> eth_sys" where
  "reset_state e s = s\<lparr>APB2ENR := APB2ENR s OR 0x4000,
     SYSCFG_PMC := (SYSCFG_PMC s AND NOT SYSCFG_PMC_MII_RMII_SEL) OR MediaInterface s,
     mac := r_MACMIIAR_update (\<lambda>r. (r AND ETH_MACMIIAR_CR_MASK) OR mdc_range (env_hclk e)) (env_mac e)\<rparr>"

lemma mdc_bits_reset: "mdc_bits (reset_state e s) = mdc_range (env_hclk e)"
proof -
  have "(a AND ETH_MACMIIAR_CR_MASK) AND 0x1C = 0" for a by (simp add: and.assoc ETH_MACMIIAR_CR_MASK_def)
  then show ?thesis by (simp add: mdc_bits_def reset_state_def bit.conj_disj_distrib2 mdc_range_def)
qed

text \<open>From the end of the board's part on.\<close>

definition reset_ok :: "eth_env \<Rightarrow> bool" where
  "reset_ok e \<longleftrightarrow> reset_wait (fst (env_reset e)) (snd (env_reset e)) = Inr True"

definition init_rest :: "eth_env \<Rightarrow> eth_sys \<Rightarrow> HAL_Status \<Rightarrow> eth_sys \<Rightarrow> bool" where
  "init_rest e s st s' \<longleftrightarrow>
     (if reset_ok e then init_post (reset_state e s) s' \<and> (EthSpeed s', DuplexMode s') = mode_of e s st
      else st = HAL_TIMEOUT \<and> eth_State (heth s') = ETH_STATE_TIMEOUT \<and> \<not> eth_Lock (heth s')
        \<and> setup_mask s' = setup_mask (reset_state e s))"

lemma HAL_ETH_Init_rest:
  assumes "6 \<le> length (MACAddr s)" "env_live e" "eth_State (heth s) \<noteq> ETH_STATE_RESET \<or> HAL_ETH_MspInit (eth_do (\<lambda>h. h\<lparr>eth_Lock := False\<rparr>) s) = Inr s1"
    "eth_State (heth s) \<noteq> ETH_STATE_RESET \<Longrightarrow> s1 = s" "MACAddr s1 = MACAddr s"
  shows "\<exists>st s'. HAL_ETH_Init e s = Inr (st, s') \<and> init_rest e s1 st s'"
proof -
  let ?r = "reset_state e s1"
  have m: "(if eth_State (heth s) = ETH_STATE_RESET then HAL_ETH_MspInit (eth_do (\<lambda>h. h\<lparr>eth_Lock := False\<rparr>) s) else Inr s) = Inr s1"
    using assms(3,4) by auto
  obtain b where b: "reset_wait (fst (env_reset e)) (snd (env_reset e)) = Inr b"
    using reset_wait_ends assms(2) by (metis env_live_def)
  obtain st s2 where w: "phy_write PHY_BCR PHY_RESET (env_phy_reset e) ?r = Inr (st, s2)" "phy_only ?r s2"
    using phy_write_ends assms(2) by (metis env_live_def)
  have d: "phy_only ?r (eth_delay PHY_RESET_DELAY s2)" by (rule phy_only_trans [OF w(2) phy_only_delay])
  have l: "6 \<le> length (MACAddr ?r)" using assms(1,5) by (simp add: reset_state_def)
  have a: "AutoNegotiation (eth_delay PHY_RESET_DELAY s2) = AutoNegotiation ?r" using phy_only_fields(4) [OF d] .
  have k: "mode_of e ?r = mode_of e s1" by (rule ext) (simp add: mode_of_def reset_state_def)
  note defs = HAL_ETH_Init_def m b Let_def mac_do_def init_rest_def reset_ok_def
  have run: "HAL_ETH_Init e s = (if st \<noteq> HAL_OK then init_failed HAL_ERROR False s2
      else if AutoNegotiation ?r \<noteq> ETH_AUTONEGOTIATION_DISABLE then init_autonegotiation e (eth_delay PHY_RESET_DELAY s2)
      else init_forced e (eth_delay PHY_RESET_DELAY s2))" if b
    using that w(1) a by (simp add: HAL_ETH_Init_def m b Let_def mac_do_def reset_state_def)
  show ?thesis
  proof (cases b)
    case False
    then show ?thesis by (simp add: defs reset_state_def eth_do_def setup_mask_def)
  next
    case True
    note run = run [OF True]
    consider "st \<noteq> HAL_OK" | "st = HAL_OK" "AutoNegotiation ?r \<noteq> ETH_AUTONEGOTIATION_DISABLE"
      | "st = HAL_OK" "AutoNegotiation ?r = ETH_AUTONEGOTIATION_DISABLE" by blast
    then show ?thesis
    proof cases
      case 1
      then show ?thesis using init_failed_post [OF w(2) l, of HAL_ERROR False] True
        by (auto simp: run init_rest_def reset_ok_def b mode_of_def)
    next
      case 2
      then show ?thesis using init_autonegotiation_post [OF d l assms(2)] True by (auto simp: run init_rest_def reset_ok_def b k)
    next
      case 3
      then show ?thesis using init_forced_post [OF d l assms(2)] True by (auto simp: run init_rest_def reset_ok_def b k)
    qed
  qed
qed

text \<open>The management clock never exceeds what the PHY allows, 2.5 MHz.\<close>

definition mdc_divider :: "u32 \<Rightarrow> u32" where
  "mdc_divider cr = (if cr = 0x0 then 42 else if cr = 0x4 then 62 else if cr = 0x8 then 16 else if cr = 0xC then 26 else 102)"

lemma mdc_limit: "hclk \<le> 216000000 \<Longrightarrow> unat hclk \<le> 2500000 * unat (mdc_divider (mdc_range hclk))"
  by (auto simp: mdc_range_def mdc_divider_def word_le_nat_alt word_less_nat_alt)

text \<open>The value for the control register of the PHY in the forced modes, as its data sheet has it.\<close>

lemma forced_mode_values:
  "EthSpeed s = ETH_SPEED_100M \<Longrightarrow> DuplexMode s = ETH_MODE_FULLDUPLEX \<Longrightarrow> forced_mode s = 0x2100"
  "EthSpeed s = ETH_SPEED_100M \<Longrightarrow> DuplexMode s = ETH_MODE_HALFDUPLEX \<Longrightarrow> forced_mode s = 0x2000"
  "EthSpeed s = ETH_SPEED_10M \<Longrightarrow> DuplexMode s = ETH_MODE_FULLDUPLEX \<Longrightarrow> forced_mode s = 0x0100"
  "EthSpeed s = ETH_SPEED_10M \<Longrightarrow> DuplexMode s = ETH_MODE_HALFDUPLEX \<Longrightarrow> forced_mode s = 0"
  by (simp_all add: forced_mode_def reg_consts)

text \<open>Contrary to the comment in the code the mask keeps the enable bits of transmitter and receiver.\<close>

lemma clear_mask_keeps_running: "(ETH_MACCR_TE OR ETH_MACCR_RE) AND ETH_MACCR_CLEAR_MASK = ETH_MACCR_TE OR ETH_MACCR_RE"
  by (simp add: reg_consts)

section \<open>Properties\<close>

text \<open>
  Property C22: \<^verbatim>\<open>HAL_ETH_Init\<close> returns whatever controller and PHY answer, as long as the
  clock goes on. If the software reset ends in time the controller is completely configured at the
  end, on the error paths too: registers, address filter with the MAC address of the handle, and a
  management clock of at most 2.5 MHz; the mode is the negotiated one on success and 100 Mbit/s full
  duplex after an error. If the reset does not end, the status is a timeout.
\<close>

theorem HAL_ETH_Init_outcome:
  assumes "core_wf (eth_core s)" and "6 \<le> length (MACAddr s)" and "env_live e" and "env_hclk e \<le> 216000000"
  shows "\<exists>st s'. HAL_ETH_Init e s = Inr (st, s') \<and>
    (if reset_ok e
     then eth_State (heth s') = ETH_STATE_READY \<and> mac_configured (env_mac e) s' \<and> mac_address (mac s') = take 6 (MACAddr s)
       \<and> unat (env_hclk e) \<le> 2500000 * unat (mdc_divider (mdc_bits s')) \<and> (EthSpeed s', DuplexMode s') = mode_of e s st
     else st = HAL_TIMEOUT \<and> eth_State (heth s') = ETH_STATE_TIMEOUT)"
proof -
  let ?s = "eth_do (\<lambda>h. h\<lparr>eth_Lock := False\<rparr>) s"
  have "\<exists>s0. HAL_ETH_MspInit ?s = Inr s0 \<and> MACAddr s0 = MACAddr s \<and> mode_of e s0 = mode_of e s"
  proof (cases "Instance s = ETH_BASE")
    case True
    then obtain g c where "HAL_ETH_MspInit ?s = Inr (?s\<lparr>AHB1ENR := AHB1ENR ?s OR 0xE000000, eth_gpio := g, eth_core := c\<rparr>)"
      using msp_init [of ?s] assms(1) by (auto simp: eth_do_def)
    then show ?thesis by (auto simp: eth_do_def mode_of_def fun_eq_iff)
  next
    case False
    then show ?thesis by (auto simp: HAL_ETH_MspInit_def eth_do_def mode_of_def fun_eq_iff)
  qed
  then obtain s0 where s0: "HAL_ETH_MspInit ?s = Inr s0" "MACAddr s0 = MACAddr s" "mode_of e s0 = mode_of e s" by blast
  define s1 where "s1 = (if eth_State (heth s) = ETH_STATE_RESET then s0 else s)"
  from s0 have s1: "MACAddr s1 = MACAddr s" "mode_of e s1 = mode_of e s" by (simp_all add: s1_def)
  obtain st s' where r: "HAL_ETH_Init e s = Inr (st, s')" "init_rest e s1 st s'"
    using HAL_ETH_Init_rest [OF assms(2,3), of s1] s0 s1 by (auto simp: s1_def)
  show ?thesis
  proof (cases "reset_ok e")
    case True
    with r(2) have p: "init_post (reset_state e s1) s'" "(EthSpeed s', DuplexMode s') = mode_of e s st"
      by (simp_all add: init_rest_def s1)
    from p(1) have "mac_configured (env_mac e) s'" by (simp add: init_post_def mac_configured_def reset_state_def)
    moreover from p(1) have "MACAddr s' = MACAddr s"
      using setup_mask_fields(1) [of s' "reset_state e s1"] by (simp add: init_post_def setup_only_def reset_state_def s1)
    moreover from p(1) have "mdc_bits s' = mdc_range (env_hclk e)" by (simp add: init_post_def mdc_bits_reset)
    ultimately show ?thesis using r(1) p True mdc_limit [OF assms(4)] by (simp add: init_post_def mac_configured_def)
  next
    case False
    with r show ?thesis by (simp add: init_rest_def)
  qed
qed

text \<open>A controller before its first initialisation, and an environment with a PHY that negotiates
  10 Mbit/s half duplex, for the witnesses.\<close>

definition mac_zero :: mac_regs where
  "mac_zero = \<lparr>r_MACCR = 0x8000, r_MACFFR = 0, r_MACHTHR = 0, r_MACHTLR = 0, r_MACMIIAR = 0, r_MACFCR = 0, r_MACVLANTR = 0,
     r_MACAHR = (\<lambda>_. 0), r_MACALR = (\<lambda>_. 0), r_DMABMR = 0, r_DMAOMR = 0, r_DMAIER = 0\<rparr>"

definition eth_zero :: eth where
  "eth_zero = \<lparr>TxTab = replicate 4 \<lparr>Status = 0, ControlBufferSize = 0, Buffer1Addr = 0, Buffer2NextDescAddr = 0\<rparr>,
     RxTab = replicate 4 \<lparr>Status = 0, ControlBufferSize = 0, Buffer1Addr = 0, Buffer2NextDescAddr = 0\<rparr>,
     Tx_Buff = replicate 4 (replicate 1524 0), Rx_Buff = replicate 4 (replicate 1524 0), TxDesc = 0, RxDesc = 0,
     RxFrameInfos = \<lparr>FSRxDesc = 0, LSRxDesc = None, SegCount = 0, frame_length = 0, frame_buffer = 0\<rparr>,
     eth_State = ETH_STATE_RESET, eth_Lock = False, ChecksumMode = 0, RxMode = 1, PhyAddress = 3, eth_log = []\<rparr>"

definition eth_sys_off :: eth_sys where
  "eth_sys_off = \<lparr>heth = eth_zero, Instance = ETH_BASE, AutoNegotiation = 1, EthSpeed = 0x4000, DuplexMode = 0x800,
     MediaInterface = 0x800000, MACAddr = [0, 1, 2, 3, 4, 5], mac = mac_zero, eth_gpio = gpio_off, eth_core = core_reset,
     AHB1ENR = 0, APB2ENR = 0, SYSCFG_PMC = 0\<rparr>"

definition phy_answer :: "u32 \<Rightarrow> phy_access" where
  "phy_answer v = (0, [(1, 0), (0x10000, 0)], v)"

definition env_on :: eth_env where
  "env_on = \<lparr>env_reset = (0, [(0, 1), (0, 501)]), env_mac = mac_zero, env_hclk = 200000000, env_phy_reset = phy_answer 0,
     env_link = (0, [(phy_answer 4, 1), (phy_answer 0, 5001)]), env_autoneg = phy_answer 0,
     env_complete = (0, [(phy_answer 0x20, 1), (phy_answer 0, 5001)]), env_result = phy_answer 2, env_forced = phy_answer 0\<rparr>"

lemma env_on_live: "env_live env_on" "env_hclk env_on \<le> 216000000" "reset_ok env_on"
  by (simp_all add: env_live_def env_on_def access_live_def wait_live_def phy_answer_def reset_ok_def reg_consts)

theorem HAL_ETH_Init_outcome_witness:
  "\<exists>st s'. HAL_ETH_Init env_on eth_sys_off = Inr (st, s') \<and> eth_State (heth s') = ETH_STATE_READY
    \<and> mac_address (mac s') = [0, 1, 2, 3, 4, 5]"
  using HAL_ETH_Init_outcome [OF _ _ env_on_live(1,2), of eth_sys_off] env_on_live(3)
  by (auto simp: eth_sys_off_def)

end
