(* ===== verification/Ethernetif.thy ===== *)
theory Ethernetif
  imports Hal_Eth Sys_Arch
begin

text \<open>
  Model of the data path of \<^verbatim>\<open>src/src/ethernetif.c\<close>: copying the pbuf chain of a frame to
  the transmit buffers, a received frame to a pbuf chain, and the thread that hands received
  frames to the stack. A pbuf chain is the list of its payloads. Offsets and byte counts are
  natural numbers: they stay below \<open>2\<^sup>1\<^sup>7\<close>, since a pbuf has at most 65535 bytes and the offset in a
  buffer never passes its size.
\<close>

unbundle bit_operations_syntax

section \<open>Sending\<close>

text \<open>\<^verbatim>\<open>memcpy\<close> into a row of buffers, and from a place in a buffer.\<close>

definition copy_to :: "nat \<Rightarrow> nat \<Rightarrow> u8 list \<Rightarrow> u8 list list \<Rightarrow> u8 list list res" where
  "copy_to row pos bs bufs = res_bind (rd bufs row) (\<lambda>b.
     if pos + length bs \<le> length b then Inr (bufs[row := take pos b @ bs @ drop (pos + length bs) b]) else Inl Oob)"

definition slice :: "nat \<Rightarrow> nat \<Rightarrow> 'a list \<Rightarrow> 'a list res" where
  "slice pos n xs = (if pos + n \<le> length xs then Inr (take n (drop pos xs)) else Inl Oob)"

text \<open>The variables of the loops: descriptor, its buffer, \<^verbatim>\<open>bufferoffset\<close>, \<^verbatim>\<open>framelength\<close>.\<close>

record out_vars =
  o_desc :: nat
  o_buf :: nat
  bufferoffset :: nat
  framelength :: nat

text \<open>The error exit is \<open>None\<close>.\<close>

definition tx_available :: "nat \<Rightarrow> eth \<Rightarrow> bool res" where
  "tx_available i s = res_bind (rd (TxTab s) i) (\<lambda>d. Inr (Status d AND ETH_DMATXDESC_OWN = 0))"

function out_full :: "u8 list \<Rightarrow> nat \<Rightarrow> nat \<Rightarrow> out_vars \<Rightarrow> eth \<Rightarrow> ((nat \<times> nat \<times> out_vars) option \<times> eth) res" where
  "out_full payload left pos v s =
     (if bufferoffset v > ETH_TX_BUF_SIZE then Inl Oob
      else if left + bufferoffset v > ETH_TX_BUF_SIZE then
        let n = ETH_TX_BUF_SIZE - bufferoffset v in
        res_bind (slice pos n payload) (\<lambda>bs.
        res_bind (copy_to (o_buf v) (bufferoffset v) bs (Tx_Buff s)) (\<lambda>bufs.
        let s1 = s\<lparr>Tx_Buff := bufs\<rparr> in
        res_bind (rd (TxTab s1) (o_desc v)) (\<lambda>d.
        res_bind (tx_available (Buffer2NextDescAddr d) s1) (\<lambda>free.
        if \<not> free then Inr (None, s1)
        else res_bind (rd (TxTab s1) (Buffer2NextDescAddr d)) (\<lambda>d1.
          out_full payload (left - n) (pos + n)
            \<lparr>o_desc = Buffer2NextDescAddr d, o_buf = Buffer1Addr d1, bufferoffset = 0, framelength = framelength v + n\<rparr> s1)))))
      else Inr (Some (left, pos, v), s))"
  by pat_completeness auto
termination
  by (relation "measures [\<lambda>(payload, left, pos, v, s). left, \<lambda>(payload, left, pos, v, s). bufferoffset v]")
    (auto simp: ETH_TX_BUF_SIZE_def)

declare out_full.simps [simp del]

fun out_pbufs :: "u8 list list \<Rightarrow> out_vars \<Rightarrow> eth \<Rightarrow> (out_vars option \<times> eth) res" where
  "out_pbufs [] v s = Inr (Some v, s)"
| "out_pbufs (q # qs) v s =
     res_bind (tx_available (o_desc v) s) (\<lambda>free.
     if \<not> free then Inr (None, s)
     else res_bind (out_full q (length q) 0 v s) (\<lambda>(r, s1).
       case r of None \<Rightarrow> Inr (None, s1)
       | Some (left, pos, v1) \<Rightarrow>
         res_bind (slice pos left q) (\<lambda>bs.
         res_bind (copy_to (o_buf v1) (bufferoffset v1) bs (Tx_Buff s1)) (\<lambda>bufs.
         out_pbufs qs (v1\<lparr>bufferoffset := bufferoffset v1 + left, framelength := framelength v1 + left\<rparr>)
           (s1\<lparr>Tx_Buff := bufs\<rparr>)))))"

datatype out_err = OUT_ERR_OK | OUT_ERR_USE

text \<open>\<open>sr1\<close> and \<open>sr2\<close> are the DMA status register as the HAL and this function read it.\<close>

definition low_level_output :: "u8 list list \<Rightarrow> u32 \<Rightarrow> u32 \<Rightarrow> eth \<Rightarrow> (out_err \<times> eth) res" where
  "low_level_output p sr1 sr2 s =
     res_bind (rd (TxTab s) (TxDesc s)) (\<lambda>d.
     res_bind (out_pbufs p \<lparr>o_desc = TxDesc s, o_buf = Buffer1Addr d, bufferoffset = 0, framelength = 0\<rparr> s) (\<lambda>(r, s1).
     res_bind
       (case r of None \<Rightarrow> Inr (OUT_ERR_USE, s1)
        | Some v \<Rightarrow> res_bind (HAL_ETH_TransmitFrame (of_nat (framelength v)) sr1 s1) (\<lambda>(_, s2). Inr (OUT_ERR_OK, s2)))
       (\<lambda>(e, s3). Inr (e, if sr2 AND ETH_DMASR_TUS \<noteq> 0 then eth_out [DMASR ETH_DMASR_TUS, DMATPDR 0] s3 else s3))))"

section \<open>Receiving\<close>

text \<open>Copy one pbuf of \<open>left\<close> bytes from the buffers, starting in the buffer \<open>buf\<close> of descriptor \<open>desc\<close>.\<close>

function in_pbuf :: "nat \<Rightarrow> nat \<Rightarrow> nat \<Rightarrow> nat \<Rightarrow> eth \<Rightarrow> (u8 list \<times> nat \<times> nat \<times> nat) res" where
  "in_pbuf left boff desc buf s =
     (if boff > ETH_RX_BUF_SIZE then Inl Oob
      else if left + boff > ETH_RX_BUF_SIZE then
        let n = ETH_RX_BUF_SIZE - boff in
        res_bind (rd (Rx_Buff s) buf) (\<lambda>b.
        res_bind (slice boff n b) (\<lambda>bs.
        res_bind (rd (RxTab s) desc) (\<lambda>d.
        res_bind (rd (RxTab s) (Buffer2NextDescAddr d)) (\<lambda>d1.
        res_bind (in_pbuf (left - n) 0 (Buffer2NextDescAddr d) (Buffer1Addr d1) s) (\<lambda>(rest, r).
        Inr (bs @ rest, r))))))
      else
        res_bind (rd (Rx_Buff s) buf) (\<lambda>b.
        res_bind (slice boff left b) (\<lambda>bs. Inr (bs, boff + left, desc, buf))))"
  by pat_completeness auto
termination
  by (relation "measures [\<lambda>(left, boff, desc, buf, s). left, \<lambda>(left, boff, desc, buf, s). boff]")
    (auto simp: ETH_RX_BUF_SIZE_def)

declare in_pbuf.simps [simp del]

fun in_chain :: "nat list \<Rightarrow> nat \<Rightarrow> nat \<Rightarrow> nat \<Rightarrow> eth \<Rightarrow> u8 list list res" where
  "in_chain [] boff desc buf s = Inr []"
| "in_chain (l # ls) boff desc buf s =
     res_bind (in_pbuf l boff desc buf s) (\<lambda>(bs, boff1, desc1, buf1).
     res_bind (in_chain ls boff1 desc1 buf1 s) (\<lambda>rest. Inr (bs # rest)))"

text \<open>Give \<open>n\<close> descriptors back to the DMA.\<close>

fun rx_release :: "nat \<Rightarrow> nat \<Rightarrow> eth \<Rightarrow> eth res" where
  "rx_release 0 i s = Inr s"
| "rx_release (Suc n) i s = res_bind (rd (RxTab s) i) (\<lambda>d.
     rx_release n (Buffer2NextDescAddr d) (s\<lparr>RxTab := (RxTab s)[i := d\<lparr>Status := Status d OR ETH_DMARXDESC_OWN\<rparr>]\<rparr>))"

text \<open>
  \<open>alloc\<close> stands for \<^verbatim>\<open>pbuf_alloc\<close>: for a length, the sizes of the pbufs of the chain, or
  \<open>None\<close>. The result is the chain, \<open>None\<close> being the null pointer.
\<close>

definition low_level_input :: "(nat \<Rightarrow> nat list option) \<Rightarrow> u32 \<Rightarrow> eth \<Rightarrow> (u8 list list option \<times> eth) res" where
  "low_level_input alloc sr s =
     res_bind (HAL_ETH_GetReceivedFrame_IT s) (\<lambda>(st, s1).
     if st \<noteq> HAL_OK then Inr (None, s1)
     else
       let r = RxFrameInfos s1; len = (ucast (frame_length r) :: u16);
           chain = (if len > 0 then alloc (unat len) else None) in
       res_bind (case chain of None \<Rightarrow> Inr None
                 | Some ls \<Rightarrow> res_bind (in_chain ls 0 (FSRxDesc r) (frame_buffer r) s1) (\<lambda>p. Inr (Some p))) (\<lambda>p.
       res_bind (rx_release (unat (SegCount r)) (FSRxDesc r) s1) (\<lambda>s2.
       let s3 = s2\<lparr>RxFrameInfos := (RxFrameInfos s2)\<lparr>SegCount := 0\<rparr>\<rparr>
       in Inr (p, if sr AND ETH_DMASR_RBUS \<noteq> 0 then eth_out [DMASR ETH_DMASR_RBUS, DMARPDR 0] s3 else s3))))"

text \<open>
  The inner loop of the thread, after the semaphore. Each turn takes from the list the status
  register and whether the stack takes the frame; the result is the frames handed to it, with the
  note whether the driver had to free the chain itself.
\<close>

fun ethernetif_drain :: "(nat \<Rightarrow> nat list option) \<Rightarrow> (u32 \<times> bool) list \<Rightarrow> eth
    \<Rightarrow> ((u8 list list \<times> bool) list \<times> eth) res" where
  "ethernetif_drain alloc [] s = Inl Hang"
| "ethernetif_drain alloc ((sr, input_ok) # ins) s =
     res_bind (low_level_input alloc sr s) (\<lambda>(p, s1).
     case p of None \<Rightarrow> Inr ([], s1)
     | Some chain \<Rightarrow> res_bind (ethernetif_drain alloc ins s1) (\<lambda>(ps, s2). Inr ((chain, \<not> input_ok) # ps, s2)))"

text \<open>One turn of the thread: wait for the semaphore \<open>sem\<close>, then take all frames.\<close>

definition ethernetif_input :: "'k rtos \<Rightarrow> u32 \<Rightarrow> (nat \<Rightarrow> nat list option) \<Rightarrow> (u32 \<times> bool) list \<Rightarrow> 'k \<Rightarrow> eth
    \<Rightarrow> ((u8 list list \<times> bool) list \<times> 'k \<times> eth) res" where
  "ethernetif_input K sem alloc ins k s =
     res_bind (returns (osSemaphoreAcquire K sem osWaitForever k)) (\<lambda>(st, k1).
     if st = osOK then res_bind (ethernetif_drain alloc ins s) (\<lambda>(ps, s1). Inr (ps, k1, s1))
     else Inr ([], k1, s))"

section \<open>Interrupt and sleep\<close>

definition HAL_ETH_RxCpltCallback :: "'k rtos \<Rightarrow> u32 \<Rightarrow> 'k \<Rightarrow> 'k" where
  "HAL_ETH_RxCpltCallback K sem k = snd (osSemaphoreRelease K sem k)"

text \<open>The other two callbacks of the HAL are its empty defaults.\<close>

definition ETH_IRQHandler :: "'k rtos \<Rightarrow> u32 \<Rightarrow> u32 \<Rightarrow> u32 \<Rightarrow> u32 \<Rightarrow> 'k \<Rightarrow> eth \<Rightarrow> 'k \<times> eth" where
  "ETH_IRQHandler K sem sr1 sr2 sr3 k s =
     (case HAL_ETH_IRQHandler sr1 sr2 sr3 s of (cbs, s1) \<Rightarrow>
        (if RxCplt \<in> set cbs then HAL_ETH_RxCpltCallback K sem k else k, s1))"

text \<open>
  \<open>rd_in\<close> and \<open>wr_in\<close> are what the MII registers and the clock deliver for reading and writing;
  \<open>old\<close> is what the uninitialised variable holds.
\<close>

definition ethernetif_enter_sleep :: "u32 \<Rightarrow> u32 \<times> u32 \<times> (u32 \<times> u32) list \<times> u32 \<Rightarrow> u32 \<times> u32 \<times> (u32 \<times> u32) list \<Rightarrow> eth \<Rightarrow> eth res" where
  "ethernetif_enter_sleep old rd_in wr_in s =
     (case rd_in of (miiar, t, polls, miidr) \<Rightarrow>
      res_bind (HAL_ETH_ReadPHYRegister 17 miiar t polls miidr s) (\<lambda>(_, v, s1).
      let phy_reg = (case v of Some x \<Rightarrow> x | None \<Rightarrow> old) AND NOT (push_bit 11 0xF) OR push_bit 11 0xB in
      case wr_in of (miiar', t', polls') \<Rightarrow>
      res_bind (HAL_ETH_WritePHYRegister 17 phy_reg miiar' t' polls' s1) (\<lambda>(_, s2). Inr s2)))"

section \<open>Rings and flat memory\<close>

text \<open>Lists of blocks of equal size, seen from block \<open>m\<close> on as one list.\<close>

definition flat :: "nat \<Rightarrow> 'a list list \<Rightarrow> 'a list" where
  "flat m bufs = concat (rotate m bufs)"

lemma mod_add_inj:
  assumes "i < (n :: nat)" "j < n"
  shows "(m + i) mod n = (m + j) mod n \<longleftrightarrow> i = j"
proof -
  have f: "(m + k) mod n = (if m mod n + k < n then m mod n + k else m mod n + k - n)" if "k < n" for k
  proof -
    have "(m + k) mod n = (m mod n + k) mod n" by (simp add: mod_add_left_eq)
    moreover have "m mod n + k - n < n" using that mod_less_divisor [of n m] by linarith
    then have "(m mod n + k - n) mod n = m mod n + k - n" by (rule mod_less)
    ultimately show ?thesis using le_mod_geq [of n "m mod n + k"] by (cases "m mod n + k < n") simp_all
  qed
  have "m mod n < n" using assms by (intro mod_less_divisor) linarith
  then show ?thesis using f [OF assms(1)] f [OF assms(2)] assms by auto
qed

lemma rotate_update:
  assumes "q < length xs"
  shows "rotate m (xs[(m + q) mod length xs := b]) = (rotate m xs)[q := b]"
proof (rule nth_equalityI)
  fix i assume "i < length (rotate m (xs[(m + q) mod length xs := b]))"
  then have "i < length xs" by simp
  moreover have "(m + q) mod length xs < length xs" using assms by (intro mod_less_divisor) linarith
  ultimately show "rotate m (xs[(m + q) mod length xs := b]) ! i = (rotate m xs)[q := b] ! i"
    using assms mod_add_inj [of i "length xs" q m] by (auto simp: nth_rotate nth_list_update)
qed simp

lemma length_concat_blocks: "\<forall>b \<in> set xs. length b = k \<Longrightarrow> length (concat xs) = length xs * k"
  by (induction xs) auto

lemma take_concat_update:
  assumes "\<forall>b \<in> set xs. length b = k" "q < length xs" "pos + length bs \<le> k"
  shows "take (q * k + pos + length bs) (concat (xs[q := take pos (xs ! q) @ bs @ drop (pos + length bs) (xs ! q)]))
    = take (q * k + pos) (concat xs) @ bs"
  using assms
proof (induction xs arbitrary: q)
  case (Cons b xs)
  then show ?case by (cases q) (auto simp: add.assoc)
qed simp

lemma take_drop_concat:
  assumes "\<forall>b \<in> set xs. length b = k" "q < length xs" "n \<le> k"
  shows "take n (xs ! q) = take n (drop (q * k) (concat xs))"
  using assms
proof (induction xs arbitrary: q)
  case (Cons b xs)
  then show ?case by (cases q) (auto simp: add.commute)
qed simp

section \<open>The transmit ring\<close>

abbreviation "S \<equiv> ETH_TX_BUF_SIZE"

definition tx_ring :: "eth \<Rightarrow> bool" where
  "tx_ring s \<longleftrightarrow> length (TxTab s) = ETH_TXBUFNB \<and> length (Tx_Buff s) = ETH_TXBUFNB \<and> TxDesc s < ETH_TXBUFNB
     \<and> (\<forall>b \<in> set (Tx_Buff s). length b = S)
     \<and> (\<forall>i < ETH_TXBUFNB. Buffer1Addr (TxTab s ! i) = i \<and> Buffer2NextDescAddr (TxTab s ! i) = (i + 1) mod ETH_TXBUFNB)"

text \<open>The descriptor \<open>j\<close> places after \<open>m\<close> belongs to the driver.\<close>

definition tx_free :: "nat \<Rightarrow> eth \<Rightarrow> nat \<Rightarrow> bool" where
  "tx_free m s j \<longleftrightarrow> Status (TxTab s ! ((m + j) mod ETH_TXBUFNB)) AND ETH_DMATXDESC_OWN = 0"

text \<open>
  What the DMA documents to do with a transmit ring: starting at descriptor \<open>i\<close>, it takes the
  segments of a frame, the first marked as first and no other, up to the one marked as last, as
  long as it owns the descriptors. The result is the frame and the descriptor after it.
\<close>

fun dma_fetch :: "bool \<Rightarrow> nat \<Rightarrow> eth_desc list \<Rightarrow> u8 list list \<Rightarrow> nat \<Rightarrow> (u8 list \<times> nat) option" where
  "dma_fetch first 0 tab bufs i = None"
| "dma_fetch first (Suc n) tab bufs i =
     (let d = tab ! i; seg = take (unat (ControlBufferSize d AND ETH_DMATXDESC_TBS1)) (bufs ! Buffer1Addr d) in
      if Status d AND ETH_DMATXDESC_OWN = 0 \<or> (Status d AND ETH_DMATXDESC_FS \<noteq> 0) \<noteq> first then None
      else if Status d AND ETH_DMATXDESC_LS \<noteq> 0 then Some (seg, Buffer2NextDescAddr d)
      else map_option (\<lambda>(rest, k). (seg @ rest, k)) (dma_fetch False n tab bufs (Buffer2NextDescAddr d)))"

text \<open>The variables of the copy loop when they stand at block \<open>q\<close> after \<open>m\<close>.\<close>

definition out_at :: "nat \<Rightarrow> nat \<Rightarrow> out_vars \<Rightarrow> bool" where
  "out_at m q v \<longleftrightarrow> q < ETH_TXBUFNB \<and> o_desc v = (m + q) mod ETH_TXBUFNB \<and> o_buf v = o_desc v \<and> bufferoffset v \<le> S
     \<and> framelength v = q * S + bufferoffset v"

lemma tx_ring_at:
  assumes "tx_ring s"
  shows "rd (TxTab s) (i mod ETH_TXBUFNB) = Inr (TxTab s ! (i mod ETH_TXBUFNB))"
    "Buffer1Addr (TxTab s ! (i mod ETH_TXBUFNB)) = i mod ETH_TXBUFNB"
    "Buffer2NextDescAddr (TxTab s ! (i mod ETH_TXBUFNB)) = Suc i mod ETH_TXBUFNB"
  using assms by (simp_all add: tx_ring_def ETH_TXBUFNB_def mod_Suc_eq)

lemma copy_flat:
  assumes "\<forall>b \<in> set bufs. length b = k" "q < length bufs" "pos + length bs \<le> k"
  shows "\<exists>bufs'. copy_to ((m + q) mod length bufs) pos bs bufs = Inr bufs' \<and> length bufs' = length bufs
    \<and> (\<forall>b \<in> set bufs'. length b = k) \<and> take (q * k + pos + length bs) (flat m bufs') = take (q * k + pos) (flat m bufs) @ bs"
proof -
  let ?i = "(m + q) mod length bufs"
  have i: "?i < length bufs" using assms(2) by (intro mod_less_divisor) linarith
  then have b: "length (bufs ! ?i) = k" "bufs ! ?i = rotate m bufs ! q" using assms(1,2) by (simp_all add: nth_rotate)
  let ?new = "take pos (bufs ! ?i) @ bs @ drop (pos + length bs) (bufs ! ?i)"
  have "copy_to ?i pos bs bufs = Inr (bufs[?i := ?new])" using i b assms(3) by (simp add: copy_to_def)
  moreover have "\<forall>b \<in> set (bufs[?i := ?new]). length b = k"
    using assms b set_update_subset_insert [of bufs ?i ?new] by auto
  moreover have "flat m (bufs[?i := ?new]) = concat ((rotate m bufs)[q := take pos (rotate m bufs ! q) @ bs @ drop (pos + length bs) (rotate m bufs ! q)])"
    by (simp only: flat_def rotate_update [OF assms(2)] b(2))
  moreover have "take (q * k + pos + length bs) (concat ((rotate m bufs)[q := take pos (rotate m bufs ! q) @ bs @ drop (pos + length bs) (rotate m bufs ! q)]))
      = take (q * k + pos) (flat m bufs) @ bs"
    unfolding flat_def by (rule take_concat_update) (use assms in simp_all)
  ultimately show ?thesis by (metis length_list_update)
qed

lemma tx_size: "0 < S" "S < 8192" "ETH_TXBUFNB * S < 2 ^ 32"
  by (simp_all add: ETH_TX_BUF_SIZE_def ETH_TXBUFNB_def)

lemma tx_ring_bufs:
  "tx_ring s \<Longrightarrow> length bufs = ETH_TXBUFNB \<Longrightarrow> \<forall>b \<in> set bufs. length b = S \<Longrightarrow> tx_ring (s\<lparr>Tx_Buff := bufs\<rparr>)"
  by (simp add: tx_ring_def)

text \<open>One full buffer: the turn of the inner loop.\<close>

lemma out_full_turn:
  assumes r: "tx_ring s" and v: "out_at m q v" and len: "pos + left = length payload" and more: "left + bufferoffset v > S"
    and fit: "framelength v + left \<le> ETH_TXBUFNB * S" and free: "\<forall>j < ETH_TXBUFNB. j * S < framelength v + left \<longrightarrow> tx_free m s j"
  defines "n \<equiv> S - bufferoffset v"
  shows "\<exists>bufs v1. out_full payload left pos v s = out_full payload (left - n) (pos + n) v1 (s\<lparr>Tx_Buff := bufs\<rparr>)
    \<and> tx_ring (s\<lparr>Tx_Buff := bufs\<rparr>) \<and> out_at m (q + 1) v1 \<and> bufferoffset v1 = 0 \<and> framelength v1 = framelength v + n
    \<and> take (framelength v1) (flat m bufs) = take (framelength v) (flat m (Tx_Buff s)) @ take n (drop pos payload)"
proof -
  let ?bs = "take n (drop pos payload)"
  have n: "n < left" "length ?bs = n" "bufferoffset v + n = S" using v more len by (auto simp: out_at_def n_def)
  have q: "q < length (Tx_Buff s)" "length (Tx_Buff s) = ETH_TXBUFNB" "\<forall>b \<in> set (Tx_Buff s). length b = S"
    using r v by (simp_all add: tx_ring_def out_at_def)
  from copy_flat [OF q(3,1), of "bufferoffset v" ?bs m] n obtain bufs where b:
    "copy_to (o_buf v) (bufferoffset v) ?bs (Tx_Buff s) = Inr bufs" "length bufs = ETH_TXBUFNB" "\<forall>b \<in> set bufs. length b = S"
    "take (framelength v + n) (flat m bufs) = take (framelength v) (flat m (Tx_Buff s)) @ ?bs"
    using v q(2) by (auto simp: out_at_def)
  let ?s1 = "s\<lparr>Tx_Buff := bufs\<rparr>"
  have r1: "tx_ring ?s1" using tx_ring_bufs [OF r b(2,3)] .
  have fl: "framelength v + n = (q + 1) * S" using v n by (simp add: out_at_def)
  have lt: "(q + 1) * S < framelength v + left" using fl n by linarith
  then have "(q + 1) * S < ETH_TXBUFNB * S" using fit by (rule order_less_le_trans)
  then have q1: "q + 1 < ETH_TXBUFNB" by (simp only: mult_less_cancel2)
  have f1: "tx_free m s (q + 1)" using free q1 lt by blast
  let ?i = "(m + q) mod ETH_TXBUFNB" and ?j = "Suc (m + q) mod ETH_TXBUFNB"
  have d: "rd (TxTab ?s1) ?i = Inr (TxTab ?s1 ! ?i)" "Buffer2NextDescAddr (TxTab ?s1 ! ?i) = ?j"
    "rd (TxTab ?s1) ?j = Inr (TxTab ?s1 ! ?j)" "Buffer1Addr (TxTab ?s1 ! ?j) = ?j"
    by (rule tx_ring_at [OF r1])+
  have a: "tx_available ?j ?s1 = Inr True" using f1 d(3) by (simp add: tx_available_def tx_free_def)
  let ?v1 = "\<lparr>o_desc = ?j, o_buf = ?j, bufferoffset = 0, framelength = framelength v + n\<rparr>"
  have "out_full payload left pos v s = out_full payload (left - n) (pos + n) ?v1 ?s1"
    using v more len n b(1) d a
    by (subst out_full.simps) (simp add: out_at_def slice_def Let_def flip: n_def)
  moreover have "out_at m (q + 1) ?v1" using q1 fl by (simp add: out_at_def)
  ultimately show ?thesis using r1 b(4) by (metis out_vars.select_convs(3,4))
qed

lemma out_full_run:
  assumes "tx_ring s" "out_at m q v" "pos + left = length payload" "framelength v + left \<le> ETH_TXBUFNB * S"
    and "\<forall>j < ETH_TXBUFNB. j * S < framelength v + left \<longrightarrow> tx_free m s j"
  shows "\<exists>left' pos' v' q' bufs. out_full payload left pos v s = Inr (Some (left', pos', v'), s\<lparr>Tx_Buff := bufs\<rparr>)
    \<and> out_at m q' v' \<and> pos \<le> pos' \<and> pos' + left' = length payload \<and> bufferoffset v' + left' \<le> S
    \<and> framelength v' + left' = framelength v + left \<and> tx_ring (s\<lparr>Tx_Buff := bufs\<rparr>)
    \<and> take (framelength v') (flat m bufs) = take (framelength v) (flat m (Tx_Buff s)) @ take (pos' - pos) (drop pos payload)
    \<and> (q' = q \<and> v' = v \<or> 0 < left')"
  using assms
proof (induction "left + bufferoffset v" arbitrary: left pos v q s rule: less_induct)
  case less
  show ?case
  proof (cases "left + bufferoffset v > S")
    case False
    then have "out_full payload left pos v s = Inr (Some (left, pos, v), s)"
      using less.prems(2) by (subst out_full.simps) (simp add: out_at_def)
    moreover have "s = s\<lparr>Tx_Buff := Tx_Buff s\<rparr>" by simp
    ultimately show ?thesis
      using less.prems False
      by (intro exI [of _ left] exI [of _ pos] exI [of _ v] exI [of _ q] exI [of _ "Tx_Buff s"]) simp
  next
    case True
    let ?n = "S - bufferoffset v"
    obtain bufs v1 where t: "out_full payload left pos v s = out_full payload (left - ?n) (pos + ?n) v1 (s\<lparr>Tx_Buff := bufs\<rparr>)"
      "tx_ring (s\<lparr>Tx_Buff := bufs\<rparr>)" "out_at m (q + 1) v1" "bufferoffset v1 = 0" "framelength v1 = framelength v + ?n"
      "take (framelength v1) (flat m bufs) = take (framelength v) (flat m (Tx_Buff s)) @ take ?n (drop pos payload)"
      using out_full_turn [OF less.prems(1-3) True less.prems(4,5)] by metis
    have n: "?n < left" "bufferoffset v \<le> S" using True less.prems(2) by (auto simp: out_at_def)
    have fl: "framelength v1 + (left - ?n) = framelength v + left" using t(5) n by linarith
    have "\<exists>left' pos' v' q' bufs'. out_full payload (left - ?n) (pos + ?n) v1 (s\<lparr>Tx_Buff := bufs\<rparr>)
        = Inr (Some (left', pos', v'), (s\<lparr>Tx_Buff := bufs\<rparr>)\<lparr>Tx_Buff := bufs'\<rparr>)
      \<and> out_at m q' v' \<and> pos + ?n \<le> pos' \<and> pos' + left' = length payload \<and> bufferoffset v' + left' \<le> S
      \<and> framelength v' + left' = framelength v1 + (left - ?n) \<and> tx_ring ((s\<lparr>Tx_Buff := bufs\<rparr>)\<lparr>Tx_Buff := bufs'\<rparr>)
      \<and> take (framelength v') (flat m bufs') = take (framelength v1) (flat m (Tx_Buff (s\<lparr>Tx_Buff := bufs\<rparr>)))
          @ take (pos' - (pos + ?n)) (drop (pos + ?n) payload)
      \<and> (q' = q + 1 \<and> v' = v1 \<or> 0 < left')"
    proof (rule less.hyps)
      show "left - ?n + bufferoffset v1 < left + bufferoffset v" using t(4) n True tx_size by linarith
      show "pos + ?n + (left - ?n) = length payload" using n less.prems(3) by linarith
      show "\<forall>j < ETH_TXBUFNB. j * S < framelength v1 + (left - ?n) \<longrightarrow> tx_free m (s\<lparr>Tx_Buff := bufs\<rparr>) j"
        using less.prems(5) by (simp add: fl tx_free_def)
    qed (use t fl less.prems(4) in simp_all)
    then obtain left' pos' v' q' bufs' where i: "out_full payload (left - ?n) (pos + ?n) v1 (s\<lparr>Tx_Buff := bufs\<rparr>)
        = Inr (Some (left', pos', v'), s\<lparr>Tx_Buff := bufs'\<rparr>)"
      "out_at m q' v'" "pos + ?n \<le> pos'" "pos' + left' = length payload" "bufferoffset v' + left' \<le> S"
      "framelength v' + left' = framelength v + left" "tx_ring (s\<lparr>Tx_Buff := bufs'\<rparr>)"
      "take (framelength v') (flat m bufs') = take (framelength v1) (flat m bufs) @ take (pos' - (pos + ?n)) (drop (pos + ?n) payload)"
      "q' = q + 1 \<and> v' = v1 \<or> 0 < left'"
      unfolding fl by auto
    have "take (pos' - pos) (drop pos payload) = take ?n (drop pos payload) @ take (pos' - (pos + ?n)) (drop (pos + ?n) payload)"
      using take_add [of ?n "pos' - (pos + ?n)" "drop pos payload"] i(3) by (simp add: add.commute)
    then have "take (framelength v') (flat m bufs')
        = take (framelength v) (flat m (Tx_Buff s)) @ take (pos' - pos) (drop pos payload)"
      using t(6) i(8) by simp
    moreover have "0 < left'" using i(6,9) fl n by auto
    moreover have "pos \<le> pos'" using i(3) by simp
    ultimately show ?thesis
      using t(1) i(1,2,4-7)
      by (intro exI [of _ left'] exI [of _ pos'] exI [of _ v'] exI [of _ q'] exI [of _ bufs']) simp
  qed
qed

text \<open>The whole chain: the bytes of the pbufs follow each other in the ring.\<close>

lemma out_pbufs_run:
  assumes "tx_ring s" "out_at m q v" "q = 0 \<or> 0 < bufferoffset v" "0 < framelength v + length (concat p)"
    and "framelength v + length (concat p) \<le> ETH_TXBUFNB * S"
    and "\<forall>j < ETH_TXBUFNB. j * S < framelength v + length (concat p) \<longrightarrow> tx_free m s j"
  shows "\<exists>v' bufs. out_pbufs p v s = Inr (Some v', s\<lparr>Tx_Buff := bufs\<rparr>) \<and> tx_ring (s\<lparr>Tx_Buff := bufs\<rparr>)
    \<and> framelength v' = framelength v + length (concat p)
    \<and> take (framelength v') (flat m bufs) = take (framelength v) (flat m (Tx_Buff s)) @ concat p"
  using assms
proof (induction p arbitrary: q v s)
  case Nil
  then show ?case by (auto intro: exI [of _ "Tx_Buff s"])
next
  case (Cons b p)
  have at: "q < ETH_TXBUFNB" "o_desc v = (m + q) mod ETH_TXBUFNB" "framelength v = q * S + bufferoffset v"
    using Cons.prems(2) by (simp_all add: out_at_def)
  have "q * S < framelength v + length (concat (b # p))" using at(3) Cons.prems(3,4) by auto
  then have "tx_free m s q" using Cons.prems(6) at(1) by blast
  then have a: "tx_available (o_desc v) s = Inr True"
    using tx_ring_at(1) [OF Cons.prems(1), of "m + q"] at(2) by (simp add: tx_available_def tx_free_def)
  obtain left pos v1 q1 bufs where f: "out_full b (length b) 0 v s = Inr (Some (left, pos, v1), s\<lparr>Tx_Buff := bufs\<rparr>)"
    "out_at m q1 v1" "pos + left = length b" "bufferoffset v1 + left \<le> S" "framelength v1 + left = framelength v + length b"
    "tx_ring (s\<lparr>Tx_Buff := bufs\<rparr>)" "take (framelength v1) (flat m bufs) = take (framelength v) (flat m (Tx_Buff s)) @ take pos b"
    "q1 = q \<and> v1 = v \<or> 0 < left"
    using out_full_run [OF Cons.prems(1,2), of 0 "length b" b] Cons.prems(5,6) by auto
  have sl: "slice pos left b = Inr (drop pos b)" "length (drop pos b) = left" using f(3) by (simp_all add: slice_def)
  have bw: "\<forall>b \<in> set bufs. length b = S" "q1 < length bufs" "length bufs = ETH_TXBUFNB"
    using f(2,6) by (simp_all add: tx_ring_def out_at_def)
  from copy_flat [OF bw(1,2), of "bufferoffset v1" "drop pos b" m] f(4) sl(2) obtain bufs2 where c:
    "copy_to (o_buf v1) (bufferoffset v1) (drop pos b) bufs = Inr bufs2" "length bufs2 = ETH_TXBUFNB"
    "\<forall>b \<in> set bufs2. length b = S" "take (framelength v1 + left) (flat m bufs2) = take (framelength v1) (flat m bufs) @ drop pos b"
    using f(2) bw(3) by (auto simp: out_at_def)
  let ?v2 = "v1\<lparr>bufferoffset := bufferoffset v1 + left, framelength := framelength v1 + left\<rparr>"
  let ?s2 = "s\<lparr>Tx_Buff := bufs2\<rparr>"
  have step: "out_pbufs (b # p) v s = out_pbufs p ?v2 ?s2" using a f(1) sl(1) c(1) by simp
  have "tx_ring ?s2" using tx_ring_bufs [OF Cons.prems(1) c(2,3)] .
  moreover have "out_at m q1 ?v2" using f(2,4) by (simp add: out_at_def)
  moreover have "q1 = 0 \<or> 0 < bufferoffset ?v2" using f(8) Cons.prems(3) by auto
  moreover have "framelength ?v2 + length (concat p) = framelength v + length (concat (b # p))" using f(5) by simp
  ultimately obtain v' bufs' where i: "out_pbufs p ?v2 ?s2 = Inr (Some v', ?s2\<lparr>Tx_Buff := bufs'\<rparr>)"
    "tx_ring (?s2\<lparr>Tx_Buff := bufs'\<rparr>)" "framelength v' = framelength ?v2 + length (concat p)"
    "take (framelength v') (flat m bufs') = take (framelength ?v2) (flat m (Tx_Buff ?s2)) @ concat p"
    using Cons.IH [of ?s2 q1 ?v2] Cons.prems(4-6) by (auto simp: tx_free_def)
  have "take (framelength v') (flat m bufs') = take (framelength v) (flat m (Tx_Buff s)) @ concat (b # p)"
    using i(4) c(4) f(7) by simp
  then show ?case using step i(1-3) f(5) by (intro exI [of _ v'] exI [of _ bufs']) simp
qed

text \<open>Handing the descriptors over.\<close>

lemma or_after_clear: "((x :: u32) AND NOT a AND NOT b) OR a OR b = x OR a OR b"
  by (rule bit_word_eqI) (auto simp: bit_simps)

lemma tx_single_eq: "tx_single L = tx_segment L 1 0"
  by (rule ext) (simp add: tx_single_def tx_segment_def Let_def or_after_clear or.assoc)

definition own :: "eth_desc \<Rightarrow> eth_desc" where
  "own d = d\<lparr>Status := Status d OR ETH_DMATXDESC_OWN\<rparr>"

lemma tx_flag_bits:
  "x AND ETH_DMATXDESC_OWN = 0 \<longleftrightarrow> \<not> bit x 31" "x AND ETH_DMATXDESC_LS = 0 \<longleftrightarrow> \<not> bit x 29"
  "x AND ETH_DMATXDESC_FS = 0 \<longleftrightarrow> \<not> bit x 28"
  "bit ETH_DMATXDESC_OWN k \<longleftrightarrow> k = 31" "bit ETH_DMATXDESC_LS k \<longleftrightarrow> k = 29" "bit ETH_DMATXDESC_FS k \<longleftrightarrow> k = 28"
  "ETH_DMATXDESC_OWN \<noteq> 0"
proof -
  have c: "ETH_DMATXDESC_OWN = 2 ^ 31" "ETH_DMATXDESC_LS = 2 ^ 29" "ETH_DMATXDESC_FS = 2 ^ 28" by (simp_all add: reg_consts)
  show "x AND ETH_DMATXDESC_OWN = 0 \<longleftrightarrow> \<not> bit x 31" "x AND ETH_DMATXDESC_LS = 0 \<longleftrightarrow> \<not> bit x 29"
    "x AND ETH_DMATXDESC_FS = 0 \<longleftrightarrow> \<not> bit x 28"
    unfolding c by (rule and_exp_eq_0_iff_not_bit)+
  show "bit ETH_DMATXDESC_OWN k \<longleftrightarrow> k = 31" "bit ETH_DMATXDESC_LS k \<longleftrightarrow> k = 29" "bit ETH_DMATXDESC_FS k \<longleftrightarrow> k = 28"
    unfolding c bit_exp_iff by auto
  show "ETH_DMATXDESC_OWN \<noteq> 0" by (simp add: reg_consts)
qed

lemma segment_marks:
  fixes d :: eth_desc and L :: u32 and c j :: nat
  defines "e \<equiv> own (tx_segment L c j d)"
  shows "Status e AND ETH_DMATXDESC_OWN \<noteq> 0" "Status e AND ETH_DMATXDESC_FS \<noteq> 0 \<longleftrightarrow> j = 0"
    "Status e AND ETH_DMATXDESC_LS \<noteq> 0 \<longleftrightarrow> j = c - 1" "Buffer1Addr e = Buffer1Addr d"
    "Buffer2NextDescAddr e = Buffer2NextDescAddr d"
  by (auto simp: e_def own_def tx_segment_def Let_def tx_flag_bits bit_simps)

lemma segment_size:
  fixes d :: eth_desc and n c j :: nat
  defines "e \<equiv> own (tx_segment (of_nat n) c j d)"
  assumes "n < 2 ^ 32" "(c - 1) * S < n" "n \<le> c * S" "j < c"
  shows "unat (ControlBufferSize e AND ETH_DMATXDESC_TBS1) = (if j = c - 1 then n - (c - 1) * S else S)"
proof -
  have m: "unat (of_nat k AND 0x1FFF AND 0x1FFF :: u32) = k" if "k \<le> S" for k
  proof -
    have "k < 2 ^ 13" using that tx_size(2) by simp
    moreover have "(of_nat k AND 0x1FFF AND 0x1FFF :: u32) = take_bit 13 (of_nat k)"
      by (simp add: take_bit_eq_mask mask_eq_exp_minus_1 and.assoc)
    ultimately show ?thesis by (simp add: unsigned_take_bit_eq unat_of_nat_u32 take_bit_nat_eq_self)
  qed
  have "of_nat n - of_nat (c - 1) * of_nat S = (of_nat (n - (c - 1) * S) :: u32)"
    using assms(3) by (simp add: of_nat_diff)
  moreover have "c * S = (c - 1) * S + S" using assms(5) by (cases c) simp_all
  then have "n - (c - 1) * S \<le> S" using assms(3,4) by linarith
  ultimately show ?thesis using m by (simp add: e_def own_def tx_segment_def Let_def ETH_DMATXDESC_TBS1_def)
qed

lemma tx_give_at:
  fixes s :: eth and i :: nat
  assumes "tx_ring s" "TxDesc s = i mod ETH_TXBUFNB" "\<And>d. Buffer1Addr (f d) = Buffer1Addr d \<and> Buffer2NextDescAddr (f d) = Buffer2NextDescAddr d"
  defines "s' \<equiv> s\<lparr>TxTab := (TxTab s)[i mod ETH_TXBUFNB := own (f (TxTab s ! (i mod ETH_TXBUFNB)))], TxDesc := Suc i mod ETH_TXBUFNB\<rparr>"
  shows "tx_give f s = Inr s'" "tx_ring s'"
proof -
  show "tx_give f s = Inr s'"
    using tx_ring_at [OF assms(1), of i] assms(2,3) by (simp add: tx_give_def Let_def own_def s'_def)
  have "0 < ETH_TXBUFNB" by (simp add: ETH_TXBUFNB_def)
  then show "tx_ring s'"
    using assms(1,3) by (auto simp: tx_ring_def s'_def own_def nth_list_update)
qed

lemma tx_segments_run:
  assumes "tx_ring s" "TxDesc s = (m + i) mod ETH_TXBUFNB" "i + n \<le> ETH_TXBUFNB"
  shows "\<exists>tab. tx_segments L c n i s = Inr (s\<lparr>TxTab := tab, TxDesc := (m + i + n) mod ETH_TXBUFNB\<rparr>)
    \<and> tx_ring (s\<lparr>TxTab := tab, TxDesc := (m + i + n) mod ETH_TXBUFNB\<rparr>)
    \<and> (\<forall>j < ETH_TXBUFNB. tab ! ((m + j) mod ETH_TXBUFNB) = (let d = TxTab s ! ((m + j) mod ETH_TXBUFNB) in
        if i \<le> j \<and> j < i + n then own (tx_segment L c j d) else d))"
  using assms
proof (induction n arbitrary: i s)
  case 0
  then have "s\<lparr>TxTab := TxTab s, TxDesc := (m + i + 0) mod ETH_TXBUFNB\<rparr> = s" by simp
  with 0(1) show ?case by (intro exI [of _ "TxTab s"]) (auto simp: Let_def)
next
  case (Suc n)
  let ?k = "(m + i) mod ETH_TXBUFNB"
  let ?s1 = "s\<lparr>TxTab := (TxTab s)[?k := own (tx_segment L c i (TxTab s ! ?k))], TxDesc := Suc (m + i) mod ETH_TXBUFNB\<rparr>"
  have g: "tx_give (tx_segment L c i) s = Inr ?s1" "tx_ring ?s1"
    by (rule tx_give_at [OF Suc.prems(1,2)], simp add: tx_segment_def Let_def)+
  obtain tab where i: "tx_segments L c n (Suc i) ?s1 = Inr (?s1\<lparr>TxTab := tab, TxDesc := (m + Suc i + n) mod ETH_TXBUFNB\<rparr>)"
    "tx_ring (?s1\<lparr>TxTab := tab, TxDesc := (m + Suc i + n) mod ETH_TXBUFNB\<rparr>)"
    "\<forall>j < ETH_TXBUFNB. tab ! ((m + j) mod ETH_TXBUFNB) = (let d = TxTab ?s1 ! ((m + j) mod ETH_TXBUFNB) in
        if Suc i \<le> j \<and> j < Suc i + n then own (tx_segment L c j d) else d)"
    using Suc.IH [OF g(2), of "Suc i"] Suc.prems(3) by auto
  have k: "?k < length (TxTab s)" using Suc.prems(1,2) by (simp add: tx_ring_def)
  have "tab ! ((m + j) mod ETH_TXBUFNB) = (let d = TxTab s ! ((m + j) mod ETH_TXBUFNB) in
        if i \<le> j \<and> j < i + Suc n then own (tx_segment L c j d) else d)" if "j < ETH_TXBUFNB" for j
    using i(3) that mod_add_inj [of j ETH_TXBUFNB i m] Suc.prems(3) k by (auto simp: Let_def nth_list_update)
  with g(1) i(1,2) show ?case by (intro exI [of _ tab]) simp
qed

lemma dma_fetch_run:
  assumes b: "length bufs = ETH_TXBUFNB" "\<forall>b \<in> set bufs. length b = S" and c: "c \<le> ETH_TXBUFNB" "(c - 1) * S < n" "n \<le> c * S"
    and t: "\<forall>j < c. \<exists>d. tab ! ((m + j) mod ETH_TXBUFNB) = own (tx_segment (of_nat n) c j d)
      \<and> Buffer1Addr d = (m + j) mod ETH_TXBUFNB \<and> Buffer2NextDescAddr d = Suc (m + j) mod ETH_TXBUFNB"
  shows "j < c \<Longrightarrow> c - j \<le> k \<Longrightarrow> dma_fetch (j = 0) k tab bufs ((m + j) mod ETH_TXBUFNB)
    = Some (take (n - j * S) (drop (j * S) (flat m bufs)), (m + c) mod ETH_TXBUFNB)"
proof (induction k arbitrary: j)
  case (Suc k)
  let ?i = "(m + j) mod ETH_TXBUFNB"
  obtain d where d: "tab ! ?i = own (tx_segment (of_nat n) c j d)" "Buffer1Addr d = ?i" "Buffer2NextDescAddr d = Suc (m + j) mod ETH_TXBUFNB"
    using t Suc.prems(1) by blast
  have "c * S \<le> ETH_TXBUFNB * S" using c(1) by simp
  then have n: "n < 2 ^ 32" using c(3) tx_size(3) by linarith
  note e = segment_marks [where L = "of_nat n" and c = c and j = j and d = d] segment_size [OF n c(2,3) Suc.prems(1), of d]
  let ?z = "if j = c - 1 then n - (c - 1) * S else S"
  have z: "?z \<le> S" using c(2,3) Suc.prems(1) by (cases c) auto
  have "bufs ! ?i = rotate m bufs ! j" using b(1) c(1) Suc.prems(1) by (simp add: nth_rotate)
  then have seg: "take ?z (bufs ! ?i) = take ?z (drop (j * S) (flat m bufs))"
    using take_drop_concat [of "rotate m bufs" S j ?z] b c(1) Suc.prems(1) z by (simp add: flat_def)
  show ?case
  proof (cases "j = c - 1")
    case True
    then have "?z = n - j * S" "Suc (m + j) = m + c" "Status (own (tx_segment (of_nat n) c j d)) AND ETH_DMATXDESC_LS \<noteq> 0"
      using Suc.prems(1) e(3) by auto
    with e(1,2,4,5,6) d seg show ?thesis by (simp only: dma_fetch.simps Let_def) simp
  next
    case False
    then have j: "Suc j < c" using Suc.prems(1) by simp
    then have "Suc j * S \<le> (c - 1) * S" by (intro mult_le_mono1) simp
    then have "n - j * S = S + (n - Suc j * S)" using c(2) by simp
    then have "take (n - j * S) (drop (j * S) (flat m bufs))
        = take S (drop (j * S) (flat m bufs)) @ take (n - Suc j * S) (drop (Suc j * S) (flat m bufs))"
      using take_add [of S "n - Suc j * S" "drop (j * S) (flat m bufs)"] by (simp add: add.commute)
    moreover have "dma_fetch False k tab bufs (Suc (m + j) mod ETH_TXBUFNB)
        = Some (take (n - Suc j * S) (drop (Suc j * S) (flat m bufs)), (m + c) mod ETH_TXBUFNB)"
      using Suc.IH [of "Suc j"] j Suc.prems(2) by simp
    ultimately show ?thesis using d e seg False by (simp add: Let_def)
  qed
qed simp

lemma bufcount_bounds:
  assumes "0 < n" "n < 2 ^ 32"
  defines "c \<equiv> tx_bufcount (of_nat n)"
  shows "(c - 1) * S < n" "n \<le> c * S" "0 < c"
proof -
  have u: "unat (of_nat n :: u32) = n" using assms(2) by (rule unat_of_nat_u32)
  define a where "a = n div S"
  define b where "b = n mod S"
  have ab: "n = a * S + b" "b < S" using tx_size(1) by (simp_all add: a_def b_def)
  have "(c - 1) * S < n \<and> n \<le> c * S \<and> 0 < c"
  proof (cases "n > S")
    case True
    then have "0 < a" using tx_size(1) by (simp add: a_def div_greater_zero_iff)
    moreover have "c = a + (if b \<noteq> 0 then 1 else 0)" using True by (simp add: c_def tx_bufcount_def u a_def b_def)
    ultimately show ?thesis using ab tx_size(1) by (cases a) auto
  next
    case False
    then show ?thesis using assms(1) by (simp add: c_def tx_bufcount_def u)
  qed
  then show "(c - 1) * S < n" "n \<le> c * S" "0 < c" by blast+
qed

text \<open>Handing a frame of \<open>n\<close> bytes over, in one or in several descriptors.\<close>

lemma transmit_run:
  assumes r: "tx_ring s" and l: "\<not> eth_Lock s" and n: "0 < n" "n \<le> ETH_TXBUFNB * S" and free: "tx_free (TxDesc s) s 0"
  defines "m \<equiv> TxDesc s"
  shows "\<exists>s'. HAL_ETH_TransmitFrame (of_nat n) sr s = Inr (HAL_OK, s') \<and> tx_ring s' \<and> \<not> eth_Lock s' \<and> Tx_Buff s' = Tx_Buff s
    \<and> dma_fetch True ETH_TXBUFNB (TxTab s') (Tx_Buff s) m = Some (take n (flat m (Tx_Buff s)), TxDesc s')
    \<and> (\<forall>j < ETH_TXBUFNB. n \<le> j * S \<longrightarrow> TxTab s' ! ((m + j) mod ETH_TXBUFNB) = TxTab s ! ((m + j) mod ETH_TXBUFNB))"
proof -
  let ?L = "of_nat n :: u32"
  let ?c = "tx_bufcount ?L"
  have n32: "n < 2 ^ 32" using n(2) tx_size(3) by linarith
  note c = bufcount_bounds [OF n(1) n32]
  have "(?c - 1) * S < ETH_TXBUFNB * S" using c(1) n(2) by linarith
  then have c4: "?c \<le> ETH_TXBUFNB" using c(3) by (simp only: mult_less_cancel2) linarith
  have m: "m < ETH_TXBUFNB" "m mod ETH_TXBUFNB = m" using r by (simp_all add: tx_ring_def m_def)
  have nz: "?L \<noteq> 0" using n(1) n32 unat_of_nat_u32 [of n] by (metis unat_0 less_numeral_extra(3))
  let ?b = "s\<lparr>eth_Lock := True, eth_State := ETH_STATE_BUSY\<rparr>"
  have rb: "tx_ring ?b" "TxDesc ?b = (m + 0) mod ETH_TXBUFNB" using r m by (simp_all add: tx_ring_def m_def)
  obtain tab where t: "tx_segments ?L ?c ?c 0 ?b = Inr (?b\<lparr>TxTab := tab, TxDesc := (m + ?c) mod ETH_TXBUFNB\<rparr>)"
    "tx_ring (?b\<lparr>TxTab := tab, TxDesc := (m + ?c) mod ETH_TXBUFNB\<rparr>)"
    "\<forall>j < ETH_TXBUFNB. tab ! ((m + j) mod ETH_TXBUFNB) = (let d = TxTab ?b ! ((m + j) mod ETH_TXBUFNB) in
        if j < ?c then own (tx_segment ?L ?c j d) else d)"
    using tx_segments_run [OF rb, of ?c ?L ?c] c4 by auto
  have one: "tx_give (tx_single ?L) ?b = tx_segments ?L ?c ?c 0 ?b" if "?c = 1"
    using that by (simp add: tx_single_eq) (cases "tx_give (tx_segment ?L (Suc 0) 0) ?b"; simp)
  let ?s1 = "?b\<lparr>TxTab := tab, TxDesc := (m + ?c) mod ETH_TXBUFNB\<rparr>"
  have "rd (TxTab ?b) (TxDesc ?b) = Inr (TxTab ?b ! m)" "Status (TxTab ?b ! m) AND ETH_DMATXDESC_OWN = 0"
    using tx_ring_at(1) [OF rb(1), of m] m(2) free by (simp_all add: m_def tx_free_def)
  then have run: "HAL_ETH_TransmitFrame ?L sr s = Inr (HAL_OK, eth_ready (if sr AND ETH_DMASR_TBUS \<noteq> 0
      then eth_out [DMASR ETH_DMASR_TBUS, DMATPDR 0] ?s1 else ?s1))"
    using l nz t(1) one by (auto simp: HAL_ETH_TransmitFrame_def eth_locked_def)
  have "dma_fetch (0 = (0 :: nat)) ETH_TXBUFNB tab (Tx_Buff s) ((m + 0) mod ETH_TXBUFNB)
      = Some (take (n - 0 * S) (drop (0 * S) (flat m (Tx_Buff s))), (m + ?c) mod ETH_TXBUFNB)"
  proof (rule dma_fetch_run [OF _ _ c4 c(1,2)])
    show "\<forall>j < ?c. \<exists>d. tab ! ((m + j) mod ETH_TXBUFNB) = own (tx_segment ?L ?c j d)
      \<and> Buffer1Addr d = (m + j) mod ETH_TXBUFNB \<and> Buffer2NextDescAddr d = Suc (m + j) mod ETH_TXBUFNB"
    proof (intro allI impI)
      fix j assume "j < ?c"
      then have "tab ! ((m + j) mod ETH_TXBUFNB) = own (tx_segment ?L ?c j (TxTab s ! ((m + j) mod ETH_TXBUFNB)))"
        using t(3) c4 by (simp add: Let_def)
      then show "\<exists>d. tab ! ((m + j) mod ETH_TXBUFNB) = own (tx_segment ?L ?c j d)
          \<and> Buffer1Addr d = (m + j) mod ETH_TXBUFNB \<and> Buffer2NextDescAddr d = Suc (m + j) mod ETH_TXBUFNB"
        using tx_ring_at(2,3) [OF r, of "m + j"] by blast
    qed
  qed (use r c(3) c4 in \<open>auto simp: tx_ring_def\<close>)
  then have f: "dma_fetch True ETH_TXBUFNB tab (Tx_Buff s) m = Some (take n (flat m (Tx_Buff s)), (m + ?c) mod ETH_TXBUFNB)"
    using m(2) by simp
  have o: "tab ! ((m + j) mod ETH_TXBUFNB) = TxTab s ! ((m + j) mod ETH_TXBUFNB)" if "j < ETH_TXBUFNB" "n \<le> j * S" for j
  proof -
    have "(?c - 1) * S < j * S" using c(1) that(2) by linarith
    then have "\<not> j < ?c" using c(3) by (simp only: mult_less_cancel2) linarith
    then show ?thesis using t(3) that(1) by (simp add: Let_def)
  qed
  show ?thesis using run t(2) f o by (auto simp: eth_ready_def eth_out_def tx_ring_def)
qed

text \<open>Whatever the chain, the descriptors' state and the lock: no access leaves the ring.\<close>

definition out_ok :: "out_vars \<Rightarrow> bool" where
  "out_ok v \<longleftrightarrow> o_desc v < ETH_TXBUFNB \<and> o_buf v = o_desc v \<and> bufferoffset v \<le> S"

lemma copy_to_ring:
  assumes "tx_ring s" "i < ETH_TXBUFNB" "pos + length bs \<le> S"
  shows "\<exists>bufs. copy_to i pos bs (Tx_Buff s) = Inr bufs \<and> tx_ring (s\<lparr>Tx_Buff := bufs\<rparr>)"
proof -
  have "length (Tx_Buff s) = ETH_TXBUFNB" "\<forall>b \<in> set (Tx_Buff s). length b = S" using assms(1) by (simp_all add: tx_ring_def)
  with copy_flat [of "Tx_Buff s" S i pos bs 0] tx_ring_bufs [OF assms(1)] assms(2,3) show ?thesis by auto
qed

lemma tx_ring_desc:
  assumes "tx_ring s" "i < ETH_TXBUFNB"
  shows "rd (TxTab s) i = Inr (TxTab s ! i)" "Buffer1Addr (TxTab s ! i) = i" "Buffer2NextDescAddr (TxTab s ! i) < ETH_TXBUFNB"
    "\<exists>free. tx_available i s = Inr free"
  using assms by (simp_all add: tx_ring_def tx_available_def ETH_TXBUFNB_def)

lemma out_full_safe:
  assumes "tx_ring s" "out_ok v" "pos + left = length payload"
  shows "\<exists>r bufs. out_full payload left pos v s = Inr (r, s\<lparr>Tx_Buff := bufs\<rparr>) \<and> tx_ring (s\<lparr>Tx_Buff := bufs\<rparr>)
    \<and> (\<forall>left' pos' v'. r = Some (left', pos', v') \<longrightarrow> pos' + left' = length payload \<and> out_ok v' \<and> bufferoffset v' + left' \<le> S)"
  using assms
proof (induction "left + bufferoffset v" arbitrary: left pos v s rule: less_induct)
  case less
  let ?n = "S - bufferoffset v" and ?i = "o_desc v"
  have v: "?i < ETH_TXBUFNB" "o_buf v = ?i" "bufferoffset v \<le> S" using less.prems(2) by (simp_all add: out_ok_def)
  show ?case
  proof (cases "left + bufferoffset v > S")
    case False
    with v(3) less.prems show ?thesis
      by (subst out_full.simps, intro exI [of _ "Some (left, pos, v)"] exI [of _ "Tx_Buff s"]) simp
  next
    case True
    then have n: "?n < left" "length (take ?n (drop pos payload)) = ?n" using v(3) less.prems(3) by auto
    have sl: "slice pos ?n payload = Inr (take ?n (drop pos payload))" using n(1) less.prems(3) by (simp add: slice_def)
    obtain bufs where b: "copy_to ?i (bufferoffset v) (take ?n (drop pos payload)) (Tx_Buff s) = Inr bufs" "tx_ring (s\<lparr>Tx_Buff := bufs\<rparr>)"
      using copy_to_ring [OF less.prems(1) v(1), of "bufferoffset v" "take ?n (drop pos payload)"] n(2) v(3) by fastforce
    let ?s1 = "s\<lparr>Tx_Buff := bufs\<rparr>"
    let ?j = "Buffer2NextDescAddr (TxTab s ! ?i)"
    note d = tx_ring_desc [OF b(2) v(1)] tx_ring_desc [OF b(2), of ?j]
    have j: "?j < ETH_TXBUFNB" using d(3) by simp
    obtain free where f: "tx_available ?j ?s1 = Inr free" using d(8) j by blast
    let ?v1 = "\<lparr>o_desc = ?j, o_buf = ?j, bufferoffset = 0, framelength = framelength v + ?n\<rparr>"
    have run: "out_full payload left pos v s
        = (if \<not> free then Inr (None, ?s1) else out_full payload (left - ?n) (pos + ?n) ?v1 ?s1)"
      using True v sl b(1) d(1,5,6) j f by (subst out_full.simps) (simp add: Let_def)
    show ?thesis
    proof (cases free)
      case True
      have "\<exists>r bufs'. out_full payload (left - ?n) (pos + ?n) ?v1 ?s1 = Inr (r, ?s1\<lparr>Tx_Buff := bufs'\<rparr>) \<and> tx_ring (?s1\<lparr>Tx_Buff := bufs'\<rparr>)
        \<and> (\<forall>left' pos' v'. r = Some (left', pos', v') \<longrightarrow> pos' + left' = length payload \<and> out_ok v' \<and> bufferoffset v' + left' \<le> S)"
        by (rule less.hyps) (use n v(3) j b(2) tx_size(1) less.prems(3) \<open>left + bufferoffset v > S\<close> in \<open>auto simp: out_ok_def\<close>)
      with run True show ?thesis by auto
    qed (use run b(2) in auto)
  qed
qed

lemma out_pbufs_safe:
  assumes "tx_ring s" "out_ok v"
  shows "\<exists>r bufs. out_pbufs p v s = Inr (r, s\<lparr>Tx_Buff := bufs\<rparr>) \<and> tx_ring (s\<lparr>Tx_Buff := bufs\<rparr>)"
  using assms
proof (induction p arbitrary: v s)
  case Nil
  then show ?case by (auto intro: exI [of _ "Tx_Buff s"])
next
  case (Cons b p)
  obtain free where f: "tx_available (o_desc v) s = Inr free"
    using tx_ring_desc(4) [OF Cons.prems(1)] Cons.prems(2) by (auto simp: out_ok_def)
  obtain r bufs where o: "out_full b (length b) 0 v s = Inr (r, s\<lparr>Tx_Buff := bufs\<rparr>)" "tx_ring (s\<lparr>Tx_Buff := bufs\<rparr>)"
    "\<forall>left' pos' v'. r = Some (left', pos', v') \<longrightarrow> pos' + left' = length b \<and> out_ok v' \<and> bufferoffset v' + left' \<le> S"
    using out_full_safe [OF Cons.prems, of 0 "length b" b] by auto
  have same: "s = s\<lparr>Tx_Buff := Tx_Buff s\<rparr>" by simp
  show ?case
  proof (cases "free \<and> r \<noteq> None")
    case False
    then consider "\<not> free" | "r = None" by blast
    then show ?thesis
    proof cases
      case 1
      with f Cons.prems(1) same show ?thesis by (intro exI [of _ None] exI [of _ "Tx_Buff s"]) simp
    next
      case 2
      with f o(1,2) Cons.prems(1) same show ?thesis by (cases free) (auto intro: exI [of _ "Tx_Buff s"])
    qed
  next
    case True
    then obtain left pos v1 where r: "r = Some (left, pos, v1)" "free" by auto
    then have v1: "pos + left = length b" "out_ok v1" "bufferoffset v1 + left \<le> S" using o(3) by auto
    obtain bufs2 where c: "copy_to (o_buf v1) (bufferoffset v1) (drop pos b) bufs = Inr bufs2" "tx_ring (s\<lparr>Tx_Buff := bufs2\<rparr>)"
    proof -
      have "bufferoffset v1 + length (drop pos b) \<le> S" "o_buf v1 < ETH_TXBUFNB" using v1 by (simp_all add: out_ok_def)
      from copy_to_ring [OF o(2) this(2,1)] that show ?thesis by auto
    qed
    let ?v2 = "v1\<lparr>bufferoffset := bufferoffset v1 + left, framelength := framelength v1 + left\<rparr>"
    have "out_pbufs (b # p) v s = out_pbufs p ?v2 (s\<lparr>Tx_Buff := bufs2\<rparr>)"
      using f o(1) r v1(1) c(1) by (simp add: slice_def)
    moreover have "out_ok ?v2" using v1(2,3) by (simp add: out_ok_def)
    ultimately show ?thesis using Cons.IH [OF c(2), of ?v2] by auto
  qed
qed

lemma tx_segments_safe: "tx_ring s \<Longrightarrow> \<exists>s'. tx_segments L c n i s = Inr s' \<and> tx_ring s' \<and> eth_Lock s' = eth_Lock s"
proof (induction n arbitrary: i s)
  case (Suc n)
  have "TxDesc s mod ETH_TXBUFNB = TxDesc s" using Suc.prems by (simp add: tx_ring_def)
  then obtain s1 where "tx_give (tx_segment L c i) s = Inr s1" "tx_ring s1" "eth_Lock s1 = eth_Lock s"
    using tx_give_at [OF Suc.prems, of "TxDesc s" "tx_segment L c i"] by (auto simp: tx_segment_def Let_def)
  with Suc.IH [of s1 "Suc i"] show ?case by simp
qed simp

lemma transmit_safe:
  assumes "tx_ring s"
  shows "\<exists>st s'. HAL_ETH_TransmitFrame L sr s = Inr (st, s') \<and> tx_ring s' \<and> eth_Lock s' = eth_Lock s"
proof -
  let ?b = "s\<lparr>eth_Lock := True, eth_State := ETH_STATE_BUSY\<rparr>"
  have b: "tx_ring ?b" "TxDesc s < ETH_TXBUFNB" using assms by (simp_all add: tx_ring_def)
  obtain s1 where "tx_segments L (tx_bufcount L) (tx_bufcount L) 0 ?b = Inr s1" "tx_ring s1"
    using tx_segments_safe [OF b(1)] by blast
  moreover obtain s2 where "tx_give (tx_single L) ?b = Inr s2" "tx_ring s2"
    using tx_segments_safe [OF b(1), of L 1 1 0] by (auto simp: tx_single_eq res_bind_eq_Inr)
  ultimately show ?thesis
    using tx_ring_desc(1) [OF b(1), of "TxDesc s"] b(2) assms
    by (auto simp: HAL_ETH_TransmitFrame_def eth_locked_def eth_ready_def eth_out_def tx_ring_def)
qed

section \<open>The receive ring\<close>

abbreviation "R \<equiv> ETH_RX_BUF_SIZE"

definition rx_ring :: "eth \<Rightarrow> bool" where
  "rx_ring s \<longleftrightarrow> length (RxTab s) = ETH_RXBUFNB \<and> length (Rx_Buff s) = ETH_RXBUFNB \<and> RxDesc s < ETH_RXBUFNB
     \<and> (\<forall>b \<in> set (Rx_Buff s). length b = R)
     \<and> (\<forall>i < ETH_RXBUFNB. Buffer1Addr (RxTab s ! i) = i \<and> Buffer2NextDescAddr (RxTab s ! i) = (i + 1) mod ETH_RXBUFNB)"

text \<open>
  A frame as the DMA documents to leave it: in \<open>k\<close> descriptors from \<open>m\<close> on, which it has given
  back, the first and the last marked, the length with the four bytes of the checksum in the last.
\<close>

definition received :: "eth \<Rightarrow> nat \<Rightarrow> nat \<Rightarrow> u8 list \<Rightarrow> bool" where
  "received s m k F \<longleftrightarrow> 0 < k \<and> k \<le> ETH_RXBUFNB \<and> F \<noteq> [] \<and> length F \<le> k * R \<and> take (length F) (flat m (Rx_Buff s)) = F
     \<and> (\<forall>j < k. let st = Status (RxTab s ! ((m + j) mod ETH_RXBUFNB)) in
         st AND ETH_DMARXDESC_OWN = 0 \<and> (st AND ETH_DMARXDESC_FS \<noteq> 0) = (j = 0) \<and> (st AND ETH_DMARXDESC_LS \<noteq> 0) = (j = k - 1)
         \<and> (j = k - 1 \<longrightarrow> drop_bit 16 (st AND ETH_DMARXDESC_FL) = of_nat (length F + 4)))"

definition rx_owned :: "eth \<Rightarrow> nat \<Rightarrow> bool" where
  "rx_owned s i \<longleftrightarrow> Status (RxTab s ! (i mod ETH_RXBUFNB)) AND ETH_DMARXDESC_OWN \<noteq> 0"

lemma rx_size: "0 < R" "ETH_RXBUFNB * R < 2 ^ 16"
  by (simp_all add: ETH_RX_BUF_SIZE_def ETH_RXBUFNB_def)

lemma rx_ring_at:
  assumes "rx_ring s"
  shows "rd (RxTab s) (i mod ETH_RXBUFNB) = Inr (RxTab s ! (i mod ETH_RXBUFNB))"
    "Buffer1Addr (RxTab s ! (i mod ETH_RXBUFNB)) = i mod ETH_RXBUFNB"
    "Buffer2NextDescAddr (RxTab s ! (i mod ETH_RXBUFNB)) = Suc i mod ETH_RXBUFNB"
  using assms by (simp_all add: rx_ring_def ETH_RXBUFNB_def mod_Suc_eq)

lemma rx_flag_cases:
  fixes st :: u32
  shows "st AND (ETH_DMARXDESC_FS OR ETH_DMARXDESC_LS) = ETH_DMARXDESC_FS \<longleftrightarrow> st AND ETH_DMARXDESC_FS \<noteq> 0 \<and> st AND ETH_DMARXDESC_LS = 0"
    "st AND (ETH_DMARXDESC_LS OR ETH_DMARXDESC_FS) = 0 \<longleftrightarrow> st AND ETH_DMARXDESC_FS = 0 \<and> st AND ETH_DMARXDESC_LS = 0"
proof -
  have c: "ETH_DMARXDESC_FS = 2 ^ 9" "ETH_DMARXDESC_LS = 2 ^ 8" by (simp_all add: reg_consts)
  have b: "st AND 2 ^ n = (if bit st n then 2 ^ n else 0)" for n by (rule bit_word_eqI) (auto simp: bit_simps)
  show "st AND (ETH_DMARXDESC_FS OR ETH_DMARXDESC_LS) = ETH_DMARXDESC_FS \<longleftrightarrow> st AND ETH_DMARXDESC_FS \<noteq> 0 \<and> st AND ETH_DMARXDESC_LS = 0"
    "st AND (ETH_DMARXDESC_LS OR ETH_DMARXDESC_FS) = 0 \<longleftrightarrow> st AND ETH_DMARXDESC_FS = 0 \<and> st AND ETH_DMARXDESC_LS = 0"
    unfolding c bit.conj_disj_distrib b by (auto split: if_splits)
qed

text \<open>Scanning a frame: \<open>i\<close> descriptors have been seen.\<close>

definition rx_result :: "nat \<Rightarrow> nat \<Rightarrow> nat \<Rightarrow> eth \<Rightarrow> eth" where
  "rx_result m k n s = eth_ready (s\<lparr>RxDesc := (m + k) mod ETH_RXBUFNB,
     RxFrameInfos := \<lparr>FSRxDesc = m, LSRxDesc = Some ((m + k - 1) mod ETH_RXBUFNB), SegCount = of_nat k,
       frame_length = of_nat n, frame_buffer = m\<rparr>\<rparr>)"

lemma rx_scan_run:
  assumes "rx_ring s" "received s m k F" "m < ETH_RXBUFNB" "RxDesc s = (m + i) mod ETH_RXBUFNB" "i < k" "k - i \<le> n"
    and "SegCount (RxFrameInfos s) = of_nat i" "0 < i \<longrightarrow> FSRxDesc (RxFrameInfos s) = m"
  shows "rx_scan n s = Inr (HAL_OK, rx_result m k (length F) s)"
  using assms
proof (induction n arbitrary: i s)
  case (Suc n)
  let ?d = "RxTab s ! ((m + i) mod ETH_RXBUFNB)"
  have at: "rd (RxTab s) (RxDesc s) = Inr ?d" "Buffer2NextDescAddr ?d = Suc (m + i) mod ETH_RXBUFNB"
    using rx_ring_at [OF Suc.prems(1), of "m + i"] Suc.prems(4) by simp_all
  have st: "Status ?d AND ETH_DMARXDESC_OWN = 0" "(Status ?d AND ETH_DMARXDESC_FS \<noteq> 0) = (i = 0)"
    "(Status ?d AND ETH_DMARXDESC_LS \<noteq> 0) = (i = k - 1)"
    "i = k - 1 \<Longrightarrow> drop_bit 16 (Status ?d AND ETH_DMARXDESC_FL) = of_nat (length F + 4)"
    using Suc.prems(2,5) by (auto simp: received_def Let_def)
  have k: "k \<le> ETH_RXBUFNB" using Suc.prems(2) by (simp add: received_def)
  show ?case
  proof (cases "i = k - 1")
    case True
    then have len: "rx_frame_length ?d = of_nat (length F)" "m + k - 1 = m + i" "Suc (m + i) = m + k"
      using st(4) Suc.prems(5) by (simp_all add: rx_frame_length_def)
    have "(of_nat i + 1 :: u32) = of_nat k" using True Suc.prems(5) by (metis Suc_pred' add.commute less_nat_zero_code of_nat_Suc not_gr_zero)
    moreover have "(of_nat k = (1 :: u32)) \<longleftrightarrow> k = 1"
      using k unat_of_nat_u32 [of k] by (auto simp: ETH_RXBUFNB_def)
    moreover have "k = 1 \<Longrightarrow> RxDesc s = m" "k \<noteq> 1 \<Longrightarrow> FSRxDesc (RxFrameInfos s) = m"
      using Suc.prems(3,4,5,8) True by auto
    ultimately have f: "SegCount (RxFrameInfos s) = 0 \<Longrightarrow> (m + i) mod ETH_RXBUFNB = m"
      "SegCount (RxFrameInfos s) \<noteq> 0 \<Longrightarrow> FSRxDesc (RxFrameInfos s) = m" "SegCount (RxFrameInfos s) + 1 = of_nat k"
      using Suc.prems(4,7) by auto
    have m0: "rd (RxTab s) m = Inr (RxTab s ! m)" "Buffer1Addr (RxTab s ! m) = m"
      using rx_ring_at(1,2) [OF Suc.prems(1), of m] Suc.prems(3) by simp_all
    have "rx_scan (Suc n) s = rx_last_segment ?d s"
      using at(1) st True by (simp add: rx_flag_cases)
    also have "\<dots> = Inr (HAL_OK, rx_result m k (length F) s)"
      using at(2) f m0 len Suc.prems(4)
      by (cases "SegCount (RxFrameInfos s) = 0"; cases "RxFrameInfos s")
        (simp_all add: rx_last_segment_def rx_result_def rx_next_def Let_def eth_ready_def)
    finally show ?thesis .
  next
    case False
    let ?r = "\<lambda>r. if i = 0 then r\<lparr>FSRxDesc := RxDesc s, SegCount := 1\<rparr> else r\<lparr>SegCount := SegCount r + 1\<rparr>"
    have "rx_scan (Suc n) s = rx_scan n (rx_next ?d ?r s)"
      using at(1) st False by (cases "i = 0") (simp_all add: rx_flag_cases)
    also have "\<dots> = Inr (HAL_OK, rx_result m k (length F) (rx_next ?d ?r s))"
    proof (rule Suc.IH)
      show "received (rx_next ?d ?r s) m k F" using Suc.prems(2) by (simp add: received_def rx_next_def)
      show "rx_ring (rx_next ?d ?r s)" using Suc.prems(1) at(2) by (simp add: rx_ring_def rx_next_def ETH_RXBUFNB_def)
      show "RxDesc (rx_next ?d ?r s) = (m + Suc i) mod ETH_RXBUFNB" using at(2) by (simp add: rx_next_def)
      show "SegCount (RxFrameInfos (rx_next ?d ?r s)) = of_nat (Suc i)" using Suc.prems(7) by (simp add: rx_next_def)
      show "0 < Suc i \<longrightarrow> FSRxDesc (RxFrameInfos (rx_next ?d ?r s)) = m" using Suc.prems(3,4,8) by (simp add: rx_next_def)
    qed (use Suc.prems(3,5,6) False in auto)
    also have "rx_result m k (length F) (rx_next ?d ?r s) = rx_result m k (length F) s"
      by (simp add: rx_result_def rx_next_def eth_ready_def)
    finally show ?thesis .
  qed
qed simp

text \<open>Copying out of the ring, from byte \<open>q * R + boff\<close> after descriptor \<open>m\<close> on.\<close>

lemma slice_flat:
  assumes "rx_ring s" "q < ETH_RXBUFNB" "boff + n \<le> R"
  shows "\<exists>b. rd (Rx_Buff s) ((m + q) mod ETH_RXBUFNB) = Inr b \<and> slice boff n b = Inr (take n (drop (q * R + boff) (flat m (Rx_Buff s))))"
proof -
  let ?i = "(m + q) mod ETH_RXBUFNB"
  have b: "length (Rx_Buff s) = ETH_RXBUFNB" "\<forall>b \<in> set (Rx_Buff s). length b = R" using assms(1) by (simp_all add: rx_ring_def)
  have i: "?i < length (Rx_Buff s)" "Rx_Buff s ! ?i = rotate m (Rx_Buff s) ! q"
    using b(1) assms(2) by (simp_all add: nth_rotate)
  have "take (boff + n) (Rx_Buff s ! ?i) = take (boff + n) (drop (q * R) (flat m (Rx_Buff s)))"
    using take_drop_concat [of "rotate m (Rx_Buff s)" R q "boff + n"] b assms(2,3) i(2) by (simp add: flat_def)
  then have "take n (drop boff (Rx_Buff s ! ?i)) = take n (drop (q * R + boff) (flat m (Rx_Buff s)))"
    by (simp add: take_drop ac_simps)
  moreover have "length (Rx_Buff s ! ?i) = R" using b i(1) by simp
  ultimately show ?thesis using i(1) assms(3) by (simp add: slice_def)
qed

lemma in_pbuf_run:
  assumes "rx_ring s" "q < ETH_RXBUFNB" "boff \<le> R" "q * R + boff + left \<le> ETH_RXBUFNB * R"
  shows "\<exists>boff' q'. in_pbuf left boff ((m + q) mod ETH_RXBUFNB) ((m + q) mod ETH_RXBUFNB) s
      = Inr (take left (drop (q * R + boff) (flat m (Rx_Buff s))), boff', (m + q') mod ETH_RXBUFNB, (m + q') mod ETH_RXBUFNB)
    \<and> q' < ETH_RXBUFNB \<and> boff' \<le> R \<and> q' * R + boff' = q * R + boff + left"
  using assms
proof (induction "left + boff" arbitrary: left boff q rule: less_induct)
  case less
  let ?i = "(m + q) mod ETH_RXBUFNB" and ?F = "flat m (Rx_Buff s)"
  show ?case
  proof (cases "left + boff > R")
    case False
    then have "boff + left \<le> R" by simp
    with slice_flat [OF less.prems(1,2) this, of m] less.prems(3) False
    have "in_pbuf left boff ?i ?i s = Inr (take left (drop (q * R + boff) ?F), boff + left, ?i, ?i)"
      by (subst in_pbuf.simps) auto
    with False less.prems(2,3) show ?thesis by (intro exI [of _ "boff + left"] exI [of _ q]) simp
  next
    case True
    let ?n = "R - boff"
    have n: "boff + ?n = R" "?n < left" using True less.prems(3) by simp_all
    have "(q + 1) * R < ETH_RXBUFNB * R" using less.prems(4) n by simp
    then have q1: "q + 1 < ETH_RXBUFNB" by (simp only: mult_less_cancel2)
    obtain b where b: "rd (Rx_Buff s) ?i = Inr b" "slice boff ?n b = Inr (take ?n (drop (q * R + boff) ?F))"
      using slice_flat [OF less.prems(1,2), of boff ?n m] n by auto
    have pos: "(q + 1) * R + 0 = q * R + boff + ?n" using n by simp
    obtain boff' q' where i: "in_pbuf (left - ?n) 0 ((m + (q + 1)) mod ETH_RXBUFNB) ((m + (q + 1)) mod ETH_RXBUFNB) s
        = Inr (take (left - ?n) (drop ((q + 1) * R + 0) ?F), boff', (m + q') mod ETH_RXBUFNB, (m + q') mod ETH_RXBUFNB)"
      "q' < ETH_RXBUFNB" "boff' \<le> R" "q' * R + boff' = (q + 1) * R + 0 + (left - ?n)"
      using less.hyps [OF _ less.prems(1) q1, of "left - ?n" 0] n True rx_size(1) less.prems(4) by (auto simp: pos)
    have "take left (drop (q * R + boff) ?F)
        = take ?n (drop (q * R + boff) ?F) @ take (left - ?n) (drop ((q + 1) * R + 0) ?F)"
      unfolding pos using take_add [of ?n "left - ?n" "drop (q * R + boff) ?F"] n by (simp add: add.commute)
    moreover have "in_pbuf left boff ?i ?i s
        = Inr (take ?n (drop (q * R + boff) ?F) @ take (left - ?n) (drop ((q + 1) * R + 0) ?F), boff',
            (m + q') mod ETH_RXBUFNB, (m + q') mod ETH_RXBUFNB)"
      using b i(1) True less.prems(3) rx_ring_at [OF less.prems(1), of "m + q"] rx_ring_at [OF less.prems(1), of "Suc (m + q)"]
      by (subst in_pbuf.simps) simp
    moreover have "q' * R + boff' = q * R + boff + left" using i(4) pos n by linarith
    ultimately show ?thesis using i(2,3) by auto
  qed
qed

lemma in_chain_run:
  assumes "rx_ring s" "q < ETH_RXBUFNB" "boff \<le> R" "q * R + boff + sum_list ls \<le> ETH_RXBUFNB * R"
  shows "\<exists>p. in_chain ls boff ((m + q) mod ETH_RXBUFNB) ((m + q) mod ETH_RXBUFNB) s = Inr p
    \<and> concat p = take (sum_list ls) (drop (q * R + boff) (flat m (Rx_Buff s))) \<and> map length p = ls"
  using assms
proof (induction ls arbitrary: q boff)
  case (Cons l ls)
  let ?F = "flat m (Rx_Buff s)"
  obtain boff' q' where i: "in_pbuf l boff ((m + q) mod ETH_RXBUFNB) ((m + q) mod ETH_RXBUFNB) s
      = Inr (take l (drop (q * R + boff) ?F), boff', (m + q') mod ETH_RXBUFNB, (m + q') mod ETH_RXBUFNB)"
    "q' < ETH_RXBUFNB" "boff' \<le> R" "q' * R + boff' = q * R + boff + l"
    using in_pbuf_run [OF Cons.prems(1-3), of l m] Cons.prems(4) by auto
  then obtain p where p: "in_chain ls boff' ((m + q') mod ETH_RXBUFNB) ((m + q') mod ETH_RXBUFNB) s = Inr p"
    "concat p = take (sum_list ls) (drop (q' * R + boff') ?F)" "map length p = ls"
    using Cons.IH [OF Cons.prems(1) i(2,3)] Cons.prems(4) by auto
  have "length ?F = ETH_RXBUFNB * R"
    using Cons.prems(1) length_concat_blocks [of "rotate m (Rx_Buff s)" R] by (simp add: flat_def rx_ring_def)
  then have "length (take l (drop (q * R + boff) ?F)) = l" using Cons.prems(4) by simp
  moreover have "take l (drop (q * R + boff) ?F) @ concat p = take (l + sum_list ls) (drop (q * R + boff) ?F)"
    using p(2) i(4) by (simp add: take_add add.commute)
  ultimately show ?case using i(1) p by simp
qed simp

text \<open>Giving the descriptors back.\<close>

lemma rx_release_run:
  assumes "rx_ring s" "k \<le> ETH_RXBUFNB"
  shows "\<exists>tab. rx_release k (m mod ETH_RXBUFNB) s = Inr (s\<lparr>RxTab := tab\<rparr>) \<and> rx_ring (s\<lparr>RxTab := tab\<rparr>)
    \<and> (\<forall>j < ETH_RXBUFNB. tab ! ((m + j) mod ETH_RXBUFNB) = (let d = RxTab s ! ((m + j) mod ETH_RXBUFNB) in
        if j < k then d\<lparr>Status := Status d OR ETH_DMARXDESC_OWN\<rparr> else d))"
proof -
  have "\<exists>tab. rx_release n ((m + i) mod ETH_RXBUFNB) s = Inr (s\<lparr>RxTab := tab\<rparr>) \<and> rx_ring (s\<lparr>RxTab := tab\<rparr>)
    \<and> (\<forall>j < ETH_RXBUFNB. tab ! ((m + j) mod ETH_RXBUFNB) = (let d = RxTab s ! ((m + j) mod ETH_RXBUFNB) in
        if i \<le> j \<and> j < i + n then d\<lparr>Status := Status d OR ETH_DMARXDESC_OWN\<rparr> else d))"
    if "rx_ring s" "i + n \<le> ETH_RXBUFNB" for n i s
    using that
  proof (induction n arbitrary: i s)
    case 0
    then show ?case by (intro exI [of _ "RxTab s"]) (auto simp: Let_def)
  next
    case (Suc n)
    let ?k = "(m + i) mod ETH_RXBUFNB"
    let ?d = "RxTab s ! ?k"
    let ?s1 = "s\<lparr>RxTab := (RxTab s)[?k := ?d\<lparr>Status := Status ?d OR ETH_DMARXDESC_OWN\<rparr>]\<rparr>"
    have r1: "rx_ring ?s1" using Suc.prems(1) by (auto simp: rx_ring_def nth_list_update)
    obtain tab where t: "rx_release n ((m + Suc i) mod ETH_RXBUFNB) ?s1 = Inr (?s1\<lparr>RxTab := tab\<rparr>)" "rx_ring (?s1\<lparr>RxTab := tab\<rparr>)"
      "\<forall>j < ETH_RXBUFNB. tab ! ((m + j) mod ETH_RXBUFNB) = (let d = RxTab ?s1 ! ((m + j) mod ETH_RXBUFNB) in
        if Suc i \<le> j \<and> j < Suc i + n then d\<lparr>Status := Status d OR ETH_DMARXDESC_OWN\<rparr> else d)"
      using Suc.IH [OF r1, of "Suc i"] Suc.prems(2) by auto
    have k: "?k < length (RxTab s)" using Suc.prems(1) by (simp add: rx_ring_def ETH_RXBUFNB_def)
    have "tab ! ((m + j) mod ETH_RXBUFNB) = (let d = RxTab s ! ((m + j) mod ETH_RXBUFNB) in
        if i \<le> j \<and> j < i + Suc n then d\<lparr>Status := Status d OR ETH_DMARXDESC_OWN\<rparr> else d)" if "j < ETH_RXBUFNB" for j
      using t(3) that mod_add_inj [of j ETH_RXBUFNB i m] Suc.prems(2) k by (auto simp: Let_def nth_list_update)
    with t(1,2) rx_ring_at [OF Suc.prems(1), of "m + i"] show ?case by (intro exI [of _ tab]) simp
  qed
  from this [OF assms(1), of 0 k] assms(2) show ?thesis by simp
qed

text \<open>Receiving one frame.\<close>

lemma input_frame:
  assumes r: "rx_ring s" and l: "\<not> eth_Lock s" and c: "SegCount (RxFrameInfos s) = 0" and f: "received s (RxDesc s) k F"
    and a: "alloc (length F) = Some ls" "sum_list ls = length F"
  defines "m \<equiv> RxDesc s"
  shows "\<exists>p s'. low_level_input alloc sr s = Inr (Some p, s') \<and> concat p = F \<and> map length p = ls
    \<and> rx_ring s' \<and> \<not> eth_Lock s' \<and> SegCount (RxFrameInfos s') = 0 \<and> RxDesc s' = (m + k) mod ETH_RXBUFNB \<and> Rx_Buff s' = Rx_Buff s
    \<and> (\<forall>j < ETH_RXBUFNB. RxTab s' ! ((m + j) mod ETH_RXBUFNB) = (let d = RxTab s ! ((m + j) mod ETH_RXBUFNB) in
        if j < k then d\<lparr>Status := Status d OR ETH_DMARXDESC_OWN\<rparr> else d))"
proof -
  have m: "m < ETH_RXBUFNB" using r by (simp add: rx_ring_def m_def)
  have k: "0 < k" "k \<le> ETH_RXBUFNB" "F \<noteq> []" "length F \<le> k * R" "take (length F) (flat m (Rx_Buff s)) = F"
    using f by (simp_all add: received_def m_def)
  have "k * R \<le> ETH_RXBUFNB * R" using k(2) by simp
  then have len: "length F \<le> ETH_RXBUFNB * R" "length F < 2 ^ 16" using k(4) rx_size(2) by linarith+
  let ?b = "s\<lparr>eth_Lock := True, eth_State := ETH_STATE_BUSY\<rparr>"
  let ?s1 = "rx_result m k (length F) ?b"
  have "rx_scan ETH_RXBUFNB ?b = Inr (HAL_OK, ?s1)"
    by (rule rx_scan_run [where i = 0]) (use r f c m k(1,2) in \<open>simp_all add: rx_ring_def received_def m_def\<close>)
  then have g: "HAL_ETH_GetReceivedFrame_IT s = Inr (HAL_OK, ?s1)" using l by (simp add: HAL_ETH_GetReceivedFrame_IT_def eth_locked_def)
  have i: "FSRxDesc (RxFrameInfos ?s1) = m" "frame_buffer (RxFrameInfos ?s1) = m" "SegCount (RxFrameInfos ?s1) = of_nat k"
    "frame_length (RxFrameInfos ?s1) = of_nat (length F)" "Rx_Buff ?s1 = Rx_Buff s" "RxTab ?s1 = RxTab s" "\<not> eth_Lock ?s1"
    "RxDesc ?s1 = (m + k) mod ETH_RXBUFNB"
    by (simp_all add: rx_result_def eth_ready_def)
  have u: "unat (ucast (of_nat (length F) :: u32) :: u16) = length F"
    using len(2) by (simp add: unsigned_ucast_eq unat_of_nat_u32 take_bit_nat_eq_self)
  then have u0: "(0 :: u16) < ucast (of_nat (length F) :: u32)" using k(3) by (simp add: word_less_nat_alt)
  have r1: "rx_ring ?s1" using r by (simp add: rx_ring_def rx_result_def eth_ready_def ETH_RXBUFNB_def)
  obtain p where p: "in_chain ls 0 m m ?s1 = Inr p" "concat p = F" "map length p = ls"
    using in_chain_run [OF r1, of 0 0 ls m] a(2) len(1) m k(5) i(5) by (auto simp: ETH_RXBUFNB_def)
  have kn: "unat (of_nat k :: u32) = k" using k(2) by (intro unat_of_nat_u32) (simp add: ETH_RXBUFNB_def)
  obtain tab where t: "rx_release k (m mod ETH_RXBUFNB) ?s1 = Inr (?s1\<lparr>RxTab := tab\<rparr>)" "rx_ring (?s1\<lparr>RxTab := tab\<rparr>)"
    "\<forall>j < ETH_RXBUFNB. tab ! ((m + j) mod ETH_RXBUFNB) = (let d = RxTab s ! ((m + j) mod ETH_RXBUFNB) in
        if j < k then d\<lparr>Status := Status d OR ETH_DMARXDESC_OWN\<rparr> else d)"
    using rx_release_run [OF r1 k(2), of m] i(6) by auto
  let ?s3 = "?s1\<lparr>RxTab := tab, RxFrameInfos := (RxFrameInfos ?s1)\<lparr>SegCount := 0\<rparr>\<rparr>"
  have "low_level_input alloc sr s
      = Inr (Some p, if sr AND ETH_DMASR_RBUS \<noteq> 0 then eth_out [DMASR ETH_DMASR_RBUS, DMARPDR 0] ?s3 else ?s3)"
    using g i(1-4) u u0 a(1) p(1) t(1) m kn by (simp add: low_level_input_def Let_def)
  with p(2,3) t(2,3) i(5,7,8) show ?thesis by (auto simp: rx_ring_def eth_out_def)
qed

lemma input_none:
  assumes "rx_ring s" "\<not> eth_Lock s" "rx_owned s (RxDesc s)"
  shows "low_level_input alloc sr s = Inr (None, eth_ready (s\<lparr>eth_Lock := True, eth_State := ETH_STATE_BUSY\<rparr>))"
proof -
  have "RxDesc s mod ETH_RXBUFNB = RxDesc s" using assms(1) by (simp add: rx_ring_def)
  then have "rd (RxTab s) (RxDesc s) = Inr (RxTab s ! RxDesc s)" "Status (RxTab s ! RxDesc s) AND ETH_DMARXDESC_OWN \<noteq> 0"
    using rx_ring_at(1) [OF assms(1), of "RxDesc s"] assms(3) by (simp_all add: rx_owned_def)
  with assms(2) show ?thesis
    by (simp add: low_level_input_def HAL_ETH_GetReceivedFrame_IT_def eth_locked_def ETH_RXBUFNB_def numeral_eq_Suc)
qed

text \<open>The frames waiting from the descriptor \<open>o\<close> places after \<open>m\<close> on.\<close>

fun pending :: "eth \<Rightarrow> nat \<Rightarrow> nat \<Rightarrow> (nat \<times> u8 list) list \<Rightarrow> bool" where
  "pending s m n [] \<longleftrightarrow> n = ETH_RXBUFNB \<or> (n < ETH_RXBUFNB \<and> rx_owned s (m + n))"
| "pending s m n ((k, F) # fs) \<longleftrightarrow> n + k \<le> ETH_RXBUFNB \<and> received s ((m + n) mod ETH_RXBUFNB) k F \<and> pending s m (n + k) fs"

lemma received_cong:
  assumes "Rx_Buff s' = Rx_Buff s" "\<And>j. j < k \<Longrightarrow> RxTab s' ! ((m + j) mod ETH_RXBUFNB) = RxTab s ! ((m + j) mod ETH_RXBUFNB)"
  shows "received s' m k F = received s m k F"
  using assms by (auto simp: received_def Let_def)

lemma pending_cong:
  assumes "Rx_Buff s' = Rx_Buff s" "\<And>j. n \<le> j \<Longrightarrow> j < ETH_RXBUFNB \<Longrightarrow> RxTab s' ! ((m + j) mod ETH_RXBUFNB) = RxTab s ! ((m + j) mod ETH_RXBUFNB)"
  shows "pending s' m n fs = pending s m n fs"
  using assms
proof (induction fs arbitrary: n)
  case Nil
  then show ?case by (auto simp: rx_owned_def)
next
  case (Cons f fs)
  obtain k F where f: "f = (k, F)" by fastforce
  have "pending s' m (n + k) fs = pending s m (n + k) fs" using Cons by simp
  moreover have "received s' ((m + n) mod ETH_RXBUFNB) k F = received s ((m + n) mod ETH_RXBUFNB) k F" if "n + k \<le> ETH_RXBUFNB"
    using that Cons.prems(2) [of "n + _"] by (intro received_cong [OF Cons.prems(1)]) (simp add: mod_add_left_eq add.assoc)
  ultimately show ?case by (auto simp: f)
qed

lemma drain_run:
  assumes "rx_ring s" "\<not> eth_Lock s" "SegCount (RxFrameInfos s) = 0" "pending s m n fs" "RxDesc s = (m + n) mod ETH_RXBUFNB"
    and "\<forall>j < n. rx_owned s (m + j)" "length fs < length ins" "\<forall>l. 0 < l \<longrightarrow> (\<exists>ls. alloc l = Some ls \<and> sum_list ls = l)"
  shows "\<exists>ps s'. ethernetif_drain alloc ins s = Inr (ps, s') \<and> map (concat \<circ> fst) ps = map snd fs \<and> rx_ring s' \<and> \<not> eth_Lock s'
    \<and> SegCount (RxFrameInfos s') = 0 \<and> rx_owned s' (RxDesc s') \<and> RxDesc s' = (m + n + sum_list (map fst fs)) mod ETH_RXBUFNB
    \<and> (\<forall>j < n + sum_list (map fst fs). rx_owned s' (m + j))"
  using assms
proof (induction fs arbitrary: n s ins)
  case Nil
  obtain sr b rest where ins: "ins = (sr, b) # rest" using Nil.prems(7) by (cases ins) auto
  have "rx_owned s (m + n)"
    using Nil.prems(4) Nil.prems(6) [rule_format, of 0] by (auto simp: rx_owned_def ETH_RXBUFNB_def)
  then have o: "rx_owned s (RxDesc s)" using Nil.prems(5) by (simp add: rx_owned_def)
  from input_none [OF Nil.prems(1,2) o] Nil.prems o show ?case by (auto simp: ins eth_ready_def rx_ring_def rx_owned_def)
next
  case (Cons f fs)
  obtain k F where f: "f = (k, F)" by fastforce
  obtain sr b rest where ins: "ins = (sr, b) # rest" "length fs < length rest" using Cons.prems(7) by (cases ins) auto
  have p: "n + k \<le> ETH_RXBUFNB" "received s (RxDesc s) k F" "pending s m (n + k) fs" using Cons.prems(4,5) f by simp_all
  have "F \<noteq> []" using p(2) by (simp add: received_def)
  then obtain ls where ls: "alloc (length F) = Some ls" "sum_list ls = length F" using Cons.prems(8) by blast
  obtain q s1 where i: "low_level_input alloc sr s = Inr (Some q, s1)" "concat q = F" "rx_ring s1" "\<not> eth_Lock s1"
    "SegCount (RxFrameInfos s1) = 0" "RxDesc s1 = (RxDesc s + k) mod ETH_RXBUFNB" "Rx_Buff s1 = Rx_Buff s"
    "\<forall>j < ETH_RXBUFNB. RxTab s1 ! ((RxDesc s + j) mod ETH_RXBUFNB) = (let d = RxTab s ! ((RxDesc s + j) mod ETH_RXBUFNB) in
        if j < k then d\<lparr>Status := Status d OR ETH_DMARXDESC_OWN\<rparr> else d)"
    using input_frame [OF Cons.prems(1-3) p(2), where alloc = alloc and ls = ls and sr = sr] ls by blast
  have t: "RxTab s1 ! ((m + n + j) mod ETH_RXBUFNB) = (let d = RxTab s ! ((m + n + j) mod ETH_RXBUFNB) in
        if j < k then d\<lparr>Status := Status d OR ETH_DMARXDESC_OWN\<rparr> else d)" if "j < ETH_RXBUFNB" for j
    using i(8) that Cons.prems(5) by (simp add: mod_add_left_eq)
  have same: "RxTab s1 ! ((m + j) mod ETH_RXBUFNB) = RxTab s ! ((m + j) mod ETH_RXBUFNB)" if "n + k \<le> j" "j < ETH_RXBUFNB" for j
    using t [of "j - n"] that by (simp add: Let_def)
  have "pending s1 m (n + k) fs" using pending_cong [OF i(7) same] p(3) by simp
  moreover have "RxDesc s1 = (m + (n + k)) mod ETH_RXBUFNB" using i(6) Cons.prems(5) by (simp add: mod_add_left_eq add.assoc)
  moreover have "\<forall>j < n + k. rx_owned s1 (m + j)"
  proof (intro allI impI)
    fix j assume j: "j < n + k"
    show "rx_owned s1 (m + j)"
    proof (cases "n \<le> j")
      case True
      moreover have "j - n < k" "j - n < ETH_RXBUFNB" using True j p(1) by linarith+
      ultimately show ?thesis using t [of "j - n"] by (simp add: rx_owned_def Let_def ETH_DMARXDESC_OWN_def)
    next
      case False
      then have "rx_owned s (m + j)" using Cons.prems(6) by simp
      moreover have "m + n + (ETH_RXBUFNB + j - n) = m + j + ETH_RXBUFNB" using False p(1) by simp
      then have "(m + n + (ETH_RXBUFNB + j - n)) mod ETH_RXBUFNB = (m + j) mod ETH_RXBUFNB" by (simp only: mod_add_self2)
      ultimately show ?thesis using t [of "ETH_RXBUFNB + j - n"] False p(1) by (simp add: rx_owned_def Let_def ETH_DMARXDESC_OWN_def)
    qed
  qed
  ultimately obtain ps s' where "ethernetif_drain alloc rest s1 = Inr (ps, s') \<and> map (concat \<circ> fst) ps = map snd fs
      \<and> rx_ring s' \<and> \<not> eth_Lock s' \<and> SegCount (RxFrameInfos s') = 0 \<and> rx_owned s' (RxDesc s')
      \<and> RxDesc s' = (m + (n + k) + sum_list (map fst fs)) mod ETH_RXBUFNB \<and> (\<forall>j < n + k + sum_list (map fst fs). rx_owned s' (m + j))"
    using Cons.IH [OF i(3-5) _ _ _ ins(2) Cons.prems(8), of "n + k"] by blast
  with i(1,2) show ?case
    by (intro exI [of _ "(q, \<not> b) # ps"] exI [of _ s']) (auto simp: f ins(1) add.assoc comp_def)
qed

section \<open>Setting up\<close>

lemma map_if_all: "map (\<lambda>i. if i < n then f i else g i) [0..<n] = map f [0..<n]"
  by simp

lemma tx_init_ring:
  assumes "\<not> eth_Lock s" "length (TxTab s) = ETH_TXBUFNB" "length (Tx_Buff s) = ETH_TXBUFNB" "\<forall>b \<in> set (Tx_Buff s). length b = S"
  shows "\<exists>s'. HAL_ETH_DMATxDescListInit ETH_TXBUFNB s = Inr (HAL_OK, s') \<and> tx_ring s' \<and> \<not> eth_Lock s' \<and> (\<forall>j. tx_free 0 s' j)"
proof -
  have "(if i < ETH_TXBUFNB - 1 then i + 1 else 0) = (i + 1) mod ETH_TXBUFNB" if "i < ETH_TXBUFNB" for i
    using that by (cases "i = 3") (auto simp: ETH_TXBUFNB_def)
  then show ?thesis
    using assms by (auto simp: HAL_ETH_DMATxDescListInit_def eth_locked_def tx_ring_def tx_free_def eth_ready_def eth_out_def
        tx_desc_init_def ETH_DMATXDESC_TCH_def ETH_DMATXDESC_CHECKSUMTCPUDPICMPFULL_def ETH_DMATXDESC_OWN_def ETH_TXBUFNB_def)
qed

lemma rx_init_ring:
  assumes "\<not> eth_Lock s" "length (RxTab s) = ETH_RXBUFNB" "length (Rx_Buff s) = ETH_RXBUFNB" "\<forall>b \<in> set (Rx_Buff s). length b = R"
  shows "\<exists>s'. HAL_ETH_DMARxDescListInit ETH_RXBUFNB s = Inr (HAL_OK, s') \<and> rx_ring s' \<and> \<not> eth_Lock s' \<and> (\<forall>j. rx_owned s' j)"
proof -
  have "(if i < ETH_RXBUFNB - 1 then i + 1 else 0) = (i + 1) mod ETH_RXBUFNB" if "i < ETH_RXBUFNB" for i
    using that by (cases "i = 3") (auto simp: ETH_RXBUFNB_def)
  then show ?thesis
    using assms by (auto simp: HAL_ETH_DMARxDescListInit_def eth_locked_def rx_ring_def rx_owned_def eth_ready_def eth_out_def
        rx_desc_init_def Let_def ETH_DMARXDESC_OWN_def ETH_RXBUFNB_def)
qed

section \<open>Properties\<close>

text \<open>An interface just set up, for the witnesses.\<close>

definition eth_on :: eth where
  "eth_on = \<lparr>TxTab = map (\<lambda>i. \<lparr>Status = 0x00D00000, ControlBufferSize = 0, Buffer1Addr = i, Buffer2NextDescAddr = (i + 1) mod 4\<rparr>) [0..<4],
     RxTab = map (\<lambda>i. \<lparr>Status = 0x80000000, ControlBufferSize = 0x45F4, Buffer1Addr = i, Buffer2NextDescAddr = (i + 1) mod 4\<rparr>) [0..<4],
     Tx_Buff = replicate 4 (replicate 1524 0), Rx_Buff = replicate 4 ([1, 2, 3] @ replicate 1521 0), TxDesc = 3, RxDesc = 3,
     RxFrameInfos = \<lparr>FSRxDesc = 0, LSRxDesc = None, SegCount = 0, frame_length = 0, frame_buffer = 0\<rparr>,
     eth_State = ETH_STATE_READY, eth_Lock = False, ChecksumMode = 0, RxMode = 1, PhyAddress = 3, eth_log = []\<rparr>"

lemma eth_on_rings: "tx_ring eth_on" "rx_ring eth_on" "tx_free 3 eth_on j" "rx_owned eth_on j" "TxDesc eth_on = 3" "RxDesc eth_on = 3"
  by (auto simp: eth_on_def tx_ring_def rx_ring_def tx_free_def rx_owned_def ETH_TXBUFNB_def ETH_RXBUFNB_def ETH_TX_BUF_SIZE_def
      ETH_RX_BUF_SIZE_def ETH_DMATXDESC_OWN_def ETH_DMARXDESC_OWN_def)

text \<open>
  Property C19: sending a frame. However the bytes of a frame are spread over the pbufs of a chain,
  and whether they take one transmit buffer or several, once enough descriptors are free
  \<^verbatim>\<open>low_level_output\<close> leaves in the ring exactly the frame the DMA then reads: its segments,
  from the old to the new \<^verbatim>\<open>TxDesc\<close>, are the bytes of the chain, with first and last
  segment marked. Other descriptors are untouched and the ring keeps its shape.
\<close>

theorem low_level_output_sends:
  assumes "tx_ring s" and "\<not> eth_Lock s" and "0 < length (concat p)" and "length (concat p) \<le> ETH_TXBUFNB * S"
    and "\<forall>j < ETH_TXBUFNB. j * S < length (concat p) \<longrightarrow> tx_free (TxDesc s) s j"
  shows "\<exists>s'. low_level_output p sr1 sr2 s = Inr (OUT_ERR_OK, s') \<and> tx_ring s' \<and> \<not> eth_Lock s'
    \<and> dma_fetch True ETH_TXBUFNB (TxTab s') (Tx_Buff s') (TxDesc s) = Some (concat p, TxDesc s')
    \<and> (\<forall>j < ETH_TXBUFNB. length (concat p) \<le> j * S \<longrightarrow>
        TxTab s' ! ((TxDesc s + j) mod ETH_TXBUFNB) = TxTab s ! ((TxDesc s + j) mod ETH_TXBUFNB))"
proof -
  let ?m = "TxDesc s" and ?n = "length (concat p)"
  have m: "?m < ETH_TXBUFNB" "?m mod ETH_TXBUFNB = ?m" using assms(1) by (simp_all add: tx_ring_def)
  have d: "rd (TxTab s) ?m = Inr (TxTab s ! ?m)" "Buffer1Addr (TxTab s ! ?m) = ?m"
    using tx_ring_at(1,2) [OF assms(1), of ?m] m(2) by simp_all
  let ?v = "\<lparr>o_desc = ?m, o_buf = ?m, bufferoffset = 0, framelength = 0\<rparr>"
  have "out_at ?m 0 ?v" using m by (simp add: out_at_def)
  then obtain v bufs where v: "out_pbufs p ?v s = Inr (Some v, s\<lparr>Tx_Buff := bufs\<rparr>)" "tx_ring (s\<lparr>Tx_Buff := bufs\<rparr>)"
    "framelength v = ?n" "take ?n (flat ?m bufs) = concat p"
    using out_pbufs_run [OF assms(1), of ?m 0 ?v p] assms(3-5) by auto
  let ?s1 = "s\<lparr>Tx_Buff := bufs\<rparr>"
  have "tx_free ?m ?s1 0" using assms(3) assms(5) [rule_format, of 0] m(1) by (simp add: tx_free_def)
  then obtain s2 where t: "HAL_ETH_TransmitFrame (of_nat ?n) sr1 ?s1 = Inr (HAL_OK, s2)" "tx_ring s2" "\<not> eth_Lock s2" "Tx_Buff s2 = bufs"
    "dma_fetch True ETH_TXBUFNB (TxTab s2) bufs ?m = Some (concat p, TxDesc s2)"
    "\<forall>j < ETH_TXBUFNB. ?n \<le> j * S \<longrightarrow> TxTab s2 ! ((?m + j) mod ETH_TXBUFNB) = TxTab s ! ((?m + j) mod ETH_TXBUFNB)"
    using transmit_run [of ?s1 ?n sr1] v(2,4) assms(2-4) by auto
  have "low_level_output p sr1 sr2 s
      = Inr (OUT_ERR_OK, if sr2 AND ETH_DMASR_TUS \<noteq> 0 then eth_out [DMASR ETH_DMASR_TUS, DMATPDR 0] s2 else s2)"
    using d v(1,3) t(1) by (simp add: low_level_output_def)
  with t(2-6) show ?thesis by (auto simp: eth_out_def tx_ring_def)
qed

theorem low_level_output_sends_witness:
  "\<exists>s'. low_level_output [[1, 2], replicate 1523 9, [3]] 0 0 eth_on = Inr (OUT_ERR_OK, s')
    \<and> dma_fetch True ETH_TXBUFNB (TxTab s') (Tx_Buff s') 3 = Some ([1, 2] @ replicate 1523 9 @ [3], TxDesc s')"
  using low_level_output_sends [OF eth_on_rings(1), of "[[1, 2], replicate 1523 9, [3]]" 0 0]
  by (auto simp: eth_on_rings(3,5)) (auto simp: eth_on_def ETH_TXBUFNB_def ETH_TX_BUF_SIZE_def)

text \<open>
  Property C23: the transmit path is memory safe. For every pbuf chain, also an empty or an overlong
  one, whatever descriptors the DMA owns and whether or not the driver is locked,
  \<^verbatim>\<open>low_level_output\<close> returns, stays inside the ring and its buffers, keeps the shape of the
  ring and leaves the lock as it found it.
\<close>

theorem low_level_output_safe:
  assumes "tx_ring s"
  shows "\<exists>e s'. low_level_output p sr1 sr2 s = Inr (e, s') \<and> tx_ring s' \<and> eth_Lock s' = eth_Lock s"
proof -
  let ?m = "TxDesc s"
  have m: "?m < ETH_TXBUFNB" using assms by (simp add: tx_ring_def)
  note d = tx_ring_desc [OF assms m]
  have "out_ok \<lparr>o_desc = ?m, o_buf = ?m, bufferoffset = 0, framelength = 0\<rparr>" using m by (simp add: out_ok_def)
  then obtain r bufs where o: "out_pbufs p \<lparr>o_desc = ?m, o_buf = ?m, bufferoffset = 0, framelength = 0\<rparr> s = Inr (r, s\<lparr>Tx_Buff := bufs\<rparr>)"
    "tx_ring (s\<lparr>Tx_Buff := bufs\<rparr>)"
    using out_pbufs_safe [OF assms] by blast
  obtain st s2 where "HAL_ETH_TransmitFrame (of_nat (framelength (the r))) sr1 (s\<lparr>Tx_Buff := bufs\<rparr>) = Inr (st, s2)" "tx_ring s2"
    "eth_Lock s2 = eth_Lock s"
    using transmit_safe [OF o(2)] by fastforce
  with d(1,2) o show ?thesis
    by (cases r) (auto simp: low_level_output_def eth_out_def tx_ring_def)
qed

theorem low_level_output_safe_witness:
  "\<exists>e s'. low_level_output (replicate 9 (replicate 1500 7)) 4 0x20 (eth_on\<lparr>eth_Lock := True\<rparr>) = Inr (e, s') \<and> tx_ring s' \<and> eth_Lock s'"
  using low_level_output_safe [of "eth_on\<lparr>eth_Lock := True\<rparr>" "replicate 9 (replicate 1500 7)" 4 "0x20"] eth_on_rings(1)
  by (simp add: tx_ring_def)

text \<open>
  A locked driver loses frames. While the lock of the HAL handle is held, as it is when
  an interrupt or a thread of higher priority comes in between, \<^verbatim>\<open>low_level_output\<close> reports
  success without giving the frame to the DMA, and \<^verbatim>\<open>low_level_input\<close> reports that there is
  no frame whatever waits in the ring.
\<close>

lemma eth_locked_loses_frame:
  assumes "tx_ring s" and "eth_Lock s" and "0 < length (concat p)" and "length (concat p) \<le> ETH_TXBUFNB * S"
    and "\<forall>j < ETH_TXBUFNB. j * S < length (concat p) \<longrightarrow> tx_free (TxDesc s) s j"
  shows "(\<exists>s'. low_level_output p sr1 sr2 s = Inr (OUT_ERR_OK, s') \<and> TxTab s' = TxTab s \<and> TxDesc s' = TxDesc s)
    \<and> low_level_input alloc sr s = Inr (None, s)"
proof
  let ?m = "TxDesc s"
  have m: "?m < ETH_TXBUFNB" "?m mod ETH_TXBUFNB = ?m" using assms(1) by (simp_all add: tx_ring_def)
  note d = tx_ring_desc(1,2) [OF assms(1) m(1)]
  let ?v = "\<lparr>o_desc = ?m, o_buf = ?m, bufferoffset = 0, framelength = 0\<rparr>"
  have "out_at ?m 0 ?v" using m by (simp add: out_at_def)
  then obtain v bufs where v: "out_pbufs p ?v s = Inr (Some v, s\<lparr>Tx_Buff := bufs\<rparr>)"
    using out_pbufs_run [OF assms(1), of ?m 0 ?v p] assms(3-5) by auto
  then show "\<exists>s'. low_level_output p sr1 sr2 s = Inr (OUT_ERR_OK, s') \<and> TxTab s' = TxTab s \<and> TxDesc s' = TxDesc s"
    using d assms(2) by (simp add: low_level_output_def HAL_ETH_TransmitFrame_def eth_locked_def eth_out_def)
  show "low_level_input alloc sr s = Inr (None, s)"
    using assms(2) by (simp add: low_level_input_def HAL_ETH_GetReceivedFrame_IT_def eth_locked_def)
qed


text \<open>A frame of three bytes in the last descriptor.\<close>

definition eth_rx_on :: eth where
  "eth_rx_on = eth_on\<lparr>RxTab := (RxTab eth_on)[3 := (RxTab eth_on ! 3)\<lparr>Status := 0x00070300\<rparr>]\<rparr>"

lemma eth_rx_on_received: "received eth_rx_on 3 1 [1, 2, 3]"
proof -
  have "rotate 3 (replicate 4 x) = replicate 4 x" for x :: "u8 list"
    by (intro nth_equalityI) (simp_all add: nth_rotate)
  then have "flat 3 (Rx_Buff eth_rx_on) = concat (replicate 4 ([1, 2, 3] @ replicate 1521 0))"
    by (simp only: flat_def eth_rx_on_def eth_on_def eth.simps)
  moreover have "replicate 4 x = x # replicate 3 x" for x :: "u8 list" by (simp add: numeral_eq_Suc)
  ultimately have "take 3 (flat 3 (Rx_Buff eth_rx_on)) = [1, 2, 3]" by simp
  moreover have "Status (RxTab eth_rx_on ! 3) = 0x00070300" by (simp add: eth_rx_on_def eth_on_def)
  ultimately show ?thesis
    by (simp add: received_def Let_def ETH_RXBUFNB_def ETH_RX_BUF_SIZE_def ETH_DMARXDESC_OWN_def ETH_DMARXDESC_FS_def
        ETH_DMARXDESC_LS_def ETH_DMARXDESC_FL_def flip: numeral_3_eq_3)
qed

lemma eth_rx_on_ring: "rx_ring eth_rx_on" "\<not> eth_Lock eth_rx_on" "SegCount (RxFrameInfos eth_rx_on) = 0" "RxDesc eth_rx_on = 3"
  "rx_owned eth_rx_on 4"
  using eth_on_rings(2) eth_on_rings(4) [of 4]
  by (auto simp: eth_rx_on_def rx_ring_def rx_owned_def nth_list_update ETH_RXBUFNB_def) (auto simp: eth_on_def)


end
