(* ===== verification/Ethernetif_Init.thy ===== *)
theory Ethernetif_Init
  imports Hal_Eth_Init Ethernetif Boot
begin

text \<open>
  Model of the set-up of the network interface in \<^verbatim>\<open>src/src/ethernetif.c\<close>:
  \<^verbatim>\<open>low_level_init\<close>, \<^verbatim>\<open>ethernetif_init\<close> and
  \<^verbatim>\<open>ethernetif_update_config\<close>, which is compiled only with
  \<^verbatim>\<open>LWIP_NETIF_LINK_CALLBACK\<close>. They join the EEPROM driver, which holds the MAC address,
  the Ethernet HAL, the descriptor rings and the kernel.
\<close>

unbundle bit_operations_syntax

section \<open>Operations\<close>

text \<open>The fields of the stack's interface structure this file writes.\<close>

record netif =
  netif_name :: string
  netif_flags :: u8
  hwaddr_len :: u8
  hwaddr :: "u8 list"
  netif_mtu :: u16

definition NETIF_FLAG_BROADCAST :: u8 where [reg_consts]: "NETIF_FLAG_BROADCAST = 2"
definition NETIF_FLAG_LINK_UP :: u8 where [reg_consts]: "NETIF_FLAG_LINK_UP = 4"
definition NETIF_FLAG_ETHARP :: u8 where [reg_consts]: "NETIF_FLAG_ETHARP = 8"
definition ETH_PHY_ADDRESS :: u16 where [reg_consts]: "ETH_PHY_ADDRESS = 3"
definition MAC_EEPROM_ADDR :: u32 where [reg_consts]: "MAC_EEPROM_ADDR = 0x7FFF8"

text \<open>The whole state: interface, EEPROM driver, kernel, Ethernet controller and \<^verbatim>\<open>s_xSemaphore\<close>.\<close>

record ('i, 'k) if_sys =
  nif :: netif
  if_ee :: "'i ee_state"
  if_kernel :: 'k
  if_eth :: eth_sys
  s_xSemaphore :: u32

definition heth_init :: "u8 list \<Rightarrow> eth_sys \<Rightarrow> eth_sys" where
  "heth_init addr s = s\<lparr>Instance := ETH_BASE, AutoNegotiation := ETH_AUTONEGOTIATION_ENABLE, DuplexMode := ETH_MODE_FULLDUPLEX,
     EthSpeed := ETH_SPEED_100M, MACAddr := addr, MediaInterface := SYSCFG_PMC_MII_RMII_SEL,
     heth := (heth s)\<lparr>PhyAddress := ETH_PHY_ADDRESS, RxMode := ETH_RXINTERRUPT_MODE, ChecksumMode := ETH_CHECKSUM_BY_HARDWARE\<rparr>\<rparr>"

text \<open>
  \<open>junk\<close> is what the array on the stack holds before the read from the EEPROM, whose result is not
  looked at; \<open>fn\<close> and \<open>arg\<close> are the pointers to \<^verbatim>\<open>ethernetif_input\<close> and to the interface.
\<close>

definition low_level_init :: "'i i2c_dev \<Rightarrow> 'k rtos \<Rightarrow> eth_env \<Rightarrow> bool \<Rightarrow> u8 list \<Rightarrow> u32 \<Rightarrow> u32 \<Rightarrow> ('i, 'k) if_sys \<Rightarrow> ('i, 'k) if_sys res" where
  "low_level_init I K e flushed junk fn arg s =
     res_bind (EEPROM_Read I MAC_EEPROM_ADDR (Some 6) 6 (if_ee s)) (\<lambda>(_, bytes, ee).
     let addr = bytes @ drop (length bytes) junk in
     res_bind (HAL_ETH_Init e (heth_init addr (if_eth s))) (\<lambda>(st, h1).
     let n1 = (if st = HAL_OK then (nif s)\<lparr>netif_flags := netif_flags (nif s) OR NETIF_FLAG_LINK_UP\<rparr> else nif s) in
     res_bind (HAL_ETH_DMATxDescListInit ETH_TXBUFNB (heth h1)) (\<lambda>(_, d1).
     res_bind (HAL_ETH_DMARxDescListInit ETH_RXBUFNB d1) (\<lambda>(_, d2).
     let h2 = h1\<lparr>heth := d2\<rparr>;
         n2 = n1\<lparr>hwaddr_len := 6, hwaddr := take 6 (MACAddr h2), netif_mtu := 1500,
                 netif_flags := netif_flags n1 OR (NETIF_FLAG_BROADCAST OR NETIF_FLAG_ETHARP)\<rparr>;
         (sem, k1) = osSemaphoreNew K 1 1 (if_kernel s);
         (_, k2) = osThreadNew K fn arg \<lparr>attr_name = [], stack_size = 512, priority = 48\<rparr> k1
     in Inr \<lparr>nif = n2, if_ee = ee, if_kernel = k2, if_eth = snd (HAL_ETH_Start flushed h2), s_xSemaphore = sem\<rparr>))))"

definition ethernetif_init :: "'i i2c_dev \<Rightarrow> 'k rtos \<Rightarrow> eth_env \<Rightarrow> bool \<Rightarrow> u8 list \<Rightarrow> u32 \<Rightarrow> u32 \<Rightarrow> ('i, 'k) if_sys
    \<Rightarrow> (err_t \<times> ('i, 'k) if_sys) res" where
  "ethernetif_init I K e flushed junk fn arg s =
     res_bind (low_level_init I K e flushed junk fn arg (s\<lparr>nif := (nif s)\<lparr>netif_name := ''st''\<rparr>\<rparr>)) (\<lambda>s1. Inr (ERR_OK, s1))"

text \<open>The link callback. The PHY accesses come from \<open>acc\<close>, \<open>wait\<close>, \<open>result\<close> and \<open>forced\<close>.\<close>

definition update_forced :: "phy_access \<Rightarrow> eth_sys \<Rightarrow> eth_sys res" where
  "update_forced forced s = res_bind (phy_write PHY_BCR (forced_mode s) forced s) (\<lambda>(_, s1). Inr s1)"

definition update_speed :: "u32 \<Rightarrow> eth_sys \<Rightarrow> eth_sys" where
  "update_speed r s = s\<lparr>
     DuplexMode := (if r AND PHY_DUPLEX_STATUS \<noteq> 0 then ETH_MODE_FULLDUPLEX else ETH_MODE_HALFDUPLEX),
     EthSpeed := (if r AND PHY_SPEED_STATUS \<noteq> 0 then ETH_SPEED_10M else ETH_SPEED_100M)\<rparr>"

definition ethernetif_update_config :: "phy_access \<Rightarrow> u32 \<times> (phy_access \<times> u32) list \<Rightarrow> phy_access \<Rightarrow> phy_access \<Rightarrow> bool
    \<Rightarrow> netif \<Rightarrow> eth_sys \<Rightarrow> eth_sys res" where
  "ethernetif_update_config acc wait result forced flushed n s =
     (if netif_flags n AND NETIF_FLAG_LINK_UP \<noteq> 0 then
        res_bind
          (if AutoNegotiation s \<noteq> ETH_AUTONEGOTIATION_DISABLE then
             res_bind (phy_write PHY_BCR PHY_AUTONEGOTIATION acc s) (\<lambda>(_, s1).
             res_bind (phy_wait 1000 PHY_AUTONEGO_COMPLETE (fst wait) (snd wait) 0 s1) (\<lambda>(complete, r, s2).
             if \<not> complete then update_forced forced s2
             else res_bind (phy_read PHY_SR result r s2) (\<lambda>(_, r1, s3). Inr (update_speed r1 s3))))
           else update_forced forced s) (\<lambda>s4.
        Inr (snd (HAL_ETH_Start flushed (snd (HAL_ETH_ConfigMAC None s4)))))
      else Inr (snd (HAL_ETH_Stop flushed s)))"

section \<open>The interface after the set-up\<close>

text \<open>The memory of descriptors and buffers as it is declared.\<close>

definition eth_memory :: "eth \<Rightarrow> bool" where
  "eth_memory h \<longleftrightarrow> length (TxTab h) = ETH_TXBUFNB \<and> length (Tx_Buff h) = ETH_TXBUFNB \<and> (\<forall>b \<in> set (Tx_Buff h). length b = ETH_TX_BUF_SIZE)
     \<and> length (RxTab h) = ETH_RXBUFNB \<and> length (Rx_Buff h) = ETH_RXBUFNB \<and> (\<forall>b \<in> set (Rx_Buff h). length b = ETH_RX_BUF_SIZE)"

text \<open>Both rings are complete, the transmit ring belongs to the driver and the receive ring to the DMA.\<close>

definition rings_ready :: "eth \<Rightarrow> bool" where
  "rings_ready h \<longleftrightarrow> tx_ring h \<and> rx_ring h \<and> (\<forall>j. tx_free 0 h j) \<and> (\<forall>j. rx_owned h j)"

lemma tx_init_frame:
  "HAL_ETH_DMATxDescListInit n h = Inr (st, h') \<Longrightarrow> RxTab h' = RxTab h \<and> Rx_Buff h' = Rx_Buff h \<and> RxDesc h' = RxDesc h"
  by (auto simp: HAL_ETH_DMATxDescListInit_def eth_locked_def eth_ready_def eth_out_def split: if_splits)

lemma rx_init_frame:
  "HAL_ETH_DMARxDescListInit n h = Inr (st, h') \<Longrightarrow> TxTab h' = TxTab h \<and> Tx_Buff h' = Tx_Buff h \<and> TxDesc h' = TxDesc h"
  by (auto simp: HAL_ETH_DMARxDescListInit_def eth_locked_def eth_ready_def eth_out_def split: if_splits)

lemma rings_set_up:
  assumes "eth_memory h" "\<not> eth_Lock h"
  shows "\<exists>d1 d2. HAL_ETH_DMATxDescListInit ETH_TXBUFNB h = Inr (HAL_OK, d1) \<and> HAL_ETH_DMARxDescListInit ETH_RXBUFNB d1 = Inr (HAL_OK, d2)
    \<and> rings_ready d2 \<and> \<not> eth_Lock d2"
proof -
  obtain d1 where d1: "HAL_ETH_DMATxDescListInit ETH_TXBUFNB h = Inr (HAL_OK, d1)" "tx_ring d1" "\<not> eth_Lock d1" "\<forall>j. tx_free 0 d1 j"
    using tx_init_ring [of h] assms by (auto simp: eth_memory_def)
  note f1 = tx_init_frame [OF d1(1)]
  obtain d2 where d2: "HAL_ETH_DMARxDescListInit ETH_RXBUFNB d1 = Inr (HAL_OK, d2)" "rx_ring d2" "\<not> eth_Lock d2" "\<forall>j. rx_owned d2 j"
    using rx_init_ring [of d1] assms d1(3) f1 by (auto simp: eth_memory_def)
  note f2 = rx_init_frame [OF d2(1)]
  have "tx_ring d2" "\<forall>j. tx_free 0 d2 j" using d1 f2 by (simp_all add: tx_ring_def tx_free_def)
  with d1 d2 show ?thesis by (auto simp: rings_ready_def)
qed

lemma rings_ready_setup: "setup_only s s' \<Longrightarrow> rings_ready (heth s) \<Longrightarrow> rings_ready (heth s')"
  by (simp add: setup_only_def rings_ready_def tx_ring_def rx_ring_def tx_free_def rx_owned_def setup_mask_fields [of s' s])

text \<open>What the first call of \<^verbatim>\<open>HAL_ETH_Init\<close> leaves, whatever its status.\<close>

definition pins_on :: "eth_sys \<Rightarrow> bool" where
  "pins_on s \<longleftrightarrow> (\<forall>(g, p) \<in> set eth_pins. pin_of (GPIOx (eth_gpio s) g) p = eth_pin_on) \<and> NVIC_GetEnableIRQ ETH_IRQn (eth_core s) = Inr 1"

lemma first_init:
  assumes "core_wf (eth_core s)" "6 \<le> length (MACAddr s)" "env_live e" "eth_State (heth s) = ETH_STATE_RESET" "Instance s = ETH_BASE"
    "eth_memory (heth s)"
  shows "\<exists>st s'. HAL_ETH_Init e s = Inr (st, s') \<and> eth_memory (heth s') \<and> \<not> eth_Lock (heth s') \<and> pins_on s' \<and> MACAddr s' = MACAddr s
    \<and> (reset_ok e \<longrightarrow> mac_address (mac s') = take 6 (MACAddr s))"
proof -
  let ?s = "eth_do (\<lambda>h. h\<lparr>eth_Lock := False\<rparr>) s"
  obtain g c where gc: "HAL_ETH_MspInit ?s = Inr (?s\<lparr>AHB1ENR := AHB1ENR ?s OR 0xE000000, eth_gpio := g, eth_core := c\<rparr>)"
      "\<forall>port p. p < 16 \<longrightarrow> pin_of (GPIOx g port) p = (if (port, p) \<in> set eth_pins then eth_pin_on else pin_of (GPIOx (eth_gpio ?s) port) p)"
      "NVIC_GetEnableIRQ ETH_IRQn c = Inr 1"
    using msp_init [of ?s] assms(1,5) by (auto simp: eth_do_def)
  let ?s1 = "?s\<lparr>AHB1ENR := AHB1ENR ?s OR 0xE000000, eth_gpio := g, eth_core := c\<rparr>"
  obtain st s' where r: "HAL_ETH_Init e s = Inr (st, s')" "init_rest e ?s1 st s'"
    using HAL_ETH_Init_rest [OF assms(2,3), of ?s1] gc(1) assms(4) by (auto simp: eth_do_def)
  have k: "setup_mask s' = setup_mask (reset_state e ?s1)" "\<not> eth_Lock (heth s')"
    using r(2) by (auto simp: init_rest_def init_post_def setup_only_def reset_state_def eth_do_def split: if_splits)
  note f = setup_mask_fields [OF k(1)]
  have "pins_on s'" using gc(2,3) f by (auto simp: pins_on_def reset_state_def eth_pins_def)
  moreover have "eth_memory (heth s')" using f assms(6) by (simp add: eth_memory_def reset_state_def eth_do_def)
  moreover have a: "MACAddr s' = MACAddr s" using f by (simp add: reset_state_def eth_do_def)
  moreover have "reset_ok e \<longrightarrow> mac_address (mac s') = take 6 (MACAddr s)"
    using r(2) a by (auto simp: init_rest_def init_post_def mac_configured_def)
  ultimately show ?thesis using r(1) k(2) by blast
qed

text \<open>The link flag tells whether the initialisation succeeded.\<close>

definition link_up :: "netif \<Rightarrow> bool" where
  "link_up n \<longleftrightarrow> netif_flags n AND NETIF_FLAG_LINK_UP \<noteq> 0"

definition init_status :: "eth_env \<Rightarrow> eth_sys \<Rightarrow> HAL_Status option" where
  "init_status e s = (case HAL_ETH_Init e s of Inl _ \<Rightarrow> None | Inr (st, _) \<Rightarrow> Some st)"

lemma link_flag:
  "(f OR NETIF_FLAG_LINK_UP OR (NETIF_FLAG_BROADCAST OR NETIF_FLAG_ETHARP)) AND NETIF_FLAG_LINK_UP \<noteq> 0"
  "((f OR NETIF_FLAG_LINK_UP) OR (NETIF_FLAG_BROADCAST OR NETIF_FLAG_ETHARP)) AND NETIF_FLAG_LINK_UP \<noteq> 0"
  "(f OR (NETIF_FLAG_BROADCAST OR NETIF_FLAG_ETHARP)) AND NETIF_FLAG_LINK_UP = f AND NETIF_FLAG_LINK_UP"
  by (simp_all add: reg_consts bit.conj_disj_distrib2 or.assoc)

section \<open>Properties\<close>


definition if_off :: "(ee_sim, ksim) if_sys" where
  "if_off = \<lparr>nif = \<lparr>netif_name = [], netif_flags = 0, hwaddr_len = 0, hwaddr = [], netif_mtu = 0\<rparr>, if_ee = ee_on (\<lambda>a. ucast a),
     if_kernel = \<lparr>k_tick = 0, k_next = 1, k_queues = (\<lambda>_. None), k_sems = (\<lambda>_. None)\<rparr>, if_eth = eth_sys_off, s_xSemaphore = 0\<rparr>"

lemma if_off_valid:
  "core_wf (eth_core (if_eth if_off))" "eth_State (heth (if_eth if_off)) = ETH_STATE_RESET" "eth_memory (heth (if_eth if_off))"
  "\<not> link_up (nif if_off)" "ee_inv q_bus q_mem (if_ee if_off)" "view q_mem (if_ee if_off) = (\<lambda>a. ucast a)"
  by (simp_all add: if_off_def eth_sys_off_def eth_zero_def eth_memory_def link_up_def ee_on_inv ETH_TXBUFNB_def ETH_RXBUFNB_def
      ETH_TX_BUF_SIZE_def ETH_RX_BUF_SIZE_def)


section \<open>Waiting for a link\<close>

lemma phy_read_no_link:
  assumes "phy_read reg acc r0 s = Inr (st, r, s')" "\<not> bit r0 2" "\<not> bit (snd (snd acc)) 2"
  shows "\<not> bit r 2"
  using assms by (cases acc) (auto simp: phy_read_def HAL_ETH_ReadPHYRegister_def Let_def res_bind_eq_Inr bit_simps split: if_splits)

lemma phy_wait_no_link:
  assumes "phy_wait limit PHY_LINKED_STATUS t turns r0 s = Inr (b, r, s')" "\<not> bit r0 2"
    "\<forall>(acc, now) \<in> set turns. \<not> bit (snd (snd acc)) 2"
  shows "\<not> b \<and> (\<exists>(acc, now) \<in> set turns. now - t > limit)"
  using assms
proof (induction turns arbitrary: r0 s)
  case (Cons x turns)
  obtain acc now where x: "x = (acc, now)" by (cases x)
  from Cons.prems(1) obtain st r1 s1 where r1: "phy_read PHY_BSR acc r0 s = Inr (st, r1, s1)" by (auto simp: x res_bind_eq_Inr)
  have n: "\<not> bit r1 2" using phy_read_no_link [OF r1 Cons.prems(2)] Cons.prems(3) by (simp add: x)
  then have l: "r1 AND PHY_LINKED_STATUS \<noteq> PHY_LINKED_STATUS" using and_two_pow(2) [of r1] by (auto simp: PHY_LINKED_STATUS_def)
  show ?case
  proof (cases "now - t > limit")
    case True
    with Cons.prems(1) r1 show ?thesis by (auto simp: x)
  next
    case False
    with Cons.prems(1) r1 l have "phy_wait limit PHY_LINKED_STATUS t turns r1 s1 = Inr (b, r, s')" by (simp add: x)
    from Cons.IH [OF this n] Cons.prems(3) show ?thesis by auto
  qed
qed simp

text \<open>An access that the PHY answers at the first poll.\<close>

definition quick :: "phy_access \<Rightarrow> bool" where
  "quick acc = (case acc of (t, (now, v) # _, _) \<Rightarrow> now - t \<le> 0xFFFF \<and> v AND 1 \<noteq> 1 | _ \<Rightarrow> False)"

lemma mii_busy_set: "mii_address phy reg w a AND 1 = 1"
  by (simp add: mii_address_def Let_def bit.conj_disj_distrib2 and.assoc)

lemma phy_write_quick:
  assumes "quick acc" "eth_State (heth s) \<noteq> ETH_STATE_BUSY_WR"
  shows "\<exists>s'. phy_write reg v acc s = Inr (HAL_OK, s')"
proof -
  obtain t now x polls d where acc: "acc = (t, (now, x) # polls, d)" "now - t \<le> 0xFFFF" "x AND 1 \<noteq> 1"
    using assms(1) by (auto simp: quick_def split: prod.splits list.splits)
  have "mii_wait PHY_WRITE_TO t (mii_address phy reg True a) ((now, x) # polls) = Inr HAL_OK" for phy a
    using acc(2,3) by (subst mii_wait.simps) (simp add: mii_busy_set PHY_WRITE_TO_def mii_wait.simps [of _ _ x] not_less)
  then show ?thesis using assms(2) by (simp add: phy_write_def acc(1) HAL_ETH_WritePHYRegister_def Let_def)
qed

text \<open>The period of the watchdog in milliseconds at the nominal frequency of its clock, 32 kHz.\<close>

definition iwdg_period_ms :: "iwdg_handle \<Rightarrow> nat" where
  "iwdg_period_ms h = (unat (Reload h) + 1) * (4 * 2 ^ unat (Prescaler h)) * 1000 div 32000"



text \<open>The link callback returns for every live environment and leaves the controller running exactly if
  the link is up.\<close>

lemma update_config_ends:
  assumes "access_live acc" "wait_live 1000 wait" "access_live result" "access_live forced" "\<not> eth_Lock (heth s)"
  shows "\<exists>s'. ethernetif_update_config acc wait result forced flushed n s = Inr s'
    \<and> eth_running s' = replicate 4 (link_up n) \<and> \<not> eth_Lock (heth s')"
proof (cases "link_up n")
  case False
  then show ?thesis
    using stop_running [OF assms(5), of flushed] by (auto simp: ethernetif_update_config_def link_up_def numeral_eq_Suc)
next
  case True
  have unlocked: "\<not> eth_Lock (heth t)" if "phy_only s t" for t using that assms(5) by (auto simp: phy_only_def)
  have forced: "\<exists>t'. update_forced forced t = Inr t' \<and> \<not> eth_Lock (heth t')" if "phy_only s t" for t
  proof -
    obtain st t' where "phy_write PHY_BCR (forced_mode t) forced t = Inr (st, t')" "phy_only t t'" using phy_write_ends [OF assms(4)] by blast
    with unlocked [OF phy_only_trans [OF that]] show ?thesis by (simp add: update_forced_def)
  qed
  let ?x = "if AutoNegotiation s \<noteq> ETH_AUTONEGOTIATION_DISABLE then
             res_bind (phy_write PHY_BCR PHY_AUTONEGOTIATION acc s) (\<lambda>(_, s1).
             res_bind (phy_wait 1000 PHY_AUTONEGO_COMPLETE (fst wait) (snd wait) 0 s1) (\<lambda>(complete, r, s2).
             if \<not> complete then update_forced forced s2
             else res_bind (phy_read PHY_SR result r s2) (\<lambda>(_, r1, s3). Inr (update_speed r1 s3))))
           else update_forced forced s"
  obtain st s1 where w: "phy_write PHY_BCR PHY_AUTONEGOTIATION acc s = Inr (st, s1)" "phy_only s s1" using phy_write_ends [OF assms(1)] by blast
  obtain b r s2 where l: "phy_wait 1000 PHY_AUTONEGO_COMPLETE (fst wait) (snd wait) 0 s1 = Inr (b, r, s2)" "phy_only s1 s2"
    using phy_wait_ends [of 1000 "fst wait" "snd wait"] assms(2) by auto blast
  have o2: "phy_only s s2" by (rule phy_only_trans [OF w(2) l(2)])
  obtain st2 r1 s3 where q: "phy_read PHY_SR result r s2 = Inr (st2, r1, s3)" "phy_only s2 s3" using phy_read_ends [OF assms(3)] by blast
  have u3: "\<not> eth_Lock (heth (update_speed r1 s3))" using unlocked [OF phy_only_trans [OF o2 q(2)]] by (simp add: update_speed_def)
  have "\<exists>t. ?x = Inr t \<and> \<not> eth_Lock (heth t)"
    using forced [OF phy_only_refl] forced [OF o2] u3 w(1) l(1) q(1) by (cases b) auto
  then obtain t where t: "?x = Inr t" "\<not> eth_Lock (heth t)" by blast
  have c: "\<not> eth_Lock (heth (snd (HAL_ETH_ConfigMAC None t)))"
    using t(2) by (simp add: HAL_ETH_ConfigMAC_def sys_locked_def eth_do_def eth_ready_def)
  show ?thesis using start_running [OF c, of flushed] t(1) True
    by (auto simp: ethernetif_update_config_def link_up_def numeral_eq_Suc)
qed

end
