(* ===== verification/Hal_Flash_Ob.thy ===== *)
theory Hal_Flash_Ob
  imports Hal_Flash
begin

text \<open>
  Model of the option byte functions of \<^verbatim>\<open>src/src/stm32f7xx_hal_flash.c\<close> and
  \<^verbatim>\<open>src/src/stm32f7xx_hal_flash_ex.c\<close>: protection of sectors, read protection, user
  options, brown-out level and boot addresses. The option control registers belong to the same
  controller as the flash; they are a second parameter \<open>B\<close> on its state.
\<close>

unbundle bit_operations_syntax

section \<open>Operations\<close>

record 'd ob_dev =
  rd_OPTCR :: "'d \<Rightarrow> u32"
  wr_OPTCR :: "u32 \<Rightarrow> 'd \<Rightarrow> 'd"
  wr_OPTCR_BYTE1 :: "u8 \<Rightarrow> 'd \<Rightarrow> 'd"
  rd_OPTCR1 :: "'d \<Rightarrow> u32"
  wr_OPTCR1 :: "u32 \<Rightarrow> 'd \<Rightarrow> 'd"
  wr_OPTKEYR :: "u32 \<Rightarrow> 'd \<Rightarrow> 'd"

record FLASH_OBProgramInitTypeDef =
  OptionType :: u32
  WRPState :: u32
  WRPSector :: u32
  RDPLevel :: u32
  BORLevel :: u32
  USERConfig :: u32
  BootAddr0 :: u32
  BootAddr1 :: u32

definition FLASH_OPTCR_OPTLOCK :: u32 where [reg_consts]: "FLASH_OPTCR_OPTLOCK = 1"
definition FLASH_OPTCR_OPTSTRT :: u32 where [reg_consts]: "FLASH_OPTCR_OPTSTRT = 2"
definition FLASH_OPTCR_BOR_LEV :: u32 where [reg_consts]: "FLASH_OPTCR_BOR_LEV = 0xC"
definition FLASH_OPT_KEY1 :: u32 where [reg_consts]: "FLASH_OPT_KEY1 = 0x08192A3B"
definition FLASH_OPT_KEY2 :: u32 where [reg_consts]: "FLASH_OPT_KEY2 = 0x4C5D6E7F"
definition OPTIONBYTE_WRP :: u32 where [reg_consts]: "OPTIONBYTE_WRP = 1"
definition OPTIONBYTE_RDP :: u32 where [reg_consts]: "OPTIONBYTE_RDP = 2"
definition OPTIONBYTE_USER :: u32 where [reg_consts]: "OPTIONBYTE_USER = 4"
definition OPTIONBYTE_BOR :: u32 where [reg_consts]: "OPTIONBYTE_BOR = 8"
definition OPTIONBYTE_BOOTADDR_0 :: u32 where [reg_consts]: "OPTIONBYTE_BOOTADDR_0 = 0x10"
definition OPTIONBYTE_BOOTADDR_1 :: u32 where [reg_consts]: "OPTIONBYTE_BOOTADDR_1 = 0x20"
definition OB_WRPSTATE_ENABLE :: u32 where [reg_consts]: "OB_WRPSTATE_ENABLE = 1"
definition OB_RDP_LEVEL_0 :: u8 where [reg_consts]: "OB_RDP_LEVEL_0 = 0xAA"
definition OB_RDP_LEVEL_1 :: u8 where [reg_consts]: "OB_RDP_LEVEL_1 = 0x55"
definition OB_RDP_LEVEL_2 :: u8 where [reg_consts]: "OB_RDP_LEVEL_2 = 0xCC"

definition HAL_FLASH_OB_Unlock :: "'d ob_dev \<Rightarrow> 'd flash_state \<Rightarrow> HAL_Status \<times> 'd flash_state" where
  "HAL_FLASH_OB_Unlock B s =
     (if rd_OPTCR B (dev s) AND FLASH_OPTCR_OPTLOCK \<noteq> 0
      then (HAL_OK, s\<lparr>dev := wr_OPTKEYR B FLASH_OPT_KEY2 (wr_OPTKEYR B FLASH_OPT_KEY1 (dev s))\<rparr>)
      else (HAL_ERROR, s))"

definition HAL_FLASH_OB_Lock :: "'d ob_dev \<Rightarrow> 'd flash_state \<Rightarrow> HAL_Status \<times> 'd flash_state" where
  "HAL_FLASH_OB_Lock B s = (HAL_OK, s\<lparr>dev := wr_OPTCR B (rd_OPTCR B (dev s) OR FLASH_OPTCR_OPTLOCK) (dev s)\<rparr>)"

definition HAL_FLASH_OB_Launch :: "'d flash_dev \<Rightarrow> 'd ob_dev \<Rightarrow> 'd flash_state \<Rightarrow> (HAL_Status \<times> 'd flash_state) res" where
  "HAL_FLASH_OB_Launch D B s = FLASH_WaitForLastOperation D FLASH_TIMEOUT_VALUE
     (s\<lparr>dev := wr_OPTCR B (rd_OPTCR B (dev s) OR FLASH_OPTCR_OPTSTRT) (dev s)\<rparr>)"

text \<open>What most of the functions do: wait, and write if nothing went wrong.\<close>

definition ob_after_wait :: "'d flash_dev \<Rightarrow> ('d \<Rightarrow> 'd) \<Rightarrow> 'd flash_state \<Rightarrow> (HAL_Status \<times> 'd flash_state) res" where
  "ob_after_wait D write s =
     res_bind (FLASH_WaitForLastOperation D FLASH_TIMEOUT_VALUE s) (\<lambda>(status, s1).
     Inr (status, if status = HAL_OK then s1\<lparr>dev := write (dev s1)\<rparr> else s1))"

definition FLASH_OB_EnableWRP :: "'d flash_dev \<Rightarrow> 'd ob_dev \<Rightarrow> u32 \<Rightarrow> 'd flash_state \<Rightarrow> (HAL_Status \<times> 'd flash_state) res" where
  "FLASH_OB_EnableWRP D B sectors = ob_after_wait D (\<lambda>d. wr_OPTCR B (rd_OPTCR B d AND NOT sectors) d)"

definition FLASH_OB_DisableWRP :: "'d flash_dev \<Rightarrow> 'd ob_dev \<Rightarrow> u32 \<Rightarrow> 'd flash_state \<Rightarrow> (HAL_Status \<times> 'd flash_state) res" where
  "FLASH_OB_DisableWRP D B sectors = ob_after_wait D (\<lambda>d. wr_OPTCR B (rd_OPTCR B d OR sectors) d)"

definition FLASH_OB_RDP_LevelConfig :: "'d flash_dev \<Rightarrow> 'd ob_dev \<Rightarrow> u8 \<Rightarrow> 'd flash_state \<Rightarrow> (HAL_Status \<times> 'd flash_state) res" where
  "FLASH_OB_RDP_LevelConfig D B Level = ob_after_wait D (wr_OPTCR_BYTE1 B Level)"

definition FLASH_OB_UserConfig :: "'d flash_dev \<Rightarrow> 'd ob_dev \<Rightarrow> u32 \<Rightarrow> u32 \<Rightarrow> u32 \<Rightarrow> u32 \<Rightarrow> u32 \<Rightarrow> u32 \<Rightarrow> u32 \<Rightarrow> u32
    \<Rightarrow> 'd flash_state \<Rightarrow> (HAL_Status \<times> 'd flash_state) res" where
  "FLASH_OB_UserConfig D B Wwdg Iwdg Stop Stdby Iwdgstop Iwdgstdby NDBank NDBoot =
     ob_after_wait D (\<lambda>d.
       let useroptionmask = 0x10 OR 0x20 OR 0x40 OR 0x80 OR 0x80000000 OR 0x40000000 OR 0x10000000 OR 0x20000000;
           useroptionvalue = Iwdg OR Wwdg OR Stop OR Stdby OR Iwdgstop OR Iwdgstdby OR NDBoot OR NDBank
       in wr_OPTCR B ((rd_OPTCR B d AND NOT useroptionmask) OR useroptionvalue) d)"

definition FLASH_OB_BOR_LevelConfig :: "'d ob_dev \<Rightarrow> u8 \<Rightarrow> 'd flash_state \<Rightarrow> (HAL_Status \<times> 'd flash_state) res" where
  "FLASH_OB_BOR_LevelConfig B Level s =
     Inr (HAL_OK, s\<lparr>dev := wr_OPTCR B ((rd_OPTCR B (dev s) AND NOT FLASH_OPTCR_BOR_LEV) OR ucast Level) (dev s)\<rparr>)"

definition FLASH_OB_BootAddressConfig :: "'d flash_dev \<Rightarrow> 'd ob_dev \<Rightarrow> u32 \<Rightarrow> u32 \<Rightarrow> 'd flash_state \<Rightarrow> (HAL_Status \<times> 'd flash_state) res" where
  "FLASH_OB_BootAddressConfig D B BootOption addr = ob_after_wait D (\<lambda>d.
     if BootOption = OPTIONBYTE_BOOTADDR_0 then wr_OPTCR1 B ((rd_OPTCR1 B d AND NOT 0xFFFF) OR addr) d
     else wr_OPTCR1 B ((rd_OPTCR1 B d AND NOT 0xFFFF0000) OR push_bit 16 addr) d)"

text \<open>One of the branches of \<^verbatim>\<open>HAL_FLASHEx_OBProgram\<close>: its status replaces the one before.\<close>

definition ob_option :: "u32 \<Rightarrow> u32 \<Rightarrow> ('d flash_state \<Rightarrow> (HAL_Status \<times> 'd flash_state) res)
    \<Rightarrow> HAL_Status \<times> 'd flash_state \<Rightarrow> (HAL_Status \<times> 'd flash_state) res" where
  "ob_option types t f r = (if types AND t = t then f (snd r) else Inr r)"

definition HAL_FLASHEx_OBProgram :: "'d flash_dev \<Rightarrow> 'd ob_dev \<Rightarrow> FLASH_OBProgramInitTypeDef \<Rightarrow> 'd flash_state
    \<Rightarrow> (HAL_Status \<times> 'd flash_state) res" where
  "HAL_FLASHEx_OBProgram D B p s =
     (if Lock s then Inr (HAL_BUSY, s)
      else
        let t = OptionType p; u = USERConfig p in
        res_bind (ob_option t OPTIONBYTE_WRP (if WRPState p = OB_WRPSTATE_ENABLE then FLASH_OB_EnableWRP D B (WRPSector p)
            else FLASH_OB_DisableWRP D B (WRPSector p)) (HAL_ERROR, s\<lparr>Lock := True\<rparr>)) (\<lambda>r1.
        res_bind (ob_option t OPTIONBYTE_RDP (FLASH_OB_RDP_LevelConfig D B (ucast (RDPLevel p))) r1) (\<lambda>r2.
        res_bind (ob_option t OPTIONBYTE_USER (FLASH_OB_UserConfig D B (u AND 0x10) (u AND 0x20) (u AND 0x40) (u AND 0x80)
            (u AND 0x80000000) (u AND 0x40000000) (u AND 0x20000000) (u AND 0x10000000)) r2) (\<lambda>r3.
        res_bind (ob_option t OPTIONBYTE_BOR (FLASH_OB_BOR_LevelConfig B (ucast (BORLevel p))) r3) (\<lambda>r4.
        res_bind (ob_option t OPTIONBYTE_BOOTADDR_0 (FLASH_OB_BootAddressConfig D B OPTIONBYTE_BOOTADDR_0 (BootAddr0 p)) r4) (\<lambda>r5.
        res_bind (ob_option t OPTIONBYTE_BOOTADDR_1 (FLASH_OB_BootAddressConfig D B OPTIONBYTE_BOOTADDR_1 (BootAddr1 p)) r5) (\<lambda>(status, s1).
        Inr (status, s1\<lparr>Lock := False\<rparr>))))))))"

definition FLASH_OB_GetWRP :: "'d ob_dev \<Rightarrow> 'd \<Rightarrow> u32" where
  "FLASH_OB_GetWRP B d = rd_OPTCR B d AND 0x0FFF0000"

definition FLASH_OB_GetRDP :: "'d ob_dev \<Rightarrow> 'd \<Rightarrow> u8" where
  "FLASH_OB_GetRDP B d =
     (let byte1 = ucast (drop_bit 8 (rd_OPTCR B d)) :: u8 in
      if byte1 = OB_RDP_LEVEL_0 then OB_RDP_LEVEL_0 else if byte1 = OB_RDP_LEVEL_2 then OB_RDP_LEVEL_2 else OB_RDP_LEVEL_1)"

definition FLASH_OB_GetUser :: "'d ob_dev \<Rightarrow> 'd \<Rightarrow> u32" where
  "FLASH_OB_GetUser B d = rd_OPTCR B d AND 0xF00000F0"

definition FLASH_OB_GetBOR :: "'d ob_dev \<Rightarrow> 'd \<Rightarrow> u32" where
  "FLASH_OB_GetBOR B d = rd_OPTCR B d AND 0xC"

definition FLASH_OB_GetBootAddress :: "'d ob_dev \<Rightarrow> u32 \<Rightarrow> 'd \<Rightarrow> u32" where
  "FLASH_OB_GetBootAddress B BootOption d =
     (if BootOption = OPTIONBYTE_BOOTADDR_0 then rd_OPTCR1 B d AND 0xFFFF else drop_bit 16 (rd_OPTCR1 B d AND 0xFFFF0000))"

text \<open>The field \<^verbatim>\<open>WRPState\<close> keeps what the caller had in it.\<close>

definition HAL_FLASHEx_OBGetConfig :: "'d ob_dev \<Rightarrow> 'd \<Rightarrow> FLASH_OBProgramInitTypeDef \<Rightarrow> FLASH_OBProgramInitTypeDef" where
  "HAL_FLASHEx_OBGetConfig B d p = p\<lparr>
     OptionType := OPTIONBYTE_WRP OR OPTIONBYTE_RDP OR OPTIONBYTE_USER OR OPTIONBYTE_BOR OR OPTIONBYTE_BOOTADDR_0 OR OPTIONBYTE_BOOTADDR_1,
     WRPSector := FLASH_OB_GetWRP B d, RDPLevel := ucast (FLASH_OB_GetRDP B d), USERConfig := FLASH_OB_GetUser B d,
     BORLevel := FLASH_OB_GetBOR B d, BootAddr0 := FLASH_OB_GetBootAddress B OPTIONBYTE_BOOTADDR_0 d,
     BootAddr1 := FLASH_OB_GetBootAddress B OPTIONBYTE_BOOTADDR_1 d\<rparr>"

section \<open>Fields of the option registers\<close>

lemma sectors_other:
  "w AND m = w \<Longrightarrow> m AND k = 0 \<Longrightarrow> (r AND NOT w) AND k = r AND (k :: u32)"
  "w AND m = w \<Longrightarrow> m AND k = 0 \<Longrightarrow> (r OR w) AND k = r AND (k :: u32)"
  by (rule bit_word_eqI, auto simp: bit_simps dest: and_eq_bits and_zero_bits)+

lemma sectors_same:
  "(r AND NOT w) AND m = (r AND m) AND NOT (w :: u32)" "w AND m = w \<Longrightarrow> (r OR w) AND m = (r AND m) OR (w :: u32)"
  by (simp add: ac_simps) (simp add: bit.conj_disj_distrib2)

text \<open>The four fields of the first register; the boot addresses fill the second.\<close>

definition WRP_MASK :: u32 where "WRP_MASK = 0x0FFF0000"
definition RDP_MASK :: u32 where "RDP_MASK = 0xFF00"
definition USER_MASK :: u32 where "USER_MASK = 0xF00000F0"
definition BOR_MASK :: u32 where "BOR_MASK = 0xC"
definition ADD0_MASK :: u32 where "ADD0_MASK = 0xFFFF"
definition ADD1_MASK :: u32 where "ADD1_MASK = 0xFFFF0000"

lemmas ob_masks = WRP_MASK_def RDP_MASK_def USER_MASK_def BOR_MASK_def ADD0_MASK_def ADD1_MASK_def

definition ob_valid :: "FLASH_OBProgramInitTypeDef \<Rightarrow> bool" where
  "ob_valid p \<longleftrightarrow> WRPSector p AND WRP_MASK = WRPSector p \<and> RDPLevel p \<in> {0xAA, 0x55, 0xCC} \<and> BORLevel p \<in> {0, 4, 8, 12}
     \<and> BootAddr0 p AND 0xFFFF = BootAddr0 p \<and> BootAddr1 p AND 0xFFFF = BootAddr1 p"

definition selects :: "FLASH_OBProgramInitTypeDef \<Rightarrow> u32 \<Rightarrow> bool" where
  "selects p t \<longleftrightarrow> OptionType p AND t = t"

definition set_wrp :: "FLASH_OBProgramInitTypeDef \<Rightarrow> u32 \<Rightarrow> u32" where
  "set_wrp p r = (if WRPState p = OB_WRPSTATE_ENABLE then r AND NOT (WRPSector p) else r OR WRPSector p)"

definition optcr_of :: "FLASH_OBProgramInitTypeDef \<Rightarrow> u32 \<Rightarrow> u32" where
  "optcr_of p r0 =
     (let r1 = (if selects p OPTIONBYTE_WRP then set_wrp p r0 else r0);
          r2 = (if selects p OPTIONBYTE_RDP then modify_reg RDP_MASK (push_bit 8 (ucast (ucast (RDPLevel p) :: u8))) r1 else r1);
          r3 = (if selects p OPTIONBYTE_USER then modify_reg USER_MASK (USERConfig p AND USER_MASK) r2 else r2)
      in if selects p OPTIONBYTE_BOR then modify_reg BOR_MASK (ucast (ucast (BORLevel p) :: u8)) r3 else r3)"

definition optcr1_of :: "FLASH_OBProgramInitTypeDef \<Rightarrow> u32 \<Rightarrow> u32" where
  "optcr1_of p r0 =
     (let r1 = (if selects p OPTIONBYTE_BOOTADDR_0 then modify_reg ADD0_MASK (BootAddr0 p) r0 else r0)
      in if selects p OPTIONBYTE_BOOTADDR_1 then modify_reg ADD1_MASK (push_bit 16 (BootAddr1 p)) r1 else r1)"

lemma ob_valid_values:
  assumes "ob_valid p"
  shows "WRPSector p AND WRP_MASK = WRPSector p"
    "push_bit 8 (ucast (ucast (RDPLevel p) :: u8)) AND RDP_MASK = push_bit 8 (ucast (ucast (RDPLevel p) :: u8))"
    "(USERConfig p AND USER_MASK) AND USER_MASK = USERConfig p AND USER_MASK"
    "ucast (ucast (BORLevel p) :: u8) AND BOR_MASK = ucast (ucast (BORLevel p) :: u8)" "ucast (ucast (BORLevel p) :: u8) = BORLevel p"
    "BootAddr0 p AND ADD0_MASK = BootAddr0 p" "push_bit 16 (BootAddr1 p) AND ADD1_MASK = push_bit 16 (BootAddr1 p)"
proof -
  show "push_bit 16 (BootAddr1 p) AND ADD1_MASK = push_bit 16 (BootAddr1 p)"
  proof -
    have m: "ADD1_MASK = push_bit 16 (mask 16)" by (simp add: ADD1_MASK_def mask_eq_exp_minus_1)
    show ?thesis unfolding m by (rule bit_word_eqI) (auto simp: bit_simps simp del: push_bit_mask_eq)
  qed
qed (use assms in \<open>auto simp: ob_valid_def ob_masks\<close>)

lemma optcr_fields:
  assumes "ob_valid p"
  shows "optcr_of p r AND WRP_MASK = (if selects p OPTIONBYTE_WRP then set_wrp p (r AND WRP_MASK) else r AND WRP_MASK)"
    "optcr_of p r AND RDP_MASK = (if selects p OPTIONBYTE_RDP then push_bit 8 (ucast (ucast (RDPLevel p) :: u8)) else r AND RDP_MASK)"
    "optcr_of p r AND USER_MASK = (if selects p OPTIONBYTE_USER then USERConfig p AND USER_MASK else r AND USER_MASK)"
    "optcr_of p r AND BOR_MASK = (if selects p OPTIONBYTE_BOR then BORLevel p else r AND BOR_MASK)"
    "optcr_of p r AND 3 = r AND 3"
proof -
  note v = ob_valid_values [OF assms]
  have d: "WRP_MASK AND RDP_MASK = 0" "WRP_MASK AND USER_MASK = 0" "WRP_MASK AND BOR_MASK = 0" "WRP_MASK AND 3 = 0"
     "RDP_MASK AND WRP_MASK = 0" "RDP_MASK AND USER_MASK = 0" "RDP_MASK AND BOR_MASK = 0" "RDP_MASK AND 3 = 0"
     "USER_MASK AND WRP_MASK = 0" "USER_MASK AND RDP_MASK = 0" "USER_MASK AND BOR_MASK = 0" "USER_MASK AND 3 = 0"
     "BOR_MASK AND WRP_MASK = 0" "BOR_MASK AND RDP_MASK = 0" "BOR_MASK AND USER_MASK = 0" "BOR_MASK AND 3 = 0"
    by (simp_all add: ob_masks)
  have w: "set_wrp p x AND k = x AND k" if "WRP_MASK AND k = 0" for x k
    using sectors_other [OF v(1) that] by (simp add: set_wrp_def)
  have w2: "set_wrp p x AND WRP_MASK = set_wrp p (x AND WRP_MASK)" for x
    using sectors_same(1) [of x "WRPSector p" WRP_MASK] sectors_same(2) [OF v(1), of x] by (simp add: set_wrp_def)
  note b = v(4) [unfolded v(5)]
  note o = put_other [OF v(2)] put_other [OF v(3)] put_other [OF b] and e = put_same [OF v(2)] put_same [OF v(3)] put_same [OF b]
  show "optcr_of p r AND WRP_MASK = (if selects p OPTIONBYTE_WRP then set_wrp p (r AND WRP_MASK) else r AND WRP_MASK)"
    "optcr_of p r AND RDP_MASK = (if selects p OPTIONBYTE_RDP then push_bit 8 (ucast (ucast (RDPLevel p) :: u8)) else r AND RDP_MASK)"
    "optcr_of p r AND USER_MASK = (if selects p OPTIONBYTE_USER then USERConfig p AND USER_MASK else r AND USER_MASK)"
    "optcr_of p r AND BOR_MASK = (if selects p OPTIONBYTE_BOR then BORLevel p else r AND BOR_MASK)"
    "optcr_of p r AND 3 = r AND 3"
    by (simp_all add: optcr_of_def Let_def o d w w2 e v(5))
qed

lemma optcr1_fields:
  assumes "ob_valid p"
  shows "optcr1_of p r AND ADD0_MASK = (if selects p OPTIONBYTE_BOOTADDR_0 then BootAddr0 p else r AND ADD0_MASK)"
    "optcr1_of p r AND ADD1_MASK = (if selects p OPTIONBYTE_BOOTADDR_1 then push_bit 16 (BootAddr1 p) else r AND ADD1_MASK)"
proof -
  note v = ob_valid_values(6,7) [OF assms]
  have d: "ADD0_MASK AND ADD1_MASK = 0" "ADD1_MASK AND ADD0_MASK = 0" by (simp_all add: ob_masks)
  show "optcr1_of p r AND ADD0_MASK = (if selects p OPTIONBYTE_BOOTADDR_0 then BootAddr0 p else r AND ADD0_MASK)"
    "optcr1_of p r AND ADD1_MASK = (if selects p OPTIONBYTE_BOOTADDR_1 then push_bit 16 (BootAddr1 p) else r AND ADD1_MASK)"
    by (simp_all add: optcr1_of_def Let_def put_other [OF v(1)] put_other [OF v(2)] put_same [OF v(1)] put_same [OF v(2)] d)
qed

section \<open>The option controller\<close>

text \<open>No operation runs and no error is pending.\<close>

definition ob_idle :: "'d flash_dev \<Rightarrow> 'd \<Rightarrow> bool" where
  "ob_idle D d \<longleftrightarrow> rd_SR D d AND FLASH_FLAG_BSY = 0 \<and> rd_SR D d AND FLASH_FLAG_ALL_ERRORS = 0"

definition ob_regs :: "'d ob_dev \<Rightarrow> 'd \<Rightarrow> u32 \<times> u32" where
  "ob_regs B d = (rd_OPTCR B d, rd_OPTCR1 B d)"

text \<open>The option registers are unlocked and no change of them has been started.\<close>

definition ob_open :: "'d ob_dev \<Rightarrow> 'd \<Rightarrow> bool" where
  "ob_open B d \<longleftrightarrow> rd_OPTCR B d AND 3 = 0"

text \<open>A write of the option registers that behaves like the function \<open>f\<close> on their contents.\<close>

definition ob_writes :: "'d flash_dev \<Rightarrow> 'd ob_dev \<Rightarrow> ('d \<Rightarrow> 'd) \<Rightarrow> (u32 \<times> u32 \<Rightarrow> u32 \<times> u32) \<Rightarrow> bool" where
  "ob_writes D B w f \<longleftrightarrow> (\<forall>d. ob_open B d \<longrightarrow> ob_idle D d \<longrightarrow> ob_regs B (w d) = f (ob_regs B d) \<and> ob_idle D (w d) \<and> ob_open B (w d))"

lemma and_three: "(x :: u32) AND 3 = 0 \<Longrightarrow> x AND 1 = 0" "(x :: u32) AND 3 = 0 \<Longrightarrow> x AND 2 = 0"
proof -
  have "x AND 1 = (x AND 3) AND 1" "x AND 2 = (x AND 3) AND 2" by (simp_all add: and.assoc)
  then show "x AND 3 = 0 \<Longrightarrow> x AND 1 = 0" "x AND 3 = 0 \<Longrightarrow> x AND 2 = 0" by simp_all
qed

text \<open>
  What the reference manual says of the controller: the registers take a write while they are
  unlocked and no operation runs, they ignore it while they are locked; the two keys open the
  lock; status flags go by writing ones and are not touched by the option registers.
\<close>

locale option_ctrl =
  fixes D :: "'d flash_dev" and B :: "'d ob_dev"
  assumes wr_optcr: "rd_OPTCR B d AND 1 = 0 \<Longrightarrow> rd_SR D d AND FLASH_FLAG_BSY = 0 \<Longrightarrow> v AND 2 = 0 \<Longrightarrow> rd_OPTCR B (wr_OPTCR B v d) = v"
    and wr_byte1: "rd_OPTCR B d AND 1 = 0 \<Longrightarrow> rd_SR D d AND FLASH_FLAG_BSY = 0 \<Longrightarrow>
          rd_OPTCR B (wr_OPTCR_BYTE1 B b d) = (rd_OPTCR B d AND NOT 0xFF00) OR push_bit 8 (ucast b)"
    and wr_optcr1: "rd_OPTCR B d AND 1 = 0 \<Longrightarrow> rd_SR D d AND FLASH_FLAG_BSY = 0 \<Longrightarrow> rd_OPTCR1 B (wr_OPTCR1 B v d) = v"
    and locked: "rd_OPTCR B d AND 1 \<noteq> 0 \<Longrightarrow> rd_OPTCR B (wr_OPTCR B v d) = rd_OPTCR B d"
          "rd_OPTCR B d AND 1 \<noteq> 0 \<Longrightarrow> rd_OPTCR B (wr_OPTCR_BYTE1 B b d) = rd_OPTCR B d"
          "rd_OPTCR B d AND 1 \<noteq> 0 \<Longrightarrow> rd_OPTCR1 B (wr_OPTCR1 B v d) = rd_OPTCR1 B d"
    and unlocks: "rd_OPTCR B d AND 1 \<noteq> 0 \<Longrightarrow>
          rd_OPTCR B (wr_OPTKEYR B FLASH_OPT_KEY2 (wr_OPTKEYR B FLASH_OPT_KEY1 d)) = rd_OPTCR B d AND NOT 1"
    and frame: "rd_OPTCR1 B (wr_OPTCR B v d) = rd_OPTCR1 B d" "rd_OPTCR1 B (wr_OPTCR_BYTE1 B b d) = rd_OPTCR1 B d"
          "rd_OPTCR B (wr_OPTCR1 B v d) = rd_OPTCR B d" "rd_OPTCR1 B (wr_OPTKEYR B v d) = rd_OPTCR1 B d"
          "rd_SR D (wr_OPTCR1 B v d) = rd_SR D d" "rd_SR D (wr_OPTCR_BYTE1 B b d) = rd_SR D d" "rd_SR D (wr_OPTKEYR B v d) = rd_SR D d"
          "v AND 2 = 0 \<Longrightarrow> rd_SR D (wr_OPTCR B v d) = rd_SR D d"
          "rd_OPTCR B (wr_SR D f d) = rd_OPTCR B d" "rd_OPTCR1 B (wr_SR D f d) = rd_OPTCR1 B d"
    and clear_sr: "rd_SR D (wr_SR D f d) = rd_SR D d AND NOT f"
begin

lemma idle_wait:
  assumes "ob_idle D (dev s)"
  shows "\<exists>s1. FLASH_WaitForLastOperation D t s = Inr (HAL_OK, s1) \<and> ob_idle D (dev s1) \<and> ob_regs B (dev s1) = ob_regs B (dev s) \<and> Lock s1 = Lock s"
proof -
  have w: "wait_bsy D t a (dev s) = Some (True, dev s)" for a using assms by (subst wait_bsy.simps) (simp add: ob_idle_def)
  have "(rd_SR D (dev s) AND NOT f) AND m = 0" if "rd_SR D (dev s) AND m = 0" for f m
  proof -
    have "(rd_SR D (dev s) AND NOT f) AND m = (rd_SR D (dev s) AND m) AND NOT f" by (simp add: ac_simps)
    with that show ?thesis by simp
  qed
  then have "ob_idle D (wr_SR D f (dev s))" for f using assms by (simp add: ob_idle_def clear_sr)
  with w assms show ?thesis
    by (auto simp: FLASH_WaitForLastOperation_def Let_def flag_set_def clear_flag_def ob_idle_def ob_regs_def frame)
qed

lemma after_wait:
  assumes "ob_writes D B w f" "ob_idle D (dev s)" "ob_open B (dev s)"
  shows "\<exists>s1. ob_after_wait D w s = Inr (HAL_OK, s1) \<and> ob_idle D (dev s1) \<and> ob_regs B (dev s1) = f (ob_regs B (dev s)) \<and> ob_open B (dev s1)
    \<and> Lock s1 = Lock s"
proof -
  obtain s1 where s1: "FLASH_WaitForLastOperation D FLASH_TIMEOUT_VALUE s = Inr (HAL_OK, s1)" "ob_idle D (dev s1)"
      "ob_regs B (dev s1) = ob_regs B (dev s)" "Lock s1 = Lock s"
    using idle_wait [OF assms(2)] by blast
  then have "ob_open B (dev s1)" using assms(3) by (simp add: ob_regs_def ob_open_def)
  with assms(1) s1(2) have "ob_regs B (w (dev s1)) = f (ob_regs B (dev s1))" "ob_idle D (w (dev s1))" "ob_open B (w (dev s1))"
    by (auto simp: ob_writes_def)
  with s1 show ?thesis by (simp add: ob_after_wait_def)
qed

lemma writes_optcr:
  assumes "\<And>r. r AND 3 = 0 \<Longrightarrow> g r AND 3 = 0"
  shows "ob_writes D B (\<lambda>d. wr_OPTCR B (g (rd_OPTCR B d)) d) (map_prod g id)"
  using assms and_three by (auto simp: ob_writes_def ob_open_def ob_regs_def ob_idle_def wr_optcr frame)

lemma writes_byte1: "ob_writes D B (wr_OPTCR_BYTE1 B b) (map_prod (\<lambda>r. (r AND NOT 0xFF00) OR push_bit 8 (ucast b)) id)"
proof -
  have "((r AND NOT 0xFF00) OR push_bit 8 (ucast b)) AND 3 = 0" if "r AND 3 = 0" for r :: u32
  proof -
    have m: "(3 :: u32) = mask 2" by (simp add: mask_eq_exp_minus_1)
    have "push_bit 8 (ucast b :: u32) AND 3 = 0" unfolding m by (rule bit_word_eqI) (auto simp: bit_simps)
    moreover have "(r AND NOT 0xFF00) AND 3 = (r AND 3) AND NOT 0xFF00" by (simp only: ac_simps)
    ultimately show ?thesis using that by (simp add: bit.conj_disj_distrib2)
  qed
  then show ?thesis using and_three(1) by (auto simp: ob_writes_def ob_open_def ob_regs_def ob_idle_def wr_byte1 frame)
qed

lemma writes_optcr1: "ob_writes D B (\<lambda>d. wr_OPTCR1 B (g (rd_OPTCR1 B d)) d) (map_prod id g)"
  using and_three(1) by (auto simp: ob_writes_def ob_open_def ob_regs_def ob_idle_def wr_optcr1 frame)

text \<open>An operation that leaves an open controller open and changes the registers by \<open>f\<close>.\<close>

lemma option_step:
  assumes op: "\<And>s. ob_idle D (dev s) \<Longrightarrow> ob_open B (dev s) \<Longrightarrow> \<exists>s1. h s = Inr (HAL_OK, s1) \<and> ob_idle D (dev s1)
      \<and> ob_regs B (dev s1) = f (ob_regs B (dev s)) \<and> ob_open B (dev s1) \<and> Lock s1 = Lock s"
    and "ob_idle D (dev s)" "ob_open B (dev s)"
  shows "\<exists>s1. ob_option t k h (st, s) = Inr (if t AND k = k then HAL_OK else st, s1) \<and> ob_idle D (dev s1) \<and> ob_open B (dev s1)
    \<and> ob_regs B (dev s1) = (if t AND k = k then f (ob_regs B (dev s)) else ob_regs B (dev s)) \<and> Lock s1 = Lock s"
  using op [OF assms(2,3)] assms(2,3) by (cases "t AND k = k") (auto simp: ob_option_def)

lemma wrp_step:
  assumes "ob_valid p" "ob_idle D (dev s)" "ob_open B (dev s)"
  shows "\<exists>s1. (if WRPState p = OB_WRPSTATE_ENABLE then FLASH_OB_EnableWRP D B (WRPSector p) else FLASH_OB_DisableWRP D B (WRPSector p)) s
      = Inr (HAL_OK, s1) \<and> ob_idle D (dev s1) \<and> ob_regs B (dev s1) = map_prod (set_wrp p) id (ob_regs B (dev s)) \<and> ob_open B (dev s1)
      \<and> Lock s1 = Lock s"
proof -
  have "WRP_MASK AND 3 = 0" by (simp add: WRP_MASK_def)
  then have "set_wrp p r AND 3 = r AND 3" for r using sectors_other [OF ob_valid_values(1) [OF assms(1)]] by (simp add: set_wrp_def)
  then have w: "ob_writes D B (\<lambda>d. wr_OPTCR B (set_wrp p (rd_OPTCR B d)) d) (map_prod (set_wrp p) id)" by (intro writes_optcr) simp
  have "(if WRPState p = OB_WRPSTATE_ENABLE then FLASH_OB_EnableWRP D B (WRPSector p) else FLASH_OB_DisableWRP D B (WRPSector p))
      = ob_after_wait D (\<lambda>d. wr_OPTCR B (set_wrp p (rd_OPTCR B d)) d)"
    by (simp add: FLASH_OB_EnableWRP_def FLASH_OB_DisableWRP_def set_wrp_def)
  then show ?thesis using after_wait [OF w assms(2,3)] by simp
qed

lemma rdp_step:
  assumes "ob_idle D (dev s)" "ob_open B (dev s)"
  shows "\<exists>s1. FLASH_OB_RDP_LevelConfig D B b s = Inr (HAL_OK, s1) \<and> ob_idle D (dev s1)
      \<and> ob_regs B (dev s1) = map_prod (modify_reg RDP_MASK (push_bit 8 (ucast b))) id (ob_regs B (dev s)) \<and> ob_open B (dev s1) \<and> Lock s1 = Lock s"
proof -
  have "(\<lambda>r. (r AND NOT 0xFF00) OR push_bit 8 (ucast b)) = modify_reg RDP_MASK (push_bit 8 (ucast b))"
    by (rule ext) (simp add: modify_reg_def RDP_MASK_def)
  then show ?thesis using after_wait [OF writes_byte1 assms, of b] by (simp add: FLASH_OB_RDP_LevelConfig_def)
qed

lemma modify_step:
  assumes "v AND m = v" "m AND 3 = 0" "ob_idle D (dev s)" "ob_open B (dev s)"
  shows "\<exists>s1. ob_after_wait D (\<lambda>d. wr_OPTCR B (modify_reg m v (rd_OPTCR B d)) d) s = Inr (HAL_OK, s1) \<and> ob_idle D (dev s1)
      \<and> ob_regs B (dev s1) = map_prod (modify_reg m v) id (ob_regs B (dev s)) \<and> ob_open B (dev s1) \<and> Lock s1 = Lock s"
  by (intro after_wait writes_optcr assms(3,4)) (simp add: put_other [OF assms(1,2)])

lemma user_step:
  assumes "ob_idle D (dev s)" "ob_open B (dev s)"
  shows "\<exists>s1. FLASH_OB_UserConfig D B (u AND 0x10) (u AND 0x20) (u AND 0x40) (u AND 0x80)
            (u AND 0x80000000) (u AND 0x40000000) (u AND 0x20000000) (u AND 0x10000000) s = Inr (HAL_OK, s1) \<and> ob_idle D (dev s1)
      \<and> ob_regs B (dev s1) = map_prod (modify_reg USER_MASK (u AND USER_MASK)) id (ob_regs B (dev s)) \<and> ob_open B (dev s1) \<and> Lock s1 = Lock s"
proof -
  have v: "(u AND 0x20) OR (u AND 0x10) OR (u AND 0x40) OR (u AND 0x80) OR (u AND 0x80000000) OR (u AND 0x40000000) OR (u AND 0x10000000)
      OR (u AND 0x20000000) = u AND USER_MASK"
    by (simp add: USER_MASK_def flip: bit.conj_disj_distrib)
  have "FLASH_OB_UserConfig D B (u AND 0x10) (u AND 0x20) (u AND 0x40) (u AND 0x80)
            (u AND 0x80000000) (u AND 0x40000000) (u AND 0x20000000) (u AND 0x10000000)
      = ob_after_wait D (\<lambda>d. wr_OPTCR B (modify_reg USER_MASK (u AND USER_MASK) (rd_OPTCR B d)) d)"
    unfolding FLASH_OB_UserConfig_def Let_def v by (simp add: modify_reg_def USER_MASK_def)
  then show ?thesis using modify_step [OF _ _ assms, of "u AND USER_MASK" USER_MASK] by (simp add: and.assoc USER_MASK_def)
qed

lemma bor_step:
  assumes "ob_valid p" "ob_idle D (dev s)" "ob_open B (dev s)"
  shows "\<exists>s1. FLASH_OB_BOR_LevelConfig B (ucast (BORLevel p)) s = Inr (HAL_OK, s1) \<and> ob_idle D (dev s1)
      \<and> ob_regs B (dev s1) = map_prod (modify_reg BOR_MASK (ucast (ucast (BORLevel p) :: u8))) id (ob_regs B (dev s)) \<and> ob_open B (dev s1)
      \<and> Lock s1 = Lock s"
proof -
  let ?v = "ucast (ucast (BORLevel p) :: u8) :: u32"
  have "BOR_MASK AND 3 = 0" by (simp add: BOR_MASK_def)
  then have "ob_writes D B (\<lambda>d. wr_OPTCR B (modify_reg BOR_MASK ?v (rd_OPTCR B d)) d) (map_prod (modify_reg BOR_MASK ?v) id)"
    by (intro writes_optcr) (simp add: put_other [OF ob_valid_values(4) [OF assms(1)]])
  with assms(2,3) show ?thesis
    by (simp add: FLASH_OB_BOR_LevelConfig_def ob_writes_def modify_reg_def BOR_MASK_def FLASH_OPTCR_BOR_LEV_def)
qed

lemma boot_step:
  assumes "ob_idle D (dev s)" "ob_open B (dev s)"
  shows "\<exists>s1. FLASH_OB_BootAddressConfig D B OPTIONBYTE_BOOTADDR_0 a s = Inr (HAL_OK, s1) \<and> ob_idle D (dev s1)
      \<and> ob_regs B (dev s1) = map_prod id (modify_reg ADD0_MASK a) (ob_regs B (dev s)) \<and> ob_open B (dev s1) \<and> Lock s1 = Lock s"
    "\<exists>s1. FLASH_OB_BootAddressConfig D B OPTIONBYTE_BOOTADDR_1 a s = Inr (HAL_OK, s1) \<and> ob_idle D (dev s1)
      \<and> ob_regs B (dev s1) = map_prod id (modify_reg ADD1_MASK (push_bit 16 a)) (ob_regs B (dev s)) \<and> ob_open B (dev s1) \<and> Lock s1 = Lock s"
  using after_wait [OF writes_optcr1 assms, of "modify_reg ADD0_MASK a"] after_wait [OF writes_optcr1 assms, of "modify_reg ADD1_MASK (push_bit 16 a)"]
  by (simp_all add: FLASH_OB_BootAddressConfig_def modify_reg_def ob_masks OPTIONBYTE_BOOTADDR_0_def OPTIONBYTE_BOOTADDR_1_def)

text \<open>The whole operation.\<close>

lemma program:
  assumes "ob_valid p" "ob_idle D (dev s)" "ob_open B (dev s)" "\<not> Lock s"
  shows "\<exists>s'. HAL_FLASHEx_OBProgram D B p s = Inr (if \<exists>t \<in> {1, 2, 4, 8, 0x10, 0x20}. selects p t then HAL_OK else HAL_ERROR, s')
    \<and> ob_regs B (dev s') = map_prod (optcr_of p) (optcr1_of p) (ob_regs B (dev s)) \<and> ob_idle D (dev s') \<and> ob_open B (dev s') \<and> \<not> Lock s'"
proof -
  let ?t = "OptionType p" and ?u = "USERConfig p" and ?s = "s\<lparr>Lock := True\<rparr>"
  have i: "ob_idle D (dev ?s)" "ob_open B (dev ?s)" using assms by simp_all
  note st1 = option_step [OF wrp_step [OF assms(1)], of ?s ?t OPTIONBYTE_WRP HAL_ERROR]
  obtain r1 s1 where 1: "ob_option ?t OPTIONBYTE_WRP (if WRPState p = OB_WRPSTATE_ENABLE then FLASH_OB_EnableWRP D B (WRPSector p)
      else FLASH_OB_DisableWRP D B (WRPSector p)) (HAL_ERROR, ?s) = Inr (r1, s1)" "ob_idle D (dev s1)" "ob_open B (dev s1)"
      "r1 = (if selects p OPTIONBYTE_WRP then HAL_OK else HAL_ERROR)"
      "ob_regs B (dev s1) = (if selects p OPTIONBYTE_WRP then map_prod (set_wrp p) id (ob_regs B (dev s)) else ob_regs B (dev s))"
    using st1 [OF _ _ i] by (auto simp: selects_def)
  obtain r2 s2 where 2: "ob_option ?t OPTIONBYTE_RDP (FLASH_OB_RDP_LevelConfig D B (ucast (RDPLevel p))) (r1, s1) = Inr (r2, s2)"
      "ob_idle D (dev s2)" "ob_open B (dev s2)" "r2 = (if selects p OPTIONBYTE_RDP then HAL_OK else r1)"
      "ob_regs B (dev s2) = (if selects p OPTIONBYTE_RDP
         then map_prod (modify_reg RDP_MASK (push_bit 8 (ucast (ucast (RDPLevel p) :: u8)))) id (ob_regs B (dev s1)) else ob_regs B (dev s1))"
    using option_step [OF rdp_step [of _ "ucast (RDPLevel p)"] 1(2,3), of ?t OPTIONBYTE_RDP r1] by (auto simp: selects_def)
  obtain r3 s3 where 3: "ob_option ?t OPTIONBYTE_USER (FLASH_OB_UserConfig D B (?u AND 0x10) (?u AND 0x20) (?u AND 0x40) (?u AND 0x80)
            (?u AND 0x80000000) (?u AND 0x40000000) (?u AND 0x20000000) (?u AND 0x10000000)) (r2, s2) = Inr (r3, s3)"
      "ob_idle D (dev s3)" "ob_open B (dev s3)" "r3 = (if selects p OPTIONBYTE_USER then HAL_OK else r2)"
      "ob_regs B (dev s3) = (if selects p OPTIONBYTE_USER
         then map_prod (modify_reg USER_MASK (?u AND USER_MASK)) id (ob_regs B (dev s2)) else ob_regs B (dev s2))"
    using option_step [OF user_step [of _ ?u] 2(2,3), of ?t OPTIONBYTE_USER r2] by (auto simp: selects_def)
  obtain r4 s4 where 4: "ob_option ?t OPTIONBYTE_BOR (FLASH_OB_BOR_LevelConfig B (ucast (BORLevel p))) (r3, s3) = Inr (r4, s4)"
      "ob_idle D (dev s4)" "ob_open B (dev s4)" "r4 = (if selects p OPTIONBYTE_BOR then HAL_OK else r3)"
      "ob_regs B (dev s4) = (if selects p OPTIONBYTE_BOR
         then map_prod (modify_reg BOR_MASK (ucast (ucast (BORLevel p) :: u8))) id (ob_regs B (dev s3)) else ob_regs B (dev s3))"
    using option_step [OF bor_step [OF assms(1)] 3(2,3), of ?t OPTIONBYTE_BOR r3] by (auto simp: selects_def)
  obtain r5 s5 where 5: "ob_option ?t OPTIONBYTE_BOOTADDR_0 (FLASH_OB_BootAddressConfig D B OPTIONBYTE_BOOTADDR_0 (BootAddr0 p)) (r4, s4) = Inr (r5, s5)"
      "ob_idle D (dev s5)" "ob_open B (dev s5)" "r5 = (if selects p OPTIONBYTE_BOOTADDR_0 then HAL_OK else r4)"
      "ob_regs B (dev s5) = (if selects p OPTIONBYTE_BOOTADDR_0
         then map_prod id (modify_reg ADD0_MASK (BootAddr0 p)) (ob_regs B (dev s4)) else ob_regs B (dev s4))"
    using option_step [OF boot_step(1) [of _ "BootAddr0 p"] 4(2,3), of ?t OPTIONBYTE_BOOTADDR_0 r4] by (auto simp: selects_def)
  obtain r6 s6 where 6: "ob_option ?t OPTIONBYTE_BOOTADDR_1 (FLASH_OB_BootAddressConfig D B OPTIONBYTE_BOOTADDR_1 (BootAddr1 p)) (r5, s5) = Inr (r6, s6)"
      "ob_idle D (dev s6)" "ob_open B (dev s6)" "r6 = (if selects p OPTIONBYTE_BOOTADDR_1 then HAL_OK else r5)"
      "ob_regs B (dev s6) = (if selects p OPTIONBYTE_BOOTADDR_1
         then map_prod id (modify_reg ADD1_MASK (push_bit 16 (BootAddr1 p))) (ob_regs B (dev s5)) else ob_regs B (dev s5))"
    using option_step [OF boot_step(2) [of _ "BootAddr1 p"] 5(2,3), of ?t OPTIONBYTE_BOOTADDR_1 r5] by (auto simp: selects_def)
  have "HAL_FLASHEx_OBProgram D B p s = Inr (r6, s6\<lparr>Lock := False\<rparr>)"
    using assms(4) 1(1) 2(1) 3(1) 4(1) 5(1) 6(1) by (simp add: HAL_FLASHEx_OBProgram_def Let_def)
  moreover have "r6 = (if \<exists>t \<in> {1, 2, 4, 8, 0x10, 0x20}. selects p t then HAL_OK else HAL_ERROR)"
    using 1(4) 2(4) 3(4) 4(4) 5(4) 6(4) by (simp add: reg_consts)
  moreover have "ob_regs B (dev s6) = map_prod (optcr_of p) (optcr1_of p) (ob_regs B (dev s))"
    unfolding 6(5) 5(5) 4(5) 3(5) 2(5) 1(5) by (simp add: optcr_of_def optcr1_of_def Let_def ob_regs_def)
  ultimately show ?thesis using 6(2,3) by simp
qed

text \<open>While the registers are locked the functions report success and change nothing.\<close>

lemma wrp_locked:
  assumes "rd_OPTCR B (dev s) AND 1 \<noteq> 0" "ob_idle D (dev s)"
  shows "\<exists>s'. FLASH_OB_EnableWRP D B sectors s = Inr (HAL_OK, s') \<and> ob_regs B (dev s') = ob_regs B (dev s)"
proof -
  obtain s1 where s1: "FLASH_WaitForLastOperation D FLASH_TIMEOUT_VALUE s = Inr (HAL_OK, s1)" "ob_regs B (dev s1) = ob_regs B (dev s)"
    using idle_wait [OF assms(2)] by blast
  with assms(1) have "rd_OPTCR B (dev s1) AND 1 \<noteq> 0" by (simp add: ob_regs_def)
  with s1 locked(1) [of "dev s1"] show ?thesis by (simp add: FLASH_OB_EnableWRP_def ob_after_wait_def ob_regs_def frame)
qed

lemma unlock_lock:
  assumes "rd_OPTCR B (dev s) AND 1 \<noteq> 0" "rd_OPTCR B (dev s) AND 2 = 0" "ob_idle D (dev s)"
  shows "\<exists>s1 s2. HAL_FLASH_OB_Unlock B s = (HAL_OK, s1) \<and> ob_open B (dev s1) \<and> ob_idle D (dev s1)
    \<and> HAL_FLASH_OB_Lock B s1 = (HAL_OK, s2) \<and> rd_OPTCR B (dev s2) AND 1 \<noteq> 0 \<and> HAL_FLASH_OB_Unlock B s1 = (HAL_ERROR, s1)"
proof -
  let ?d = "wr_OPTKEYR B FLASH_OPT_KEY2 (wr_OPTKEYR B FLASH_OPT_KEY1 (dev s))" and ?r = "rd_OPTCR B (dev s)"
  have u: "rd_OPTCR B ?d = ?r AND NOT 1" by (rule unlocks [OF assms(1)])
  have z: "(?r AND NOT 1) AND 1 = 0" "(?r AND NOT 1) AND 2 = 0" using assms(2) by (simp_all add: and.assoc)
  have "(?r AND NOT 1) AND 3 = ((?r AND NOT 1) AND 1) OR ((?r AND NOT 1) AND 2)" by (simp flip: bit.conj_disj_distrib)
  then have o: "ob_open B ?d" using u z by (simp only: ob_open_def) simp
  have sr: "rd_SR D ?d = rd_SR D (dev s)" by (simp add: frame)
  have "rd_OPTCR B (wr_OPTCR B (rd_OPTCR B ?d OR 1) ?d) = rd_OPTCR B ?d OR 1"
    using assms(3) u z sr by (intro wr_optcr) (simp_all add: ob_idle_def bit.conj_disj_distrib2)
  then have "rd_OPTCR B (wr_OPTCR B (rd_OPTCR B ?d OR 1) ?d) AND 1 \<noteq> 0" by (simp add: bit.conj_disj_distrib2)
  with o sr assms(1,3) u z show ?thesis
    by (simp add: HAL_FLASH_OB_Unlock_def HAL_FLASH_OB_Lock_def FLASH_OPTCR_OPTLOCK_def ob_idle_def)
qed

end

section \<open>A controller\<close>

text \<open>An executable controller with the documented behaviour.\<close>

record ob_sim =
  b_sr :: u32
  b_optcr :: u32
  b_optcr1 :: u32
  b_key :: bool

definition ob_flash :: "ob_sim flash_dev" where
  "ob_flash = \<lparr>rd_CR = (\<lambda>_. 0), wr_CR = (\<lambda>_ d. d), rd_SR = b_sr, wr_SR = (\<lambda>f d. d\<lparr>b_sr := b_sr d AND NOT f\<rparr>), wr_KEYR = (\<lambda>_ d. d),
     st8 = (\<lambda>_ _ d. d), st16 = (\<lambda>_ _ d. d), st32 = (\<lambda>_ _ d. d), ld8 = (\<lambda>_ _. 0), ms = (\<lambda>_. 0), pass = (\<lambda>d. d)\<rparr>"

definition ob_write :: "(ob_sim \<Rightarrow> ob_sim) \<Rightarrow> ob_sim \<Rightarrow> ob_sim" where
  "ob_write f d = (if b_optcr d AND 1 = 0 \<and> b_sr d AND FLASH_FLAG_BSY = 0 then f d else d)"

definition ob_options :: "ob_sim ob_dev" where
  "ob_options = \<lparr>rd_OPTCR = b_optcr,
     wr_OPTCR = (\<lambda>v. ob_write (\<lambda>d. if v AND 2 = 0 then d\<lparr>b_optcr := v\<rparr> else d\<lparr>b_optcr := v AND NOT 2, b_sr := b_sr d OR 1\<rparr>)),
     wr_OPTCR_BYTE1 = (\<lambda>b. ob_write (\<lambda>d. d\<lparr>b_optcr := (b_optcr d AND NOT 0xFF00) OR push_bit 8 (ucast b)\<rparr>)),
     rd_OPTCR1 = b_optcr1, wr_OPTCR1 = (\<lambda>v. ob_write (\<lambda>d. d\<lparr>b_optcr1 := v\<rparr>)),
     wr_OPTKEYR = (\<lambda>k d. if b_key d \<and> k = FLASH_OPT_KEY2 then d\<lparr>b_optcr := b_optcr d AND NOT 1, b_key := False\<rparr>
       else d\<lparr>b_key := (k = FLASH_OPT_KEY1)\<rparr>)\<rparr>"

interpretation obsim: option_ctrl ob_flash ob_options
  by unfold_locales (auto simp: ob_flash_def ob_options_def ob_write_def FLASH_OPT_KEY1_def FLASH_OPT_KEY2_def)

section \<open>Properties\<close>

text \<open>What programming \<open>p\<close> makes of a configuration as \<^verbatim>\<open>HAL_FLASHEx_OBGetConfig\<close> reports it.\<close>

definition ob_updated :: "FLASH_OBProgramInitTypeDef \<Rightarrow> FLASH_OBProgramInitTypeDef \<Rightarrow> FLASH_OBProgramInitTypeDef" where
  "ob_updated p c = c\<lparr>
     WRPSector := (if selects p OPTIONBYTE_WRP then set_wrp p (WRPSector c) else WRPSector c),
     RDPLevel := (if selects p OPTIONBYTE_RDP then RDPLevel p else RDPLevel c),
     USERConfig := (if selects p OPTIONBYTE_USER then USERConfig p AND USER_MASK else USERConfig c),
     BORLevel := (if selects p OPTIONBYTE_BOR then BORLevel p else BORLevel c),
     BootAddr0 := (if selects p OPTIONBYTE_BOOTADDR_0 then BootAddr0 p else BootAddr0 c),
     BootAddr1 := (if selects p OPTIONBYTE_BOOTADDR_1 then BootAddr1 p else BootAddr1 c)\<rparr>"

lemma rdp_of_field: "ucast (drop_bit 8 r) = (ucast (drop_bit 8 (r AND RDP_MASK)) :: u8)"
proof -
  have m: "RDP_MASK = push_bit 8 (mask 8)" by (simp add: RDP_MASK_def mask_eq_exp_minus_1)
  show ?thesis unfolding m by (rule bit_word_eqI) (auto simp: bit_simps simp del: push_bit_mask_eq)
qed

lemma get_config_updated:
  assumes "ob_valid p" "ob_regs B d' = map_prod (optcr_of p) (optcr1_of p) (ob_regs B d)"
  shows "HAL_FLASHEx_OBGetConfig B d' q = ob_updated p (HAL_FLASHEx_OBGetConfig B d q)"
proof -
  have r: "rd_OPTCR B d' = optcr_of p (rd_OPTCR B d)" "rd_OPTCR1 B d' = optcr1_of p (rd_OPTCR1 B d)" using assms(2) by (simp_all add: ob_regs_def)
  note f = optcr_fields [OF assms(1), of "rd_OPTCR B d"] and f1 = optcr1_fields [OF assms(1), of "rd_OPTCR1 B d"]
  have b: "ucast (drop_bit 8 (push_bit 8 (ucast b :: u32))) = b" for b :: u8 by (rule bit_word_eqI) (auto simp: bit_simps)
  have "ucast (drop_bit 8 (rd_OPTCR B d')) = (if selects p OPTIONBYTE_RDP then ucast (RDPLevel p) else ucast (drop_bit 8 (rd_OPTCR B d)) :: u8)"
    using rdp_of_field [of "rd_OPTCR B d'"] rdp_of_field [of "rd_OPTCR B d"] by (simp add: r f(2) b del: drop_bit_and)
  then have "ucast (FLASH_OB_GetRDP B d') = (if selects p OPTIONBYTE_RDP then RDPLevel p else ucast (FLASH_OB_GetRDP B d))"
    using assms(1) by (auto simp: FLASH_OB_GetRDP_def Let_def ob_valid_def reg_consts)
  moreover have "drop_bit 16 (push_bit 16 (BootAddr1 p)) = BootAddr1 p"
  proof -
    have m: "(0xFFFF :: u32) = mask 16" by (simp add: mask_eq_exp_minus_1)
    have e: "BootAddr1 p AND mask 16 = BootAddr1 p" using assms(1) by (simp add: ob_valid_def m)
    have "drop_bit 16 (push_bit 16 (BootAddr1 p AND mask 16)) = BootAddr1 p AND mask 16"
      by (rule bit_word_eqI) (auto simp: bit_simps)
    then show ?thesis by (simp add: e)
  qed
  moreover have g: "FLASH_OB_GetWRP B x = rd_OPTCR B x AND WRP_MASK" "FLASH_OB_GetUser B x = rd_OPTCR B x AND USER_MASK"
      "FLASH_OB_GetBOR B x = rd_OPTCR B x AND BOR_MASK" "FLASH_OB_GetBootAddress B OPTIONBYTE_BOOTADDR_0 x = rd_OPTCR1 B x AND ADD0_MASK"
      "FLASH_OB_GetBootAddress B OPTIONBYTE_BOOTADDR_1 x = drop_bit 16 (rd_OPTCR1 B x AND ADD1_MASK)" for x
    by (simp_all add: FLASH_OB_GetWRP_def FLASH_OB_GetUser_def FLASH_OB_GetBOR_def FLASH_OB_GetBootAddress_def ob_masks
        OPTIONBYTE_BOOTADDR_0_def OPTIONBYTE_BOOTADDR_1_def)
  ultimately show ?thesis
    by (simp add: HAL_FLASHEx_OBGetConfig_def ob_updated_def r f f1 if_distrib [of "drop_bit 16"] del: drop_bit_and cong: if_cong split del: if_split)
qed

text \<open>
  Property C34: option bytes. With the option registers unlocked and the controller idle,
  \<^verbatim>\<open>HAL_FLASHEx_OBProgram\<close> of a valid request returns \<^verbatim>\<open>HAL_OK\<close>, or
  \<^verbatim>\<open>HAL_ERROR\<close> if the request selects nothing, and \<^verbatim>\<open>HAL_FLASHEx_OBGetConfig\<close>
  then reports the selected options as requested and every other option as before.
\<close>

theorem OBProgram_GetConfig:
  assumes "option_ctrl D B" and "ob_valid p" and "ob_idle D (dev s)" and "ob_open B (dev s)" and "\<not> Lock s"
  shows "\<exists>s'. HAL_FLASHEx_OBProgram D B p s = Inr (if \<exists>t \<in> {1, 2, 4, 8, 0x10, 0x20}. selects p t then HAL_OK else HAL_ERROR, s')
    \<and> HAL_FLASHEx_OBGetConfig B (dev s') q = ob_updated p (HAL_FLASHEx_OBGetConfig B (dev s) q) \<and> \<not> Lock s'"
proof -
  obtain s' where s': "HAL_FLASHEx_OBProgram D B p s = Inr (if \<exists>t \<in> {1, 2, 4, 8, 0x10, 0x20}. selects p t then HAL_OK else HAL_ERROR, s')"
      "ob_regs B (dev s') = map_prod (optcr_of p) (optcr1_of p) (ob_regs B (dev s))" "\<not> Lock s'"
    using option_ctrl.program [OF assms] by (elim exE conjE)
  show ?thesis using s'(1,3) get_config_updated [OF assms(2) s'(2)] by (intro exI [of _ s']) simp
qed

definition ob_state :: "ob_sim flash_state" where
  "ob_state = \<lparr>ProcedureOnGoing = FLASH_PROC_NONE, NbSectorsToErase = 0, VoltageForErase = 0, Sector = 0, Address = 0, Lock = False, ErrorCode = 0,
     callbacks = [], dev = \<lparr>b_sr = 0, b_optcr = 0xFFFFAAEC, b_optcr1 = 0x00400080, b_key = False\<rparr>\<rparr>"

definition ob_request :: FLASH_OBProgramInitTypeDef where
  "ob_request = \<lparr>OptionType = 0x21, WRPState = 1, WRPSector = 0x30000, RDPLevel = 0xAA, BORLevel = 0, USERConfig = 0, BootAddr0 = 0,
     BootAddr1 = 0x2000\<rparr>"

theorem OBProgram_GetConfig_witness:
  "\<exists>s'. HAL_FLASHEx_OBProgram ob_flash ob_options ob_request ob_state = Inr (HAL_OK, s')
    \<and> WRPSector (HAL_FLASHEx_OBGetConfig ob_options (dev s') ob_request) = 0x0FFC0000
    \<and> BootAddr1 (HAL_FLASHEx_OBGetConfig ob_options (dev s') ob_request) = 0x2000"
  using OBProgram_GetConfig [OF obsim.option_ctrl_axioms, of ob_request ob_state ob_request]
  by (auto simp: ob_request_def ob_state_def ob_valid_def ob_idle_def ob_open_def ob_flash_def ob_options_def WRP_MASK_def selects_def
      ob_updated_def set_wrp_def HAL_FLASHEx_OBGetConfig_def FLASH_OB_GetWRP_def reg_consts)

text \<open>
  The status of the last selected option is the status of the call: since the brown-out level is
  written without waiting, a request that ends with it reports success also when the write
  protection before it timed out or failed.
\<close>

lemma OBProgram_masks_error:
  assumes "HAL_FLASHEx_OBProgram D B p s = Inr (st, s')" "\<not> Lock s" "selects p OPTIONBYTE_BOR"
    "\<not> selects p OPTIONBYTE_BOOTADDR_0" "\<not> selects p OPTIONBYTE_BOOTADDR_1"
  shows "st = HAL_OK"
  using assms by (auto simp: HAL_FLASHEx_OBProgram_def Let_def res_bind_eq_Inr ob_option_def selects_def FLASH_OB_BOR_LevelConfig_def)

end
