(* ===== verification/Hal_Base.thy ===== *)
theory Hal_Base
  imports Hal_Cortex Hal_Flash
begin

text \<open>
  Model of \<^verbatim>\<open>src/src/stm32f7xx_hal.c\<close>: initialisation of the HAL, its time base and the
  control bits of debug and system configuration. \<^verbatim>\<open>HAL_GetTick\<close> and
  \<^verbatim>\<open>HAL_Delay\<close> are weak there and replaced in \<^verbatim>\<open>sys_arch.c\<close>.
\<close>

unbundle bit_operations_syntax

section \<open>State\<close>

record hal_state =
  core :: core_regs
  uwTick :: u32
  uwTickPrio :: u32
  uwTickFreq :: u32
  SystemCoreClock :: u32
  FLASH_ACR :: u32
  DBGMCU_CR :: u32
  SYSCFG_CMPCR :: u32
  SYSCFG_MEMRMP :: u32
  RCC_RSTR :: "(string \<times> u32) list"

definition HAL_TICK_FREQ_10HZ :: u32 where [reg_consts]: "HAL_TICK_FREQ_10HZ = 100"
definition HAL_TICK_FREQ_100HZ :: u32 where [reg_consts]: "HAL_TICK_FREQ_100HZ = 10"
definition HAL_TICK_FREQ_1KHZ :: u32 where [reg_consts]: "HAL_TICK_FREQ_1KHZ = 1"
definition TICK_INT_PRIORITY :: u32 where [reg_consts]: "TICK_INT_PRIORITY = 0xF"
definition NVIC_PRIORITYGROUP_4 :: u32 where [reg_consts]: "NVIC_PRIORITYGROUP_4 = 3"

section \<open>Time base\<close>

definition HAL_InitTick :: "u32 \<Rightarrow> hal_state \<Rightarrow> (HAL_Status \<times> hal_state) res" where
  "HAL_InitTick TickPriority s =
     res_bind (HAL_SYSTICK_Config (SystemCoreClock s div (1000 div uwTickFreq s)) (core s)) (\<lambda>(r, c).
     let s1 = s\<lparr>core := c\<rparr> in
     if r > 0 then Inr (HAL_ERROR, s1)
     else if TickPriority < push_bit NVIC_PRIO_BITS 1 then
       res_bind (HAL_NVIC_SetPriority SysTick_IRQn TickPriority 0 c) (\<lambda>c1.
       Inr (HAL_OK, s1\<lparr>core := c1, uwTickPrio := TickPriority\<rparr>))
     else Inr (HAL_ERROR, s1))"

definition HAL_IncTick :: "hal_state \<Rightarrow> hal_state" where
  "HAL_IncTick s = s\<lparr>uwTick := uwTick s + uwTickFreq s\<rparr>"

definition HAL_GetTickPrio :: "hal_state \<Rightarrow> u32" where
  "HAL_GetTickPrio s = uwTickPrio s"

definition HAL_GetTickFreq :: "hal_state \<Rightarrow> u32" where
  "HAL_GetTickFreq s = uwTickFreq s"

definition HAL_SetTickFreq :: "u32 \<Rightarrow> hal_state \<Rightarrow> (HAL_Status \<times> hal_state) res" where
  "HAL_SetTickFreq Freq s =
     (if uwTickFreq s \<noteq> Freq then
        res_bind (HAL_InitTick (uwTickPrio s) (s\<lparr>uwTickFreq := Freq\<rparr>)) (\<lambda>(status, s1).
        Inr (status, if status \<noteq> HAL_OK then s1\<lparr>uwTickFreq := uwTickFreq s\<rparr> else s1))
      else Inr (HAL_OK, s))"

definition HAL_SuspendTick :: "hal_state \<Rightarrow> hal_state" where
  "HAL_SuspendTick s = s\<lparr>core := (core s)\<lparr>SysTick_CTRL := SysTick_CTRL (core s) AND NOT 2\<rparr>\<rparr>"

definition HAL_ResumeTick :: "hal_state \<Rightarrow> hal_state" where
  "HAL_ResumeTick s = s\<lparr>core := (core s)\<lparr>SysTick_CTRL := SysTick_CTRL (core s) OR 2\<rparr>\<rparr>"

section \<open>Initialisation\<close>

text \<open>The low level hooks \<^verbatim>\<open>HAL_MspInit\<close> and \<^verbatim>\<open>HAL_MspDeInit\<close> are empty in this program.\<close>

definition HAL_Init :: "hal_state \<Rightarrow> (HAL_Status \<times> hal_state) res" where
  "HAL_Init s =
     (let s1 = s\<lparr>FLASH_ACR := FLASH_ACR s OR 0x200 OR 0x100\<rparr>;
          s2 = s1\<lparr>core := HAL_NVIC_SetPriorityGrouping NVIC_PRIORITYGROUP_4 (core s1)\<rparr>
      in res_bind (HAL_InitTick TICK_INT_PRIORITY s2) (\<lambda>(_, s3). Inr (HAL_OK, s3)))"

definition HAL_DeInit :: "hal_state \<Rightarrow> HAL_Status \<times> hal_state" where
  "HAL_DeInit s = (HAL_OK, s\<lparr>RCC_RSTR := RCC_RSTR s @
     concat (map (\<lambda>b. [(b, 0xFFFFFFFF), (b, 0)]) [''APB1'', ''APB2'', ''AHB1'', ''AHB2'', ''AHB3''])\<rparr>)"

section \<open>Control bits\<close>

definition HAL_GetREVID :: "u32 \<Rightarrow> u32" where
  "HAL_GetREVID IDCODE = drop_bit 16 IDCODE"

definition HAL_GetDEVID :: "u32 \<Rightarrow> u32" where
  "HAL_GetDEVID IDCODE = IDCODE AND 0xFFF"

definition HAL_DBGMCU_EnableDBGSleepMode :: "hal_state \<Rightarrow> hal_state" where
  "HAL_DBGMCU_EnableDBGSleepMode s = s\<lparr>DBGMCU_CR := DBGMCU_CR s OR 1\<rparr>"

definition HAL_DBGMCU_DisableDBGSleepMode :: "hal_state \<Rightarrow> hal_state" where
  "HAL_DBGMCU_DisableDBGSleepMode s = s\<lparr>DBGMCU_CR := DBGMCU_CR s AND NOT 1\<rparr>"

definition HAL_DBGMCU_EnableDBGStopMode :: "hal_state \<Rightarrow> hal_state" where
  "HAL_DBGMCU_EnableDBGStopMode s = s\<lparr>DBGMCU_CR := DBGMCU_CR s OR 2\<rparr>"

definition HAL_DBGMCU_DisableDBGStopMode :: "hal_state \<Rightarrow> hal_state" where
  "HAL_DBGMCU_DisableDBGStopMode s = s\<lparr>DBGMCU_CR := DBGMCU_CR s AND NOT 2\<rparr>"

definition HAL_DBGMCU_EnableDBGStandbyMode :: "hal_state \<Rightarrow> hal_state" where
  "HAL_DBGMCU_EnableDBGStandbyMode s = s\<lparr>DBGMCU_CR := DBGMCU_CR s OR 4\<rparr>"

definition HAL_DBGMCU_DisableDBGStandbyMode :: "hal_state \<Rightarrow> hal_state" where
  "HAL_DBGMCU_DisableDBGStandbyMode s = s\<lparr>DBGMCU_CR := DBGMCU_CR s AND NOT 4\<rparr>"

definition HAL_EnableCompensationCell :: "hal_state \<Rightarrow> hal_state" where
  "HAL_EnableCompensationCell s = s\<lparr>SYSCFG_CMPCR := SYSCFG_CMPCR s OR 1\<rparr>"

definition HAL_DisableCompensationCell :: "hal_state \<Rightarrow> hal_state" where
  "HAL_DisableCompensationCell s = s\<lparr>SYSCFG_CMPCR := SYSCFG_CMPCR s AND NOT 1\<rparr>"

definition HAL_EnableFMCMemorySwapping :: "hal_state \<Rightarrow> hal_state" where
  "HAL_EnableFMCMemorySwapping s = s\<lparr>SYSCFG_MEMRMP := SYSCFG_MEMRMP s OR 0x400\<rparr>"

definition HAL_DisableFMCMemorySwapping :: "hal_state \<Rightarrow> hal_state" where
  "HAL_DisableFMCMemorySwapping s = s\<lparr>SYSCFG_MEMRMP := SYSCFG_MEMRMP s AND NOT 0xC00\<rparr>"

definition HAL_EnableMemorySwappingBank :: "hal_state \<Rightarrow> hal_state" where
  "HAL_EnableMemorySwappingBank s = s\<lparr>SYSCFG_MEMRMP := SYSCFG_MEMRMP s OR 0x100\<rparr>"

definition HAL_DisableMemorySwappingBank :: "hal_state \<Rightarrow> hal_state" where
  "HAL_DisableMemorySwappingBank s = s\<lparr>SYSCFG_MEMRMP := SYSCFG_MEMRMP s AND NOT 0x100\<rparr>"

section \<open>The time base\<close>

text \<open>The number of core clock cycles between two ticks that a tick step of \<open>f\<close> milliseconds
  asks for, and whether the 24 bit counter can hold it.\<close>

definition tick_cycles :: "u32 \<Rightarrow> u32 \<Rightarrow> u32" where
  "tick_cycles clk f = clk div (1000 div f)"

definition tick_fits :: "u32 \<Rightarrow> u32 \<Rightarrow> bool" where
  "tick_fits clk f \<longleftrightarrow> tick_cycles clk f - 1 \<le> SysTick_LOAD_RELOAD_Msk"

text \<open>The timer runs with its interrupt and its period is the one the tick step asks for.\<close>

definition tick_wf :: "hal_state \<Rightarrow> bool" where
  "tick_wf s \<longleftrightarrow> core_wf (core s) \<and> SysTick_CTRL (core s) = 7
     \<and> SysTick_LOAD (core s) = tick_cycles (SystemCoreClock s) (uwTickFreq s) - 1"

lemma HAL_InitTick_too_long:
  "\<not> tick_fits (SystemCoreClock s) (uwTickFreq s) \<Longrightarrow> HAL_InitTick p s = Inr (HAL_ERROR, s)"
  by (simp add: HAL_InitTick_def HAL_SYSTICK_Config_def SysTick_Config_def tick_fits_def tick_cycles_def not_le)

lemma HAL_InitTick_fits:
  assumes "core_wf (core s)" "tick_fits (SystemCoreClock s) (uwTickFreq s)"
  shows "\<exists>s'. HAL_InitTick p s = Inr (if p < 16 then HAL_OK else HAL_ERROR, s') \<and> tick_wf s'
    \<and> uwTickFreq s' = uwTickFreq s \<and> SystemCoreClock s' = SystemCoreClock s \<and> uwTickPrio s' = (if p < 16 then p else uwTickPrio s)
    \<and> AIRCR (core s') = AIRCR (core s)
    \<and> (p < 16 \<longrightarrow> NVIC_GetPriority SysTick_IRQn (core s') = Inr (NVIC_EncodePriority (NVIC_GetPriorityGrouping (core s)) p 0))"
proof -
  let ?t = "tick_cycles (SystemCoreClock s) (uwTickFreq s)"
  from assms obtain c where c: "SysTick_Config ?t (core s) = Inr (0, c)" "core_wf c" "SysTick_LOAD c = ?t - 1" "SysTick_CTRL c = 7"
      "AIRCR c = AIRCR (core s)"
    using SysTick_Config_ok [of "core s" ?t] by (auto simp: tick_fits_def reg_consts)
  have g: "NVIC_GetPriorityGrouping c = NVIC_GetPriorityGrouping (core s)" using c by (simp add: NVIC_GetPriorityGrouping_def)
  obtain d where d: "HAL_NVIC_SetPriority SysTick_IRQn p 0 c = Inr d" "core_wf d" "AIRCR d = AIRCR c"
      "NVIC_GetPriority SysTick_IRQn d = Inr (NVIC_EncodePriority (NVIC_GetPriorityGrouping c) p 0)"
    using set_get_priority [OF c(2), of "SysTick_IRQn" p 0] by (auto simp: reg_consts)
  have "SysTick_LOAD d = SysTick_LOAD c \<and> SysTick_CTRL d = SysTick_CTRL c"
    using d(1) by (auto simp: HAL_NVIC_SetPriority_def NVIC_SetPriority_def wr_def reg_consts split: if_splits)
  then show ?thesis
    using c d g by (auto simp: HAL_InitTick_def HAL_SYSTICK_Config_def tick_cycles_def tick_wf_def reg_consts)
qed

text \<open>Each function of the time base on every branch.\<close>

lemma HAL_SetTickFreq_cases:
  assumes "core_wf (core s)"
  shows "(uwTickFreq s = f \<longrightarrow> HAL_SetTickFreq f s = Inr (HAL_OK, s))
    \<and> (uwTickFreq s \<noteq> f \<longrightarrow> \<not> tick_fits (SystemCoreClock s) f \<longrightarrow> HAL_SetTickFreq f s = Inr (HAL_ERROR, s))
    \<and> (uwTickFreq s \<noteq> f \<longrightarrow> tick_fits (SystemCoreClock s) f \<longrightarrow> uwTickPrio s < 16 \<longrightarrow>
         (\<exists>s'. HAL_SetTickFreq f s = Inr (HAL_OK, s') \<and> tick_wf s' \<and> uwTickFreq s' = f \<and> uwTickPrio s' = uwTickPrio s))
    \<and> (uwTickFreq s \<noteq> f \<longrightarrow> tick_fits (SystemCoreClock s) f \<longrightarrow> \<not> uwTickPrio s < 16 \<longrightarrow>
         (\<exists>s'. HAL_SetTickFreq f s = Inr (HAL_ERROR, s') \<and> uwTickFreq s' = uwTickFreq s
            \<and> SysTick_LOAD (core s') = tick_cycles (SystemCoreClock s) f - 1))"
proof -
  let ?s = "s\<lparr>uwTickFreq := f\<rparr>"
  have "uwTickFreq s \<noteq> f \<Longrightarrow> \<not> tick_fits (SystemCoreClock s) f \<Longrightarrow> HAL_SetTickFreq f s = Inr (HAL_ERROR, s)"
    using HAL_InitTick_too_long [of ?s "uwTickPrio s"] by (simp add: HAL_SetTickFreq_def)
  moreover have "tick_fits (SystemCoreClock s) f \<Longrightarrow> uwTickFreq s \<noteq> f \<Longrightarrow> (\<exists>s'. HAL_SetTickFreq f s
        = Inr (if uwTickPrio s < 16 then (HAL_OK, s') else (HAL_ERROR, s'\<lparr>uwTickFreq := uwTickFreq s\<rparr>))
      \<and> tick_wf s' \<and> uwTickFreq s' = f \<and> SystemCoreClock s' = SystemCoreClock s \<and> uwTickPrio s' = uwTickPrio s)"
    using HAL_InitTick_fits [of ?s "uwTickPrio s"] assms by (auto simp: HAL_SetTickFreq_def split: if_splits)
  ultimately show ?thesis by (auto simp: HAL_SetTickFreq_def tick_wf_def)
qed

lemma HAL_Init_time_base:
  assumes "core_wf (core s)" "tick_fits (SystemCoreClock s) (uwTickFreq s)"
  shows "\<exists>s'. HAL_Init s = Inr (HAL_OK, s') \<and> tick_wf s' \<and> uwTickPrio s' = TICK_INT_PRIORITY
    \<and> HAL_NVIC_GetPriority SysTick_IRQn NVIC_PRIORITYGROUP_4 (core s') = Inr (TICK_INT_PRIORITY, 0)"
proof -
  let ?s = "s\<lparr>FLASH_ACR := FLASH_ACR s OR 0x200 OR 0x100, core := NVIC_SetPriorityGrouping NVIC_PRIORITYGROUP_4 (core s)\<rparr>"
  have "core_wf (core ?s)"
    using assms(1) by (simp add: NVIC_SetPriorityGrouping_def wr_AIRCR_def core_wf_def Let_def)
  then obtain s' where "HAL_InitTick 0xF ?s = Inr (HAL_OK, s')" "tick_wf s'" "uwTickPrio s' = 0xF"
      "NVIC_GetPriority SysTick_IRQn (core s') = Inr (NVIC_EncodePriority 3 0xF 0)"
    using HAL_InitTick_fits [of ?s "0xF"] assms(2) set_grouping [of NVIC_PRIORITYGROUP_4 "core s"] by (auto simp: reg_consts)
  then show ?thesis
    by (simp add: HAL_Init_def HAL_NVIC_SetPriorityGrouping_def Let_def TICK_INT_PRIORITY_def HAL_NVIC_GetPriority_def
        decode_encode preempt_bits_def sub_bits_def low_mask_def NVIC_PRIO_BITS_def NVIC_PRIORITYGROUP_4_def)
qed

text \<open>Suspending only stops the interrupt; resuming brings a running time base back.\<close>

lemma suspend_resume: "tick_wf s \<Longrightarrow> HAL_ResumeTick (HAL_SuspendTick s) = s"
  by (simp add: HAL_ResumeTick_def HAL_SuspendTick_def tick_wf_def)

lemma HAL_IncTick_steps: "uwTick ((HAL_IncTick ^^ n) s) = uwTick s + of_nat n * uwTickFreq s
    \<and> uwTickFreq ((HAL_IncTick ^^ n) s) = uwTickFreq s"
  by (induction n) (simp_all add: HAL_IncTick_def algebra_simps)

section \<open>Properties\<close>

text \<open>
  The time base. \<^verbatim>\<open>HAL_Init\<close> returns \<^verbatim>\<open>HAL_OK\<close> with the timer
  running at the period of the tick step and at the lowest priority, and a later
  \<^verbatim>\<open>HAL_SetTickFreq\<close> keeps period and tick step in agreement whether it succeeds or
  reports an error: it succeeds exactly when the period of the new step fits the 24 bit counter or
  the step is the one in force.
\<close>

lemma HAL_time_base:
  assumes "core_wf (core s)" and "tick_fits (SystemCoreClock s) (uwTickFreq s)"
  shows "\<exists>s1 st s2. HAL_Init s = Inr (HAL_OK, s1) \<and> tick_wf s1
    \<and> HAL_NVIC_GetPriority SysTick_IRQn NVIC_PRIORITYGROUP_4 (core s1) = Inr (TICK_INT_PRIORITY, 0)
    \<and> HAL_SetTickFreq f s1 = Inr (st, s2) \<and> tick_wf s2
    \<and> st = (if f = uwTickFreq s1 \<or> tick_fits (SystemCoreClock s1) f then HAL_OK else HAL_ERROR)
    \<and> uwTickFreq s2 = (if st = HAL_OK then f else uwTickFreq s1)"
proof -
  from HAL_Init_time_base [OF assms] obtain s1 where s1: "HAL_Init s = Inr (HAL_OK, s1)" "tick_wf s1"
      "uwTickPrio s1 = TICK_INT_PRIORITY"
      "HAL_NVIC_GetPriority SysTick_IRQn NVIC_PRIORITYGROUP_4 (core s1) = Inr (TICK_INT_PRIORITY, 0)"
    by blast
  moreover from s1 have "core_wf (core s1)" by (simp add: tick_wf_def)
  ultimately show ?thesis
    using HAL_SetTickFreq_cases [of s1 f] by (cases "uwTickFreq s1 = f"; cases "tick_fits (SystemCoreClock s1) f")
      (auto simp: TICK_INT_PRIORITY_def)
qed

definition hal_reset :: hal_state where
  "hal_reset = \<lparr>core = core_reset, uwTick = 0, uwTickPrio = 16, uwTickFreq = 1, SystemCoreClock = 200000000, FLASH_ACR = 0,
     DBGMCU_CR = 0, SYSCFG_CMPCR = 0, SYSCFG_MEMRMP = 0, RCC_RSTR = []\<rparr>"

text \<open>
  The error path of \<^verbatim>\<open>HAL_SetTickFreq\<close>. Before the tick priority has been set
  the call reports an error and takes the tick step back, but the timer already runs with the new
  period: ticks and step disagree.
\<close>

lemma HAL_SetTickFreq_early:
  assumes "tick_wf s" and "uwTickPrio s \<ge> 16" and "tick_fits (SystemCoreClock s) f"
    and "tick_cycles (SystemCoreClock s) f \<noteq> tick_cycles (SystemCoreClock s) (uwTickFreq s)"
  shows "\<exists>s'. HAL_SetTickFreq f s = Inr (HAL_ERROR, s') \<and> uwTickFreq s' = uwTickFreq s
    \<and> SysTick_LOAD (core s') \<noteq> SysTick_LOAD (core s)
    \<and> SysTick_LOAD (core s') = tick_cycles (SystemCoreClock s) f - 1"
  using HAL_SetTickFreq_cases [of s f] assms by (auto simp: tick_wf_def not_less)

end
