(* ===== verification/Hal_Rcc.thy ===== *)
theory Hal_Rcc
  imports Hal_Base Hal_Gpio
begin

text \<open>
  Model of \<^verbatim>\<open>src/src/stm32f7xx_hal_rcc.c\<close> and of the clock computation in
  \<^verbatim>\<open>src/src/system_router_pro_fd.c\<close>: oscillators, PLL, bus dividers and the frequencies
  the program reads from them. The registers keep what is written; ready flags and the status of the
  clock switch are hardware, they change when a wait for them ends. What each wait polls, the flag
  and the clock, comes from the environment in order.
\<close>

unbundle bit_operations_syntax

section \<open>State\<close>

record rcc_state =
  rcc_CR :: u32
  rcc_PLLCFGR :: u32
  rcc_CFGR :: u32
  rcc_CIR :: u32
  rcc_BDCR :: u32
  rcc_CSR :: u32
  rcc_PLLI2SCFGR :: u32
  rcc_PLLSAICFGR :: u32
  rcc_APB1ENR :: u32
  rcc_AHB1ENR :: u32
  PWR_CR1 :: u32
  hal :: hal_state
  rcc_gpio :: gpio_hw
  waits :: "(u32 \<times> (bool \<times> u32) list) list"
  css_callbacks :: nat

record RCC_PLLInitTypeDef =
  PLLState :: u32
  PLLSource :: u32
  PLLM :: u32
  PLLN :: u32
  PLLP :: u32
  PLLQ :: u32
  PLLR :: u32

record RCC_OscInitTypeDef =
  OscillatorType :: u32
  HSEState :: u32
  LSEState :: u32
  HSIState :: u32
  HSICalibrationValue :: u32
  LSIState :: u32
  PLL :: RCC_PLLInitTypeDef

record RCC_ClkInitTypeDef =
  ClockType :: u32
  SYSCLKSource :: u32
  AHBCLKDivider :: u32
  APB1CLKDivider :: u32
  APB2CLKDivider :: u32

definition HSI_VALUE :: u32 where [reg_consts]: "HSI_VALUE = 16000000"
definition HSE_VALUE :: u32 where [reg_consts]: "HSE_VALUE = 25000000"
definition RCC_CR_HSION :: u32 where [reg_consts]: "RCC_CR_HSION = 0x1"
definition RCC_CR_HSIRDY :: u32 where [reg_consts]: "RCC_CR_HSIRDY = 0x2"
definition RCC_CR_HSITRIM :: u32 where [reg_consts]: "RCC_CR_HSITRIM = 0xF8"
definition RCC_CR_HSEON :: u32 where [reg_consts]: "RCC_CR_HSEON = 0x10000"
definition RCC_CR_HSERDY :: u32 where [reg_consts]: "RCC_CR_HSERDY = 0x20000"
definition RCC_CR_HSEBYP :: u32 where [reg_consts]: "RCC_CR_HSEBYP = 0x40000"
definition RCC_CR_CSSON :: u32 where [reg_consts]: "RCC_CR_CSSON = 0x80000"
definition RCC_CR_PLLON :: u32 where [reg_consts]: "RCC_CR_PLLON = 0x1000000"
definition RCC_CR_PLLRDY :: u32 where [reg_consts]: "RCC_CR_PLLRDY = 0x2000000"
definition RCC_CR_PLLI2SON :: u32 where [reg_consts]: "RCC_CR_PLLI2SON = 0x4000000"
definition RCC_CR_PLLI2SRDY :: u32 where [reg_consts]: "RCC_CR_PLLI2SRDY = 0x8000000"
definition RCC_CR_PLLSAION :: u32 where [reg_consts]: "RCC_CR_PLLSAION = 0x10000000"
definition RCC_CR_PLLSAIRDY :: u32 where [reg_consts]: "RCC_CR_PLLSAIRDY = 0x20000000"
definition RCC_PLLCFGR_PLLM :: u32 where [reg_consts]: "RCC_PLLCFGR_PLLM = 0x3F"
definition RCC_PLLCFGR_PLLN :: u32 where [reg_consts]: "RCC_PLLCFGR_PLLN = 0x7FC0"
definition RCC_PLLCFGR_PLLP :: u32 where [reg_consts]: "RCC_PLLCFGR_PLLP = 0x30000"
definition RCC_PLLCFGR_PLLSRC :: u32 where [reg_consts]: "RCC_PLLCFGR_PLLSRC = 0x400000"
definition RCC_PLLCFGR_PLLQ :: u32 where [reg_consts]: "RCC_PLLCFGR_PLLQ = 0xF000000"
definition RCC_PLLCFGR_PLLR :: u32 where [reg_consts]: "RCC_PLLCFGR_PLLR = 0x70000000"
definition RCC_CFGR_SW :: u32 where [reg_consts]: "RCC_CFGR_SW = 0x3"
definition RCC_CFGR_SWS :: u32 where [reg_consts]: "RCC_CFGR_SWS = 0xC"
definition RCC_CFGR_HPRE :: u32 where [reg_consts]: "RCC_CFGR_HPRE = 0xF0"
definition RCC_CFGR_PPRE1 :: u32 where [reg_consts]: "RCC_CFGR_PPRE1 = 0x1C00"
definition RCC_CFGR_PPRE2 :: u32 where [reg_consts]: "RCC_CFGR_PPRE2 = 0xE000"
definition RCC_HCLK_DIV16 :: u32 where [reg_consts]: "RCC_HCLK_DIV16 = 0x1C00"
definition FLASH_ACR_LATENCY :: u32 where [reg_consts]: "FLASH_ACR_LATENCY = 0xF"
definition RCC_PLL_NONE :: u32 where [reg_consts]: "RCC_PLL_NONE = 0"
definition RCC_PLL_OFF :: u32 where [reg_consts]: "RCC_PLL_OFF = 1"
definition RCC_PLL_ON :: u32 where [reg_consts]: "RCC_PLL_ON = 2"
definition RCC_HSE_BYPASS :: u32 where [reg_consts]: "RCC_HSE_BYPASS = 0x50000"
definition RCC_LSE_ON :: u32 where [reg_consts]: "RCC_LSE_ON = 1"
definition RCC_LSE_BYPASS :: u32 where [reg_consts]: "RCC_LSE_BYPASS = 5"

definition AHBPrescTable :: "nat list" where
  "AHBPrescTable = [0, 0, 0, 0, 0, 0, 0, 0, 1, 2, 3, 4, 6, 7, 8, 9]"

definition APBPrescTable :: "nat list" where
  "APBPrescTable = [0, 0, 0, 0, 1, 2, 3, 4]"

section \<open>Waiting\<close>

fun rcc_poll :: "u32 \<Rightarrow> u32 \<Rightarrow> (bool \<times> u32) list \<Rightarrow> bool res" where
  "rcc_poll limit tickstart [] = Inl Hang"
| "rcc_poll limit tickstart ((reached, now) # polls) =
     (if reached then Inr True else if now - tickstart > limit then Inr False else rcc_poll limit tickstart polls)"

text \<open>Wait for a flag; \<open>upd\<close> is what the hardware has done to the registers when it is reached. On a
  timeout the function returns at once.\<close>

definition rcc_wait :: "u32 \<Rightarrow> (rcc_state \<Rightarrow> rcc_state) \<Rightarrow> (rcc_state \<Rightarrow> (HAL_Status \<times> rcc_state) res) \<Rightarrow> rcc_state
    \<Rightarrow> (HAL_Status \<times> rcc_state) res" where
  "rcc_wait limit upd cont s =
     (case waits s of [] \<Rightarrow> Inl Hang
      | (tickstart, polls) # ws \<Rightarrow>
        res_bind (rcc_poll limit tickstart polls) (\<lambda>ok.
        let s1 = s\<lparr>waits := ws\<rparr> in if ok then cont (upd s1) else Inr (HAL_TIMEOUT, s1)))"

definition cr_set :: "u32 \<Rightarrow> rcc_state \<Rightarrow> rcc_state" where
  "cr_set m s = s\<lparr>rcc_CR := rcc_CR s OR m\<rparr>"

definition cr_clear :: "u32 \<Rightarrow> rcc_state \<Rightarrow> rcc_state" where
  "cr_clear m s = s\<lparr>rcc_CR := rcc_CR s AND NOT m\<rparr>"

definition cfgr_modify :: "u32 \<Rightarrow> u32 \<Rightarrow> rcc_state \<Rightarrow> rcc_state" where
  "cfgr_modify m v s = s\<lparr>rcc_CFGR := modify_reg m v (rcc_CFGR s)\<rparr>"

definition SYSCLK_SOURCE :: "rcc_state \<Rightarrow> u32" where
  "SYSCLK_SOURCE s = rcc_CFGR s AND RCC_CFGR_SWS"

section \<open>Frequencies\<close>

text \<open>\<open>vco\<close> combines source frequency, divider and multiplier.\<close>

definition sysclk_of :: "u32 \<Rightarrow> (u32 \<Rightarrow> u32 \<Rightarrow> u32 \<Rightarrow> u32) \<Rightarrow> rcc_state \<Rightarrow> u32" where
  "sysclk_of hse vco s =
     (if SYSCLK_SOURCE s = 0 then HSI_VALUE
      else if SYSCLK_SOURCE s = 4 then hse
      else if SYSCLK_SOURCE s = 8 then
        let pllm = rcc_PLLCFGR s AND RCC_PLLCFGR_PLLM; plln = drop_bit 6 (rcc_PLLCFGR s AND RCC_PLLCFGR_PLLN);
            src = (if rcc_PLLCFGR s AND RCC_PLLCFGR_PLLSRC \<noteq> 0 then hse else HSI_VALUE);
            pllp = (drop_bit 16 (rcc_PLLCFGR s AND RCC_PLLCFGR_PLLP) + 1) * 2
        in vco src pllm plln div pllp
      else HSI_VALUE)"

definition hal_vco :: "u32 \<Rightarrow> u32 \<Rightarrow> u32 \<Rightarrow> u32" where
  "hal_vco src pllm plln = ucast ((ucast src * ucast plln :: u64) div ucast pllm)"

definition HAL_RCC_GetSysClockFreq :: "rcc_state \<Rightarrow> u32" where
  "HAL_RCC_GetSysClockFreq = sysclk_of HSE_VALUE hal_vco"

definition ahb_shift :: "rcc_state \<Rightarrow> nat" where
  "ahb_shift s = AHBPrescTable ! unat (drop_bit 4 (rcc_CFGR s AND RCC_CFGR_HPRE))"

definition HAL_RCC_GetHCLKFreq :: "rcc_state \<Rightarrow> u32" where
  "HAL_RCC_GetHCLKFreq s = SystemCoreClock (hal s)"

definition HAL_RCC_GetPCLK1Freq :: "rcc_state \<Rightarrow> u32" where
  "HAL_RCC_GetPCLK1Freq s = drop_bit (APBPrescTable ! unat (drop_bit 10 (rcc_CFGR s AND RCC_CFGR_PPRE1))) (HAL_RCC_GetHCLKFreq s)"

definition HAL_RCC_GetPCLK2Freq :: "rcc_state \<Rightarrow> u32" where
  "HAL_RCC_GetPCLK2Freq s = drop_bit (APBPrescTable ! unat (drop_bit 13 (rcc_CFGR s AND RCC_CFGR_PPRE2))) (HAL_RCC_GetHCLKFreq s)"

text \<open>The file of the board has a value of its own for the crystal, and divides first.\<close>

definition BOARD_HSE_VALUE :: u32 where [reg_consts]: "BOARD_HSE_VALUE = 20000000"

definition board_vco :: "u32 \<Rightarrow> u32 \<Rightarrow> u32 \<Rightarrow> u32" where
  "board_vco src pllm plln = (src div pllm) * plln"

definition SystemCoreClockUpdate :: "rcc_state \<Rightarrow> rcc_state" where
  "SystemCoreClockUpdate s = s\<lparr>hal := (hal s)\<lparr>SystemCoreClock := drop_bit (ahb_shift s) (sysclk_of BOARD_HSE_VALUE board_vco s)\<rparr>\<rparr>"

section \<open>Reset\<close>

definition rcc_tick :: "rcc_state \<Rightarrow> (HAL_Status \<times> rcc_state) res" where
  "rcc_tick s = res_bind (HAL_InitTick (uwTickPrio (hal s)) (hal s)) (\<lambda>(st, h). Inr (st, s\<lparr>hal := h\<rparr>))"

text \<open>Writing the configuration register leaves the read-only status of the clock switch; writing
  the clear bits of the interrupt register clears its flags, and the remove bit the reset flags.\<close>

definition HAL_RCC_DeInit :: "rcc_state \<Rightarrow> (HAL_Status \<times> rcc_state) res" where
  "HAL_RCC_DeInit s =
     rcc_wait 2 (cr_set RCC_CR_HSIRDY) (\<lambda>s1.
     rcc_wait 5000 (cfgr_modify RCC_CFGR_SWS 0) (\<lambda>s2.
     rcc_wait 100 (cr_clear RCC_CR_HSERDY) (\<lambda>s3.
     rcc_wait 2 (cr_clear RCC_CR_PLLRDY) (\<lambda>s4.
     rcc_wait 100 (cr_clear RCC_CR_PLLI2SRDY) (\<lambda>s5.
     rcc_wait 100 (cr_clear RCC_CR_PLLSAIRDY) (\<lambda>s6.
       rcc_tick (s6\<lparr>rcc_PLLCFGR := 0x10 OR 0x1000 OR 0x2000 OR 0x4000000 OR 0x20000000,
         rcc_PLLI2SCFGR := 0x1000 OR 0x2000 OR 0x4000000 OR 0x20000000,
         rcc_PLLSAICFGR := 0x1000 OR 0x2000 OR 0x4000000 OR 0x20000000,
         rcc_CIR := (rcc_CIR s6 AND NOT 0x7F00) AND NOT 0xFF,
         rcc_CSR := (rcc_CSR s6 AND NOT 1) AND NOT 0xFE000000,
         hal := (hal s6)\<lparr>SystemCoreClock := HSI_VALUE\<rparr>\<rparr>))
     (cr_clear RCC_CR_PLLSAION s5)) (cr_clear RCC_CR_PLLI2SON s4)) (cr_clear RCC_CR_PLLON s3))
     (cr_clear (RCC_CR_HSEON OR RCC_CR_HSEBYP OR RCC_CR_CSSON) s2))
     (let s1 = cr_set 0x80 s1 in s1\<lparr>rcc_CFGR := rcc_CFGR s1 AND RCC_CFGR_SWS\<rparr>)) (cr_set RCC_CR_HSION s)"

section \<open>Oscillators\<close>

definition uses_hse :: "rcc_state \<Rightarrow> bool" where
  "uses_hse s \<longleftrightarrow> SYSCLK_SOURCE s = 4 \<or> SYSCLK_SOURCE s = 8 \<and> rcc_PLLCFGR s AND RCC_PLLCFGR_PLLSRC = 0x400000"

definition uses_hsi :: "rcc_state \<Rightarrow> bool" where
  "uses_hsi s \<longleftrightarrow> SYSCLK_SOURCE s = 0 \<or> SYSCLK_SOURCE s = 8 \<and> rcc_PLLCFGR s AND RCC_PLLCFGR_PLLSRC = 0"

definition HSE_CONFIG :: "u32 \<Rightarrow> rcc_state \<Rightarrow> rcc_state" where
  "HSE_CONFIG state s =
     (if state = RCC_CR_HSEON then cr_set RCC_CR_HSEON s
      else if state = 0 then cr_clear RCC_CR_HSEBYP (cr_clear RCC_CR_HSEON s)
      else if state = RCC_HSE_BYPASS then cr_set RCC_CR_HSEON (cr_set RCC_CR_HSEBYP s)
      else cr_clear RCC_CR_HSEBYP (cr_clear RCC_CR_HSEON s))"

definition osc_hse :: "RCC_OscInitTypeDef \<Rightarrow> (rcc_state \<Rightarrow> (HAL_Status \<times> rcc_state) res) \<Rightarrow> rcc_state \<Rightarrow> (HAL_Status \<times> rcc_state) res" where
  "osc_hse osc cont s =
     (if OscillatorType osc AND 1 = 1 then
        if uses_hse s then
          if rcc_CR s AND RCC_CR_HSERDY \<noteq> 0 \<and> HSEState osc = 0 then Inr (HAL_ERROR, s) else cont s
        else
          let s1 = HSE_CONFIG (HSEState osc) s in
          if HSEState osc \<noteq> 0 then rcc_wait 100 (cr_set RCC_CR_HSERDY) cont s1 else rcc_wait 100 (cr_clear RCC_CR_HSERDY) cont s1
      else cont s)"

definition hsi_adjust :: "u32 \<Rightarrow> rcc_state \<Rightarrow> rcc_state" where
  "hsi_adjust v s = s\<lparr>rcc_CR := modify_reg RCC_CR_HSITRIM (push_bit 3 v) (rcc_CR s)\<rparr>"

definition osc_hsi :: "RCC_OscInitTypeDef \<Rightarrow> (rcc_state \<Rightarrow> (HAL_Status \<times> rcc_state) res) \<Rightarrow> rcc_state \<Rightarrow> (HAL_Status \<times> rcc_state) res" where
  "osc_hsi osc cont s =
     (if OscillatorType osc AND 2 = 2 then
        if uses_hsi s then
          if rcc_CR s AND RCC_CR_HSIRDY \<noteq> 0 \<and> HSIState osc \<noteq> RCC_CR_HSION then Inr (HAL_ERROR, s)
          else cont (hsi_adjust (HSICalibrationValue osc) s)
        else if HSIState osc \<noteq> 0 then
          rcc_wait 2 (cr_set RCC_CR_HSIRDY) (\<lambda>s1. cont (hsi_adjust (HSICalibrationValue osc) s1)) (cr_set RCC_CR_HSION s)
        else rcc_wait 2 (cr_clear RCC_CR_HSIRDY) cont (cr_clear RCC_CR_HSION s)
      else cont s)"

definition osc_lsi :: "RCC_OscInitTypeDef \<Rightarrow> (rcc_state \<Rightarrow> (HAL_Status \<times> rcc_state) res) \<Rightarrow> rcc_state \<Rightarrow> (HAL_Status \<times> rcc_state) res" where
  "osc_lsi osc cont s =
     (if OscillatorType osc AND 8 = 8 then
        if LSIState osc \<noteq> 0
        then rcc_wait 2 (\<lambda>s. s\<lparr>rcc_CSR := rcc_CSR s OR 2\<rparr>) cont (s\<lparr>rcc_CSR := rcc_CSR s OR 1\<rparr>)
        else rcc_wait 2 (\<lambda>s. s\<lparr>rcc_CSR := rcc_CSR s AND NOT 2\<rparr>) cont (s\<lparr>rcc_CSR := rcc_CSR s AND NOT 1\<rparr>)
      else cont s)"

definition LSE_CONFIG :: "u32 \<Rightarrow> rcc_state \<Rightarrow> rcc_state" where
  "LSE_CONFIG state s =
     (if state = RCC_LSE_ON then s\<lparr>rcc_BDCR := rcc_BDCR s OR 1\<rparr>
      else if state = 0 then s\<lparr>rcc_BDCR := (rcc_BDCR s AND NOT 1) AND NOT 4\<rparr>
      else if state = RCC_LSE_BYPASS then s\<lparr>rcc_BDCR := rcc_BDCR s OR 4 OR 1\<rparr>
      else s\<lparr>rcc_BDCR := (rcc_BDCR s AND NOT 1) AND NOT 4\<rparr>)"

definition osc_lse :: "RCC_OscInitTypeDef \<Rightarrow> (rcc_state \<Rightarrow> (HAL_Status \<times> rcc_state) res) \<Rightarrow> rcc_state \<Rightarrow> (HAL_Status \<times> rcc_state) res" where
  "osc_lse osc cont s =
     (if OscillatorType osc AND 4 = 4 then
        let pwrclkchanged = (rcc_APB1ENR s AND 0x10000000 = 0);
            s1 = (if pwrclkchanged then s\<lparr>rcc_APB1ENR := rcc_APB1ENR s OR 0x10000000\<rparr> else s);
            restore = (\<lambda>s. if pwrclkchanged then s\<lparr>rcc_APB1ENR := rcc_APB1ENR s AND NOT 0x10000000\<rparr> else s);
            lse = (\<lambda>s. let s3 = LSE_CONFIG (LSEState osc) s in
              if LSEState osc \<noteq> 0 then rcc_wait 5000 (\<lambda>s. s\<lparr>rcc_BDCR := rcc_BDCR s OR 2\<rparr>) (\<lambda>s. cont (restore s)) s3
              else rcc_wait 5000 (\<lambda>s. s\<lparr>rcc_BDCR := rcc_BDCR s AND NOT 2\<rparr>) (\<lambda>s. cont (restore s)) s3)
        in if PWR_CR1 s1 AND 0x100 = 0 then rcc_wait 100 (\<lambda>s. s) lse (s1\<lparr>PWR_CR1 := PWR_CR1 s1 OR 0x100\<rparr>) else lse s1
      else cont s)"

definition PLL_CONFIG :: "RCC_PLLInitTypeDef \<Rightarrow> u32" where
  "PLL_CONFIG p = PLLSource p OR PLLM p OR push_bit 6 (PLLN p) OR push_bit 16 (drop_bit 1 (PLLP p) - 1) OR push_bit 24 (PLLQ p)
     OR push_bit 28 (PLLR p)"

definition pll_repeats :: "RCC_PLLInitTypeDef \<Rightarrow> u32 \<Rightarrow> bool" where
  "pll_repeats p pll_config \<longleftrightarrow> \<not> (PLLState p = RCC_PLL_OFF
     \<or> pll_config AND RCC_PLLCFGR_PLLSRC \<noteq> PLLSource p
     \<or> pll_config AND RCC_PLLCFGR_PLLM \<noteq> PLLM p
     \<or> pll_config AND RCC_PLLCFGR_PLLN \<noteq> push_bit 6 (PLLN p)
     \<or> pll_config AND RCC_PLLCFGR_PLLP \<noteq> push_bit 16 (drop_bit 1 (PLLP p) - 1)
     \<or> pll_config AND RCC_PLLCFGR_PLLQ \<noteq> push_bit 24 (PLLQ p)
     \<or> pll_config AND RCC_PLLCFGR_PLLR \<noteq> push_bit 28 (PLLR p))"

definition osc_pll :: "RCC_PLLInitTypeDef \<Rightarrow> rcc_state \<Rightarrow> (HAL_Status \<times> rcc_state) res" where
  "osc_pll p s =
     (if PLLState p \<noteq> RCC_PLL_NONE then
        if SYSCLK_SOURCE s \<noteq> 8 then
          if PLLState p = RCC_PLL_ON then
            rcc_wait 2 (cr_clear RCC_CR_PLLRDY) (\<lambda>s1.
              rcc_wait 2 (cr_set RCC_CR_PLLRDY) (\<lambda>s2. Inr (HAL_OK, s2)) (cr_set RCC_CR_PLLON (s1\<lparr>rcc_PLLCFGR := PLL_CONFIG p\<rparr>)))
              (cr_clear RCC_CR_PLLON s)
          else rcc_wait 2 (cr_clear RCC_CR_PLLRDY) (\<lambda>s1. Inr (HAL_OK, s1)) (cr_clear RCC_CR_PLLON s)
        else if \<not> pll_repeats p (rcc_PLLCFGR s) then Inr (HAL_ERROR, s) else Inr (HAL_OK, s)
      else Inr (HAL_OK, s))"

definition HAL_RCC_OscConfig :: "RCC_OscInitTypeDef option \<Rightarrow> rcc_state \<Rightarrow> (HAL_Status \<times> rcc_state) res" where
  "HAL_RCC_OscConfig init s =
     (case init of None \<Rightarrow> Inr (HAL_ERROR, s)
      | Some osc \<Rightarrow> osc_hse osc (osc_hsi osc (osc_lsi osc (osc_lse osc (osc_pll (PLL osc))))) s)"

section \<open>Bus clocks\<close>

definition latency :: "rcc_state \<Rightarrow> u32" where
  "latency s = FLASH_ACR (hal s) AND FLASH_ACR_LATENCY"

definition set_latency :: "u32 \<Rightarrow> rcc_state \<Rightarrow> rcc_state" where
  "set_latency v s = s\<lparr>hal := (hal s)\<lparr>FLASH_ACR := modify_reg FLASH_ACR_LATENCY v (FLASH_ACR (hal s))\<rparr>\<rparr>"

definition clk_source_ready :: "u32 \<Rightarrow> rcc_state \<Rightarrow> bool" where
  "clk_source_ready src s =
     (if src = 1 then rcc_CR s AND RCC_CR_HSERDY \<noteq> 0
      else if src = 2 then rcc_CR s AND RCC_CR_PLLRDY \<noteq> 0
      else rcc_CR s AND RCC_CR_HSIRDY \<noteq> 0)"

definition clk_sysclk :: "RCC_ClkInitTypeDef \<Rightarrow> (rcc_state \<Rightarrow> (HAL_Status \<times> rcc_state) res) \<Rightarrow> rcc_state \<Rightarrow> (HAL_Status \<times> rcc_state) res" where
  "clk_sysclk c cont s =
     (if ClockType c AND 1 = 1 then
        if \<not> clk_source_ready (SYSCLKSource c) s then Inr (HAL_ERROR, s)
        else rcc_wait 5000 (cfgr_modify RCC_CFGR_SWS (push_bit 2 (SYSCLKSource c))) cont
          (cfgr_modify RCC_CFGR_SW (SYSCLKSource c) s)
      else cont s)"

definition clk_hclk :: "RCC_ClkInitTypeDef \<Rightarrow> rcc_state \<Rightarrow> rcc_state" where
  "clk_hclk c s =
     (if ClockType c AND 2 = 2 then
        let s1 = (if ClockType c AND 4 = 4 then cfgr_modify RCC_CFGR_PPRE1 RCC_HCLK_DIV16 s else s);
            s2 = (if ClockType c AND 8 = 8 then cfgr_modify RCC_CFGR_PPRE2 (push_bit 3 RCC_HCLK_DIV16) s1 else s1)
        in cfgr_modify RCC_CFGR_HPRE (AHBCLKDivider c) s2
      else s)"

definition clk_finish :: "RCC_ClkInitTypeDef \<Rightarrow> u32 \<Rightarrow> rcc_state \<Rightarrow> (HAL_Status \<times> rcc_state) res" where
  "clk_finish c FLatency s =
     (let s1 = (if FLatency < latency s then set_latency FLatency s else s) in
      if FLatency < latency s \<and> latency s1 \<noteq> FLatency then Inr (HAL_ERROR, s1)
      else
        let s2 = (if ClockType c AND 4 = 4 then cfgr_modify RCC_CFGR_PPRE1 (APB1CLKDivider c) s1 else s1);
            s3 = (if ClockType c AND 8 = 8 then cfgr_modify RCC_CFGR_PPRE2 (push_bit 3 (APB2CLKDivider c)) s2 else s2);
            s4 = s3\<lparr>hal := (hal s3)\<lparr>SystemCoreClock := drop_bit (ahb_shift s3) (HAL_RCC_GetSysClockFreq s3)\<rparr>\<rparr>
        in res_bind (rcc_tick s4) (\<lambda>(_, s5). Inr (HAL_OK, s5)))"

definition HAL_RCC_ClockConfig :: "RCC_ClkInitTypeDef option \<Rightarrow> u32 \<Rightarrow> rcc_state \<Rightarrow> (HAL_Status \<times> rcc_state) res" where
  "HAL_RCC_ClockConfig init FLatency s =
     (case init of None \<Rightarrow> Inr (HAL_ERROR, s)
      | Some c \<Rightarrow>
        let s1 = (if FLatency > latency s then set_latency FLatency s else s) in
        if FLatency > latency s \<and> latency s1 \<noteq> FLatency then Inr (HAL_ERROR, s1)
        else clk_sysclk c (clk_finish c FLatency) (clk_hclk c s1))"

section \<open>Outputs, clock security and queries\<close>

definition HAL_RCC_MCOConfig :: "u32 \<Rightarrow> u32 \<Rightarrow> u32 \<Rightarrow> rcc_state \<Rightarrow> rcc_state" where
  "HAL_RCC_MCOConfig MCOx source mdiv s =
     (if MCOx = 0 then
        cfgr_modify (0x600000 OR 0x7000000) (source OR mdiv)
          (s\<lparr>rcc_AHB1ENR := rcc_AHB1ENR s OR 1,
             rcc_gpio := HAL_GPIO_Init GPIOA \<lparr>Pin = 0x100, Mode = GPIO_MODE_AF_PP, Pull = 0, Speed = 3, Alternate = 0\<rparr> (rcc_gpio s)\<rparr>)
      else
        cfgr_modify (0xC0000000 OR 0x38000000) (source OR push_bit 3 mdiv)
          (s\<lparr>rcc_AHB1ENR := rcc_AHB1ENR s OR 4,
             rcc_gpio := HAL_GPIO_Init GPIOC \<lparr>Pin = 0x200, Mode = GPIO_MODE_AF_PP, Pull = 0, Speed = 3, Alternate = 0\<rparr> (rcc_gpio s)\<rparr>))"

definition HAL_RCC_EnableCSS :: "rcc_state \<Rightarrow> rcc_state" where
  "HAL_RCC_EnableCSS = cr_set RCC_CR_CSSON"

definition HAL_RCC_DisableCSS :: "rcc_state \<Rightarrow> rcc_state" where
  "HAL_RCC_DisableCSS = cr_clear RCC_CR_CSSON"

definition HAL_RCC_NMI_IRQHandler :: "rcc_state \<Rightarrow> rcc_state" where
  "HAL_RCC_NMI_IRQHandler s =
     (if rcc_CIR s AND 0x80 = 0x80 then s\<lparr>css_callbacks := css_callbacks s + 1, rcc_CIR := rcc_CIR s AND NOT 0x80\<rparr> else s)"

definition HAL_RCC_GetOscConfig :: "rcc_state \<Rightarrow> RCC_OscInitTypeDef" where
  "HAL_RCC_GetOscConfig s = \<lparr>OscillatorType = 0xF,
     HSEState = (if rcc_CR s AND RCC_CR_HSEBYP = RCC_CR_HSEBYP then RCC_HSE_BYPASS
       else if rcc_CR s AND RCC_CR_HSEON = RCC_CR_HSEON then RCC_CR_HSEON else 0),
     LSEState = (if rcc_BDCR s AND 4 = 4 then RCC_LSE_BYPASS else if rcc_BDCR s AND 1 = 1 then RCC_LSE_ON else 0),
     HSIState = (if rcc_CR s AND RCC_CR_HSION = RCC_CR_HSION then RCC_CR_HSION else 0),
     HSICalibrationValue = drop_bit 3 (rcc_CR s AND RCC_CR_HSITRIM),
     LSIState = (if rcc_CSR s AND 1 = 1 then 1 else 0),
     PLL = \<lparr>PLLState = (if rcc_CR s AND RCC_CR_PLLON = RCC_CR_PLLON then RCC_PLL_ON else RCC_PLL_OFF),
       PLLSource = rcc_PLLCFGR s AND RCC_PLLCFGR_PLLSRC, PLLM = rcc_PLLCFGR s AND RCC_PLLCFGR_PLLM,
       PLLN = drop_bit 6 (rcc_PLLCFGR s AND RCC_PLLCFGR_PLLN),
       PLLP = drop_bit 16 (push_bit 1 ((rcc_PLLCFGR s AND RCC_PLLCFGR_PLLP) + 0x10000)),
       PLLQ = drop_bit 24 (rcc_PLLCFGR s AND RCC_PLLCFGR_PLLQ), PLLR = drop_bit 28 (rcc_PLLCFGR s AND RCC_PLLCFGR_PLLR)\<rparr>\<rparr>"

definition HAL_RCC_GetClockConfig :: "rcc_state \<Rightarrow> RCC_ClkInitTypeDef \<times> u32" where
  "HAL_RCC_GetClockConfig s =
     (\<lparr>ClockType = 0xF, SYSCLKSource = rcc_CFGR s AND RCC_CFGR_SW, AHBCLKDivider = rcc_CFGR s AND RCC_CFGR_HPRE,
        APB1CLKDivider = rcc_CFGR s AND RCC_CFGR_PPRE1, APB2CLKDivider = drop_bit 3 (rcc_CFGR s AND RCC_CFGR_PPRE2)\<rparr>, latency s)"

section \<open>Configuring the oscillators\<close>

text \<open>Each of the next \<open>n\<close> waits ends, by its flag or by its time limit.\<close>

definition waits_end :: "nat \<Rightarrow> (u32 \<times> (bool \<times> u32) list) list \<Rightarrow> bool" where
  "waits_end n ws \<longleftrightarrow> n \<le> length ws \<and> list_all (\<lambda>(t, ps). list_ex (\<lambda>(reached, now). reached \<or> now - t > 5000) ps) ws"

definition HSE_BITS :: u32 where [reg_consts]: "HSE_BITS = 0x70000"
definition HSI_BITS :: u32 where [reg_consts]: "HSI_BITS = 0x3"
definition PLL_BITS :: u32 where [reg_consts]: "PLL_BITS = 0x3000000"

text \<open>The clock that drives the core in \<open>s0\<close> is untouched in \<open>s\<close>: the switch, the oscillator
  behind it with its ready flag, and the PLL with its factors when the PLL is in between.\<close>

definition keeps_clock :: "rcc_state \<Rightarrow> rcc_state \<Rightarrow> bool" where
  "keeps_clock s0 s \<longleftrightarrow> rcc_CFGR s = rcc_CFGR s0
     \<and> (uses_hse s0 \<longrightarrow> rcc_CR s AND HSE_BITS = rcc_CR s0 AND HSE_BITS)
     \<and> (uses_hsi s0 \<longrightarrow> rcc_CR s AND HSI_BITS = rcc_CR s0 AND HSI_BITS)
     \<and> (SYSCLK_SOURCE s0 = 8 \<longrightarrow> rcc_CR s AND PLL_BITS = rcc_CR s0 AND PLL_BITS \<and> rcc_PLLCFGR s = rcc_PLLCFGR s0)"

definition returns_with :: "(rcc_state \<Rightarrow> bool) \<Rightarrow> (HAL_Status \<times> rcc_state) res \<Rightarrow> bool" where
  "returns_with P r \<longleftrightarrow> (\<exists>st s. r = Inr (st, s) \<and> P s)"

lemma returns_with_Inr [simp]: "returns_with P (Inr (st, s)) \<longleftrightarrow> P s"
  by (simp add: returns_with_def)

lemma rcc_poll_ends:
  assumes "list_ex (\<lambda>(reached, now). reached \<or> now - t > 5000) ps" "limit \<le> 5000"
  shows "\<exists>ok. rcc_poll limit t ps = Inr ok"
  using assms by (induction limit t ps rule: rcc_poll.induct) (auto intro: le_less_trans)

text \<open>One wait: it is enough that the registers are fine whether the flag has come or not.\<close>

lemma rcc_wait_rule:
  assumes "waits_end (Suc n) (waits s)" and "limit \<le> 5000" and "\<And>ws. P (s\<lparr>waits := ws\<rparr>)"
    and "\<And>ws. waits_end n ws \<Longrightarrow> returns_with P (cont (upd (s\<lparr>waits := ws\<rparr>)))"
  shows "returns_with P (rcc_wait limit upd cont s)"
proof -
  from assms(1) obtain t ps ws where w: "waits s = (t, ps) # ws" "list_ex (\<lambda>(reached, now). reached \<or> now - t > 5000) ps"
      "waits_end n ws"
    by (cases "waits s") (auto simp: waits_end_def)
  from rcc_poll_ends [OF w(2) assms(2)] obtain ok where "rcc_poll limit t ps = Inr ok" by blast
  then show ?thesis using w assms(3,4) by (simp add: rcc_wait_def Let_def)
qed

lemma waits_upd [simp]:
  "waits (cr_set m s) = waits s" "waits (cr_clear m s) = waits s" "waits (hsi_adjust v s) = waits s"
  "waits (HSE_CONFIG h s) = waits s" "waits (LSE_CONFIG h s) = waits s"
  by (simp_all add: cr_set_def cr_clear_def hsi_adjust_def HSE_CONFIG_def LSE_CONFIG_def)

lemma waits_end_Suc: "waits_end (Suc n) (waits s) \<Longrightarrow> waits_end n (waits s)"
  by (simp add: waits_end_def)

lemma keeps_waits [simp]: "keeps_clock s0 (s\<lparr>waits := ws\<rparr>) = keeps_clock s0 s"
  by (simp add: keeps_clock_def)

lemma keeps_clock_refl [simp]: "keeps_clock s s"
  by (simp add: keeps_clock_def)

lemma keeps_source: "keeps_clock s0 s \<Longrightarrow> SYSCLK_SOURCE s = SYSCLK_SOURCE s0"
  by (simp add: keeps_clock_def SYSCLK_SOURCE_def)

lemma keeps_uses: "keeps_clock s0 s \<Longrightarrow> uses_hse s = uses_hse s0 \<and> uses_hsi s = uses_hsi s0"
  using keeps_source [of s0 s] by (auto simp: keeps_clock_def uses_hse_def uses_hsi_def)

text \<open>Which changes of the control register leave the clock alone.\<close>

definition touches :: "u32 \<Rightarrow> rcc_state \<Rightarrow> bool" where
  "touches m s \<longleftrightarrow> uses_hse s \<and> m AND HSE_BITS \<noteq> 0 \<or> uses_hsi s \<and> m AND HSI_BITS \<noteq> 0
     \<or> SYSCLK_SOURCE s = 8 \<and> m AND PLL_BITS \<noteq> 0"

lemma keeps_cr_set: "keeps_clock s0 s \<Longrightarrow> \<not> touches m s0 \<Longrightarrow> keeps_clock s0 (cr_set m s)"
  by (auto simp: keeps_clock_def touches_def cr_set_def or_other)

lemma keeps_cr_clear: "keeps_clock s0 s \<Longrightarrow> \<not> touches m s0 \<Longrightarrow> keeps_clock s0 (cr_clear m s)"
  by (auto simp: keeps_clock_def touches_def cr_clear_def and_not_other)

lemma trim_mask: "(v :: u32) \<le> 0x1F \<Longrightarrow> push_bit 3 v AND RCC_CR_HSITRIM = push_bit 3 v"
  using field_fits(1) [of v 5 3] by (simp add: RCC_CR_HSITRIM_def mask_eq_exp_minus_1 word_le_nat_alt)

lemma keeps_hsi_adjust:
  assumes "keeps_clock s0 s" "v \<le> 0x1F"
  shows "keeps_clock s0 (hsi_adjust v s)"
proof -
  have "modify_reg RCC_CR_HSITRIM (push_bit 3 v) r AND k = r AND k" if "RCC_CR_HSITRIM AND k = 0" for r k
    using put_other [OF trim_mask [OF assms(2)] that] .
  moreover have "RCC_CR_HSITRIM AND HSE_BITS = 0" "RCC_CR_HSITRIM AND HSI_BITS = 0" "RCC_CR_HSITRIM AND PLL_BITS = 0"
    by (simp_all add: reg_consts)
  ultimately show ?thesis using assms(1) by (simp add: keeps_clock_def hsi_adjust_def)
qed

lemmas keeps_steps = keeps_cr_set keeps_cr_clear keeps_hsi_adjust

lemma keeps_LSE_CONFIG [simp]: "keeps_clock s0 (LSE_CONFIG v s) = keeps_clock s0 s"
  by (simp add: keeps_clock_def LSE_CONFIG_def)

lemma keeps_other [simp]:
  "keeps_clock s0 (s\<lparr>rcc_CSR := v\<rparr>) = keeps_clock s0 s" "keeps_clock s0 (s\<lparr>rcc_BDCR := v\<rparr>) = keeps_clock s0 s"
  "keeps_clock s0 (s\<lparr>rcc_APB1ENR := v\<rparr>) = keeps_clock s0 s" "keeps_clock s0 (s\<lparr>PWR_CR1 := v\<rparr>) = keeps_clock s0 s"
  by (simp_all add: keeps_clock_def)

lemma keeps_HSE_CONFIG: "keeps_clock s0 s \<Longrightarrow> \<not> uses_hse s0 \<Longrightarrow> keeps_clock s0 (HSE_CONFIG v s)"
  by (auto simp: HSE_CONFIG_def touches_def reg_consts intro!: keeps_steps)

text \<open>The parts of the function, each followed by whatever comes next.\<close>

lemma osc_hse_keeps:
  assumes "waits_end (Suc n) (waits s)" "keeps_clock s0 s"
    and cont: "\<And>s1. waits_end n (waits s1) \<Longrightarrow> keeps_clock s0 s1 \<Longrightarrow> returns_with (keeps_clock s0) (cont s1)"
  shows "returns_with (keeps_clock s0) (osc_hse osc cont s)"
  using assms keeps_uses [of s0 s]
  by (auto dest: waits_end_Suc simp: osc_hse_def Let_def touches_def reg_consts intro!: rcc_wait_rule cont keeps_steps keeps_HSE_CONFIG)

lemma osc_hsi_keeps:
  assumes "waits_end (Suc n) (waits s)" "keeps_clock s0 s" "HSICalibrationValue osc \<le> 0x1F"
    and cont: "\<And>s1. waits_end n (waits s1) \<Longrightarrow> keeps_clock s0 s1 \<Longrightarrow> returns_with (keeps_clock s0) (cont s1)"
  shows "returns_with (keeps_clock s0) (osc_hsi osc cont s)"
  using assms keeps_uses [of s0 s]
  by (auto dest: waits_end_Suc simp: osc_hsi_def Let_def touches_def reg_consts intro!: rcc_wait_rule cont keeps_steps)

lemma osc_lsi_keeps:
  assumes "waits_end (Suc n) (waits s)" "keeps_clock s0 s"
    and cont: "\<And>s1. waits_end n (waits s1) \<Longrightarrow> keeps_clock s0 s1 \<Longrightarrow> returns_with (keeps_clock s0) (cont s1)"
  shows "returns_with (keeps_clock s0) (osc_lsi osc cont s)"
  using assms by (auto dest: waits_end_Suc simp: osc_lsi_def intro!: rcc_wait_rule cont)

lemma osc_lse_keeps:
  assumes "waits_end (Suc (Suc n)) (waits s)" "keeps_clock s0 s"
    and cont: "\<And>s1. waits_end n (waits s1) \<Longrightarrow> keeps_clock s0 s1 \<Longrightarrow> returns_with (keeps_clock s0) (cont s1)"
  shows "returns_with (keeps_clock s0) (osc_lse osc cont s)"
  using assms by (auto intro: waits_end_Suc simp: osc_lse_def Let_def intro!: rcc_wait_rule cont)

lemma keeps_PLLCFGR: "keeps_clock s0 s \<Longrightarrow> SYSCLK_SOURCE s0 \<noteq> 8 \<Longrightarrow> keeps_clock s0 (s\<lparr>rcc_PLLCFGR := v\<rparr>)"
  by (simp add: keeps_clock_def)

lemma osc_pll_keeps:
  assumes "waits_end (Suc (Suc 0)) (waits s)" "keeps_clock s0 s"
  shows "returns_with (keeps_clock s0) (osc_pll p s)"
  using assms keeps_source [of s0 s]
  by (auto dest: waits_end_Suc simp: osc_pll_def touches_def reg_consts intro!: rcc_wait_rule keeps_steps keeps_PLLCFGR)

section \<open>Properties\<close>


text \<open>The board at work: the crystal drives the PLL, the PLL drives the core. Switching the crystal
  off is refused.\<close>

definition rcc_running :: rcc_state where
  "rcc_running = \<lparr>rcc_CR = 0x3030083, rcc_PLLCFGR = 0x29406414, rcc_CFGR = 0x940A, rcc_CIR = 0, rcc_BDCR = 0, rcc_CSR = 0,
     rcc_PLLI2SCFGR = 0, rcc_PLLSAICFGR = 0, rcc_APB1ENR = 0, rcc_AHB1ENR = 0, PWR_CR1 = 0, hal = hal_reset,
     rcc_gpio = gpio_off, waits = replicate 7 (0, [(False, 1), (False, 6000)]), css_callbacks = 0\<rparr>"

definition osc_off :: RCC_OscInitTypeDef where
  "osc_off = \<lparr>OscillatorType = 0xF, HSEState = 0, LSEState = 0, HSIState = 0, HSICalibrationValue = 0x10, LSIState = 0,
     PLL = \<lparr>PLLState = RCC_PLL_OFF, PLLSource = 0, PLLM = 0, PLLN = 0, PLLP = 0, PLLQ = 0, PLLR = 0\<rparr>\<rparr>"


section \<open>Factors of the PLL\<close>

text \<open>The values the reference manual allows, as far as the fields are concerned.\<close>

definition pll_wf :: "RCC_PLLInitTypeDef \<Rightarrow> bool" where
  "pll_wf p \<longleftrightarrow> PLLState p = RCC_PLL_ON \<and> PLLSource p \<in> {0, 0x400000} \<and> PLLM p \<le> 63 \<and> PLLN p \<le> 432 \<and> PLLP p \<in> {2, 4, 6, 8}
     \<and> PLLQ p \<le> 15 \<and> PLLR p \<le> 7"

lemma pll_fields:
  assumes "pll_wf p"
  shows "PLLSource p AND RCC_PLLCFGR_PLLSRC = PLLSource p" "PLLM p AND RCC_PLLCFGR_PLLM = PLLM p"
    "push_bit 6 (PLLN p) AND RCC_PLLCFGR_PLLN = push_bit 6 (PLLN p)" "drop_bit 6 (push_bit 6 (PLLN p)) = PLLN p"
    "push_bit 16 (drop_bit 1 (PLLP p) - 1) AND RCC_PLLCFGR_PLLP = push_bit 16 (drop_bit 1 (PLLP p) - 1)"
    "drop_bit 16 (push_bit 1 (push_bit 16 (drop_bit 1 (PLLP p) - 1) + 0x10000)) = PLLP p"
    "push_bit 24 (PLLQ p) AND RCC_PLLCFGR_PLLQ = push_bit 24 (PLLQ p)" "drop_bit 24 (push_bit 24 (PLLQ p)) = PLLQ p"
    "push_bit 28 (PLLR p) AND RCC_PLLCFGR_PLLR = push_bit 28 (PLLR p)" "drop_bit 28 (push_bit 28 (PLLR p)) = PLLR p"
proof -
  have le: "unat (PLLM p) < 2 ^ 6" "unat (PLLN p) < 2 ^ 9" "unat (PLLQ p) < 2 ^ 4" "unat (PLLR p) < 2 ^ 3"
    using assms by (simp_all add: pll_wf_def word_le_nat_alt)
  show "PLLM p AND RCC_PLLCFGR_PLLM = PLLM p" using field_fits(1) [OF le(1), of 0] by (simp add: RCC_PLLCFGR_PLLM_def mask_eq_exp_minus_1)
  show "push_bit 6 (PLLN p) AND RCC_PLLCFGR_PLLN = push_bit 6 (PLLN p)" "drop_bit 6 (push_bit 6 (PLLN p)) = PLLN p"
    using field_fits [OF le(2), of 6] by (simp_all add: RCC_PLLCFGR_PLLN_def mask_eq_exp_minus_1)
  show "push_bit 24 (PLLQ p) AND RCC_PLLCFGR_PLLQ = push_bit 24 (PLLQ p)" "drop_bit 24 (push_bit 24 (PLLQ p)) = PLLQ p"
    using field_fits [OF le(3), of 24] by (simp_all add: RCC_PLLCFGR_PLLQ_def mask_eq_exp_minus_1)
  show "push_bit 28 (PLLR p) AND RCC_PLLCFGR_PLLR = push_bit 28 (PLLR p)" "drop_bit 28 (push_bit 28 (PLLR p)) = PLLR p"
    using field_fits [OF le(4), of 28] by (simp_all add: RCC_PLLCFGR_PLLR_def mask_eq_exp_minus_1)
qed (use assms in \<open>auto simp: pll_wf_def reg_consts\<close>)

text \<open>What \<^verbatim>\<open>__HAL_RCC_PLL_CONFIG\<close> writes is read back field by field; asking for it again is
  recognised as a repetition, so a second call succeeds while the PLL drives the core.\<close>

lemma pll_config_fields:
  assumes "pll_wf p"
  shows "PLL_CONFIG p AND RCC_PLLCFGR_PLLSRC = PLLSource p" "PLL_CONFIG p AND RCC_PLLCFGR_PLLM = PLLM p"
    "PLL_CONFIG p AND RCC_PLLCFGR_PLLN = push_bit 6 (PLLN p)"
    "PLL_CONFIG p AND RCC_PLLCFGR_PLLP = push_bit 16 (drop_bit 1 (PLLP p) - 1)"
    "PLL_CONFIG p AND RCC_PLLCFGR_PLLQ = push_bit 24 (PLLQ p)" "PLL_CONFIG p AND RCC_PLLCFGR_PLLR = push_bit 28 (PLLR p)"
proof -
  let ?f = "[(PLLSource p, RCC_PLLCFGR_PLLSRC), (PLLM p, RCC_PLLCFGR_PLLM), (push_bit 6 (PLLN p), RCC_PLLCFGR_PLLN),
    (push_bit 16 (drop_bit 1 (PLLP p) - 1), RCC_PLLCFGR_PLLP), (push_bit 24 (PLLQ p), RCC_PLLCFGR_PLLQ),
    (push_bit 28 (PLLR p), RCC_PLLCFGR_PLLR)]"
  have e: "PLL_CONFIG p = or_fields ?f" by (simp add: PLL_CONFIG_def or.assoc)
  have s: "sorted_wrt (\<lambda>a b. snd a AND snd b = 0) ?f" by (simp add: reg_consts)
  have f: "\<forall>(c, m) \<in> set ?f. c AND m = c" using pll_fields(1,2,3,5,7,9) [OF assms] by auto
  have "(c, m) \<in> set ?f \<Longrightarrow> PLL_CONFIG p AND m = c" for c m unfolding e by (rule or_fields_read [OF s f])
  then show "PLL_CONFIG p AND RCC_PLLCFGR_PLLSRC = PLLSource p" "PLL_CONFIG p AND RCC_PLLCFGR_PLLM = PLLM p"
    "PLL_CONFIG p AND RCC_PLLCFGR_PLLN = push_bit 6 (PLLN p)"
    "PLL_CONFIG p AND RCC_PLLCFGR_PLLP = push_bit 16 (drop_bit 1 (PLLP p) - 1)"
    "PLL_CONFIG p AND RCC_PLLCFGR_PLLQ = push_bit 24 (PLLQ p)" "PLL_CONFIG p AND RCC_PLLCFGR_PLLR = push_bit 28 (PLLR p)"
    by auto
qed

lemma pll_config_repeats: "pll_wf p \<Longrightarrow> pll_repeats p (PLL_CONFIG p)"
  using pll_config_fields [of p] by (simp add: pll_repeats_def pll_wf_def reg_consts)

lemma osc_pll_roundtrip:
  assumes "pll_wf p" "SYSCLK_SOURCE s \<noteq> 8" "waits s = (t1, p1) # (t2, p2) # ws" "rcc_poll 2 t1 p1 = Inr True" "rcc_poll 2 t2 p2 = Inr True"
  shows "\<exists>s'. osc_pll p s = Inr (HAL_OK, s') \<and> PLL (HAL_RCC_GetOscConfig s') = p"
proof -
  have on: "(r OR RCC_CR_PLLON OR RCC_CR_PLLRDY) AND RCC_CR_PLLON = RCC_CR_PLLON" for r
    by (rule bit_word_eqI) (auto simp: bit_simps)
  have "PLLState p = RCC_PLL_ON" using assms(1) by (simp add: pll_wf_def)
  then show ?thesis
    using assms(2-) pll_config_fields [OF assms(1)] pll_fields(4,6,8,10) [OF assms(1)] on
    by (simp add: osc_pll_def rcc_wait_def Let_def cr_set_def cr_clear_def HAL_RCC_GetOscConfig_def RCC_PLL_NONE_def RCC_PLL_ON_def or.assoc del: drop_bit_and)
qed

section \<open>The two computations of the core clock\<close>

text \<open>What the PLL input is divided by, and where it comes from.\<close>

abbreviation pll_divider :: "rcc_state \<Rightarrow> u32" where
  "pll_divider s \<equiv> rcc_PLLCFGR s AND RCC_PLLCFGR_PLLM"

text \<open>Dividing first or last, in 32 or in 64 bits, gives the same number when the divider divides the
  source, even where the product exceeds 32 bits.\<close>

lemma vco_agree:
  assumes "unat m dvd unat src" "m \<noteq> 0"
  shows "board_vco src m n = hal_vco src m n"
proof -
  from assms obtain k where k: "unat src = unat m * k" by (auto simp: dvd_def)
  have m: "unat m > 0" using assms(2) by (simp add: unat_gt_0)
  have lt: "unat src * unat n < 2 ^ 64"
    using mult_strict_mono [of "unat src" "2 ^ 32" "unat n" "2 ^ 32"] unsigned_less [of src] unsigned_less [of n] by simp
  have b: "unat x < 2 ^ LENGTH(32)" for x :: u32 by (rule unsigned_less)
  have w: "unat (x :: u32) mod 2 ^ 64 = unat x" for x using b [of x] by simp
  have "unat (hal_vco src m n) = (unat src * unat n) mod 2 ^ 64 div unat m mod 2 ^ 32"
    using w [of src] w [of n] w [of m] by (simp add: hal_vco_def unat_div unat_word_ariths unsigned_ucast_eq take_bit_eq_mod)
  also have "\<dots> = (k * unat n) mod 2 ^ 32" using lt k m by (simp add: mult.assoc)
  also have "\<dots> = unat (board_vco src m n)" using k m by (simp add: board_vco_def unat_word_ariths mod_mult_left_eq)
  finally show ?thesis by (simp add: word_unat_eq_iff)
qed

text \<open>
  The board's \<^verbatim>\<open>SystemCoreClockUpdate\<close> and the HAL's
  \<^verbatim>\<open>HAL_RCC_GetSysClockFreq\<close> agree on the core clock, for every multiplier, post-divider and
  bus divider, as long as the clock comes from the internal oscillator, directly or through a PLL
  divider that divides its frequency.
\<close>

lemma SystemCoreClockUpdate_agrees:
  assumes "SYSCLK_SOURCE s \<noteq> 4"
    and "SYSCLK_SOURCE s = 8 \<longrightarrow> rcc_PLLCFGR s AND RCC_PLLCFGR_PLLSRC = 0 \<and> unat (pll_divider s) dvd 16000000 \<and> pll_divider s \<noteq> 0"
  shows "SystemCoreClock (hal (SystemCoreClockUpdate s)) = drop_bit (ahb_shift s) (HAL_RCC_GetSysClockFreq s)"
proof -
  have "SYSCLK_SOURCE s = 8 \<Longrightarrow> board_vco HSI_VALUE (pll_divider s) n = hal_vco HSI_VALUE (pll_divider s) n" for n
    using assms(2) vco_agree [of "pll_divider s" HSI_VALUE n] by (simp add: HSI_VALUE_def)
  then show ?thesis
    using assms by (simp add: SystemCoreClockUpdate_def HAL_RCC_GetSysClockFreq_def sysclk_of_def Let_def)
qed

definition rcc_hsi_pll :: rcc_state where
  "rcc_hsi_pll = rcc_running\<lparr>rcc_PLLCFGR := 0x29006410\<rparr>"

text \<open>
  With the crystal the two differ: the file of the board says 20 MHz, the configuration of the HAL
  25 MHz. With the factors 20, 400 and 2 the core runs at 200 MHz and the HAL computes 250 MHz.
\<close>

lemma HSE_VALUE_differs:
  "SystemCoreClock (hal (SystemCoreClockUpdate rcc_running)) = 200000000 \<and> HAL_RCC_GetSysClockFreq rcc_running = 250000000"
  by (simp add: rcc_running_def SYSCLK_SOURCE_def SystemCoreClockUpdate_def HAL_RCC_GetSysClockFreq_def sysclk_of_def
      board_vco_def hal_vco_def ahb_shift_def AHBPrescTable_def reg_consts)

section \<open>Switching the clock\<close>

text \<open>The time base changes the core registers and its priority only.\<close>

lemma HAL_InitTick_frame:
  assumes "HAL_InitTick p h = Inr (st, h')"
  shows "FLASH_ACR h' = FLASH_ACR h \<and> SystemCoreClock h' = SystemCoreClock h \<and> uwTickFreq h' = uwTickFreq h"
  using assms by (auto simp: HAL_InitTick_def res_bind_eq_Inr Let_def split: if_splits)

text \<open>A request for all four clocks, each value within its field.\<close>

definition clk_wf :: "RCC_ClkInitTypeDef \<Rightarrow> bool" where
  "clk_wf c \<longleftrightarrow> ClockType c = 0xF \<and> SYSCLKSource c AND RCC_CFGR_SW = SYSCLKSource c \<and> AHBCLKDivider c AND RCC_CFGR_HPRE = AHBCLKDivider c
     \<and> APB1CLKDivider c AND RCC_CFGR_PPRE1 = APB1CLKDivider c \<and> APB2CLKDivider c AND RCC_CFGR_PPRE1 = APB2CLKDivider c"

lemma shifted_fields:
  "v AND RCC_CFGR_PPRE1 = v \<Longrightarrow> push_bit 3 v AND RCC_CFGR_PPRE2 = push_bit 3 v"
  "v AND RCC_CFGR_SW = v \<Longrightarrow> push_bit 2 v AND RCC_CFGR_SWS = push_bit 2 v"
  using shift_mask [of v RCC_CFGR_PPRE1 3] shift_mask [of v RCC_CFGR_SW 2] by (simp_all add: reg_consts)

lemma ppre_unshift:
  assumes "v AND RCC_CFGR_PPRE1 = v"
  shows "drop_bit 3 (push_bit 3 v) = v"
proof -
  have e: "RCC_CFGR_PPRE1 = push_bit 10 (mask 3)" by (simp add: RCC_CFGR_PPRE1_def mask_eq_exp_minus_1)
  have "n < 13" if "bit RCC_CFGR_PPRE1 n" for n
    using that unfolding e bit_push_bit_iff bit_mask_iff by linarith
  with assms have "bit v n \<Longrightarrow> n < 13" for n by (blast dest: and_eq_bits)
  then show ?thesis by (intro bit_word_eqI) (fastforce simp: bit_simps)
qed

lemma cfgr_disjoint [simp]:
  "RCC_CFGR_PPRE1 AND RCC_CFGR_PPRE2 = 0" "RCC_CFGR_PPRE2 AND RCC_CFGR_PPRE1 = 0" "RCC_CFGR_PPRE1 AND RCC_CFGR_HPRE = 0"
  "RCC_CFGR_PPRE2 AND RCC_CFGR_HPRE = 0" "RCC_CFGR_SW AND RCC_CFGR_HPRE = 0" "RCC_CFGR_SWS AND RCC_CFGR_HPRE = 0"
  "RCC_CFGR_PPRE1 AND RCC_CFGR_SW = 0" "RCC_CFGR_PPRE2 AND RCC_CFGR_SW = 0" "RCC_CFGR_SWS AND RCC_CFGR_SW = 0"
  "RCC_CFGR_PPRE1 AND RCC_CFGR_SWS = 0" "RCC_CFGR_PPRE2 AND RCC_CFGR_SWS = 0"
  by (simp_all add: reg_consts)

lemma latency_set: "v AND FLASH_ACR_LATENCY = v \<Longrightarrow> latency (set_latency v s) = v"
  by (simp add: latency_def set_latency_def put_same)

lemma HAL_InitTick_returns:
  assumes "core_wf (core h)"
  shows "\<exists>st h'. HAL_InitTick p h = Inr (st, h') \<and> FLASH_ACR h' = FLASH_ACR h \<and> SystemCoreClock h' = SystemCoreClock h
    \<and> uwTickFreq h' = uwTickFreq h \<and> (tick_fits (SystemCoreClock h) (uwTickFreq h) \<longrightarrow> tick_wf h')"
proof -
  have "\<exists>st h'. HAL_InitTick p h = Inr (st, h') \<and> (tick_fits (SystemCoreClock h) (uwTickFreq h) \<longrightarrow> tick_wf h')"
    using HAL_InitTick_too_long [of h p] HAL_InitTick_fits [OF assms, of p] by blast
  then show ?thesis using HAL_InitTick_frame by blast
qed

lemma sysclk_hal [simp]: "HAL_RCC_GetSysClockFreq (s\<lparr>hal := h\<rparr>) = HAL_RCC_GetSysClockFreq s" "ahb_shift (s\<lparr>hal := h\<rparr>) = ahb_shift s"
  by (simp_all add: HAL_RCC_GetSysClockFreq_def sysclk_of_def SYSCLK_SOURCE_def ahb_shift_def)

text \<open>The second half of the function, after the switch.\<close>

lemma clk_finish_ok:
  assumes "clk_wf c" "FLatency AND FLASH_ACR_LATENCY = FLatency" "FLatency \<le> latency s" "core_wf (core (hal s))"
  shows "\<exists>s'. clk_finish c FLatency s = Inr (HAL_OK, s') \<and> latency s' = FLatency
    \<and> rcc_CFGR s' = modify_reg RCC_CFGR_PPRE2 (push_bit 3 (APB2CLKDivider c)) (modify_reg RCC_CFGR_PPRE1 (APB1CLKDivider c) (rcc_CFGR s))
    \<and> SystemCoreClock (hal s') = drop_bit (ahb_shift s') (HAL_RCC_GetSysClockFreq s')
    \<and> (tick_fits (SystemCoreClock (hal s')) (uwTickFreq (hal s')) \<longrightarrow> tick_wf (hal s'))"
proof -
  define s1 where "s1 = (if FLatency < latency s then set_latency FLatency s else s)"
  have s1: "latency s1 = FLatency" "rcc_CFGR s1 = rcc_CFGR s" "core_wf (core (hal s1))"
    using assms(2-4) latency_set by (auto simp: s1_def set_latency_def)
  define s3 where "s3 = cfgr_modify RCC_CFGR_PPRE2 (push_bit 3 (APB2CLKDivider c)) (cfgr_modify RCC_CFGR_PPRE1 (APB1CLKDivider c) s1)"
  define h where "h = (hal s3)\<lparr>SystemCoreClock := drop_bit (ahb_shift s3) (HAL_RCC_GetSysClockFreq s3)\<rparr>"
  have "core_wf (core h)" using s1 by (simp add: h_def s3_def cfgr_modify_def)
  from HAL_InitTick_returns [OF this, of "uwTickPrio (hal s3)"] obtain st h' where t: "HAL_InitTick (uwTickPrio (hal s3)) h = Inr (st, h')"
      "FLASH_ACR h' = FLASH_ACR h" "SystemCoreClock h' = SystemCoreClock h" "uwTickFreq h' = uwTickFreq h"
      "tick_fits (SystemCoreClock h) (uwTickFreq h) \<longrightarrow> tick_wf h'"
    by blast
  have "clk_finish c FLatency s = Inr (HAL_OK, s3\<lparr>hal := h'\<rparr>)"
    using assms(1) s1(1) t(1)
    by (simp add: clk_finish_def Let_def s1_def [symmetric] s3_def [symmetric] clk_wf_def rcc_tick_def h_def [symmetric])
  then show ?thesis
    using s1 t by (intro exI [of _ "s3\<lparr>hal := h'\<rparr>"]) (simp add: latency_def h_def s3_def cfgr_modify_def)
qed

text \<open>The first half, up to the switch: the fields written there are not those of the second half.\<close>

lemma clk_wf_masks:
  assumes "clk_wf c"
  shows "SYSCLKSource c AND RCC_CFGR_SW = SYSCLKSource c" "AHBCLKDivider c AND RCC_CFGR_HPRE = AHBCLKDivider c"
    "APB1CLKDivider c AND RCC_CFGR_PPRE1 = APB1CLKDivider c"
    "push_bit 3 (APB2CLKDivider c) AND RCC_CFGR_PPRE2 = push_bit 3 (APB2CLKDivider c)"
    "push_bit 2 (SYSCLKSource c) AND RCC_CFGR_SWS = push_bit 2 (SYSCLKSource c)"
    "drop_bit 3 (push_bit 3 (APB2CLKDivider c)) = APB2CLKDivider c"
  using assms shifted_fields ppre_unshift by (simp_all add: clk_wf_def)

definition clk_switched :: "RCC_ClkInitTypeDef \<Rightarrow> u32 \<Rightarrow> u32" where
  "clk_switched c r = modify_reg RCC_CFGR_SWS (push_bit 2 (SYSCLKSource c)) (modify_reg RCC_CFGR_SW (SYSCLKSource c)
     (modify_reg RCC_CFGR_HPRE (AHBCLKDivider c) (modify_reg RCC_CFGR_PPRE2 (push_bit 3 RCC_HCLK_DIV16)
     (modify_reg RCC_CFGR_PPRE1 RCC_HCLK_DIV16 r))))"

lemma clk_fields:
  fixes r :: u32
  assumes "clk_wf c"
  defines "r' \<equiv> modify_reg RCC_CFGR_PPRE2 (push_bit 3 (APB2CLKDivider c)) (modify_reg RCC_CFGR_PPRE1 (APB1CLKDivider c) (clk_switched c r))"
  shows "r' AND RCC_CFGR_SW = SYSCLKSource c" "r' AND RCC_CFGR_SWS = push_bit 2 (SYSCLKSource c)"
    "r' AND RCC_CFGR_HPRE = AHBCLKDivider c" "r' AND RCC_CFGR_PPRE1 = APB1CLKDivider c"
    "drop_bit 3 (r' AND RCC_CFGR_PPRE2) = APB2CLKDivider c"
  using clk_wf_masks [OF assms(1)] by (simp_all add: r'_def clk_switched_def put_same put_other)

text \<open>
  Property C30: switching the clocks. For a request for all four clocks whose source is ready and
  is switched to in time, \<^verbatim>\<open>HAL_RCC_ClockConfig\<close> returns \<^verbatim>\<open>HAL_OK\<close>;
  \<^verbatim>\<open>HAL_RCC_GetClockConfig\<close> then reads the request and the flash latency back, the core
  runs from the source asked for, \<^verbatim>\<open>SystemCoreClock\<close> is the frequency the registers give, and
  the time base has been adapted to it when its period fits the counter.
\<close>

theorem HAL_RCC_ClockConfig_roundtrip:
  assumes "clk_wf c" and "FLatency AND FLASH_ACR_LATENCY = FLatency" and "clk_source_ready (SYSCLKSource c) s"
    and "waits s = (t, ps) # ws" and "rcc_poll 5000 t ps = Inr True" and "core_wf (core (hal s))"
  shows "\<exists>s'. HAL_RCC_ClockConfig (Some c) FLatency s = Inr (HAL_OK, s') \<and> HAL_RCC_GetClockConfig s' = (c, FLatency)
    \<and> SYSCLK_SOURCE s' = push_bit 2 (SYSCLKSource c)
    \<and> SystemCoreClock (hal s') = drop_bit (ahb_shift s') (HAL_RCC_GetSysClockFreq s')
    \<and> (tick_fits (SystemCoreClock (hal s')) (uwTickFreq (hal s')) \<longrightarrow> tick_wf (hal s'))"
proof -
  define s1 where "s1 = (if FLatency > latency s then set_latency FLatency s else s)"
  have s1: "FLatency \<le> latency s1" "FLatency > latency s \<Longrightarrow> latency s1 = FLatency" "rcc_CFGR s1 = rcc_CFGR s"
      "core_wf (core (hal s1))" "rcc_CR s1 = rcc_CR s" "waits s1 = waits s"
    using assms(2,6) latency_set by (auto simp: s1_def set_latency_def)
  define s2 where "s2 = cfgr_modify RCC_CFGR_SWS (push_bit 2 (SYSCLKSource c))
    ((cfgr_modify RCC_CFGR_SW (SYSCLKSource c) (clk_hclk c s1))\<lparr>waits := ws\<rparr>)"
  have ct: "ClockType c = 0xF" using assms(1) by (simp add: clk_wf_def)
  have s2: "rcc_CFGR s2 = clk_switched c (rcc_CFGR s)" "FLatency \<le> latency s2" "core_wf (core (hal s2))"
    using s1 ct by (simp_all add: s2_def clk_hclk_def cfgr_modify_def clk_switched_def latency_def Let_def)
  have "\<not> (FLatency > latency s \<and> latency s1 \<noteq> FLatency)" using s1(2) by blast
  then have "HAL_RCC_ClockConfig (Some c) FLatency s = clk_sysclk c (clk_finish c FLatency) (clk_hclk c s1)"
    unfolding HAL_RCC_ClockConfig_def Let_def option.case s1_def [symmetric] by (rule if_not_P)
  also have "clk_source_ready (SYSCLKSource c) (clk_hclk c s1)" "waits (clk_hclk c s1) = (t, ps) # ws"
    using assms(3,4) s1(5,6) by (auto simp: clk_source_ready_def clk_hclk_def cfgr_modify_def Let_def)
  then have "clk_sysclk c (clk_finish c FLatency) (clk_hclk c s1) = clk_finish c FLatency s2"
    using ct assms(5) by (simp add: clk_sysclk_def rcc_wait_def s2_def cfgr_modify_def)
  finally have "HAL_RCC_ClockConfig (Some c) FLatency s = clk_finish c FLatency s2" .
  moreover from clk_finish_ok [OF assms(1,2) s2(2,3)] obtain s' where f: "clk_finish c FLatency s2 = Inr (HAL_OK, s')"
      "latency s' = FLatency" "rcc_CFGR s' = modify_reg RCC_CFGR_PPRE2 (push_bit 3 (APB2CLKDivider c))
        (modify_reg RCC_CFGR_PPRE1 (APB1CLKDivider c) (rcc_CFGR s2))"
      "SystemCoreClock (hal s') = drop_bit (ahb_shift s') (HAL_RCC_GetSysClockFreq s')"
      "tick_fits (SystemCoreClock (hal s')) (uwTickFreq (hal s')) \<longrightarrow> tick_wf (hal s')"
    by blast
  ultimately show ?thesis
    using clk_fields [OF assms(1), of "rcc_CFGR s"] ct s2(1) by (simp add: HAL_RCC_GetClockConfig_def SYSCLK_SOURCE_def)
qed

text \<open>From the internal oscillator to the PLL, six wait states, the buses at a quarter and a half.\<close>

definition rcc_on_hsi :: rcc_state where
  "rcc_on_hsi = rcc_hsi_pll\<lparr>rcc_CFGR := 0, waits := [(0, [(False, 1), (True, 2)])]\<rparr>"

definition clk_request :: RCC_ClkInitTypeDef where
  "clk_request = \<lparr>ClockType = 0xF, SYSCLKSource = 2, AHBCLKDivider = 0, APB1CLKDivider = 0x1400, APB2CLKDivider = 0x1000\<rparr>"

theorem HAL_RCC_ClockConfig_roundtrip_witness:
  "\<exists>s'. HAL_RCC_ClockConfig (Some clk_request) 6 rcc_on_hsi = Inr (HAL_OK, s') \<and> HAL_RCC_GetClockConfig s' = (clk_request, 6)"
  using HAL_RCC_ClockConfig_roundtrip [of clk_request 6 rcc_on_hsi 0 "[(False, 1), (True, 2)]" "[]"]
  by (auto simp: rcc_on_hsi_def rcc_hsi_pll_def rcc_running_def clk_request_def clk_wf_def clk_source_ready_def hal_reset_def reg_consts)

section \<open>Back to the internal oscillator\<close>

text \<open>When every flag is reached in its limit, the reset leaves the core on the internal oscillator at
  its reset configuration, with the other oscillators and the clock security off.\<close>

lemma rcc_wait_reached: "waits s = (t, ps) # ws \<Longrightarrow> rcc_poll limit t ps = Inr True \<Longrightarrow> rcc_wait limit upd cont s = cont (upd (s\<lparr>waits := ws\<rparr>))"
  by (simp add: rcc_wait_def)

definition reset_waits :: "(u32 \<times> (bool \<times> u32) list) list \<Rightarrow> bool" where
  "reset_waits ws \<longleftrightarrow> length ws = 6 \<and> list_all2 (\<lambda>limit (t, ps). rcc_poll limit t ps = Inr True) [2, 5000, 100, 2, 100, 100] ws"

lemma hsion_apart:
  assumes "bit RCC_CR_HSION n"
  shows "\<not> bit RCC_CR_HSEON n" "\<not> bit RCC_CR_HSEBYP n" "\<not> bit RCC_CR_CSSON n" "\<not> bit RCC_CR_HSERDY n" "\<not> bit RCC_CR_PLLON n"
    "\<not> bit RCC_CR_PLLRDY n" "\<not> bit RCC_CR_PLLI2SON n" "\<not> bit RCC_CR_PLLI2SRDY n" "\<not> bit RCC_CR_PLLSAION n" "\<not> bit RCC_CR_PLLSAIRDY n"
  using assms by (cases n; simp add: reg_consts bit_Suc bit_0)+

lemma HAL_RCC_DeInit_resets:
  assumes "reset_waits (waits s)" and "core_wf (core (hal s))"
  shows "\<exists>st s'. HAL_RCC_DeInit s = Inr (st, s') \<and> SYSCLK_SOURCE s' = 0 \<and> SystemCoreClock (hal s') = HSI_VALUE
    \<and> rcc_CFGR s' = 0 \<and> rcc_PLLCFGR s' = 0x24003010 \<and> rcc_CR s' AND (RCC_CR_HSEON OR RCC_CR_HSEBYP OR RCC_CR_CSSON OR RCC_CR_PLLON) = 0
    \<and> rcc_CR s' AND RCC_CR_HSION = RCC_CR_HSION"
proof -
  from assms(1) obtain t1 t2 t3 t4 t5 t6 p1 p2 p3 p4 p5 p6 where w: "waits s = [(t1, p1), (t2, p2), (t3, p3), (t4, p4), (t5, p5), (t6, p6)]"
      "rcc_poll 2 t1 p1 = Inr True" "rcc_poll 5000 t2 p2 = Inr True" "rcc_poll 100 t3 p3 = Inr True"
      "rcc_poll 2 t4 p4 = Inr True" "rcc_poll 100 t5 p5 = Inr True" "rcc_poll 100 t6 p6 = Inr True"
    by (auto simp: reset_waits_def list_all2_Cons1)
  define h where "h = (hal s)\<lparr>SystemCoreClock := HSI_VALUE\<rparr>"
  from assms(2) have "core_wf (core h)" by (simp add: h_def)
  from HAL_InitTick_returns [OF this, of "uwTickPrio (hal s)"] obtain st h' where "HAL_InitTick (uwTickPrio (hal s)) h = Inr (st, h')"
      "SystemCoreClock h' = HSI_VALUE" by (auto simp: h_def)
  then show ?thesis
    using w by (simp add: HAL_RCC_DeInit_def rcc_wait_reached cr_set_def cr_clear_def cfgr_modify_def rcc_tick_def h_def Let_def
        SYSCLK_SOURCE_def modify_reg_def) (intro conjI bit_word_eqI; auto simp: bit_simps dest: hsion_apart)
qed

end
