(* ===== verification/Lwip_Timeouts.thy ===== *)
theory Lwip_Timeouts
  imports Sys_Arch "HOL-Library.Multiset"
begin

text \<open>
  Model of \<^verbatim>\<open>src/lwip-2.1.2/src/core/timeouts.c\<close>, the timers of the network stack, in the
  configuration of this program, on top of the clock of \<open>Sys_Arch\<close>. The list of timeouts is a list,
  their pool the number of free elements. What the handlers do to the rest of the stack is a
  parameter, and so is the time they take: they act on the state of the stack and of the kernel.
\<close>

section \<open>State\<close>

datatype sys_timeout_handler = Cyclic_Timer | Tcpip_Tcp_Timer | App_Handler nat

text \<open>\<open>h\<close> may be a null pointer; \<open>arg\<close> is the index of the cyclic timer or whatever the caller gave.\<close>

record sys_timeo =
  time :: u32
  h :: "sys_timeout_handler option"
  arg :: nat

record ('w, 'k) timeouts =
  next_timeout :: "sys_timeo list"
  free_timeouts :: nat
  current_timeout_due_time :: u32
  tcpip_tcp_timer_active :: bool
  kernel :: 'k
  stack_state :: 'w

record ('w, 'k) handlers =
  tmr :: "nat \<Rightarrow> 'w \<times> 'k \<Rightarrow> 'w \<times> 'k"
  tcp_pcbs :: "'w \<Rightarrow> bool"
  app :: "nat \<Rightarrow> nat \<Rightarrow> ('w, 'k) timeouts \<Rightarrow> ('w, 'k) timeouts"

definition LWIP_MAX_TIMEOUT :: u32 where [reg_consts]: "LWIP_MAX_TIMEOUT = 0x7FFFFFFF"
definition SYS_TIMEOUTS_SLEEPTIME_INFINITE :: u32 where [reg_consts]: "SYS_TIMEOUTS_SLEEPTIME_INFINITE = 0xFFFFFFFF"
definition MEMP_NUM_SYS_TIMEOUT :: nat where [reg_consts]: "MEMP_NUM_SYS_TIMEOUT = 5"
definition TCP_TMR_INTERVAL :: u32 where [reg_consts]: "TCP_TMR_INTERVAL = 250"

text \<open>The intervals of TCP, reassembly, ARP and DHCP (coarse and fine).\<close>

definition lwip_cyclic_timers :: "u32 list" where
  "lwip_cyclic_timers = [TCP_TMR_INTERVAL, 1000, 1000, 60000, 500]"

definition TIME_LESS_THAN :: "u32 \<Rightarrow> u32 \<Rightarrow> bool" where
  "TIME_LESS_THAN t compare_to \<longleftrightarrow> t - compare_to > LWIP_MAX_TIMEOUT"

section \<open>Operations\<close>

fun timeo_insert :: "sys_timeo \<Rightarrow> sys_timeo list \<Rightarrow> sys_timeo list" where
  "timeo_insert x [] = [x]"
| "timeo_insert x (t # ts) = (if TIME_LESS_THAN (time x) (time t) then x # t # ts else t # timeo_insert x ts)"

definition sys_timeout_abs :: "u32 \<Rightarrow> sys_timeout_handler option \<Rightarrow> nat \<Rightarrow> ('w, 'k) timeouts \<Rightarrow> ('w, 'k) timeouts" where
  "sys_timeout_abs abs_time handler a s =
     (if free_timeouts s = 0 then s
      else s\<lparr>free_timeouts := free_timeouts s - 1,
             next_timeout := timeo_insert \<lparr>time = abs_time, h = handler, arg = a\<rparr> (next_timeout s)\<rparr>)"

definition sys_timeout :: "'k rtos \<Rightarrow> u32 \<Rightarrow> sys_timeout_handler option \<Rightarrow> nat \<Rightarrow> ('w, 'k) timeouts \<Rightarrow> ('w, 'k) timeouts" where
  "sys_timeout K msecs handler a s = sys_timeout_abs (sys_now K (kernel s) + msecs) handler a s"

definition run_tmr :: "('w, 'k) handlers \<Rightarrow> nat \<Rightarrow> ('w, 'k) timeouts \<Rightarrow> ('w, 'k) timeouts" where
  "run_tmr E i s = (case tmr E i (stack_state s, kernel s) of (w, k) \<Rightarrow> s\<lparr>stack_state := w, kernel := k\<rparr>)"

definition lwip_cyclic_timer :: "('w, 'k) handlers \<Rightarrow> 'k rtos \<Rightarrow> nat \<Rightarrow> ('w, 'k) timeouts \<Rightarrow> ('w, 'k) timeouts" where
  "lwip_cyclic_timer E K i s =
     (let s1 = run_tmr E i s; interval = lwip_cyclic_timers ! i; now = sys_now K (kernel s1);
          next_timeout_time = current_timeout_due_time s1 + interval
      in if TIME_LESS_THAN next_timeout_time now then sys_timeout_abs (now + interval) (Some Cyclic_Timer) i s1
         else sys_timeout_abs next_timeout_time (Some Cyclic_Timer) i s1)"

definition tcpip_tcp_timer :: "('w, 'k) handlers \<Rightarrow> 'k rtos \<Rightarrow> ('w, 'k) timeouts \<Rightarrow> ('w, 'k) timeouts" where
  "tcpip_tcp_timer E K s =
     (let s1 = run_tmr E 0 s
      in if tcp_pcbs E (stack_state s1) then sys_timeout K TCP_TMR_INTERVAL (Some Tcpip_Tcp_Timer) 0 s1
         else s1\<lparr>tcpip_tcp_timer_active := False\<rparr>)"

definition tcp_timer_needed :: "('w, 'k) handlers \<Rightarrow> 'k rtos \<Rightarrow> ('w, 'k) timeouts \<Rightarrow> ('w, 'k) timeouts" where
  "tcp_timer_needed E K s =
     (if \<not> tcpip_tcp_timer_active s \<and> tcp_pcbs E (stack_state s)
      then sys_timeout K TCP_TMR_INTERVAL (Some Tcpip_Tcp_Timer) 0 (s\<lparr>tcpip_tcp_timer_active := True\<rparr>)
      else s)"

definition sys_timeouts_init :: "'k rtos \<Rightarrow> ('w, 'k) timeouts \<Rightarrow> ('w, 'k) timeouts" where
  "sys_timeouts_init K s =
     fold (\<lambda>i. sys_timeout K (lwip_cyclic_timers ! i) (Some Cyclic_Timer) i) [1..<length lwip_cyclic_timers] s"

fun timeo_remove :: "sys_timeout_handler option \<Rightarrow> nat \<Rightarrow> sys_timeo list \<Rightarrow> sys_timeo list" where
  "timeo_remove handler a [] = []"
| "timeo_remove handler a (t # ts) = (if h t = handler \<and> arg t = a then ts else t # timeo_remove handler a ts)"

definition sys_untimeout :: "sys_timeout_handler option \<Rightarrow> nat \<Rightarrow> ('w, 'k) timeouts \<Rightarrow> ('w, 'k) timeouts" where
  "sys_untimeout handler a s =
     (if \<exists>t \<in> set (next_timeout s). h t = handler \<and> arg t = a
      then s\<lparr>next_timeout := timeo_remove handler a (next_timeout s), free_timeouts := free_timeouts s + 1\<rparr> else s)"

fun run_handler :: "('w, 'k) handlers \<Rightarrow> 'k rtos \<Rightarrow> sys_timeout_handler option \<Rightarrow> nat \<Rightarrow> ('w, 'k) timeouts \<Rightarrow> ('w, 'k) timeouts" where
  "run_handler E K None a s = s"
| "run_handler E K (Some Cyclic_Timer) a s = lwip_cyclic_timer E K a s"
| "run_handler E K (Some Tcpip_Tcp_Timer) a s = tcpip_tcp_timer E K s"
| "run_handler E K (Some (App_Handler i)) a s = app E i a s"

text \<open>The loop of \<^verbatim>\<open>sys_check_timeouts\<close>; handlers may add timeouts that have expired already, so it
  need not end.\<close>

partial_function (option) check_loop :: "('w, 'k) handlers \<Rightarrow> 'k rtos \<Rightarrow> u32 \<Rightarrow> ('w, 'k) timeouts \<Rightarrow> ('w, 'k) timeouts option" where
  "check_loop E K now s =
     (case next_timeout s of [] \<Rightarrow> Some s
      | t # ts \<Rightarrow>
        if TIME_LESS_THAN now (time t) then Some s
        else check_loop E K now (run_handler E K (h t) (arg t)
          (s\<lparr>next_timeout := ts, current_timeout_due_time := time t, free_timeouts := free_timeouts s + 1\<rparr>)))"

definition sys_check_timeouts :: "('w, 'k) handlers \<Rightarrow> 'k rtos \<Rightarrow> ('w, 'k) timeouts \<Rightarrow> ('w, 'k) timeouts option" where
  "sys_check_timeouts E K s = check_loop E K (sys_now K (kernel s)) s"

definition sys_restart_timeouts :: "'k rtos \<Rightarrow> ('w, 'k) timeouts \<Rightarrow> ('w, 'k) timeouts" where
  "sys_restart_timeouts K s =
     (case next_timeout s of [] \<Rightarrow> s
      | t0 # _ \<Rightarrow> s\<lparr>next_timeout := map (\<lambda>t. t\<lparr>time := (time t - time t0) + sys_now K (kernel s)\<rparr>) (next_timeout s)\<rparr>)"

definition sys_timeouts_sleeptime :: "'k rtos \<Rightarrow> ('w, 'k) timeouts \<Rightarrow> u32" where
  "sys_timeouts_sleeptime K s =
     (case next_timeout s of [] \<Rightarrow> SYS_TIMEOUTS_SLEEPTIME_INFINITE
      | t # _ \<Rightarrow> let now = sys_now K (kernel s) in if TIME_LESS_THAN (time t) now then 0 else time t - now)"

section \<open>Circular time\<close>

text \<open>Times are compared by their distance from a base in the past.\<close>

definition off :: "u32 \<Rightarrow> u32 \<Rightarrow> nat" where
  "off b t = unat (t - b)"

abbreviation near :: "u32 \<Rightarrow> u32 \<Rightarrow> bool" where
  "near b t \<equiv> off b t < 2 ^ 31"

lemma TIME_LESS_THAN_off: "near b t \<Longrightarrow> near b u \<Longrightarrow> TIME_LESS_THAN t u \<longleftrightarrow> off b t < off b u"
proof -
  assume n: "near b t" "near b u"
  have e: "t - u = (t - b) - (u - b)" by simp
  show ?thesis
    using n unfolding TIME_LESS_THAN_def off_def e word_less_nat_alt LWIP_MAX_TIMEOUT_def
    by (subst unat_sub_if') auto
qed

lemma off_add: "off b t + unat d < 2 ^ 32 \<Longrightarrow> off b (t + d) = off b t + unat d"
proof -
  assume a: "off b t + unat d < 2 ^ 32"
  have e: "t + d - b = (t - b) + d" by simp
  show ?thesis using a unfolding off_def e unat_word_ariths by simp
qed

definition timeo_sorted :: "u32 \<Rightarrow> sys_timeo list \<Rightarrow> bool" where
  "timeo_sorted b q \<longleftrightarrow> sorted (map (\<lambda>t. off b (time t)) q) \<and> (\<forall>t \<in> set q. near b (time t))"

lemma timeo_sorted_simps [simp]:
  "timeo_sorted b []"
  "timeo_sorted b (t # q) \<longleftrightarrow> near b (time t) \<and> (\<forall>u \<in> set q. off b (time t) \<le> off b (time u)) \<and> timeo_sorted b q"
  by (auto simp: timeo_sorted_def)

lemma set_timeo_insert [simp]: "set (timeo_insert x q) = insert x (set q)"
  by (induction q) auto

lemma mset_timeo_insert [simp]: "mset (timeo_insert x q) = add_mset x (mset q)"
  by (induction q) auto

lemma length_timeo_insert [simp]: "length (timeo_insert x q) = Suc (length q)"
  by (induction q) auto

text \<open>Inserting keeps the order and puts the new timeout behind all that are due no later.\<close>

lemma timeo_insert_sorted: "timeo_sorted b q \<Longrightarrow> near b (time x) \<Longrightarrow> timeo_sorted b (timeo_insert x q)"
  by (induction q) (simp_all add: TIME_LESS_THAN_off, fastforce)

lemma timeo_insert_split:
  assumes "timeo_sorted b q" "near b (time x)"
  shows "timeo_insert x q = takeWhile (\<lambda>t. off b (time t) \<le> off b (time x)) q @ x # dropWhile (\<lambda>t. off b (time t) \<le> off b (time x)) q"
  using assms by (induction q) (simp_all add: TIME_LESS_THAN_off)

text \<open>A timeout that is cancelled leaves the list as it was.\<close>

lemma timeo_remove_insert:
  "\<forall>t \<in> set q. \<not> (h t = h x \<and> arg t = arg x) \<Longrightarrow> timeo_remove (h x) (arg x) (timeo_insert x q) = q"
  by (induction q) auto

lemma sys_timeout_untimeout:
  assumes "free_timeouts s > 0" "\<forall>t \<in> set (next_timeout s). \<not> (h t = handler \<and> arg t = a)"
  shows "sys_untimeout handler a (sys_timeout K msecs handler a s) = s"
  using assms timeo_remove_insert [of "next_timeout s" "\<lparr>time = t, h = handler, arg = a\<rparr>" for t]
  by (simp add: sys_untimeout_def sys_timeout_def sys_timeout_abs_def)

section \<open>Running the cyclic timers\<close>

text \<open>The clock during handlers: seen from the base \<open>b\<close> it does not go back, and a handler takes at
  most \<open>D\<close> milliseconds.\<close>

definition steady :: "('w, 'k) handlers \<Rightarrow> 'k rtos \<Rightarrow> u32 \<Rightarrow> nat \<Rightarrow> bool" where
  "steady E K b D \<longleftrightarrow> (\<forall>i w k. off b (sys_now K k) < 2 ^ 30 \<longrightarrow>
     off b (sys_now K k) \<le> off b (sys_now K (snd (tmr E i (w, k)))) \<and> off b (sys_now K (snd (tmr E i (w, k)))) \<le> off b (sys_now K k) + D)"

definition cyclic :: "sys_timeo \<Rightarrow> bool" where
  "cyclic t \<longleftrightarrow> h t = Some Cyclic_Timer \<and> arg t < length lwip_cyclic_timers"

text \<open>A timer that is overdue can run twice in one turn, if after the first run it is due exactly now.\<close>

definition runs_left :: "nat \<Rightarrow> nat \<Rightarrow> nat" where
  "runs_left now d = (if d < now then 2 else if d = now then 1 else 0)"

abbreviation all_runs :: "u32 \<Rightarrow> u32 \<Rightarrow> sys_timeo list \<Rightarrow> nat" where
  "all_runs b now q \<equiv> sum_list (map (\<lambda>t. runs_left (off b now) (off b (time t))) q)"

lemma all_runs_insert: "all_runs b now (timeo_insert x q) = runs_left (off b now) (off b (time x)) + all_runs b now q"
  by (induction q) auto

lemma interval_bounds:
  assumes "i < length lwip_cyclic_timers"
  shows "0 < unat (lwip_cyclic_timers ! i)" "unat (lwip_cyclic_timers ! i) \<le> 60000"
proof -
  have "i \<in> {0, 1, 2, 3, 4}" using assms by (auto simp: lwip_cyclic_timers_def)
  then show "0 < unat (lwip_cyclic_timers ! i)" "unat (lwip_cyclic_timers ! i) \<le> 60000"
    by (auto simp: lwip_cyclic_timers_def TCP_TMR_INTERVAL_def)
qed

text \<open>One run of a cyclic timer: it is back in the list, due later than before and not before the clock.\<close>

lemma lwip_cyclic_timer_run:
  assumes i: "i < length lwip_cyclic_timers" and st: "steady E K b D" and free: "free_timeouts s > 0"
    and d: "off b (current_timeout_due_time s) < 2 ^ 30" and now: "off b (sys_now K (kernel s)) + D < 2 ^ 30"
  shows "\<exists>t w k. lwip_cyclic_timer E K i s = s\<lparr>stack_state := w, kernel := k, free_timeouts := free_timeouts s - 1,
        next_timeout := timeo_insert \<lparr>time = t, h = Some Cyclic_Timer, arg = i\<rparr> (next_timeout s)\<rparr>
    \<and> off b (current_timeout_due_time s) < off b t \<and> off b (sys_now K (kernel s)) \<le> off b t
    \<and> off b t \<le> max (off b (current_timeout_due_time s)) (off b (sys_now K k)) + 60000
    \<and> off b (sys_now K (kernel s)) \<le> off b (sys_now K k) \<and> off b (sys_now K k) \<le> off b (sys_now K (kernel s)) + D"
proof -
  obtain w k where wk: "tmr E i (stack_state s, kernel s) = (w, k)" by (cases "tmr E i (stack_state s, kernel s)")
  have k: "off b (sys_now K (kernel s)) \<le> off b (sys_now K k)" "off b (sys_now K k) \<le> off b (sys_now K (kernel s)) + D"
    using st now wk unfolding steady_def by (metis add_leD1 le_less_trans snd_conv add.commute le_add1)+
  let ?I = "lwip_cyclic_timers ! i" and ?d = "current_timeout_due_time s" and ?n = "sys_now K k"
  note I = interval_bounds [OF i]
  have o: "off b (?d + ?I) = off b ?d + unat ?I" "off b (?n + ?I) = off b ?n + unat ?I" using d now k I by (auto intro!: off_add)
  have less: "TIME_LESS_THAN (?d + ?I) ?n \<longleftrightarrow> off b ?d + unat ?I < off b ?n"
    using TIME_LESS_THAN_off [of b "?d + ?I" ?n] o d now k I by simp
  define t where "t = (if TIME_LESS_THAN (?d + ?I) ?n then ?n + ?I else ?d + ?I)"
  have "lwip_cyclic_timer E K i s = s\<lparr>stack_state := w, kernel := k, free_timeouts := free_timeouts s - 1,
        next_timeout := timeo_insert \<lparr>time = t, h = Some Cyclic_Timer, arg = i\<rparr> (next_timeout s)\<rparr>"
    using free by (simp add: lwip_cyclic_timer_def run_tmr_def wk Let_def sys_timeout_abs_def t_def)
  moreover have "off b ?d < off b t \<and> off b (sys_now K (kernel s)) \<le> off b t \<and> off b t \<le> max (off b ?d) (off b ?n) + 60000"
    using o less I k by (auto simp: t_def)
  ultimately show ?thesis using k by blast
qed

text \<open>What the loop keeps from turn to turn.\<close>

definition check_inv :: "'k rtos \<Rightarrow> u32 \<Rightarrow> nat \<Rightarrow> u32 \<Rightarrow> ('w, 'k) timeouts \<Rightarrow> bool" where
  "check_inv K b D now s \<longleftrightarrow> timeo_sorted b (next_timeout s) \<and> (\<forall>t \<in> set (next_timeout s). cyclic t)
     \<and> off b now \<le> off b (sys_now K (kernel s)) \<and> off b (sys_now K (kernel s)) + all_runs b now (next_timeout s) * D < 2 ^ 30"

text \<open>One turn: the first timer of the list is due.\<close>

lemma check_loop_turn:
  assumes st: "steady E K b D" and inv: "check_inv K b D now s" and q: "next_timeout s = t # ts" and due: "off b (time t) \<le> off b now"
  shows "\<exists>s'. check_loop E K now s = check_loop E K now s' \<and> check_inv K b D now s'
    \<and> all_runs b now (next_timeout s') < all_runs b now (next_timeout s)
    \<and> mset (map arg (next_timeout s')) = mset (map arg (next_timeout s)) \<and> free_timeouts s' = free_timeouts s"
proof -
  let ?s = "s\<lparr>next_timeout := ts, current_timeout_due_time := time t, free_timeouts := free_timeouts s + 1\<rparr>"
  let ?r = "runs_left (off b now) (off b (time t))"
  have t: "near b (time t)" "cyclic t" "timeo_sorted b ts" "\<forall>u \<in> set ts. cyclic u" and le: "off b now \<le> off b (sys_now K (kernel s))"
    using inv q by (simp_all add: check_inv_def)
  have e: "all_runs b now (next_timeout s) = ?r + all_runs b now ts" by (simp add: q)
  have c: "off b (sys_now K (kernel s)) + ?r * D + all_runs b now ts * D < 2 ^ 30"
    using inv unfolding check_inv_def e add_mult_distrib by linarith
  have "1 * D \<le> ?r * D" using due by (intro mult_le_mono1) (simp add: runs_left_def)
  then have D: "off b (sys_now K (kernel s)) + D < 2 ^ 30" using c by linarith
  obtain u w k where u: "lwip_cyclic_timer E K (arg t) ?s = ?s\<lparr>stack_state := w, kernel := k, free_timeouts := free_timeouts s,
        next_timeout := timeo_insert \<lparr>time = u, h = Some Cyclic_Timer, arg = arg t\<rparr> ts\<rparr>"
      "off b (time t) < off b u" "off b (sys_now K (kernel s)) \<le> off b u"
      "off b u \<le> max (off b (time t)) (off b (sys_now K k)) + 60000"
      "off b (sys_now K (kernel s)) \<le> off b (sys_now K k)" "off b (sys_now K k) \<le> off b (sys_now K (kernel s)) + D"
    using lwip_cyclic_timer_run [of "arg t" E K b D ?s] st le t(2) due D by (auto simp: cyclic_def)
  define s2 where "s2 = lwip_cyclic_timer E K (arg t) ?s"
  have s2: "next_timeout s2 = timeo_insert \<lparr>time = u, h = Some Cyclic_Timer, arg = arg t\<rparr> ts" "kernel s2 = k" "free_timeouts s2 = free_timeouts s"
    unfolding s2_def u(1) by simp_all
  have fewer: "Suc (runs_left (off b now) (off b u)) \<le> ?r" using u(2,3) due le by (auto simp: runs_left_def)
  then have "Suc (runs_left (off b now) (off b u)) * D \<le> ?r * D" by (rule mult_le_mono1)
  then have "off b (sys_now K k) + all_runs b now (next_timeout s2) * D < 2 ^ 30"
    using u(6) c unfolding s2(1) all_runs_insert add_mult_distrib by simp
  moreover have "near b u" using u(4,6) due D le by simp
  ultimately have "check_inv K b D now s2"
    using timeo_insert_sorted [OF t(3), of "\<lparr>time = u, h = Some Cyclic_Timer, arg = arg t\<rparr>"] t(2,4) u(5) le
    by (simp add: check_inv_def s2 cyclic_def)
  moreover have "near b now" using due le D by simp
  then have "check_loop E K now s = check_loop E K now s2"
    using q due t(1,2) by (subst check_loop.simps) (simp add: TIME_LESS_THAN_off cyclic_def s2_def)
  ultimately show ?thesis using fewer by (intro exI [of _ s2]) (simp add: s2 q all_runs_insert)
qed

lemma check_loop_cyclic:
  assumes "steady E K b D" "check_inv K b D now s"
  shows "\<exists>s'. check_loop E K now s = Some s' \<and> check_inv K b D now s' \<and> (\<forall>t \<in> set (next_timeout s'). off b now < off b (time t))
    \<and> mset (map arg (next_timeout s')) = mset (map arg (next_timeout s)) \<and> free_timeouts s' = free_timeouts s"
  using assms
proof (induction "all_runs b now (next_timeout s)" arbitrary: s rule: less_induct)
  case less
  have near: "near b now" using less.prems by (simp add: check_inv_def)
  show ?case
  proof (cases "\<exists>t ts. next_timeout s = t # ts \<and> off b (time t) \<le> off b now")
    case True
    then obtain t ts where "next_timeout s = t # ts" "off b (time t) \<le> off b now" by blast
    from check_loop_turn [OF less.prems this] less.hyps [OF _ less.prems(1)] show ?thesis by metis
  next
    case False
    then have later: "\<forall>t \<in> set (next_timeout s). off b now < off b (time t)"
      using less.prems(2) by (cases "next_timeout s") (fastforce simp: check_inv_def)+
    moreover have "near b (time t)" if "t \<in> set (next_timeout s)" for t using less.prems(2) that by (simp add: check_inv_def timeo_sorted_def)
    ultimately have "TIME_LESS_THAN now (time t)" if "t \<in> set (next_timeout s)" for t using TIME_LESS_THAN_off [OF near] that by blast
    then have "check_loop E K now s = Some s" by (subst check_loop.simps) (auto split: list.split)
    then show ?thesis using later less.prems(2) by blast
  qed
qed

section \<open>The clock wraps early\<close>

text \<open>The clock never reaches \<open>858993460\<close>; a timeout due then or later, as far as times can be
  compared, never expires.\<close>

definition CLOCK_END :: u32 where [reg_consts]: "CLOCK_END = 858993460"

definition never_due :: "u32 \<Rightarrow> bool" where
  "never_due t \<longleftrightarrow> CLOCK_END \<le> t \<and> t \<le> LWIP_MAX_TIMEOUT"

lemma sys_now_end: "sys_now K k < CLOCK_END"
proof -
  have "unat (osKernelGetTickCount K k) < 2 ^ LENGTH(32)" by (rule unsigned_less)
  then show ?thesis by (simp add: sys_now_def word_less_nat_alt unat_div reg_consts)
qed

lemma never_due_later:
  assumes "never_due t"
  shows "TIME_LESS_THAN (sys_now K k) t" "\<not> TIME_LESS_THAN t (sys_now K k)"
proof -
  have o: "off 0 (sys_now K k) < off 0 t" "near 0 (sys_now K k)" "near 0 t"
    using assms sys_now_end [of K k] by (simp_all add: off_def never_due_def word_le_nat_alt word_less_nat_alt reg_consts)
  show "TIME_LESS_THAN (sys_now K k) t" "\<not> TIME_LESS_THAN t (sys_now K k)"
    using TIME_LESS_THAN_off [OF o(2,3)] TIME_LESS_THAN_off [OF o(3,2)] o(1) by simp_all
qed

lemma check_never_due:
  assumes "\<forall>t \<in> set (next_timeout s). never_due (time t)"
  shows "sys_check_timeouts E K s = Some s"
  using assms never_due_later(1) [of _ K "kernel s"] unfolding sys_check_timeouts_def
  by (subst check_loop.simps) (auto split: list.split)

section \<open>Properties\<close>

text \<open>
  Property C17: the timers of the stack. When only cyclic timers are in the list, the clock does
  not go back during the handlers and each takes at most \<open>D\<close> milliseconds,
  \<^verbatim>\<open>sys_check_timeouts\<close> ends, although handlers put their timers back into the list while
  it runs. Afterwards the list is in order again, every timer is still there, which the pool always
  has room for, and none of them is due at the time the call began: each that was due has run.
\<close>

theorem sys_check_timeouts_cyclic:
  assumes "steady E K b D" and "timeo_sorted b (next_timeout s)" and "\<forall>t \<in> set (next_timeout s). cyclic t"
    and "off b (sys_now K (kernel s)) + 2 * length (next_timeout s) * D < 2 ^ 30"
  shows "\<exists>s'. sys_check_timeouts E K s = Some s' \<and> timeo_sorted b (next_timeout s')
    \<and> mset (map arg (next_timeout s')) = mset (map arg (next_timeout s)) \<and> free_timeouts s' = free_timeouts s
    \<and> (\<forall>t \<in> set (next_timeout s'). cyclic t \<and> TIME_LESS_THAN (sys_now K (kernel s)) (time t))"
proof -
  let ?now = "sys_now K (kernel s)"
  have "all_runs b now q \<le> 2 * length q" for now q
    by (induction q) (auto simp: runs_left_def)
  then have "all_runs b ?now (next_timeout s) * D \<le> 2 * length (next_timeout s) * D" by (rule mult_le_mono1)
  then have "off b ?now + all_runs b ?now (next_timeout s) * D < 2 ^ 30" using assms(4) by linarith
  then have "check_inv K b D ?now s" using assms(2,3) by (simp add: check_inv_def)
  from check_loop_cyclic [OF assms(1) this] obtain s' where s': "sys_check_timeouts E K s = Some s'"
      "timeo_sorted b (next_timeout s')" "\<forall>t \<in> set (next_timeout s'). cyclic t \<and> off b ?now < off b (time t)"
      "mset (map arg (next_timeout s')) = mset (map arg (next_timeout s))" "free_timeouts s' = free_timeouts s"
    unfolding sys_check_timeouts_def check_inv_def by blast
  have "near b ?now" using assms(4) by simp
  then have "TIME_LESS_THAN ?now (time t)" if "t \<in> set (next_timeout s')" for t
    using TIME_LESS_THAN_off [of b ?now "time t"] s'(2,3) that by (simp add: timeo_sorted_def)
  then show ?thesis using s' by blast
qed

text \<open>A kernel that is a tick counter, and handlers that count their runs and take two milliseconds.\<close>

definition tick_kernel :: "u32 rtos" where
  "tick_kernel = \<lparr>osKernelGetTickCount = (\<lambda>k. k), osDelay = (\<lambda>n k. k + n), osThreadNew = (\<lambda>_ _ _ k. (0, k)),
     osMutexNew = (\<lambda>_ k. (0, k)), osMutexAcquire = (\<lambda>_ _ k. Some (osOK, k)), osMutexRelease = (\<lambda>_ k. (osOK, k)), osMutexDelete = (\<lambda>_ k. (osOK, k)),
     osMessageQueueNew = (\<lambda>_ _ k. (0, k)), osMessageQueuePut = (\<lambda>_ _ _ _ k. None), osMessageQueueGet = (\<lambda>_ _ _ k. None),
     osMessageQueueDelete = (\<lambda>_ k. (osOK, k)), osSemaphoreNew = (\<lambda>_ _ k. (0, k)), osSemaphoreAcquire = (\<lambda>_ _ k. None),
     osSemaphoreRelease = (\<lambda>_ k. (osOK, k)), osSemaphoreDelete = (\<lambda>_ k. (osOK, k))\<rparr>"

definition counting :: "(nat list, u32) handlers" where
  "counting = \<lparr>tmr = (\<lambda>i (w, k). (w @ [i], k)), tcp_pcbs = (\<lambda>_. False), app = (\<lambda>_ _ s. s)\<rparr>"

definition timers_on :: "u32 \<Rightarrow> (nat list, u32) timeouts" where
  "timers_on k = sys_timeouts_init tick_kernel
     \<lparr>next_timeout = [], free_timeouts = MEMP_NUM_SYS_TIMEOUT, current_timeout_due_time = 0, tcpip_tcp_timer_active = False, kernel = k, stack_state = []\<rparr>"

theorem sys_check_timeouts_cyclic_witness:
  "\<exists>s'. sys_check_timeouts counting tick_kernel ((timers_on 0)\<lparr>kernel := 6000\<rparr>) = Some s'
    \<and> mset (map arg (next_timeout s')) = {#1, 2, 3, 4#} \<and> (\<forall>t \<in> set (next_timeout s'). TIME_LESS_THAN 1200 (time t))"
proof -
  let ?s = "(timers_on 0)\<lparr>kernel := 6000\<rparr>"
  have q: "next_timeout ?s = [\<lparr>time = 500, h = Some Cyclic_Timer, arg = 4\<rparr>, \<lparr>time = 1000, h = Some Cyclic_Timer, arg = 1\<rparr>,
      \<lparr>time = 1000, h = Some Cyclic_Timer, arg = 2\<rparr>, \<lparr>time = 60000, h = Some Cyclic_Timer, arg = 3\<rparr>]"
    by (simp add: timers_on_def sys_timeouts_init_def lwip_cyclic_timers_def sys_timeout_def sys_timeout_abs_def sys_now_def tick_kernel_def
      TIME_LESS_THAN_def reg_consts upt_rec)
  have now: "sys_now tick_kernel (kernel ?s) = 1200" by (simp add: sys_now_def tick_kernel_def reg_consts)
  have "steady counting tick_kernel 0 0" by (simp add: steady_def counting_def)
  moreover have "timeo_sorted 0 (next_timeout ?s)" "\<forall>t \<in> set (next_timeout ?s). cyclic t"
    unfolding q by (simp_all add: off_def cyclic_def lwip_cyclic_timers_def)
  moreover have "off 0 (sys_now tick_kernel (kernel ?s)) + 2 * length (next_timeout ?s) * 0 < 2 ^ 30" unfolding now by (simp add: off_def)
  ultimately show ?thesis using sys_check_timeouts_cyclic [of counting tick_kernel 0 0 ?s] unfolding now q by auto
qed

text \<open>
  Property C18: the timers stop. \<^verbatim>\<open>sys_now\<close> divides the tick counter of the kernel, so it goes
  back to zero after \<open>858993459\<close> ms, less than ten days, and not after \<open>2\<^sup>3\<^sup>2\<close> ms as the comparison
  of times supposes. A cyclic timer whose last period before that point ends after it is put back
  into the list with a time the clock never shows; once every timer is in that state
  \<^verbatim>\<open>sys_check_timeouts\<close> does nothing for ever, whatever the kernel's counter, and the thread of the
  stack is never told that a timeout is due.
\<close>

theorem timers_stop_at_wrap:
  assumes "i < length lwip_cyclic_timers" and "free_timeouts s > 0" and "\<forall>t \<in> set (next_timeout s). never_due (time t)"
    and "current_timeout_due_time s < CLOCK_END" and "CLOCK_END \<le> current_timeout_due_time s + lwip_cyclic_timers ! i"
  shows "\<exists>s'. lwip_cyclic_timer E K i s = s' \<and> next_timeout s' \<noteq> []
    \<and> (\<forall>k. sys_check_timeouts E K (s'\<lparr>kernel := k\<rparr>) = Some (s'\<lparr>kernel := k\<rparr>) \<and> sys_timeouts_sleeptime K (s'\<lparr>kernel := k\<rparr>) \<noteq> 0)"
proof -
  obtain w k where wk: "tmr E i (stack_state s, kernel s) = (w, k)" by (cases "tmr E i (stack_state s, kernel s)")
  let ?t = "current_timeout_due_time s + lwip_cyclic_timers ! i"
  have "?t \<le> LWIP_MAX_TIMEOUT"
    using assms(4) interval_bounds [OF assms(1)] by (simp add: word_le_nat_alt word_less_nat_alt unat_word_ariths reg_consts)
  then have nd: "never_due ?t" using assms(5) by (simp add: never_due_def)
  define s' where "s' = lwip_cyclic_timer E K i s"
  have q: "next_timeout s' = timeo_insert \<lparr>time = ?t, h = Some Cyclic_Timer, arg = i\<rparr> (next_timeout s)"
    using assms(2) never_due_later(2) [OF nd, of K k]
    by (simp add: s'_def lwip_cyclic_timer_def run_tmr_def wk Let_def sys_timeout_abs_def)
  have all: "\<forall>t \<in> set (next_timeout s'). never_due (time t)" using q nd assms(3) by simp
  have ne: "next_timeout s' \<noteq> []" unfolding q by (cases "next_timeout s") auto
  have "sys_check_timeouts E K (s'\<lparr>kernel := k\<rparr>) = Some (s'\<lparr>kernel := k\<rparr>)" for k using all by (intro check_never_due) simp
  moreover have "sys_timeouts_sleeptime K (s'\<lparr>kernel := k\<rparr>) \<noteq> 0" for k
  proof -
    obtain t ts where t: "next_timeout s' = t # ts" using ne by (cases "next_timeout s'") auto
    then have "never_due (time t)" using all by simp
    then show ?thesis using t never_due_later(2) [of "time t" K k] sys_now_end [of K k]
      by (auto simp: sys_timeouts_sleeptime_def never_due_def)
  qed
  ultimately show ?thesis using ne s'_def by blast
qed

theorem timers_stop_at_wrap_witness:
  "\<exists>s'. lwip_cyclic_timer counting tick_kernel 2 ((timers_on 0)\<lparr>next_timeout := [], current_timeout_due_time := 858993000\<rparr>) = s'
    \<and> (\<forall>k. sys_check_timeouts counting tick_kernel (s'\<lparr>kernel := k\<rparr>) = Some (s'\<lparr>kernel := k\<rparr>))"
proof -
  let ?s = "(timers_on 0)\<lparr>next_timeout := [], current_timeout_due_time := 858993000\<rparr>"
  have "free_timeouts ?s > 0"
    by (simp add: timers_on_def sys_timeouts_init_def lwip_cyclic_timers_def sys_timeout_def sys_timeout_abs_def reg_consts upt_rec)
  then show ?thesis using timers_stop_at_wrap [of 2 ?s counting tick_kernel] by (simp add: lwip_cyclic_timers_def reg_consts)
qed

end
