(* ===== verification/Lwip_Mem.thy ===== *)
theory Lwip_Mem
  imports Prelude "HOL-Library.Monad_Syntax"
begin

text \<open>
  Model of \<^verbatim>\<open>src/lwip-2.1.2/src/core/mem.c\<close>, the heap of the network stack, in the configuration of
  this program: \<open>MEM_SIZE\<close> is 4096, so \<^verbatim>\<open>mem_size_t\<close> has 16 bits, and the heap is protected by a mutex.
  Addresses, offsets and sizes are natural numbers with the casts to 16 bits and the unsigned
  subtraction written out. A \<^verbatim>\<open>struct mem\<close> is found by its offset in the heap. The loops follow links, so
  they need not end on a corrupt heap: \<open>None\<close> is a call that does not return.
\<close>

section \<open>State\<close>

record mem =
  mem_next :: nat
  mem_prev :: nat
  used :: bool

text \<open>\<open>lfree\<close> is the offset of the lowest free block, \<open>bytes\<close> the memory the clients write, by address.\<close>

record mem_heap =
  ram :: nat
  mems :: "nat \<Rightarrow> mem"
  lfree :: nat
  bytes :: "nat \<Rightarrow> u8"

definition U16 :: "nat \<Rightarrow> nat" where "U16 n = n mod 65536"

definition minus_U32 :: "nat \<Rightarrow> nat \<Rightarrow> nat" where "minus_U32 a b = (a + 2 ^ 32 - b) mod 2 ^ 32"

definition LWIP_MEM_ALIGN_SIZE :: "nat \<Rightarrow> nat" where "LWIP_MEM_ALIGN_SIZE n = (n + 3) div 4 * 4"

definition SIZEOF_STRUCT_MEM :: nat where [reg_consts]: "SIZEOF_STRUCT_MEM = 8"
definition MIN_SIZE_ALIGNED :: nat where [reg_consts]: "MIN_SIZE_ALIGNED = 12"
definition MEM_SIZE_ALIGNED :: nat where [reg_consts]: "MEM_SIZE_ALIGNED = 4096"

definition upd_mem :: "nat \<Rightarrow> (mem \<Rightarrow> mem) \<Rightarrow> 'z mem_heap_scheme \<Rightarrow> 'z mem_heap_scheme" where
  "upd_mem p f s = s\<lparr>mems := (mems s)(p := f (mems s p))\<rparr>"

definition mem_to_ptr :: "'z mem_heap_scheme \<Rightarrow> nat \<Rightarrow> nat" where
  "mem_to_ptr s a = U16 (minus_U32 a (ram s))"

text \<open>The assignment \<^verbatim>\<open>ptr_to_mem(next)->prev = p\<close>, which the code guards against the end of the heap.\<close>

definition set_prev :: "nat \<Rightarrow> nat \<Rightarrow> 'z mem_heap_scheme \<Rightarrow> 'z mem_heap_scheme" where
  "set_prev p nxt s = (if nxt \<noteq> MEM_SIZE_ALIGNED then upd_mem nxt (\<lambda>m. m\<lparr>mem_prev := U16 p\<rparr>) s else s)"

section \<open>Operations\<close>

definition mem_init :: "'z mem_heap_scheme \<Rightarrow> 'z mem_heap_scheme" where
  "mem_init s =
     (upd_mem MEM_SIZE_ALIGNED (\<lambda>_. \<lparr>mem_next = MEM_SIZE_ALIGNED, mem_prev = MEM_SIZE_ALIGNED, used = True\<rparr>)
       (upd_mem 0 (\<lambda>_. \<lparr>mem_next = MEM_SIZE_ALIGNED, mem_prev = 0, used = False\<rparr>)
         (s\<lparr>ram := LWIP_MEM_ALIGN_SIZE (ram s)\<rparr>)))\<lparr>lfree := 0\<rparr>"

definition plug_forward :: "nat \<Rightarrow> 'z mem_heap_scheme \<Rightarrow> 'z mem_heap_scheme" where
  "plug_forward m s =
     (let nmem = mem_next (mems s m)
      in if m \<noteq> nmem \<and> \<not> used (mems s nmem) \<and> nmem \<noteq> MEM_SIZE_ALIGNED
         then let s1 = (if lfree s = nmem then s\<lparr>lfree := m\<rparr> else s); nn = mem_next (mems s1 nmem)
              in set_prev m nn (upd_mem m (\<lambda>x. x\<lparr>mem_next := nn\<rparr>) s1)
         else s)"

definition plug_backward :: "nat \<Rightarrow> 'z mem_heap_scheme \<Rightarrow> 'z mem_heap_scheme" where
  "plug_backward m s =
     (let pmem = mem_prev (mems s m)
      in if pmem \<noteq> m \<and> \<not> used (mems s pmem)
         then let s1 = (if lfree s = m then s\<lparr>lfree := pmem\<rparr> else s); nn = mem_next (mems s1 m)
              in set_prev pmem nn (upd_mem pmem (\<lambda>x. x\<lparr>mem_next := nn\<rparr>) s1)
         else s)"

definition plug_holes :: "nat \<Rightarrow> 'z mem_heap_scheme \<Rightarrow> 'z mem_heap_scheme" where
  "plug_holes m s = plug_backward m (plug_forward m s)"

definition mem_link_valid :: "nat \<Rightarrow> 'z mem_heap_scheme \<Rightarrow> bool" where
  "mem_link_valid m s \<longleftrightarrow>
     (let x = mems s m; rmem_idx = U16 m; nmem = mem_next x; pmem = mem_prev x
      in \<not> (mem_next x > MEM_SIZE_ALIGNED \<or> mem_prev x > MEM_SIZE_ALIGNED
           \<or> mem_prev x \<noteq> rmem_idx \<and> mem_next (mems s pmem) \<noteq> rmem_idx
           \<or> nmem \<noteq> MEM_SIZE_ALIGNED \<and> mem_prev (mems s nmem) \<noteq> rmem_idx))"

text \<open>\<open>rmem\<close> is an address; 0 is the null pointer.\<close>

definition mem_free :: "nat \<Rightarrow> 'z mem_heap_scheme \<Rightarrow> 'z mem_heap_scheme" where
  "mem_free rmem s =
     (if rmem = 0 \<or> rmem mod 4 \<noteq> 0 then s
      else if rmem < ram s + SIZEOF_STRUCT_MEM \<or> rmem + MIN_SIZE_ALIGNED > ram s + MEM_SIZE_ALIGNED then s
      else let m = rmem - SIZEOF_STRUCT_MEM - ram s
           in if \<not> used (mems s m) \<or> \<not> mem_link_valid m s then s
              else let s1 = upd_mem m (\<lambda>x. x\<lparr>used := False\<rparr>) s;
                       s2 = (if m < lfree s1 then s1\<lparr>lfree := m\<rparr> else s1)
                   in plug_holes m s2)"

definition request :: "nat \<Rightarrow> nat" where
  "request n = max (U16 (LWIP_MEM_ALIGN_SIZE n)) MIN_SIZE_ALIGNED"

text \<open>The result is the pointer returned (\<open>None\<close> is a null pointer) and the heap.\<close>

definition mem_trim :: "nat \<Rightarrow> nat \<Rightarrow> 'z mem_heap_scheme \<Rightarrow> nat option \<times> 'z mem_heap_scheme" where
  "mem_trim rmem new_size s =
     (let newsize = request new_size
      in if newsize > MEM_SIZE_ALIGNED \<or> newsize < new_size then (None, s)
         else if rmem < ram s \<or> rmem \<ge> ram s + MEM_SIZE_ALIGNED then (Some rmem, s)
         else let ptr = mem_to_ptr s (minus_U32 rmem SIZEOF_STRUCT_MEM); x = mems s ptr;
                  len = minus_U32 (minus_U32 (mem_next x) ptr mod 65536) SIZEOF_STRUCT_MEM mod 65536;
                  ptr2 = U16 (ptr + SIZEOF_STRUCT_MEM + newsize)
              in if newsize > len then (None, s)
                 else if newsize = len then (Some rmem, s)
                 else if \<not> used (mems s (mem_next x))
                 then let nn = mem_next (mems s (mem_next x));
                          s1 = (if lfree s = mem_next x then s\<lparr>lfree := ptr2\<rparr> else s);
                          s2 = upd_mem ptr2 (\<lambda>_. \<lparr>mem_next = nn, mem_prev = ptr, used = False\<rparr>) s1
                      in (Some rmem, set_prev ptr2 nn (upd_mem ptr (\<lambda>y. y\<lparr>mem_next := ptr2\<rparr>) s2))
                 else if newsize + SIZEOF_STRUCT_MEM + MIN_SIZE_ALIGNED \<le> len
                 then let nn = mem_next x;
                          s1 = (if ptr2 < lfree s then s\<lparr>lfree := ptr2\<rparr> else s);
                          s2 = upd_mem ptr2 (\<lambda>_. \<lparr>mem_next = nn, mem_prev = ptr, used = False\<rparr>) s1
                      in (Some rmem, set_prev ptr2 nn (upd_mem ptr (\<lambda>y. y\<lparr>mem_next := ptr2\<rparr>) s2))
                 else (Some rmem, s))"

partial_function (option) next_free :: "'z mem_heap_scheme \<Rightarrow> nat \<Rightarrow> nat option" where
  "next_free s cur =
     (if used (mems s cur) \<and> cur \<noteq> MEM_SIZE_ALIGNED then next_free s (mem_next (mems s cur)) else Some cur)"

text \<open>The search loop of \<^verbatim>\<open>mem_malloc\<close>.\<close>

partial_function (option) scan :: "'z mem_heap_scheme \<Rightarrow> nat \<Rightarrow> nat \<Rightarrow> nat option option" where
  "scan s sz ptr =
     (if ptr < MEM_SIZE_ALIGNED - sz
      then if \<not> used (mems s ptr) \<and> minus_U32 (mem_next (mems s ptr)) (ptr + SIZEOF_STRUCT_MEM) \<ge> sz
           then Some (Some ptr) else scan s sz (mem_next (mems s ptr))
      else Some None)"

definition take_block :: "nat \<Rightarrow> nat \<Rightarrow> 'z mem_heap_scheme \<Rightarrow> 'z mem_heap_scheme" where
  "take_block sz ptr s =
     (let nn = mem_next (mems s ptr)
      in if minus_U32 nn (ptr + SIZEOF_STRUCT_MEM) \<ge> sz + SIZEOF_STRUCT_MEM + MIN_SIZE_ALIGNED
         then let ptr2 = U16 (ptr + SIZEOF_STRUCT_MEM + sz);
                  s1 = upd_mem ptr2 (\<lambda>_. \<lparr>mem_next = nn, mem_prev = ptr, used = False\<rparr>) s
              in set_prev ptr2 nn (upd_mem ptr (\<lambda>x. x\<lparr>mem_next := ptr2, used := True\<rparr>) s1)
         else upd_mem ptr (\<lambda>x. x\<lparr>used := True\<rparr>) s)"

definition adjust_lfree :: "nat \<Rightarrow> 'z mem_heap_scheme \<Rightarrow> 'z mem_heap_scheme option" where
  "adjust_lfree m s =
     (if m = lfree s then do { c \<leftarrow> next_free s (lfree s); Some (s\<lparr>lfree := c\<rparr>) } else Some s)"

definition mem_malloc :: "nat \<Rightarrow> 'z mem_heap_scheme \<Rightarrow> (nat option \<times> 'z mem_heap_scheme) option" where
  "mem_malloc size_in s =
     (if size_in = 0 then Some (None, s)
      else let sz = request size_in
           in if sz > MEM_SIZE_ALIGNED \<or> sz < size_in then Some (None, s)
              else do {
                r \<leftarrow> scan s sz (lfree s);
                case r of None \<Rightarrow> Some (None, s)
                | Some ptr \<Rightarrow> do {
                    s1 \<leftarrow> adjust_lfree ptr (take_block sz ptr s);
                    Some (Some (ram s1 + ptr + SIZEOF_STRUCT_MEM), s1) } })"

definition mem_calloc :: "nat \<Rightarrow> nat \<Rightarrow> 'z mem_heap_scheme \<Rightarrow> (nat option \<times> 'z mem_heap_scheme) option" where
  "mem_calloc cnt sz s =
     (let alloc_size = cnt * sz
      in if U16 alloc_size \<noteq> alloc_size then Some (None, s)
         else do {
           (r, s1) \<leftarrow> mem_malloc alloc_size s;
           case r of None \<Rightarrow> Some (None, s1)
           | Some p \<Rightarrow> Some (Some p, s1\<lparr>bytes := (\<lambda>a. if p \<le> a \<and> a < p + alloc_size then 0 else bytes s1 a)\<rparr>) })"

section \<open>Blocks\<close>

text \<open>
  The abstraction: a heap is a list of blocks, each with its start, its end and whether it is used.
  \<open>seg M p s bs e\<close>: the structs of \<open>M\<close> from offset \<open>s\<close> to offset \<open>e\<close> form the blocks \<open>bs\<close>, after the block \<open>p\<close>.
\<close>

type_synonym block = "nat \<times> nat \<times> bool"

fun seg :: "(nat \<Rightarrow> mem) \<Rightarrow> nat \<Rightarrow> nat \<Rightarrow> block list \<Rightarrow> nat \<Rightarrow> bool" where
  "seg M p s [] e \<longleftrightarrow> s = e"
| "seg M p s ((a, b, u) # bs) e \<longleftrightarrow>
     a = s \<and> M a = \<lparr>mem_next = b, mem_prev = p, used = u\<rparr> \<and> a + 20 \<le> b \<and> 4 dvd b \<and> seg M a b bs e"

definition no_holes :: "block list \<Rightarrow> bool" where
  "no_holes = successively (\<lambda>x y. snd (snd x) \<or> snd (snd y))"

fun lowest :: "block list \<Rightarrow> nat" where
  "lowest [] = MEM_SIZE_ALIGNED"
| "lowest ((a, b, u) # bs) = (if u then lowest bs else a)"

definition heap_ok :: "'z mem_heap_scheme \<Rightarrow> block list \<Rightarrow> bool" where
  "heap_ok s bs \<longleftrightarrow>
     seg (mems s) 0 0 bs MEM_SIZE_ALIGNED \<and> no_holes bs \<and> lfree s = lowest bs \<and> used (mems s MEM_SIZE_ALIGNED)
     \<and> 4 dvd ram s \<and> 0 < ram s \<and> ram s + MEM_SIZE_ALIGNED < 2 ^ 32"

text \<open>What the operations are to do to the blocks.\<close>

fun alloc_first :: "nat \<Rightarrow> block list \<Rightarrow> (nat \<times> block list) option" where
  "alloc_first n [] = None"
| "alloc_first n ((a, b, u) # bs) =
     (if \<not> u \<and> a + 8 + n \<le> b
      then Some (a, (if a + 8 + n + 20 \<le> b then [(a, a + 8 + n, True), (a + 8 + n, b, False)] else [(a, b, True)]) @ bs)
      else map_option (\<lambda>(p, cs). (p, (a, b, u) # cs)) (alloc_first n bs))"

fun merge :: "block list \<Rightarrow> block list" where
  "merge ((a, b, u) # (c, d, v) # bs) =
     (if \<not> u \<and> \<not> v then merge ((a, d, False) # bs) else (a, b, u) # merge ((c, d, v) # bs))"
| "merge bs = bs"

definition release :: "nat \<Rightarrow> block list \<Rightarrow> block list" where
  "release p bs = merge (map (\<lambda>(a, b, u). (a, b, u \<and> a \<noteq> p)) bs)"

definition last_start :: "nat \<Rightarrow> block list \<Rightarrow> nat" where
  "last_start p bs = (if bs = [] then p else fst (last bs))"

lemma last_start_simps [simp]: "last_start p [] = p" "last_start p (x # bs) = last_start (fst x) bs"
  by (simp_all add: last_start_def)

lemma seg_append:
  "seg M p s (xs @ ys) e \<longleftrightarrow> (\<exists>m. seg M p s xs m \<and> seg M (last_start p xs) m ys e)"
proof (induction xs arbitrary: p s)
  case (Cons x xs)
  then show ?case by (cases x) auto
qed simp

lemma seg_bounds: "seg M p s bs e \<Longrightarrow> s \<le> e \<and> (\<forall>(a, b, u) \<in> set bs. s \<le> a \<and> a + 20 \<le> b \<and> b \<le> e)"
proof (induction bs arbitrary: p s)
  case (Cons x bs)
  then show ?case by (cases x) fastforce
qed simp

lemma seg_dvd: "seg M p s bs e \<Longrightarrow> 4 dvd s \<Longrightarrow> 4 dvd e \<and> (\<forall>(a, b, u) \<in> set bs. 4 dvd a \<and> 4 dvd b)"
proof (induction bs arbitrary: p s)
  case (Cons x bs)
  then show ?case by (cases x) fastforce
qed simp

lemma seg_cong:
  "seg M p s bs e \<Longrightarrow> (\<And>a. s \<le> a \<Longrightarrow> a < e \<Longrightarrow> M' a = M a) \<Longrightarrow> seg M' p s bs e"
proof (induction bs arbitrary: p s)
  case (Cons x bs)
  obtain a b u where x: "x = (a, b, u)" by (cases x)
  have "b \<le> e" using Cons.prems(1) x seg_bounds [of M a b bs e] by auto
  then show ?case using Cons x by auto
qed simp

lemma seg_relink:
  assumes "seg M p s bs e" "s \<noteq> e"
  shows "seg (M(s := (M s)\<lparr>mem_prev := q\<rparr>)) q s bs e"
proof (cases bs)
  case Nil
  then show ?thesis using assms by simp
next
  case (Cons x cs)
  obtain a b u where x: "x = (a, b, u)" by (cases x)
  then have "seg M s b cs e" "s < b" using assms Cons by auto
  then have "seg (M(s := (M s)\<lparr>mem_prev := q\<rparr>)) s b cs e" by (auto intro: seg_cong)
  then show ?thesis using assms Cons x by auto
qed

lemmas no_holes_simps = no_holes_def successively_append_iff successively_Cons

lemma lowest_append: "lowest (xs @ ys) = (if \<forall>x \<in> set xs. snd (snd x) then lowest ys else lowest xs)"
proof (induction xs)
  case (Cons x xs)
  then show ?case by (cases x) auto
qed simp

lemma lowest_less: "seg M p s bs e \<Longrightarrow> \<not> (\<forall>x \<in> set bs. snd (snd x)) \<Longrightarrow> s \<le> lowest bs \<and> lowest bs < e"
proof (induction bs arbitrary: p s)
  case (Cons x bs)
  obtain a b u where x: "x = (a, b, u)" by (cases x)
  then have "b \<le> e" using Cons.prems seg_bounds [of M a b bs e] by auto
  then show ?case using Cons x by (fastforce split: if_splits)
qed simp

lemma lowest_le: "seg M q 0 xs p \<Longrightarrow> lowest (xs @ (p, e, False) # ys) \<le> p"
  using lowest_less [of M q 0 xs p] unfolding lowest_append by (cases "\<forall>x \<in> set xs. snd (snd x)") (simp_all only: if_P if_not_P, simp_all)

lemma mems_upd_mem [simp]: "mems (upd_mem p f s) = (mems s)(p := f (mems s p))"
  "lfree (upd_mem p f s) = lfree s" "ram (upd_mem p f s) = ram s"
  by (simp_all add: upd_mem_def)

lemma mems_set_prev [simp]:
  "mems (set_prev p n s) = (if n \<noteq> MEM_SIZE_ALIGNED then (mems s)(n := (mems s n)\<lparr>mem_prev := U16 p\<rparr>) else mems s)"
  "lfree (set_prev p n s) = lfree s" "ram (set_prev p n s) = ram s"
  by (simp_all add: set_prev_def)

lemma seg_end: "seg M p e bs e \<longleftrightarrow> bs = []"
proof (cases bs)
  case (Cons x cs)
  obtain a b u where "x = (a, b, u)" by (cases x)
  then show ?thesis using Cons seg_bounds [of M a b cs e] by auto
qed simp

lemma seg_set_prev:
  assumes "seg (mems s) p n bs MEM_SIZE_ALIGNED" "q < 65536"
  shows "seg (mems (set_prev q n s)) q n bs MEM_SIZE_ALIGNED"
  using assms seg_relink [of "mems s" p n bs MEM_SIZE_ALIGNED q] by (auto simp: U16_def seg_end)

lemma minus_U32_le: "b \<le> a \<Longrightarrow> a < 2 ^ 32 \<Longrightarrow> minus_U32 a b = a - b"
proof -
  assume a: "b \<le> a" "a < 2 ^ 32"
  then have "(a + 2 ^ 32 - b) mod 2 ^ 32 = ((a - b) + 2 ^ 32) mod 2 ^ 32" by (simp del: mod_add_self2)
  also have "\<dots> = a - b" using a(2) by simp
  finally show ?thesis unfolding minus_U32_def .
qed

text \<open>The search is that of \<open>alloc_first\<close>.\<close>

lemma alloc_first_Some:
  "alloc_first n bs = Some (p, cs) \<Longrightarrow> \<exists>xs b ys. bs = xs @ (p, b, False) # ys \<and> p + 8 + n \<le> b
     \<and> cs = xs @ (if p + 8 + n + 20 \<le> b then [(p, p + 8 + n, True), (p + 8 + n, b, False)] else [(p, b, True)]) @ ys"
proof (induction bs arbitrary: cs)
  case (Cons x bs)
  obtain a b u where x: "x = (a, b, u)" by (cases x)
  show ?case
  proof (cases "\<not> u \<and> a + 8 + n \<le> b")
    case True
    then show ?thesis using Cons.prems x by (intro exI [of _ "[]"]) auto
  next
    case False
    then obtain ds where "alloc_first n bs = Some (p, ds)" "cs = x # ds" using Cons.prems x by auto
    then show ?thesis using Cons.IH by (metis append_Cons)
  qed
qed simp

lemma alloc_first_None: "alloc_first n bs = None \<longleftrightarrow> (\<forall>(a, b, u) \<in> set bs. u \<or> b < a + 8 + n)"
  by (induction n bs rule: alloc_first.induct) auto

lemma alloc_first_used:
  "\<forall>x \<in> set xs. snd (snd x) \<Longrightarrow> alloc_first n (xs @ ys) = map_option (\<lambda>(p, cs). (p, xs @ cs)) (alloc_first n ys)"
proof (induction xs)
  case (Cons x xs)
  then show ?case by (cases x) (auto simp: option.map_comp comp_def split_def)
qed (simp add: map_option_case split: option.split)

lemma scan_seg:
  assumes "seg (mems s) p ptr bs MEM_SIZE_ALIGNED"
  shows "scan s n ptr = Some (map_option fst (alloc_first n bs))"
  using assms
proof (induction bs arbitrary: p ptr)
  case Nil
  then have "\<not> ptr < MEM_SIZE_ALIGNED - n" by simp
  then show ?case by (subst scan.simps) simp
next
  case (Cons x bs)
  obtain a b u where x: "x = (a, b, u)" by (cases x)
  have b: "a = ptr" "mems s ptr = \<lparr>mem_next = b, mem_prev = p, used = u\<rparr>" "seg (mems s) a b bs MEM_SIZE_ALIGNED"
    "a + 20 \<le> b" using Cons.prems x by auto
  have e: "b \<le> MEM_SIZE_ALIGNED" using seg_bounds [OF b(3)] by simp
  have m: "minus_U32 b (a + 8) = b - (a + 8)" using b(4) e by (intro minus_U32_le) (simp_all add: reg_consts)
  show ?case
  proof (cases "ptr < MEM_SIZE_ALIGNED - n")
    case True
    have "alloc_first n (x # bs) = (if \<not> u \<and> a + 8 + n \<le> b then alloc_first n (x # bs)
      else map_option (\<lambda>(p, cs). (p, x # cs)) (alloc_first n bs))" using x by simp
    moreover have "n \<le> b - (a + 8) \<longleftrightarrow> a + 8 + n \<le> b" using b(4) by linarith
    ultimately show ?thesis using True b m x Cons.IH [OF b(3)]
      by (subst scan.simps) (auto simp: SIZEOF_STRUCT_MEM_def option.map_comp comp_def split_def)
  next
    case False
    then have "alloc_first n (x # bs) = None"
      using seg_bounds [OF Cons.prems] b(1) by (fastforce simp: alloc_first_None reg_consts)
    then show ?thesis using False by (subst scan.simps) simp
  qed
qed

lemma next_free_seg:
  assumes "seg (mems s) p cur bs MEM_SIZE_ALIGNED"
  shows "next_free s cur = Some (lowest bs)"
  using assms
proof (induction bs arbitrary: p cur)
  case Nil
  then show ?case by (subst next_free.simps) simp
next
  case (Cons x bs)
  obtain a b u where x: "x = (a, b, u)" by (cases x)
  have b: "a = cur" "mem_next (mems s cur) = b" "used (mems s cur) = u" "seg (mems s) a b bs MEM_SIZE_ALIGNED"
    using Cons.prems x by auto
  have "a + 20 \<le> MEM_SIZE_ALIGNED" using seg_bounds [OF Cons.prems] x by auto
  then have c: "cur \<noteq> MEM_SIZE_ALIGNED" using b(1) by simp
  have "next_free s cur = (if u \<and> cur \<noteq> MEM_SIZE_ALIGNED then next_free s b else Some cur)"
    using next_free.simps [of s cur] unfolding b(2,3) .
  then show ?case unfolding Cons.IH [OF b(4)] x b(1) using c by simp
qed

lemma scan_from_lfree:
  assumes "heap_ok s bs"
  shows "scan s n (lfree s) = Some (map_option fst (alloc_first n bs))"
proof -
  let ?P = "\<lambda>x :: block. snd (snd x)"
  let ?xs = "takeWhile ?P bs" and ?ys = "dropWhile ?P bs"
  have u: "\<forall>x \<in> set ?xs. ?P x" using set_takeWhileD by fast
  have "seg (mems s) 0 0 (?xs @ ?ys) MEM_SIZE_ALIGNED" using assms by (simp add: heap_ok_def)
  then obtain m where m: "seg (mems s) (last_start 0 ?xs) m ?ys MEM_SIZE_ALIGNED" unfolding seg_append by blast
  have "lowest bs = lowest ?ys" using u lowest_append [of ?xs ?ys] by simp
  also have "\<dots> = m"
  proof (cases ?ys)
    case Nil
    then show ?thesis using m unfolding Nil by simp
  next
    case (Cons x zs)
    then have "\<not> ?P x" by (metis hd_dropWhile list.sel(1) list.distinct(1))
    then show ?thesis using m Cons by (cases x) auto
  qed
  finally have "lfree s = m" using assms by (simp add: heap_ok_def)
  then have "scan s n (lfree s) = Some (map_option fst (alloc_first n ?ys))" using scan_seg [OF m] by simp
  moreover have "map_option fst (alloc_first n bs) = map_option fst (alloc_first n ?ys)"
    using alloc_first_used [OF u, of n ?ys] by (simp add: option.map_comp comp_def split_def)
  ultimately show ?thesis by simp
qed

text \<open>Changing the struct of a block keeps the blocks before it.\<close>

lemma seg_upd: "seg M p s bs e \<Longrightarrow> e \<le> a \<Longrightarrow> seg (M(a := x)) p s bs e"
  by (rule seg_cong) auto

lemma seg_upd_below: "seg M p s bs e \<Longrightarrow> a < s \<Longrightarrow> seg (M(a := x)) p s bs e"
  by (rule seg_cong) auto

lemma seg_set_prev_before: "seg (mems s) p a bs e \<Longrightarrow> e \<le> n \<Longrightarrow> seg (mems (set_prev q n s)) p a bs e"
  by (auto intro: seg_upd)

text \<open>Cutting the block at \<open>p\<close> in two at \<open>q\<close>.\<close>

lemma split_seg:
  assumes "seg (mems s) 0 0 xs p" "f (mems s p) = \<lparr>mem_next = q, mem_prev = last_start 0 xs, used = True\<rparr>"
    and "seg (mems s) r n zs MEM_SIZE_ALIGNED" "p + 20 \<le> q" "q + 20 \<le> n" "4 dvd q" "4 dvd n"
  defines "t \<equiv> set_prev q n (upd_mem p f (upd_mem q (\<lambda>_. \<lparr>mem_next = n, mem_prev = p, used = False\<rparr>) s))"
  shows "seg (mems t) 0 0 (xs @ [(p, q, True), (q, n, False)] @ zs) MEM_SIZE_ALIGNED"
    and "used (mems t MEM_SIZE_ALIGNED) = used (mems s MEM_SIZE_ALIGNED)"
proof -
  let ?E = MEM_SIZE_ALIGNED
  let ?s = "upd_mem p f (upd_mem q (\<lambda>_. \<lparr>mem_next = n, mem_prev = p, used = False\<rparr>) s)"
  have e: "n \<le> ?E" using seg_bounds [OF assms(3)] by simp
  have "seg (mems ?s) r n zs ?E" by (rule seg_cong [OF assms(3)]) (use assms(4,5) in auto)
  then have "seg (mems t) q n zs ?E"
    unfolding t_def by (rule seg_set_prev) (use assms(4,5) e in \<open>simp add: reg_consts\<close>)
  moreover have "seg (mems t) 0 0 xs p" unfolding t_def by (rule seg_cong [OF assms(1)]) (use assms(4,5) in auto)
  moreover have "mems t p = \<lparr>mem_next = q, mem_prev = last_start 0 xs, used = True\<rparr>"
    "mems t q = \<lparr>mem_next = n, mem_prev = p, used = False\<rparr>" unfolding t_def using assms(2,4,5) by auto
  ultimately show "seg (mems t) 0 0 (xs @ [(p, q, True), (q, n, False)] @ zs) ?E" using assms(4-7) by (simp add: seg_append)
  show "used (mems t ?E) = used (mems s ?E)" unfolding t_def using assms(4,5) e by auto
qed

lemma take_block_seg:
  assumes "seg (mems s) 0 0 (xs @ (p, b, False) # ys) MEM_SIZE_ALIGNED" "p + 8 + n \<le> b" "4 dvd n" "12 \<le> n"
  shows "seg (mems (take_block n p s)) 0 0
    (xs @ (if p + 8 + n + 20 \<le> b then [(p, p + 8 + n, True), (p + 8 + n, b, False)] else [(p, b, True)]) @ ys) MEM_SIZE_ALIGNED"
proof -
  let ?E = MEM_SIZE_ALIGNED and ?q = "last_start 0 xs"
  have g: "seg (mems s) 0 0 xs p" "mems s p = \<lparr>mem_next = b, mem_prev = ?q, used = False\<rparr>" "p + 20 \<le> b" "4 dvd b"
    "seg (mems s) p b ys ?E" using assms(1) by (auto simp: seg_append)
  have e: "b \<le> ?E" using seg_bounds [OF g(5)] by simp
  have d: "4 dvd p" using seg_dvd [OF g(1)] by simp
  have m: "minus_U32 b (p + 8) = b - (p + 8)" using g(3) e by (intro minus_U32_le) (simp_all add: reg_consts)
  show ?thesis
  proof (cases "p + 8 + n + 20 \<le> b")
    case True
    let ?c = "p + 8 + n"
    have c: "U16 ?c = ?c" using True e by (simp add: U16_def reg_consts)
    have t: "take_block n p s = set_prev ?c b (upd_mem p (\<lambda>x. x\<lparr>mem_next := ?c, used := True\<rparr>)
      (upd_mem ?c (\<lambda>_. \<lparr>mem_next = b, mem_prev = p, used = False\<rparr>) s))"
      using True g(2) m c unfolding take_block_def by (simp add: Let_def SIZEOF_STRUCT_MEM_def MIN_SIZE_ALIGNED_def)
    have "4 dvd ?c" using d assms(3) by simp
    then show ?thesis unfolding t if_P [OF True]
      by (intro split_seg [OF g(1) _ g(5)]) (use g(2,4) assms(4) True in simp_all)
  next
    case False
    have "take_block n p s = upd_mem p (\<lambda>x. x\<lparr>used := True\<rparr>) s"
      using False g(2) m unfolding take_block_def by (simp add: Let_def SIZEOF_STRUCT_MEM_def MIN_SIZE_ALIGNED_def)
    moreover have "seg (mems (upd_mem p (\<lambda>x. x\<lparr>used := True\<rparr>) s)) 0 0 xs p" using g(1) by (auto intro: seg_upd)
    moreover have "seg (mems (upd_mem p (\<lambda>x. x\<lparr>used := True\<rparr>) s)) p b ys ?E"
      using g(3,5) by (auto intro: seg_upd_below)
    ultimately show ?thesis using False g(2,3,4) by (auto simp: seg_append)
  qed
qed

lemma take_block_fields [simp]: "lfree (take_block n p s) = lfree s" "ram (take_block n p s) = ram s"
  by (simp_all add: take_block_def Let_def)

text \<open>The lowest free block after one was taken.\<close>

lemma adjust_lfree_seg:
  assumes "seg (mems t) 0 0 (xs @ (p, c, True) # ys) MEM_SIZE_ALIGNED"
    and "lfree t = lowest (xs @ (p, b, False) # ys')"
  shows "adjust_lfree p t = Some (t\<lparr>lfree := lowest (xs @ (p, c, True) # ys)\<rparr>)"
proof -
  have x: "seg (mems t) 0 0 xs p" and y: "seg (mems t) (last_start 0 xs) p ((p, c, True) # ys) MEM_SIZE_ALIGNED"
    using assms(1) by (auto simp: seg_append)
  show ?thesis
  proof (cases "\<forall>x \<in> set xs. snd (snd x)")
    case True
    then have "lfree t = p" using assms(2) by (simp add: lowest_append)
    then show ?thesis using next_free_seg [OF y] True unfolding adjust_lfree_def by (simp add: lowest_append)
  next
    case False
    then have l: "lfree t = lowest xs" "lowest (xs @ (p, c, True) # ys) = lowest xs"
      using assms(2) unfolding lowest_append if_not_P [OF False] by simp_all
    then have "lfree t < p" using lowest_less [OF x False] by simp
    then show ?thesis using l unfolding adjust_lfree_def by simp
  qed
qed

section \<open>Allocation\<close>

definition malloc_blocks :: "nat \<Rightarrow> block list \<Rightarrow> (nat \<times> block list) option" where
  "malloc_blocks n bs = (if n = 0 then None else alloc_first (max 12 (LWIP_MEM_ALIGN_SIZE n)) bs)"

lemma align_size: "n \<le> LWIP_MEM_ALIGN_SIZE n" "LWIP_MEM_ALIGN_SIZE n < n + 4" "4 dvd LWIP_MEM_ALIGN_SIZE n"
proof -
  have "n + 3 = (n + 3) div 4 * 4 + (n + 3) mod 4" by simp
  moreover have "(n + 3) mod 4 < 4" by simp
  ultimately show "n \<le> LWIP_MEM_ALIGN_SIZE n" "LWIP_MEM_ALIGN_SIZE n < n + 4"
    unfolding LWIP_MEM_ALIGN_SIZE_def by linarith+
  show "4 dvd LWIP_MEM_ALIGN_SIZE n" by (simp add: LWIP_MEM_ALIGN_SIZE_def)
qed

lemma request_small: "n \<le> 65532 \<Longrightarrow> request n = max 12 (LWIP_MEM_ALIGN_SIZE n)"
  using align_size [of n] dvd_imp_le [of 4] unfolding request_def U16_def MIN_SIZE_ALIGNED_def LWIP_MEM_ALIGN_SIZE_def by auto

lemma request_large: "65532 < n \<Longrightarrow> n < 65536 \<Longrightarrow> request n < n"
  unfolding request_def U16_def MIN_SIZE_ALIGNED_def LWIP_MEM_ALIGN_SIZE_def
  by (subgoal_tac "n = 65533 \<or> n = 65534 \<or> n = 65535") auto

lemma request_props: "n \<le> 65532 \<Longrightarrow> 4 dvd request n" "12 \<le> request n" "n \<le> 65532 \<Longrightarrow> n \<le> request n"
  using align_size [of n] by (simp_all add: request_small max_def) (simp add: request_def MIN_SIZE_ALIGNED_def)

lemma no_holes_take:
  "no_holes (xs @ (p, b, False) # ys)
    \<Longrightarrow> no_holes (xs @ (if P then [(p, c, True), (c, b, False)] else [(p, b, True)]) @ ys)"
  unfolding no_holes_simps by auto

lemma alloc_first_too_large:
  assumes "heap_ok s bs" "MEM_SIZE_ALIGNED < n"
  shows "alloc_first n bs = None"
proof -
  have "seg (mems s) 0 0 bs MEM_SIZE_ALIGNED" using assms(1) by (simp add: heap_ok_def)
  then show ?thesis using assms(2) seg_bounds by (fastforce simp: alloc_first_None)
qed

text \<open>The refinement: the call does to the blocks what \<open>malloc_blocks\<close> says and to the rest nothing.\<close>

lemma mem_malloc_refines:
  assumes "heap_ok s bs" "n < 65536"
  shows "case malloc_blocks n bs of None \<Rightarrow> mem_malloc n s = Some (None, s)
    | Some (p, cs) \<Rightarrow> \<exists>M. mem_malloc n s = Some (Some (ram s + p + 8), s\<lparr>mems := M, lfree := lowest cs\<rparr>)
        \<and> heap_ok (s\<lparr>mems := M, lfree := lowest cs\<rparr>) cs"
proof (cases "n = 0 \<or> request n > MEM_SIZE_ALIGNED \<or> request n < n")
  case True
  then have "mem_malloc n s = Some (None, s)" by (auto simp: mem_malloc_def Let_def)
  moreover have "malloc_blocks n bs = None"
  proof (cases "n \<le> 65532")
    case small: True
    then have "n = 0 \<or> MEM_SIZE_ALIGNED < max 12 (LWIP_MEM_ALIGN_SIZE n)"
      using True request_small [OF small] request_props(3) [OF small] by auto
    then show ?thesis using alloc_first_too_large [OF assms(1)] by (auto simp: malloc_blocks_def)
  next
    case False
    then have "MEM_SIZE_ALIGNED < max 12 (LWIP_MEM_ALIGN_SIZE n)" using align_size(1) [of n] by (simp add: reg_consts)
    then show ?thesis using alloc_first_too_large [OF assms(1)] by (simp add: malloc_blocks_def)
  qed
  ultimately show ?thesis by simp
next
  case False
  let ?n = "request n"
  have small: "n \<le> 65532" using False request_large assms(2) by (metis not_le)
  have b: "malloc_blocks n bs = alloc_first ?n bs" using False request_small [OF small] by (simp add: malloc_blocks_def)
  have c: "mem_malloc n s = do { r \<leftarrow> scan s ?n (lfree s);
      case r of None \<Rightarrow> Some (None, s)
      | Some ptr \<Rightarrow> do { s1 \<leftarrow> adjust_lfree ptr (take_block ?n ptr s);
                         Some (Some (ram s1 + ptr + SIZEOF_STRUCT_MEM), s1) } }"
    using False by (simp add: mem_malloc_def Let_def)
  show ?thesis
  proof (cases "alloc_first ?n bs")
    case None
    then show ?thesis using b c scan_from_lfree [OF assms(1), of ?n] by simp
  next
    case (Some r)
    obtain p cs where r: "r = (p, cs)" by (cases r)
    obtain xs e ys where x: "bs = xs @ (p, e, False) # ys" "p + 8 + ?n \<le> e"
      "cs = xs @ (if p + 8 + ?n + 20 \<le> e then [(p, p + 8 + ?n, True), (p + 8 + ?n, e, False)] else [(p, e, True)]) @ ys"
      using alloc_first_Some Some r by blast
    define t where "t = take_block ?n p s"
    have h: "seg (mems s) 0 0 (xs @ (p, e, False) # ys) MEM_SIZE_ALIGNED" "no_holes (xs @ (p, e, False) # ys)"
      using assms(1) x(1) by (simp_all add: heap_ok_def)
    have t: "seg (mems t) 0 0 cs MEM_SIZE_ALIGNED"
      using take_block_seg [OF h(1) x(2) request_props(1) [OF small] request_props(2)] x(3) by (simp add: t_def)
    obtain c zs where z: "cs = xs @ (p, c, True) # zs" using x(3) by (auto split: if_splits)
    have l: "lfree t = lowest (xs @ (p, e, False) # ys)" using assms(1) x(1) by (simp add: heap_ok_def t_def)
    have a: "adjust_lfree p t = Some (t\<lparr>lfree := lowest cs\<rparr>)" using adjust_lfree_seg [OF _ l] t z by simp
    have eq: "t\<lparr>lfree := lowest cs\<rparr> = s\<lparr>mems := mems t, lfree := lowest cs\<rparr>"
      by (simp add: t_def take_block_def Let_def set_prev_def upd_mem_def)
    have "seg (mems s) (last_start 0 xs) p ((p, e, False) # ys) MEM_SIZE_ALIGNED" using h(1) by (auto simp: seg_append)
    then have pe: "p + 20 \<le> e" "e \<le> MEM_SIZE_ALIGNED" using seg_bounds by fastforce+
    have "used (mems t MEM_SIZE_ALIGNED)"
    proof -
      have "used (mems s MEM_SIZE_ALIGNED)" using assms(1) by (simp add: heap_ok_def)
      moreover have "U16 (p + 8 + ?n) = p + 8 + ?n" using x(2) pe by (simp add: U16_def reg_consts)
      moreover have "minus_U32 e (p + 8) = e - (p + 8)" using pe by (intro minus_U32_le) (simp_all add: reg_consts)
      moreover have "mem_next (mems s p) = e" using h(1) by (auto simp: seg_append)
      ultimately show ?thesis using x(2) pe
        unfolding t_def take_block_def by (auto simp: Let_def SIZEOF_STRUCT_MEM_def MIN_SIZE_ALIGNED_def)
    qed
    then have "heap_ok (s\<lparr>mems := mems t, lfree := lowest cs\<rparr>) cs"
      using assms(1) t no_holes_take [OF h(2)] x(3) by (simp add: heap_ok_def)
    moreover have "mem_malloc n s = Some (Some (ram s + p + 8), s\<lparr>mems := mems t, lfree := lowest cs\<rparr>)"
      using c Some r a eq scan_from_lfree [OF assms(1), of ?n] by (simp add: t_def [symmetric] SIZEOF_STRUCT_MEM_def)
    ultimately show ?thesis using b Some r by auto
  qed
qed

section \<open>Release\<close>

lemma merge_no_holes: "no_holes bs \<Longrightarrow> merge bs = bs"
  by (induction bs rule: merge.induct) (auto simp: no_holes_simps)

lemma merge_prefix: "no_holes (xs @ [x]) \<Longrightarrow> merge (xs @ x # zs) = xs @ merge (x # zs)"
proof (induction xs)
  case (Cons y xs)
  obtain w ws where w: "xs @ x # zs = w # ws" "snd (snd y) \<or> snd (snd w)"
    using Cons.prems by (cases xs) (auto simp: no_holes_simps)
  have "no_holes (xs @ [x])" using Cons.prems by (cases xs) (auto simp: no_holes_simps)
  then show ?case using Cons.IH w by (cases y; cases w) auto
qed simp

lemma merge_merge: "merge (x # merge ys) = merge (x # ys)"
proof (induction ys arbitrary: x rule: merge.induct)
  case (1 a b u c d v bs)
  then show ?case by (cases u; cases v; cases x) auto
qed (simp_all add: merge.simps(2))

lemma merge_cong: "merge ys = merge zs \<Longrightarrow> merge (xs @ ys) = merge (xs @ zs)"
  by (induction xs) (simp, metis append_Cons merge_merge)

lemma release_split:
  assumes "seg M 0 0 (xs @ (p, e, True) # ys) n"
  shows "release p (xs @ (p, e, True) # ys) = merge (xs @ (p, e, False) # ys)"
proof -
  have x: "\<forall>(a, b, u) \<in> set xs. a < p" and y: "\<forall>(a, b, u) \<in> set ys. p < a"
    using assms seg_bounds [of M 0 0 xs p] seg_bounds [of M p e ys n] by (fastforce simp: seg_append)+
  have "map (\<lambda>(a, b, u). (a, b, u \<and> a \<noteq> p)) xs = xs" "map (\<lambda>(a, b, u). (a, b, u \<and> a \<noteq> p)) ys = ys"
    using x y by (auto intro!: map_idI)
  then show ?thesis by (simp add: release_def)
qed

lemma plug_fields [simp]: "ram (plug_forward p s) = ram s" "ram (plug_backward p s) = ram s"
  by (simp_all add: plug_forward_def plug_backward_def Let_def)

lemma plug_forward_seg:
  assumes "seg (mems t) 0 0 (xs @ (p, e, False) # ys) MEM_SIZE_ALIGNED" "used (mems t MEM_SIZE_ALIGNED)"
    and "lfree t = lowest (xs @ (p, e, False) # ys)" "no_holes ys"
  shows "\<exists>f zs. merge ((p, e, False) # ys) = (p, f, False) # zs \<and> no_holes ((p, f, False) # zs)
    \<and> seg (mems (plug_forward p t)) 0 0 (xs @ (p, f, False) # zs) MEM_SIZE_ALIGNED
    \<and> used (mems (plug_forward p t) MEM_SIZE_ALIGNED) \<and> lfree (plug_forward p t) = lfree t"
proof -
  let ?E = MEM_SIZE_ALIGNED and ?q = "last_start 0 xs"
  have g: "seg (mems t) 0 0 xs p" "mems t p = \<lparr>mem_next = e, mem_prev = ?q, used = False\<rparr>" "p + 20 \<le> e" "4 dvd e"
    "seg (mems t) p e ys ?E" using assms(1) by (auto simp: seg_append)
  show ?thesis
  proof (cases "ys = [] \<or> snd (snd (hd ys))")
    case True
    have "used (mems t e)" using True g(5) assms(2) by (cases ys) auto
    then have "plug_forward p t = t" using g(2) by (simp add: plug_forward_def)
    moreover have n: "no_holes ((p, e, False) # ys)" using True assms(4) by (auto simp: no_holes_simps)
    ultimately show ?thesis using assms(1,2) merge_no_holes [OF n] by (intro exI [of _ e] exI [of _ ys]) simp
  next
    case False
    then obtain c d ys' where y: "ys = (c, d, False) # ys'" by (cases ys) auto
    then have y': "c = e" "mems t e = \<lparr>mem_next = d, mem_prev = p, used = False\<rparr>" "e + 20 \<le> d" "4 dvd d"
      "seg (mems t) e d ys' ?E" using g(5) by auto
    have de: "d \<le> ?E" using seg_bounds [OF y'(5)] by simp
    have "lfree t \<le> p" using assms(3) lowest_le [OF g(1)] by simp
    let ?s = "upd_mem p (\<lambda>x. x\<lparr>mem_next := d\<rparr>) t"
    have f: "plug_forward p t = set_prev p d ?s"
      using g(2,3) y'(2,3) de \<open>lfree t \<le> p\<close> by (simp add: plug_forward_def Let_def)
    have "seg (mems ?s) e d ys' ?E" using y'(3,5) g(3) by (auto intro: seg_upd_below)
    then have 1: "seg (mems (set_prev p d ?s)) p d ys' ?E"
      by (rule seg_set_prev) (use g(3) y'(3) de in \<open>simp add: reg_consts\<close>)
    have 2: "seg (mems (set_prev p d ?s)) 0 0 xs p" by (rule seg_cong [OF g(1)]) (use g(3) y'(3) in auto)
    have 3: "mems (set_prev p d ?s) p = \<lparr>mem_next = d, mem_prev = ?q, used = False\<rparr>" using g(2,3) y'(3) by auto
    have 4: "used (mems (set_prev p d ?s) ?E)" using assms(2) g(3) y'(3) de by auto
    have n: "no_holes ((p, d, False) # ys')" using assms(4) y by (auto simp: no_holes_simps)
    have "merge ((p, e, False) # ys) = (p, d, False) # ys'" using y merge_no_holes [OF n] by simp
    then show ?thesis using 1 2 3 4 f n g(3) y'(3,4) by (intro exI [of _ d] exI [of _ ys']) (simp add: seg_append)
  qed
qed

lemma plug_backward_seg:
  assumes "seg (mems t) 0 0 (xs @ (p, e, False) # ys) MEM_SIZE_ALIGNED" "used (mems t MEM_SIZE_ALIGNED)"
    and "lfree t = lowest (xs @ (p, e, False) # ys)" "no_holes xs" "no_holes ((p, e, False) # ys)"
  defines "zs \<equiv> merge (xs @ (p, e, False) # ys)"
  shows "no_holes zs \<and> seg (mems (plug_backward p t)) 0 0 zs MEM_SIZE_ALIGNED
    \<and> used (mems (plug_backward p t) MEM_SIZE_ALIGNED) \<and> lfree (plug_backward p t) = lowest zs"
proof -
  let ?E = MEM_SIZE_ALIGNED and ?q = "last_start 0 xs"
  have g: "seg (mems t) 0 0 xs p" "mems t p = \<lparr>mem_next = e, mem_prev = ?q, used = False\<rparr>" "p + 20 \<le> e" "4 dvd e"
    "seg (mems t) p e ys ?E" using assms(1) by (auto simp: seg_append)
  have ee: "e \<le> ?E" using seg_bounds [OF g(5)] by simp
  show ?thesis
  proof (cases "xs = [] \<or> snd (snd (last xs))")
    case True
    have n: "no_holes (xs @ (p, e, False) # ys)" using True assms(4,5) by (auto simp: no_holes_simps)
    then have z: "zs = xs @ (p, e, False) # ys" using merge_no_holes by (simp add: zs_def)
    have "?q = p \<or> used (mems t ?q)"
    proof (cases xs rule: rev_cases)
      case Nil
      then show ?thesis using g(1) by simp
    next
      case (snoc us x)
      then show ?thesis using g(1) True by (cases x) (auto simp: seg_append last_start_def)
    qed
    then have "plug_backward p t = t" using g(2) by (auto simp: plug_backward_def Let_def)
    then show ?thesis using assms(1-3) n z by simp
  next
    case False
    then obtain us a b where x: "xs = us @ [(a, b, False)]" by (cases xs rule: rev_cases) auto
    then have x': "b = p" "mems t a = \<lparr>mem_next = p, mem_prev = last_start 0 us, used = False\<rparr>" "a + 20 \<le> p"
      "seg (mems t) 0 0 us a" and q: "?q = a" using g(1) by (auto simp: seg_append last_start_def)
    have "lfree t \<noteq> p" using lowest_le [OF x'(4), of p "(p, e, False) # ys"] assms(3) x x'(1,3) by simp
    let ?s = "upd_mem a (\<lambda>x. x\<lparr>mem_next := e\<rparr>) t"
    have f: "plug_backward p t = set_prev a e ?s"
      using g(2) x'(2,3) q \<open>lfree t \<noteq> p\<close> by (simp add: plug_backward_def Let_def)
    have "seg (mems ?s) p e ys ?E" using g(3,5) x'(3) by (auto intro: seg_upd_below)
    then have 1: "seg (mems (set_prev a e ?s)) a e ys ?E"
      by (rule seg_set_prev) (use g(3) x'(3) ee in \<open>simp add: reg_consts\<close>)
    have 2: "seg (mems (set_prev a e ?s)) 0 0 us a" by (rule seg_cong [OF x'(4)]) (use g(3) x'(3) in auto)
    have 3: "mems (set_prev a e ?s) a = \<lparr>mem_next = e, mem_prev = last_start 0 us, used = False\<rparr>"
      using x'(2,3) g(3) by auto
    have 4: "used (mems (set_prev a e ?s) ?E)" using assms(2) g(3) x'(3) ee by auto
    have n: "no_holes ((a, e, False) # ys)" using assms(5) by (auto simp: no_holes_simps)
    have "no_holes (us @ [(a, b, False)])" using assms(4) x by simp
    then have "zs = us @ merge ((a, e, False) # ys)"
      using merge_prefix [of us "(a, b, False)" "(p, e, False) # ys"] x by (simp add: zs_def)
    then have z: "zs = us @ (a, e, False) # ys" using merge_no_holes [OF n] by simp
    then have "no_holes zs" using n assms(4) x by (auto simp: no_holes_simps)
    moreover have "lfree t = lowest zs" using assms(3) x z by (simp add: lowest_append)
    moreover have "a + 20 \<le> e" using g(3) x'(3) by simp
    ultimately show ?thesis using 1 2 3 4 f z g(4) by (simp add: seg_append)
  qed
qed

lemma block_at:
  assumes "heap_ok s bs" "(p, e, u) \<in> set bs"
  obtains xs ys where "bs = xs @ (p, e, u) # ys" "seg (mems s) 0 0 xs p" "p + 20 \<le> e" "e \<le> MEM_SIZE_ALIGNED" "4 dvd p"
    "4 dvd e" "mems s p = \<lparr>mem_next = e, mem_prev = last_start 0 xs, used = u\<rparr>" "seg (mems s) p e ys MEM_SIZE_ALIGNED"
proof -
  obtain xs ys where b: "bs = xs @ (p, e, u) # ys" using assms(2) split_list by metis
  then have "seg (mems s) 0 0 (xs @ (p, e, u) # ys) MEM_SIZE_ALIGNED" using assms(1) by (simp add: heap_ok_def)
  then have g: "seg (mems s) 0 0 xs p" "p + 20 \<le> e" "4 dvd e"
    "mems s p = \<lparr>mem_next = e, mem_prev = last_start 0 xs, used = u\<rparr>" "seg (mems s) p e ys MEM_SIZE_ALIGNED"
    by (auto simp: seg_append)
  then show ?thesis using that [OF b] seg_dvd [OF g(1)] seg_bounds [OF g(5)] by simp
qed

lemma link_valid:
  assumes "heap_ok s bs" "(p, e, u) \<in> set bs"
  shows "mem_link_valid p s"
proof -
  obtain xs ys where g: "bs = xs @ (p, e, u) # ys" "seg (mems s) 0 0 xs p" "p + 20 \<le> e" "e \<le> MEM_SIZE_ALIGNED" "4 dvd p"
    "mems s p = \<lparr>mem_next = e, mem_prev = last_start 0 xs, used = u\<rparr>" "seg (mems s) p e ys MEM_SIZE_ALIGNED"
    by (rule block_at [OF assms]) blast
  have u: "U16 p = p" using g(3,4) by (simp add: U16_def reg_consts)
  have "e \<noteq> MEM_SIZE_ALIGNED \<longrightarrow> mem_prev (mems s e) = p" using g(7) by (cases ys) auto
  moreover have "last_start 0 xs \<le> p \<and> (last_start 0 xs = p \<or> mem_next (mems s (last_start 0 xs)) = p)"
  proof (cases xs rule: rev_cases)
    case Nil
    then show ?thesis using g(2) by simp
  next
    case (snoc us x)
    then show ?thesis using g(2) by (cases x) (auto simp: seg_append last_start_def)
  qed
  ultimately show ?thesis using g(3,4,6) u by (auto simp: mem_link_valid_def Let_def)
qed

definition same_rest :: "'z mem_heap_scheme \<Rightarrow> 'z mem_heap_scheme \<Rightarrow> bool" where
  "same_rest s t \<longleftrightarrow> ram t = ram s \<and> bytes t = bytes s \<and> mem_heap.more t = mem_heap.more s"

lemma same_rest_simps [simp]: "same_rest s s" "same_rest s t \<Longrightarrow> same_rest s (upd_mem p f t)"
  "same_rest s t \<Longrightarrow> same_rest s (set_prev p n t)" "same_rest s t \<Longrightarrow> same_rest s (t\<lparr>lfree := l\<rparr>)"
  by (simp_all add: same_rest_def upd_mem_def set_prev_def)

lemma same_restD: "same_rest s t \<Longrightarrow> t = s\<lparr>mems := mems t, lfree := lfree t\<rparr>"
  by (simp add: same_rest_def)

lemma mem_free_rest: "same_rest s (mem_free r s)"
  by (simp add: mem_free_def plug_holes_def plug_backward_def plug_forward_def Let_def)

lemma mem_trim_rest: "same_rest s (snd (mem_trim r n s))"
  by (simp add: mem_trim_def Let_def)

text \<open>The refinement: a used block becomes free and is merged with its free neighbours.\<close>

lemma mem_free_refines:
  assumes "heap_ok s bs" "(p, e, True) \<in> set bs"
  shows "heap_ok (mem_free (ram s + p + 8) s) (release p bs)"
proof -
  obtain xs ys where g: "bs = xs @ (p, e, True) # ys" "seg (mems s) 0 0 xs p" "p + 20 \<le> e" "e \<le> MEM_SIZE_ALIGNED" "4 dvd p"
    "4 dvd e" "mems s p = \<lparr>mem_next = e, mem_prev = last_start 0 xs, used = True\<rparr>" "seg (mems s) p e ys MEM_SIZE_ALIGNED"
    by (rule block_at [OF assms]) blast
  have h: "seg (mems s) 0 0 bs MEM_SIZE_ALIGNED" "no_holes bs" "lfree s = lowest bs" "used (mems s MEM_SIZE_ALIGNED)" "4 dvd ram s"
    "0 < ram s" "ram s + MEM_SIZE_ALIGNED < 2 ^ 32" using assms(1) by (simp_all add: heap_ok_def)
  define t where "t = (upd_mem p (\<lambda>x. x\<lparr>used := False\<rparr>) s)\<lparr>lfree := lowest (xs @ (p, e, False) # ys)\<rparr>"
  have m: "mem_free (ram s + p + 8) s = plug_holes p t"
  proof -
    have "(ram s + p + 8) mod 4 = 0" using h(5) g(5) by (simp add: dvd_eq_mod_eq_0 [symmetric])
    moreover have "ram s + p + 8 + MIN_SIZE_ALIGNED \<le> ram s + MEM_SIZE_ALIGNED" using g(3,4) by (simp add: reg_consts)
    moreover have "(if p < lfree s then (upd_mem p (\<lambda>x. x\<lparr>used := False\<rparr>) s)\<lparr>lfree := p\<rparr> else upd_mem p (\<lambda>x. x\<lparr>used := False\<rparr>) s) = t"
    proof (cases "\<forall>x \<in> set xs. snd (snd x)")
      case True
      then have "lowest bs = lowest ys" "lowest (xs @ (p, e, False) # ys) = p" using g(1) by (simp_all add: lowest_append)
      moreover have "p < lowest ys"
        using lowest_less [OF g(8)] lowest_append [of ys "[]"] g(3,4) by (cases "\<forall>y \<in> set ys. snd (snd y)") auto
      ultimately show ?thesis using h(3) by (simp add: t_def)
    next
      case False
      then have "lowest bs = lowest xs" "lowest (xs @ (p, e, False) # ys) = lowest xs"
        unfolding g(1) lowest_append if_not_P [OF False] by simp_all
      then show ?thesis using h(3) lowest_less [OF g(2) False] by (simp add: t_def upd_mem_def)
    qed
    ultimately show ?thesis using g(7) h(6) link_valid [OF assms]
      unfolding mem_free_def by (simp add: Let_def SIZEOF_STRUCT_MEM_def)
  qed
  have s: "seg (mems t) 0 0 (xs @ (p, e, False) # ys) MEM_SIZE_ALIGNED"
  proof -
    have "seg (mems t) 0 0 xs p" "seg (mems t) p e ys MEM_SIZE_ALIGNED"
      using g(2,3,8) by (auto simp: t_def intro: seg_upd seg_upd_below)
    then show ?thesis using g(3,6,7) by (simp add: seg_append t_def)
  qed
  have ut: "used (mems t MEM_SIZE_ALIGNED)" using h(4) g(3,4) by (simp add: t_def)
  have lt: "lfree t = lowest (xs @ (p, e, False) # ys)" by (simp add: t_def)
  have nx: "no_holes xs" "no_holes ys" using h(2) g(1) by (auto simp: no_holes_simps)
  obtain f zs where f: "merge ((p, e, False) # ys) = (p, f, False) # zs" "no_holes ((p, f, False) # zs)"
    "seg (mems (plug_forward p t)) 0 0 (xs @ (p, f, False) # zs) MEM_SIZE_ALIGNED"
    "used (mems (plug_forward p t) MEM_SIZE_ALIGNED)" "lfree (plug_forward p t) = lfree t"
    using plug_forward_seg [OF s ut lt nx(2)] by blast
  have lf: "lfree (plug_forward p t) = lowest (xs @ (p, f, False) # zs)" using f(5) lt by (simp add: lowest_append)
  note b = plug_backward_seg [OF f(3,4) lf nx(1) f(2)]
  have "merge (xs @ (p, e, False) # ys) = merge (xs @ (p, f, False) # zs)"
    using f(1) merge_no_holes [OF f(2)] by (intro merge_cong) simp
  moreover have "release p bs = merge (xs @ (p, e, False) # ys)" using release_split h(1) g(1) by simp
  ultimately have "release p bs = merge (xs @ (p, f, False) # zs)" by simp
  then show ?thesis using b m h(5-7) by (simp add: heap_ok_def plug_holes_def t_def)
qed

lemma alloc_first_release:
  assumes "heap_ok s bs" "alloc_first n bs = Some (p, cs)" "heap_ok t cs"
  shows "release p cs = bs"
proof -
  obtain xs b ys where x: "bs = xs @ (p, b, False) # ys"
    "cs = xs @ (if p + 8 + n + 20 \<le> b then [(p, p + 8 + n, True), (p + 8 + n, b, False)] else [(p, b, True)]) @ ys"
    using alloc_first_Some assms(2) by blast
  obtain c zs where c: "cs = xs @ (p, c, True) # zs" "zs = ys \<and> c = b \<or> zs = (c, b, False) # ys" using x(2) by (auto split: if_splits)
  have n: "no_holes bs" using assms(1) by (simp add: heap_ok_def)
  have "release p cs = merge (xs @ (p, c, False) # zs)"
    using release_split assms(3) c(1) by (auto simp: heap_ok_def)
  also have "\<dots> = merge bs" using c(2) x(1) by (auto intro!: merge_cong)
  finally show ?thesis using merge_no_holes [OF n] by simp
qed

lemma used_plug_holes: "used (mems (plug_holes m s) a) = used (mems s a)"
proof -
  have 1: "used (mems (set_prev p n t) a) = used (mems t a)" for p n and t :: "'a mem_heap_scheme" by simp
  have 2: "used (mems (upd_mem p (\<lambda>x. x\<lparr>mem_next := n\<rparr>) t) a) = used (mems t a)" for p n and t :: "'a mem_heap_scheme" by simp
  show ?thesis unfolding plug_holes_def plug_backward_def plug_forward_def Let_def
    by (simp add: 1 2 del: mems_set_prev mems_upd_mem)
qed

lemma mem_free_unused:
  assumes "heap_ok s bs" "(p, e, True) \<in> set bs"
  shows "\<not> used (mems (mem_free (ram s + p + 8) s) p)"
proof -
  obtain xs ys where g: "p + 20 \<le> e" "e \<le> MEM_SIZE_ALIGNED" "4 dvd p" "mems s p = \<lparr>mem_next = e, mem_prev = last_start 0 xs, used = True\<rparr>"
    by (rule block_at [OF assms]) blast
  moreover have "4 dvd ram s" "0 < ram s" using assms(1) by (simp_all add: heap_ok_def)
  moreover from this g(3) have "(ram s + p + 8) mod 4 = 0" by (simp add: dvd_eq_mod_eq_0 [symmetric])
  ultimately show ?thesis using link_valid [OF assms] g(1,2)
    unfolding mem_free_def by (simp add: Let_def reg_consts used_plug_holes)
qed

section \<open>Trimming\<close>

definition trim_blocks :: "nat \<Rightarrow> nat \<Rightarrow> block list \<Rightarrow> block list" where
  "trim_blocks p n bs = concat (map (\<lambda>(a, b, u). if a = p then [(p, p + 8 + n, True), (p + 8 + n, b, False)] else [(a, b, u)]) bs)"

lemma trim_split:
  assumes "seg M 0 0 (xs @ (p, e, True) # ys) k"
  shows "trim_blocks p n (xs @ (p, e, True) # ys) = xs @ (p, p + 8 + n, True) # (p + 8 + n, e, False) # ys"
proof -
  have x: "\<forall>(a, b, u) \<in> set xs. a < p" and y: "\<forall>(a, b, u) \<in> set ys. p < a"
    using assms seg_bounds [of M 0 0 xs p] seg_bounds [of M p e ys k] by (fastforce simp: seg_append)+
  have i: "\<forall>(a, b, u) \<in> set zs. a \<noteq> p \<Longrightarrow> trim_blocks p n zs = zs" for zs
    by (induction zs) (auto simp: trim_blocks_def)
  have "trim_blocks p n xs = xs" "trim_blocks p n ys = ys" by (rule i, use x y in fastforce)+
  then show ?thesis by (simp add: trim_blocks_def)
qed

lemma lfree_apart:
  "upd_mem p f (s\<lparr>lfree := l\<rparr>) = (upd_mem p f s)\<lparr>lfree := l\<rparr>" "set_prev p n (s\<lparr>lfree := l\<rparr>) = (set_prev p n s)\<lparr>lfree := l\<rparr>"
  by (simp_all add: upd_mem_def set_prev_def)

lemma mem_trim_refines:
  assumes "heap_ok s bs" "(p, e, True) \<in> set bs" "n \<le> 65532" "p + 8 + request n \<le> e"
  shows "fst (mem_trim (ram s + p + 8) n s) = Some (ram s + p + 8)
    \<and> (\<exists>cs \<in> {bs, merge (trim_blocks p (request n) bs)}. heap_ok (snd (mem_trim (ram s + p + 8) n s)) cs)"
proof -
  let ?a = "ram s + p + 8" and ?k = "request n" and ?E = MEM_SIZE_ALIGNED
  let ?q = "p + 8 + ?k"
  obtain xs ys where g: "bs = xs @ (p, e, True) # ys" "seg (mems s) 0 0 xs p" "p + 20 \<le> e" "e \<le> ?E" "4 dvd p" "4 dvd e"
    "mems s p = \<lparr>mem_next = e, mem_prev = last_start 0 xs, used = True\<rparr>" "seg (mems s) p e ys ?E"
    by (rule block_at [OF assms(1,2)]) blast
  have h: "seg (mems s) 0 0 bs ?E" "no_holes bs" "lfree s = lowest bs" "used (mems s ?E)" "4 dvd ram s" "0 < ram s"
    "ram s + ?E < 2 ^ 32" using assms(1) by (simp_all add: heap_ok_def)
  note k = request_props(1) [OF assms(3)] request_props(2) [of n] request_props(3) [OF assms(3)]
  have q: "U16 ?q = ?q" "4 dvd ?q" using assms(4) g(4,5) k(1) by (simp_all add: U16_def reg_consts)
  have ptr: "mem_to_ptr s (minus_U32 ?a SIZEOF_STRUCT_MEM) = p"
    using h(7) g(3,4) by (simp add: mem_to_ptr_def minus_U32_le U16_def reg_consts)
  have len: "minus_U32 (minus_U32 e p mod 65536) SIZEOF_STRUCT_MEM mod 65536 = e - (p + 8)"
    using g(3,4) by (simp add: minus_U32_le reg_consts)
  define u where "u = (\<lambda>nn. set_prev ?q nn (upd_mem p (\<lambda>y. y\<lparr>mem_next := ?q\<rparr>)
    (upd_mem ?q (\<lambda>_. \<lparr>mem_next = nn, mem_prev = p, used = False\<rparr>) s)))"
  have t: "trim_blocks p ?k bs = xs @ (p, ?q, True) # (?q, e, False) # ys" using trim_split h(1) g(1) by simp
  have r: "\<not> ?k > ?E" "\<not> ?k < n" "\<not> ?a < ram s" "\<not> ?a \<ge> ram s + ?E" using assms(4) g(3,4) k(3) by (simp_all add: reg_consts)
  consider "?q = e" | "?q < e" "\<not> used (mems s e)" | "?q < e" "used (mems s e)" "?q + 20 \<le> e" | "?q < e" "used (mems s e)" "\<not> ?q + 20 \<le> e"
    using assms(4) by linarith
  then show ?thesis
  proof cases
    case 1
    then have "e - (p + 8) = ?k" by simp
    then have "mem_trim ?a n s = (Some ?a, s)"
      using r ptr len g(7) by (simp add: mem_trim_def Let_def)
    then show ?thesis using assms(1) by auto
  next
    case 2
    obtain d ys' where y: "ys = (e, d, False) # ys'" "seg (mems s) e d ys' ?E" "mems s e = \<lparr>mem_next = d, mem_prev = p, used = False\<rparr>"
      "e + 20 \<le> d" "4 dvd d" using 2 g(8) h(4) by (cases ys) auto
    define cs where "cs = xs @ [(p, ?q, True), (?q, d, False)] @ ys'"
    have "no_holes cs" using h(2) g(1) y(1) by (auto simp: cs_def no_holes_simps)
    then have m: "merge (trim_blocks p ?k bs) = cs"
      unfolding t y(1) using merge_no_holes [of cs] merge_cong [of "(?q, e, False) # (e, d, False) # ys'" "(?q, d, False) # ys'" "xs @ [(p, ?q, True)]"]
      by (simp add: cs_def)
    have v: "seg (mems (u d)) 0 0 cs ?E" "used (mems (u d) ?E) = used (mems s ?E)"
      unfolding u_def cs_def by (rule split_seg [OF g(2) _ y(2)]; use g(7) y(4,5) 2 k q in simp)+
    have l: "(if lfree s = e then ?q else lfree s) = lowest cs"
    proof (cases "\<forall>x \<in> set xs. snd (snd x)")
      case True
      then show ?thesis using h(3) g(1) y(1) by (simp add: cs_def lowest_append)
    next
      case False
      then show ?thesis
        using g(3) lowest_less [OF g(2) False] unfolding h(3) g(1) cs_def lowest_append if_not_P [OF False] by simp
    qed
    have k2: "\<not> ?k > e - (p + 8)" "\<not> ?k = e - (p + 8)" using 2 by simp_all
    have "mem_trim ?a n s = (Some ?a, (u d)\<lparr>lfree := if lfree s = e then ?q else lfree s\<rparr>)"
      using r ptr len g(7) y(3) 2(2) k2 q(1) unfolding mem_trim_def
      by (cases "lfree s = e") (simp_all add: Let_def u_def SIZEOF_STRUCT_MEM_def lfree_apart)
    then have "mem_trim ?a n s = (Some ?a, (u d)\<lparr>lfree := lowest cs\<rparr>)" unfolding l .
    moreover have "heap_ok ((u d)\<lparr>lfree := lowest cs\<rparr>) cs"
      using v h(4-7) \<open>no_holes cs\<close> by (simp add: heap_ok_def) (simp add: u_def)
    ultimately show ?thesis using m by simp
  next
    case 3
    define cs where "cs = xs @ [(p, ?q, True), (?q, e, False)] @ ys"
    have "ys = [] \<or> snd (snd (hd ys))" using 3 g(8) by (cases ys) auto
    then have "no_holes cs" using h(2) g(1) by (auto simp: cs_def no_holes_simps)
    then have m: "merge (trim_blocks p ?k bs) = cs" unfolding t using merge_no_holes [of cs] by (simp add: cs_def)
    have v: "seg (mems (u e)) 0 0 cs ?E" "used (mems (u e) ?E) = used (mems s ?E)"
      unfolding u_def cs_def by (rule split_seg [OF g(2) _ g(8)]; use g(6,7) 3 k q in simp)+
    have l: "(if ?q < lfree s then ?q else lfree s) = lowest cs"
    proof (cases "\<forall>x \<in> set xs. snd (snd x)")
      case True
      have "?q < lowest ys"
        using lowest_less [OF g(8)] lowest_append [of ys "[]"] 3(1) g(4) by (cases "\<forall>y \<in> set ys. snd (snd y)") auto
      then show ?thesis using True h(3) g(1) by (simp add: cs_def lowest_append)
    next
      case False
      then show ?thesis using lowest_less [OF g(2) False] unfolding h(3) g(1) cs_def lowest_append if_not_P [OF False] by simp
    qed
    have k3: "\<not> ?k > e - (p + 8)" "\<not> ?k = e - (p + 8)" "?k + 8 + 12 \<le> e - (p + 8)" using 3 by simp_all
    have "mem_trim ?a n s = (Some ?a, (u e)\<lparr>lfree := if ?q < lfree s then ?q else lfree s\<rparr>)"
      using r ptr len g(7) 3(2) k3 q(1) unfolding mem_trim_def
      by (cases "?q < lfree s") (simp_all add: Let_def u_def SIZEOF_STRUCT_MEM_def MIN_SIZE_ALIGNED_def lfree_apart)
    then have "mem_trim ?a n s = (Some ?a, (u e)\<lparr>lfree := lowest cs\<rparr>)" unfolding l .
    moreover have "heap_ok ((u e)\<lparr>lfree := lowest cs\<rparr>) cs"
      using v h(4-7) \<open>no_holes cs\<close> by (simp add: heap_ok_def) (simp add: u_def)
    ultimately show ?thesis using m by simp
  next
    case 4
    then have "\<not> ?k > e - (p + 8)" "\<not> ?k + 8 + 12 \<le> e - (p + 8)" by simp_all
    then have "mem_trim ?a n s = (Some ?a, s)"
      using 4(2) r ptr len g(7) by (simp add: mem_trim_def Let_def SIZEOF_STRUCT_MEM_def MIN_SIZE_ALIGNED_def)
    then show ?thesis using assms(1) by auto
  qed
qed

section \<open>Runs\<close>

text \<open>
  What clients can do to the heap: allocate, free or trim an area they hold, and write what they like
  to the areas they hold, which may look like any struct. \<open>live\<close> maps the addresses handed out
  to the sizes asked for.
\<close>

type_synonym 'z client = "'z mem_heap_scheme \<times> (nat \<rightharpoonup> nat)"

inductive heap_step :: "'z client \<Rightarrow> 'z client \<Rightarrow> bool" where
  malloc: "n < 65536 \<Longrightarrow> mem_malloc n s = Some (Some a, t) \<Longrightarrow> heap_step (s, live) (t, live(a \<mapsto> n))"
| malloc_fails: "n < 65536 \<Longrightarrow> mem_malloc n s = Some (None, t) \<Longrightarrow> heap_step (s, live) (t, live)"
| free: "live a = Some n \<Longrightarrow> heap_step (s, live) (mem_free a s, live(a := None))"
| trim: "live a = Some n \<Longrightarrow> k \<le> n \<Longrightarrow> mem_trim a k s = (r, t) \<Longrightarrow> heap_step (s, live) (t, live(a \<mapsto> k))"
| client_write: "live a = Some n \<Longrightarrow> a \<le> ram s + x \<Longrightarrow> ram s + x < a + n \<Longrightarrow> heap_step (s, live) (upd_mem x f s, live)"

inductive heap_reach :: "'z mem_heap_scheme \<Rightarrow> 'z client \<Rightarrow> bool" for s0 where
  init: "heap_reach s0 (mem_init s0, Map.empty)"
| step: "heap_reach s0 c \<Longrightarrow> heap_step c d \<Longrightarrow> heap_reach s0 d"

inductive_cases heap_stepE: "heap_step (s, live) d"

definition heap_inv :: "'z client \<Rightarrow> block list \<Rightarrow> bool" where
  "heap_inv c bs \<longleftrightarrow> heap_ok (fst c) bs
     \<and> (\<forall>a n. snd c a = Some n \<longrightarrow> (\<exists>p e. (p, e, True) \<in> set bs \<and> a = ram (fst c) + p + 8 \<and> p + 8 + n \<le> e))
     \<and> (\<forall>p e. (p, e, True) \<in> set bs \<longrightarrow> ram (fst c) + p + 8 \<in> dom (snd c))"

lemma heap_invI:
  assumes "heap_ok s bs" "\<And>a n. live a = Some n \<Longrightarrow> \<exists>p e. (p, e, True) \<in> set bs \<and> a = ram s + p + 8 \<and> p + 8 + n \<le> e"
    and "\<And>p e. (p, e, True) \<in> set bs \<Longrightarrow> ram s + p + 8 \<in> dom live"
  shows "heap_inv (s, live) bs"
  unfolding heap_inv_def fst_conv snd_conv using assms by blast

lemma heap_invD:
  assumes "heap_inv (s, live) bs"
  shows "heap_ok s bs" "live a = Some n \<Longrightarrow> \<exists>p e. (p, e, True) \<in> set bs \<and> a = ram s + p + 8 \<and> p + 8 + n \<le> e"
    and "(p, e, True) \<in> set bs \<Longrightarrow> ram s + p + 8 \<in> dom live"
  using assms unfolding heap_inv_def fst_conv snd_conv by blast+

lemma mem_init_ok:
  assumes "0 < ram s" "ram s + 5000 < 2 ^ 32"
  shows "heap_ok (mem_init s) [(0, MEM_SIZE_ALIGNED, False)]"
  using assms align_size [of "ram s"]
  by (simp add: heap_ok_def mem_init_def no_holes_def upd_mem_def) (simp add: reg_consts)

lemma merge_used: "(p, e, True) \<in> set (merge bs) \<longleftrightarrow> (p, e, True) \<in> set bs"
  by (induction bs rule: merge.induct) auto

lemma blocks_distinct:
  assumes "seg M p s bs e" "(a, b, u) \<in> set bs" "(c, d, v) \<in> set bs"
  shows "(a, b, u) = (c, d, v) \<or> b \<le> c \<or> d \<le> a"
  using assms
proof (induction bs arbitrary: p s)
  case (Cons x bs)
  obtain k l w where x: "x = (k, l, w)" by (cases x)
  then have m: "seg M k l bs e" using Cons.prems(1) by auto
  have "(a, b, u) \<in> set bs \<Longrightarrow> l \<le> a" "(c, d, v) \<in> set bs \<Longrightarrow> l \<le> c" using seg_bounds [OF m] by auto
  then show ?case using Cons.IH [OF m] Cons.prems(2,3) x by auto
qed simp

lemma release_used:
  "seg M q s bs n \<Longrightarrow> (p, e, True) \<in> set bs
    \<Longrightarrow> (a, b, True) \<in> set (release p bs) \<longleftrightarrow> (a, b, True) \<in> set bs \<and> a \<noteq> p"
  by (force simp: release_def merge_used)

lemma alloc_first_blocks:
  assumes "alloc_first n bs = Some (p, cs)"
  shows "\<exists>e. p + 8 + n \<le> e \<and> (\<forall>a b. (a, b, True) \<in> set cs \<longleftrightarrow> (a, b) = (p, e) \<or> (a, b, True) \<in> set bs)"
proof -
  obtain xs b ys where x: "bs = xs @ (p, b, False) # ys" "p + 8 + n \<le> b"
    "cs = xs @ (if p + 8 + n + 20 \<le> b then [(p, p + 8 + n, True), (p + 8 + n, b, False)] else [(p, b, True)]) @ ys"
    using alloc_first_Some assms by blast
  then show ?thesis by (intro exI [of _ "if p + 8 + n + 20 \<le> b then p + 8 + n else b"]) auto
qed

lemma heap_inv_malloc:
  assumes "heap_inv (s, live) bs" "n < 65536" "mem_malloc n s = Some (r, t)"
  shows "case r of None \<Rightarrow> t = s | Some a \<Rightarrow> \<exists>cs. heap_inv (t, live(a \<mapsto> n)) cs"
proof -
  have h: "heap_ok s bs" using assms(1) by (simp add: heap_inv_def)
  note m = mem_malloc_refines [OF h assms(2)]
  show ?thesis
  proof (cases "malloc_blocks n bs")
    case None
    then show ?thesis using m assms(3) by simp
  next
    case (Some x)
    obtain p cs where x: "x = (p, cs)" by (cases x)
    have a: "alloc_first (max 12 (LWIP_MEM_ALIGN_SIZE n)) bs = Some (p, cs)"
      using Some x by (auto simp: malloc_blocks_def split: if_splits)
    obtain M where M: "r = Some (ram s + p + 8)" "t = s\<lparr>mems := M, lfree := lowest cs\<rparr>" "heap_ok t cs"
      using m Some x assms(3) by auto
    obtain e where e: "p + 8 + max 12 (LWIP_MEM_ALIGN_SIZE n) \<le> e"
      "\<And>a b. (a, b, True) \<in> set cs \<longleftrightarrow> (a, b) = (p, e) \<or> (a, b, True) \<in> set bs"
      using alloc_first_blocks [OF a] by blast
    have "p + 8 + n \<le> e" using e(1) align_size(1) [of n] by linarith
    then have "heap_inv (t, live(ram s + p + 8 \<mapsto> n)) cs"
      using M e(2) heap_invD(2,3) [OF assms(1)] by (intro heap_invI) (fastforce split: if_splits)+
    then show ?thesis using M(1) by auto
  qed
qed

lemma heap_inv_free:
  assumes "heap_inv (s, live) bs" "live a = Some n"
  shows "\<exists>cs. heap_inv (mem_free a s, live(a := None)) cs"
proof -
  have h: "heap_ok s bs" "seg (mems s) 0 0 bs MEM_SIZE_ALIGNED" using assms(1) by (simp_all add: heap_inv_def heap_ok_def)
  obtain p e where p: "(p, e, True) \<in> set bs" "a = ram s + p + 8" using heap_invD(2) [OF assms] by blast
  have r: "ram (mem_free a s) = ram s" using mem_free_rest [of s a] by (simp add: same_rest_def)
  note u = release_used [OF h(2) p(1)]
  have "heap_ok (mem_free a s) (release p bs)" using mem_free_refines [OF h(1) p(1)] p(2) by simp
  moreover have "\<exists>q f. (q, f, True) \<in> set (release p bs) \<and> b = ram s + q + 8 \<and> q + 8 + k \<le> f"
    if ne: "b \<noteq> a" and lv: "live b = Some k" for b k
  proof -
    obtain q f where "(q, f, True) \<in> set bs" "b = ram s + q + 8" "q + 8 + k \<le> f" using heap_invD(2) [OF assms(1) lv] by blast
    then show ?thesis using ne p(2) u by auto
  qed
  moreover have "ram s + q + 8 \<in> dom (live(a := None))" if "(q, f, True) \<in> set (release p bs)" for q f
    using that u heap_invD(3) [OF assms(1), of q f] p(2) by auto
  ultimately show ?thesis using r by (intro exI [of _ "release p bs"] heap_invI) (auto split: if_splits)
qed

lemma heap_inv_trim:
  assumes "heap_inv (s, live) bs" "live a = Some n" "k \<le> n" "mem_trim a k s = (r, t)"
  shows "\<exists>cs. heap_inv (t, live(a \<mapsto> k)) cs"
proof -
  have h: "heap_ok s bs" "seg (mems s) 0 0 bs MEM_SIZE_ALIGNED" using assms(1) by (simp_all add: heap_inv_def heap_ok_def)
  obtain p e where p: "(p, e, True) \<in> set bs" "a = ram s + p + 8" "p + 8 + n \<le> e" using heap_invD(2) [OF assms(1,2)] by blast
  obtain xs ys where g: "bs = xs @ (p, e, True) # ys" "p + 20 \<le> e" "e \<le> MEM_SIZE_ALIGNED" "4 dvd p" "4 dvd e"
    by (rule block_at [OF h(1) p(1)]) blast
  have small: "k \<le> 65532" using assms(3) p(3) g(3) by (simp add: reg_consts)
  have k: "p + 8 + request k \<le> e"
  proof -
    obtain i j where ij: "p = 4 * i" "e = 4 * j" using g(4,5) by (auto simp: dvd_def)
    obtain l where l: "LWIP_MEM_ALIGN_SIZE k = 4 * l" using align_size(3) by (auto simp: dvd_def)
    have "l + i + 1 < j" using align_size(2) [of k] assms(3) p(3) unfolding l ij by presburger
    then show ?thesis using g(2) unfolding request_small [OF small] l ij by simp
  qed
  have r: "ram t = ram s" using mem_trim_rest [of s a k] assms(4) by (simp add: same_rest_def)
  obtain cs where cs: "cs = bs \<or> cs = merge (trim_blocks p (request k) bs)" "heap_ok t cs"
    using mem_trim_refines [OF h(1) p(1) small k] assms(4) p(2) by auto
  have t: "trim_blocks p (request k) bs = xs @ (p, p + 8 + request k, True) # (p + 8 + request k, e, False) # ys"
    using trim_split h(2) g(1) by simp
  obtain e' where e': "p + 8 + k \<le> e'" "\<And>b c. (b, c, True) \<in> set cs \<longleftrightarrow> (b, c) = (p, e') \<or> (b, c, True) \<in> set bs \<and> b \<noteq> p"
  proof (cases "cs = bs")
    case True
    have u: "c = e" if "(p, c, True) \<in> set bs" for c
    proof -
      have "p + 20 \<le> c" using seg_bounds [OF h(2)] that by auto
      then show ?thesis using blocks_distinct [OF h(2) p(1) that] g(2) by auto
    qed
    have 1: "p + 8 + k \<le> e" using p(3) assms(3) by simp
    have 2: "(b, c, True) \<in> set cs \<longleftrightarrow> (b, c) = (p, e) \<or> (b, c, True) \<in> set bs \<and> b \<noteq> p" for b c
      unfolding True using u p(1) by blast
    show ?thesis by (rule that [OF 1 2])
  next
    case False
    have "b \<noteq> p" if "(b, c, True) \<in> set xs \<union> set ys" for b c
      using that h(2) g(1) seg_bounds [of "mems s" 0 0 xs p] seg_bounds [of "mems s" p e ys] by (fastforce simp: seg_append)
    then show ?thesis using False cs(1) t g(1) request_props(3) [OF small]
      by (intro that [of "p + 8 + request k"]) (auto simp: merge_used)
  qed
  have "\<exists>q f. (q, f, True) \<in> set cs \<and> b = ram s + q + 8 \<and> q + 8 + j \<le> f" if lv: "(live(a \<mapsto> k)) b = Some j" for b j
  proof (cases "b = a")
    case True
    then show ?thesis using lv e' p(2) by auto
  next
    case False
    then obtain q f where "(q, f, True) \<in> set bs" "b = ram s + q + 8" "q + 8 + j \<le> f"
      using lv heap_invD(2) [OF assms(1), of b j] by auto
    then show ?thesis using False p(2) e'(2) by auto
  qed
  moreover have "ram s + q + 8 \<in> dom (live(a \<mapsto> k))" if "(q, f, True) \<in> set cs" for q f
    using that e'(2) heap_invD(3) [OF assms(1), of q f] p(2) by auto
  ultimately show ?thesis using r cs(2) by (intro exI [of _ cs] heap_invI) auto
qed

lemma heap_inv_write:
  assumes "heap_inv (s, live) bs" "live a = Some n" "a \<le> ram s + x" "ram s + x < a + n"
  shows "heap_inv (upd_mem x f s, live) bs"
proof -
  have h: "heap_ok s bs" using heap_invD(1) [OF assms(1)] .
  obtain p e where p: "(p, e, True) \<in> set bs" "a = ram s + p + 8" "p + 8 + n \<le> e" using heap_invD(2) [OF assms(1,2)] by blast
  obtain xs ys where g: "bs = xs @ (p, e, True) # ys" "seg (mems s) 0 0 xs p" "e \<le> MEM_SIZE_ALIGNED"
    "seg (mems s) p e ys MEM_SIZE_ALIGNED" "p + 20 \<le> e" "4 dvd e" "mems s p = \<lparr>mem_next = e, mem_prev = last_start 0 xs, used = True\<rparr>"
    by (rule block_at [OF h p(1)]) blast
  have x: "p < x" "x < e" using assms(3,4) p(2,3) by linarith+
  have "seg (mems (upd_mem x f s)) 0 0 xs p" "seg (mems (upd_mem x f s)) p e ys MEM_SIZE_ALIGNED"
    using g(2,4) x by (auto intro: seg_upd seg_upd_below)
  then have "seg (mems (upd_mem x f s)) 0 0 bs MEM_SIZE_ALIGNED" unfolding g(1) using g(5-7) x by (simp add: seg_append)
  then have "heap_ok (upd_mem x f s) bs" using h x g(3) by (simp add: heap_ok_def)
  then show ?thesis using heap_invD(2,3) [OF assms(1)] by (intro heap_invI) auto
qed

lemma heap_step_inv:
  assumes "heap_step c d" "heap_inv c bs"
  shows "\<exists>cs. heap_inv d cs"
  using assms
proof cases
  case (malloc n s a t live)
  then show ?thesis using heap_inv_malloc [of s live bs n "Some a" t] assms(2) by auto
next
  case (malloc_fails n s t live)
  then show ?thesis using heap_inv_malloc [of s live bs n None t] assms(2) by auto
next
  case (free live a n s)
  then show ?thesis using heap_inv_free [of s live bs a n] assms(2) by auto
next
  case (trim live a n k s r t)
  then show ?thesis using heap_inv_trim [of s live bs a n k r t] assms(2) by auto
next
  case (client_write live a n s x f)
  then show ?thesis using heap_inv_write [of s live bs a n x f] assms(2) by auto
qed

lemma heap_reach_inv:
  assumes "heap_reach s0 c" "0 < ram s0" "ram s0 + 5000 < 2 ^ 32"
  shows "\<exists>bs. heap_inv c bs"
  using assms(1)
proof induction
  case init
  show ?case by (intro exI [of _ "[(0, MEM_SIZE_ALIGNED, False)]"] heap_invI) (use mem_init_ok [OF assms(2,3)] in auto)
next
  case (step c d)
  then show ?case using heap_step_inv by blast
qed

lemma all_free_single:
  assumes "seg M p s bs e" "no_holes bs" "\<forall>x \<in> set bs. \<not> snd (snd x)" "s < e"
  shows "bs = [(s, e, False)]"
proof (cases bs)
  case (Cons x cs)
  then have "cs = []" using assms(2,3) by (cases cs) (auto simp: no_holes_simps)
  then show ?thesis using assms Cons by (cases x) auto
qed (use assms in simp)

text \<open>A heap at the start of the memory, for the examples.\<close>

definition blank_heap :: mem_heap where
  "blank_heap = \<lparr>ram = 0x20000000, mems = (\<lambda>_. \<lparr>mem_next = 0, mem_prev = 0, used = False\<rparr>), lfree = 0, bytes = (\<lambda>_. 0)\<rparr>"

lemma blank_heap_ok: "heap_ok (mem_init blank_heap) [(0, MEM_SIZE_ALIGNED, False)]"
  by (rule mem_init_ok) (simp_all add: blank_heap_def)

lemma blank_heap_malloc: "\<exists>a t. mem_malloc 100 (mem_init blank_heap) = Some (Some a, t)"
proof -
  have "malloc_blocks 100 [(0, MEM_SIZE_ALIGNED, False)] \<noteq> None"
    by (simp add: malloc_blocks_def LWIP_MEM_ALIGN_SIZE_def MEM_SIZE_ALIGNED_def)
  then show ?thesis using mem_malloc_refines [OF blank_heap_ok, of 100] by (auto split: option.splits)
qed

section \<open>Properties\<close>

text \<open>
  Property C13: allocation. On a heap whose structs form blocks, \<^verbatim>\<open>mem_malloc\<close> returns for every
  size. Either it hands out a block that was free, large enough for the request and inside the heap,
  the blocks stay a partition and the used ones are those of before and the new one; or it returns a
  null pointer and changes nothing, and then nothing was asked for or no free block could hold the
  request, rounded up to words and to the minimum size.
\<close>

theorem mem_malloc_correct:
  assumes "heap_ok s bs" "n < 65536"
  shows "(\<exists>p e cs t. mem_malloc n s = Some (Some (ram s + p + 8), t) \<and> heap_ok t cs \<and> bytes t = bytes s \<and> ram t = ram s
      \<and> 0 < n \<and> p + 8 + n \<le> e \<and> e \<le> MEM_SIZE_ALIGNED \<and> (\<forall>b. (p, b, True) \<notin> set bs)
      \<and> (\<forall>a b. (a, b, True) \<in> set cs \<longleftrightarrow> (a, b) = (p, e) \<or> (a, b, True) \<in> set bs))
    \<or> mem_malloc n s = Some (None, s)
      \<and> (n = 0 \<or> (\<forall>(a, b, u) \<in> set bs. u \<or> b < a + 8 + max 12 (LWIP_MEM_ALIGN_SIZE n)))"
proof (cases "malloc_blocks n bs")
  case None
  then have "n = 0 \<or> (\<forall>(a, b, u) \<in> set bs. u \<or> b < a + 8 + max 12 (LWIP_MEM_ALIGN_SIZE n))"
    by (auto simp: malloc_blocks_def alloc_first_None simp del: max_less_iff_conj split: if_splits)
  then show ?thesis using mem_malloc_refines [OF assms] None by simp
next
  case (Some x)
  obtain p cs where x: "x = (p, cs)" by (cases x)
  have a: "alloc_first (max 12 (LWIP_MEM_ALIGN_SIZE n)) bs = Some (p, cs)" "0 < n"
    using Some x by (auto simp: malloc_blocks_def split: if_splits)
  obtain M where M: "mem_malloc n s = Some (Some (ram s + p + 8), s\<lparr>mems := M, lfree := lowest cs\<rparr>)"
    "heap_ok (s\<lparr>mems := M, lfree := lowest cs\<rparr>) cs" using mem_malloc_refines [OF assms] Some x by auto
  obtain e where e: "p + 8 + max 12 (LWIP_MEM_ALIGN_SIZE n) \<le> e"
    "\<forall>a b. (a, b, True) \<in> set cs \<longleftrightarrow> (a, b) = (p, e) \<or> (a, b, True) \<in> set bs"
    using alloc_first_blocks [OF a(1)] by blast
  have "p + 8 + n \<le> e" using e(1) align_size(1) [of n] by linarith
  moreover have "e \<le> MEM_SIZE_ALIGNED" using M(2) e(2) seg_bounds [of M 0 0 cs] by (fastforce simp: heap_ok_def)
  moreover have "\<forall>b. (p, b, True) \<notin> set bs"
  proof -
    obtain xs f ys where y: "bs = xs @ (p, f, False) # ys" using alloc_first_Some [OF a(1)] by blast
    have sg: "seg (mems s) 0 0 bs MEM_SIZE_ALIGNED" using assms(1) by (simp add: heap_ok_def)
    have "(p, f, False) \<in> set bs" using y by simp
    then have "p + 20 \<le> b" "p + 20 \<le> f" if "(p, b, True) \<in> set bs" for b using that seg_bounds [OF sg] by auto
    then show ?thesis using blocks_distinct [OF sg \<open>(p, f, False) \<in> set bs\<close>] by fastforce
  qed
  ultimately show ?thesis using M a(2) e(2) by (intro disjI1 exI [of _ p] exI [of _ e] exI [of _ cs] exI) auto
qed

theorem mem_malloc_correct_witness:
  "\<exists>p t. mem_malloc 100 (mem_init blank_heap) = Some (Some (ram (mem_init blank_heap) + p + 8), t)"
  using mem_malloc_correct [OF blank_heap_ok, of 100]
  by (auto simp: MEM_SIZE_ALIGNED_def LWIP_MEM_ALIGN_SIZE_def)

text \<open>
  Property C25: an allocation and its release cancel. Whatever the heap, freeing the area \<^verbatim>\<open>mem_malloc\<close>
  just handed out gives the very blocks of before: the remainder that was cut off is joined again.
  Freeing it a second time changes nothing.
\<close>

theorem malloc_free_roundtrip:
  assumes "heap_ok s bs" "n < 65536" "mem_malloc n s = Some (Some a, t)"
  shows "heap_ok (mem_free a t) bs \<and> lfree (mem_free a t) = lfree s \<and> mem_free a (mem_free a t) = mem_free a t"
proof -
  obtain p cs where p: "malloc_blocks n bs = Some (p, cs)" "a = ram s + p + 8" "heap_ok t cs" "ram t = ram s"
    using mem_malloc_refines [OF assms(1,2)] assms(3) by (auto split: option.splits)
  have f: "alloc_first (max 12 (LWIP_MEM_ALIGN_SIZE n)) bs = Some (p, cs)"
    using p(1) by (auto simp: malloc_blocks_def split: if_splits)
  obtain e where e: "(p, e, True) \<in> set cs" using alloc_first_blocks [OF f] by auto
  have r: "heap_ok (mem_free a t) bs"
    using mem_free_refines [OF p(3) e] alloc_first_release [OF assms(1) f p(3)] p(2,4) by simp
  have "\<not> used (mems (mem_free a t) p)" using mem_free_unused [OF p(3) e] p(2,4) by simp
  moreover have "ram (mem_free a t) = ram s" using mem_free_rest [of t a] p(4) by (simp add: same_rest_def)
  ultimately have "mem_free a (mem_free a t) = mem_free a t"
    using p(2) unfolding mem_free_def [of a "mem_free a t"] by (simp add: Let_def SIZEOF_STRUCT_MEM_def)
  then show ?thesis using r assms(1) by (simp add: heap_ok_def)
qed

theorem malloc_free_roundtrip_witness:
  "\<exists>a t. mem_malloc 100 (mem_init blank_heap) = Some (Some a, t)
    \<and> heap_ok (mem_free a t) [(0, MEM_SIZE_ALIGNED, False)] \<and> mem_free a (mem_free a t) = mem_free a t"
  using blank_heap_malloc malloc_free_roundtrip [OF blank_heap_ok, of 100] by fastforce

text \<open>
  Property C7: the heap is safe in every run. Start from \<^verbatim>\<open>mem_init\<close> and let the clients allocate, free
  and trim what they hold and write anything to the areas they hold, in any order: no two areas
  handed out ever overlap, each lies inside the heap at an address divisible by four, and when all
  have been given back the heap is one free block again.
\<close>

theorem heap_reach_safe:
  assumes "heap_reach s0 (s, live)" "0 < ram s0" "ram s0 + 5000 < 2 ^ 32"
  shows "(\<forall>a n. live a = Some n \<longrightarrow> ram s < a \<and> a + n \<le> ram s + MEM_SIZE_ALIGNED \<and> 4 dvd a)
    \<and> (\<forall>a n b m. live a = Some n \<and> live b = Some m \<and> a \<noteq> b \<longrightarrow> a + n \<le> b \<or> b + m \<le> a)
    \<and> (live = Map.empty \<longrightarrow> heap_ok s [(0, MEM_SIZE_ALIGNED, False)])"
proof -
  obtain bs where i: "heap_inv (s, live) bs" using heap_reach_inv [OF assms] by blast
  have h: "heap_ok s bs" "seg (mems s) 0 0 bs MEM_SIZE_ALIGNED" "no_holes bs" "4 dvd ram s"
    using heap_invD(1) [OF i] by (simp_all add: heap_ok_def)
  have "ram s < a \<and> a + n \<le> ram s + MEM_SIZE_ALIGNED \<and> 4 dvd a" if l: "live a = Some n" for a n
  proof -
    obtain p e where p: "(p, e, True) \<in> set bs" "a = ram s + p + 8" "p + 8 + n \<le> e" using heap_invD(2) [OF i l] by blast
    then have "e \<le> MEM_SIZE_ALIGNED" "4 dvd p" using block_at [OF h(1) p(1)] by blast+
    then show ?thesis using p h(4) by auto
  qed
  moreover have "a + n \<le> b \<or> b + m \<le> a" if l: "live a = Some n" and k: "live b = Some m" and "a \<noteq> b" for a n b m
  proof -
    obtain p e where p: "(p, e, True) \<in> set bs" "a = ram s + p + 8" "p + 8 + n \<le> e" using heap_invD(2) [OF i l] by blast
    obtain q f where q: "(q, f, True) \<in> set bs" "b = ram s + q + 8" "q + 8 + m \<le> f" using heap_invD(2) [OF i k] by blast
    show ?thesis using blocks_distinct [OF h(2) p(1) q(1)] p(2,3) q(2,3) \<open>a \<noteq> b\<close> by auto
  qed
  moreover have "heap_ok s [(0, MEM_SIZE_ALIGNED, False)]" if "live = Map.empty"
  proof -
    have "\<forall>x \<in> set bs. \<not> snd (snd x)" using heap_invD(3) [OF i] that by fastforce
    then show ?thesis using all_free_single [OF h(2,3)] h(1) by (simp add: MEM_SIZE_ALIGNED_def)
  qed
  ultimately show ?thesis by blast
qed

theorem heap_reach_safe_witness:
  "\<exists>a t. heap_reach blank_heap (t, [a \<mapsto> 100]) \<and> ram t < a \<and> a + 100 \<le> ram t + MEM_SIZE_ALIGNED"
proof -
  obtain a t where m: "mem_malloc 100 (mem_init blank_heap) = Some (Some a, t)" using blank_heap_malloc by blast
  have r: "heap_reach blank_heap (t, [a \<mapsto> 100])"
    by (rule heap_reach.step [OF heap_reach.init]) (rule heap_step.malloc [OF _ m], simp)
  show ?thesis using r heap_reach_safe [OF r] by (intro exI conjI) (auto simp: blank_heap_def)
qed

end
