(* ===== verification/Lwip_Pbuf.thy ===== *)
theory Lwip_Pbuf
  imports Lwip_Mem
begin

text \<open>
  Model of \<^verbatim>\<open>src/lwip-2.1.2/src/core/pbuf.c\<close>, the packet buffers of the network stack, with the pools of
  \<^verbatim>\<open>memp.c\<close> they come from, in the configuration of this program: assertions are off, custom pbufs are
  on (fragmentation), buffers of the pool have 592 bytes. Addresses are natural numbers; the fields of a
  pbuf keep their width. Structs and payload bytes are separate parts of the state. A chain is followed
  by its links, so a function may not return: \<open>None\<close> is that, or a pointer that is no pbuf.
\<close>

section \<open>State\<close>

datatype pbuf_type = PBUF_RAM | PBUF_ROM | PBUF_REF | PBUF_POOL

datatype pbuf_layer = PBUF_TRANSPORT | PBUF_IP | PBUF_LINK | PBUF_RAW_TX | PBUF_RAW

record pbuf =
  next_of :: "nat option"
  payload :: nat
  tot_len :: u16
  len :: u16
  type_internal :: u8
  flags :: u8
  ref :: u8
  if_idx :: u8

text \<open>
  The two pools are their lists of free elements. \<open>custom_freed\<close> are the custom pbufs given to their free
  functions, newest first; \<open>callback_ok\<close> is whether the stack's thread takes a callback now and
  \<open>ooseq_calls\<close> how many it took.
\<close>

record lwip = mem_heap +
  pbufs :: "nat \<Rightarrow> pbuf option"
  memp_pbuf_pool :: "nat list"
  memp_pbuf :: "nat list"
  custom_freed :: "nat list"
  pbuf_free_ooseq_pending :: bool
  callback_ok :: bool
  ooseq_calls :: nat

fun type_code :: "pbuf_type \<Rightarrow> u8" where
  "type_code PBUF_RAM = 0x80" | "type_code PBUF_ROM = 0x01" | "type_code PBUF_REF = 0x41" | "type_code PBUF_POOL = 0x82"

fun layer_offset :: "pbuf_layer \<Rightarrow> nat" where
  "layer_offset PBUF_TRANSPORT = 54" | "layer_offset PBUF_IP = 34" | "layer_offset PBUF_LINK = 14"
| "layer_offset PBUF_RAW_TX = 0" | "layer_offset PBUF_RAW = 0"

definition SIZEOF_STRUCT_PBUF :: nat where [reg_consts]: "SIZEOF_STRUCT_PBUF = 16"
definition PBUF_POOL_BUFSIZE_ALIGNED :: nat where [reg_consts]: "PBUF_POOL_BUFSIZE_ALIGNED = 592"
definition PBUF_TYPE_FLAG_STRUCT_DATA_CONTIGUOUS :: u8 where "PBUF_TYPE_FLAG_STRUCT_DATA_CONTIGUOUS = 0x80"
definition PBUF_FLAG_IS_CUSTOM :: u8 where "PBUF_FLAG_IS_CUSTOM = 0x02"
definition ERR_OK :: int where "ERR_OK = 0"
definition ERR_MEM :: int where "ERR_MEM = -1"
definition ERR_VAL :: int where "ERR_VAL = -6"
definition ERR_ARG :: int where "ERR_ARG = -16"

definition pbuf_get_allocsrc :: "pbuf \<Rightarrow> u8" where "pbuf_get_allocsrc b = type_internal b AND 0x0F"

definition upd_pbuf :: "nat \<Rightarrow> (pbuf \<Rightarrow> pbuf) \<Rightarrow> lwip \<Rightarrow> lwip" where
  "upd_pbuf a f s = s\<lparr>pbufs := (pbufs s)(a := map_option f (pbufs s a))\<rparr>"

definition drop_pbuf :: "nat \<Rightarrow> lwip \<Rightarrow> lwip" where
  "drop_pbuf a s = s\<lparr>pbufs := (pbufs s)(a := None)\<rparr>"

definition read_bytes :: "(nat \<Rightarrow> u8) \<Rightarrow> nat \<Rightarrow> nat \<Rightarrow> u8 list" where
  "read_bytes M a n = map M [a..<a + n]"

definition write_bytes :: "nat \<Rightarrow> u8 list \<Rightarrow> lwip \<Rightarrow> lwip" where
  "write_bytes a xs s = s\<lparr>bytes := (\<lambda>x. if a \<le> x \<and> x < a + length xs then xs ! (x - a) else bytes s x)\<rparr>"

section \<open>Allocation and release\<close>

text \<open>\<^verbatim>\<open>memp_malloc\<close> and \<^verbatim>\<open>memp_free\<close> on a pool.\<close>

fun do_memp_malloc_pool :: "nat list \<Rightarrow> nat option \<times> nat list" where
  "do_memp_malloc_pool [] = (None, [])"
| "do_memp_malloc_pool (m # ms) = (Some m, ms)"

definition do_memp_free_pool :: "nat \<Rightarrow> nat list \<Rightarrow> nat list" where
  "do_memp_free_pool m ms = m # ms"

text \<open>The pool list \<^verbatim>\<open>memp_init_pool\<close> makes of \<open>num\<close> elements of \<open>sz\<close> bytes from \<open>base\<close>.\<close>

definition memp_init_pool :: "nat \<Rightarrow> nat \<Rightarrow> nat \<Rightarrow> nat list" where
  "memp_init_pool base num sz = fold (\<lambda>i tab. (LWIP_MEM_ALIGN_SIZE base + i * sz) # tab) [0..<num] []"

definition pbuf_init_alloced_pbuf :: "nat \<Rightarrow> nat \<Rightarrow> u16 \<Rightarrow> u16 \<Rightarrow> pbuf_type \<Rightarrow> u8 \<Rightarrow> lwip \<Rightarrow> lwip" where
  "pbuf_init_alloced_pbuf p pl tot l ty fl s =
     s\<lparr>pbufs := (pbufs s)(p \<mapsto> \<lparr>next_of = None, payload = pl, tot_len = tot, len = l, type_internal = type_code ty,
       flags = fl, ref = 1, if_idx = 0\<rparr>)\<rparr>"

definition pbuf_pool_is_empty :: "lwip \<Rightarrow> lwip" where
  "pbuf_pool_is_empty s =
     (if pbuf_free_ooseq_pending s then s
      else if callback_ok s then s\<lparr>pbuf_free_ooseq_pending := True, ooseq_calls := ooseq_calls s + 1\<rparr>
      else s\<lparr>pbuf_free_ooseq_pending := False\<rparr>)"

text \<open>What \<^verbatim>\<open>pbuf_free\<close> does with a pbuf whose last reference is gone.\<close>

definition deallocate :: "nat \<Rightarrow> pbuf \<Rightarrow> lwip \<Rightarrow> lwip" where
  "deallocate p b s =
     (if flags b AND PBUF_FLAG_IS_CUSTOM \<noteq> 0 then (drop_pbuf p s)\<lparr>custom_freed := p # custom_freed s\<rparr>
      else if pbuf_get_allocsrc b = 2 then (drop_pbuf p s)\<lparr>memp_pbuf_pool := do_memp_free_pool p (memp_pbuf_pool s)\<rparr>
      else if pbuf_get_allocsrc b = 1 then (drop_pbuf p s)\<lparr>memp_pbuf := do_memp_free_pool p (memp_pbuf s)\<rparr>
      else if pbuf_get_allocsrc b = 0 then mem_free p (drop_pbuf p s)
      else s)"

partial_function (option) free_loop :: "nat option \<Rightarrow> u8 \<Rightarrow> lwip \<Rightarrow> (u8 \<times> lwip) option" where
  "free_loop p cnt s =
     (case p of None \<Rightarrow> Some (cnt, s)
      | Some a \<Rightarrow> do {
          b \<leftarrow> pbufs s a;
          let s1 = upd_pbuf a (\<lambda>x. x\<lparr>ref := ref x - 1\<rparr>) s;
          if ref b - 1 = 0 then free_loop (next_of b) (cnt + 1) (deallocate a b s1) else Some (cnt, s1) })"

definition pbuf_free :: "nat option \<Rightarrow> lwip \<Rightarrow> (u8 \<times> lwip) option" where
  "pbuf_free p s = free_loop p 0 s"

definition pbuf_alloc_reference :: "nat \<Rightarrow> u16 \<Rightarrow> pbuf_type \<Rightarrow> lwip \<Rightarrow> nat option \<times> lwip" where
  "pbuf_alloc_reference pl n ty s =
     (case do_memp_malloc_pool (memp_pbuf s) of
        (None, ms) \<Rightarrow> (None, s)
      | (Some p, ms) \<Rightarrow> (Some p, pbuf_init_alloced_pbuf p pl n n ty 0 (s\<lparr>memp_pbuf := ms\<rparr>)))"

text \<open>The loop for the pool; \<open>p\<close> is the head of the chain with its last pbuf.\<close>

function pool_loop :: "(nat \<times> nat) option \<Rightarrow> u16 \<Rightarrow> nat \<Rightarrow> lwip \<Rightarrow> (nat option \<times> lwip) option" where
  "pool_loop p rem_len offset s =
     (case memp_pbuf_pool s of
        [] \<Rightarrow> (case p of None \<Rightarrow> Some (None, pbuf_pool_is_empty s)
              | Some (a, l) \<Rightarrow> do { (c, s1) \<leftarrow> pbuf_free (Some a) (pbuf_pool_is_empty s); Some (None, s1) })
      | q # qs \<Rightarrow>
          let qlen = min rem_len (of_nat (PBUF_POOL_BUFSIZE_ALIGNED - LWIP_MEM_ALIGN_SIZE offset));
              s1 = pbuf_init_alloced_pbuf q (LWIP_MEM_ALIGN_SIZE (q + SIZEOF_STRUCT_PBUF + offset)) rem_len qlen PBUF_POOL 0
                     (s\<lparr>memp_pbuf_pool := qs\<rparr>);
              s2 = (case p of None \<Rightarrow> s1 | Some (a, l) \<Rightarrow> upd_pbuf l (\<lambda>b. b\<lparr>next_of := Some q\<rparr>) s1);
              a = (case p of None \<Rightarrow> q | Some (a, l) \<Rightarrow> a)
          in if rem_len - qlen > 0 then pool_loop (Some (a, q)) (rem_len - qlen) 0 s2 else Some (Some a, s2))"
  by pat_completeness auto
termination
  by (relation "measure (\<lambda>(p, r, n, s). length (memp_pbuf_pool s))")
    (auto simp: pbuf_init_alloced_pbuf_def upd_pbuf_def split: option.splits)

declare pool_loop.simps [simp del]

definition pbuf_alloc :: "pbuf_layer \<Rightarrow> u16 \<Rightarrow> pbuf_type \<Rightarrow> lwip \<Rightarrow> (nat option \<times> lwip) option" where
  "pbuf_alloc layer n ty s =
     (let offset = layer_offset layer
      in case ty of
           PBUF_REF \<Rightarrow> Some (pbuf_alloc_reference 0 n ty s)
         | PBUF_ROM \<Rightarrow> Some (pbuf_alloc_reference 0 n ty s)
         | PBUF_POOL \<Rightarrow> pool_loop None n offset s
         | PBUF_RAM \<Rightarrow>
             let payload_len = U16 (LWIP_MEM_ALIGN_SIZE offset + LWIP_MEM_ALIGN_SIZE (unat n));
                 alloc_len = U16 (SIZEOF_STRUCT_PBUF + payload_len)
             in if payload_len < LWIP_MEM_ALIGN_SIZE (unat n) \<or> alloc_len < LWIP_MEM_ALIGN_SIZE (unat n)
                then Some (None, s)
                else do {
                  (r, s1) \<leftarrow> mem_malloc alloc_len s;
                  case r of None \<Rightarrow> Some (None, s1)
                  | Some p \<Rightarrow> Some (Some p, pbuf_init_alloced_pbuf p (LWIP_MEM_ALIGN_SIZE (p + SIZEOF_STRUCT_PBUF + offset))
                      n n ty 0 s1) })"

definition pbuf_alloced_custom :: "pbuf_layer \<Rightarrow> u16 \<Rightarrow> pbuf_type \<Rightarrow> nat \<Rightarrow> nat \<Rightarrow> u16 \<Rightarrow> lwip \<Rightarrow> nat option \<times> lwip" where
  "pbuf_alloced_custom layer n ty p payload_mem payload_mem_len s =
     (let offset = LWIP_MEM_ALIGN_SIZE (layer_offset layer)
      in if offset + unat n > unat payload_mem_len then (None, s)
         else (Some p, pbuf_init_alloced_pbuf p (if payload_mem \<noteq> 0 then payload_mem + offset else 0)
           n n ty PBUF_FLAG_IS_CUSTOM s))"

section \<open>Shrinking and headers\<close>

text \<open>The loop of \<^verbatim>\<open>pbuf_realloc\<close>: the pbuf that becomes the last one and the length it keeps.\<close>

partial_function (option) realloc_loop :: "nat \<Rightarrow> u16 \<Rightarrow> u16 \<Rightarrow> lwip \<Rightarrow> (nat \<times> u16 \<times> lwip) option" where
  "realloc_loop q rem_len shrink s = do {
     b \<leftarrow> pbufs s q;
     if rem_len > len b then do {
       nx \<leftarrow> next_of b;
       realloc_loop nx (rem_len - len b) shrink (upd_pbuf q (\<lambda>x. x\<lparr>tot_len := tot_len x - shrink\<rparr>) s) }
     else Some (q, rem_len, s) }"

definition pbuf_realloc :: "nat \<Rightarrow> u16 \<Rightarrow> lwip \<Rightarrow> lwip option" where
  "pbuf_realloc p new_len s = do {
     b \<leftarrow> pbufs s p;
     if new_len \<ge> tot_len b then Some s
     else do {
       (q, rem_len, s1) \<leftarrow> realloc_loop p new_len (tot_len b - new_len) s;
       c \<leftarrow> pbufs s1 q;
       let (r, s2) = (if pbuf_get_allocsrc c = 0 \<and> rem_len \<noteq> len c \<and> flags c AND PBUF_FLAG_IS_CUSTOM = 0
                      then mem_trim q (U16 (minus_U32 (payload c) q + unat rem_len)) s1 else (Some q, s1));
       q2 \<leftarrow> r;
       let s3 = upd_pbuf q2 (\<lambda>x. x\<lparr>len := rem_len, tot_len := rem_len\<rparr>) s2;
       s4 \<leftarrow> (case next_of c of None \<Rightarrow> Some s3 | Some nx \<Rightarrow> map_option snd (pbuf_free (Some nx) s3));
       Some (upd_pbuf q2 (\<lambda>x. x\<lparr>next_of := None\<rparr>) s4) } }"

text \<open>The headers; the result is 0 on success.\<close>

definition pbuf_add_header_impl :: "nat option \<Rightarrow> nat \<Rightarrow> bool \<Rightarrow> lwip \<Rightarrow> (nat \<times> lwip) option" where
  "pbuf_add_header_impl p header_size_increment force s =
     (case p of None \<Rightarrow> Some (1, s)
      | Some a \<Rightarrow>
        if header_size_increment > 0xFFFF then Some (1, s)
        else if header_size_increment = 0 then Some (0, s)
        else do {
          b \<leftarrow> pbufs s a;
          let inc = (of_nat header_size_increment :: u16);
          let pl = minus_U32 (payload b) header_size_increment;
          if inc + tot_len b < inc then Some (1, s)
          else if type_internal b AND PBUF_TYPE_FLAG_STRUCT_DATA_CONTIGUOUS \<noteq> 0 \<and> pl < a + SIZEOF_STRUCT_PBUF then Some (1, s)
          else if type_internal b AND PBUF_TYPE_FLAG_STRUCT_DATA_CONTIGUOUS = 0 \<and> \<not> force then Some (1, s)
          else Some (0, upd_pbuf a (\<lambda>x. x\<lparr>payload := pl, len := len x + inc, tot_len := tot_len x + inc\<rparr>) s) })"

definition pbuf_add_header :: "nat option \<Rightarrow> nat \<Rightarrow> lwip \<Rightarrow> (nat \<times> lwip) option" where
  "pbuf_add_header p n s = pbuf_add_header_impl p n False s"

definition pbuf_add_header_force :: "nat option \<Rightarrow> nat \<Rightarrow> lwip \<Rightarrow> (nat \<times> lwip) option" where
  "pbuf_add_header_force p n s = pbuf_add_header_impl p n True s"

definition pbuf_remove_header :: "nat option \<Rightarrow> nat \<Rightarrow> lwip \<Rightarrow> (nat \<times> lwip) option" where
  "pbuf_remove_header p header_size_decrement s =
     (case p of None \<Rightarrow> Some (1, s)
      | Some a \<Rightarrow>
        if header_size_decrement > 0xFFFF then Some (1, s)
        else if header_size_decrement = 0 then Some (0, s)
        else do {
          b \<leftarrow> pbufs s a;
          let inc = (of_nat header_size_decrement :: u16);
          if \<not> inc \<le> len b then Some (1, s)
          else Some (0, upd_pbuf a (\<lambda>x. x\<lparr>payload := payload x + header_size_decrement, len := len x - inc,
            tot_len := tot_len x - inc\<rparr>) s) })"

definition pbuf_header_impl :: "nat option \<Rightarrow> int \<Rightarrow> bool \<Rightarrow> lwip \<Rightarrow> (nat \<times> lwip) option" where
  "pbuf_header_impl p n force s =
     (if n < 0 then pbuf_remove_header p (nat (- n)) s else pbuf_add_header_impl p (nat n) force s)"

definition pbuf_header :: "nat option \<Rightarrow> int \<Rightarrow> lwip \<Rightarrow> (nat \<times> lwip) option" where
  "pbuf_header p n s = pbuf_header_impl p n False s"

definition pbuf_header_force :: "nat option \<Rightarrow> int \<Rightarrow> lwip \<Rightarrow> (nat \<times> lwip) option" where
  "pbuf_header_force p n s = pbuf_header_impl p n True s"

partial_function (option) pbuf_free_header :: "nat option \<Rightarrow> u16 \<Rightarrow> lwip \<Rightarrow> (nat option \<times> lwip) option" where
  "pbuf_free_header p free_left s =
     (case p of None \<Rightarrow> Some (None, s)
      | Some a \<Rightarrow>
        if free_left = 0 then Some (p, s)
        else do {
          b \<leftarrow> pbufs s a;
          if free_left \<ge> len b then do {
            (c, s1) \<leftarrow> pbuf_free (Some a) (upd_pbuf a (\<lambda>x. x\<lparr>next_of := None\<rparr>) s);
            pbuf_free_header (next_of b) (free_left - len b) s1 }
          else do { (e, s1) \<leftarrow> pbuf_remove_header p (unat free_left) s; Some (p, s1) } })"

section \<open>Chains\<close>

partial_function (option) clen_loop :: "nat option \<Rightarrow> u16 \<Rightarrow> lwip \<Rightarrow> u16 option" where
  "clen_loop p n s =
     (case p of None \<Rightarrow> Some n | Some a \<Rightarrow> do { b \<leftarrow> pbufs s a; clen_loop (next_of b) (n + 1) s })"

definition pbuf_clen :: "nat option \<Rightarrow> lwip \<Rightarrow> u16 option" where
  "pbuf_clen p s = clen_loop p 0 s"

definition pbuf_ref :: "nat option \<Rightarrow> lwip \<Rightarrow> lwip option" where
  "pbuf_ref p s =
     (case p of None \<Rightarrow> Some s
      | Some a \<Rightarrow> do { b \<leftarrow> pbufs s a; Some (upd_pbuf a (\<lambda>x. x\<lparr>ref := ref x + 1\<rparr>) s) })"

partial_function (option) cat_loop :: "nat \<Rightarrow> nat \<Rightarrow> lwip \<Rightarrow> lwip option" where
  "cat_loop p t s = do {
     b \<leftarrow> pbufs s p;
     c \<leftarrow> pbufs s t;
     let s1 = upd_pbuf p (\<lambda>x. x\<lparr>tot_len := tot_len x + tot_len c\<rparr>) s;
     case next_of b of
       None \<Rightarrow> Some (upd_pbuf p (\<lambda>x. x\<lparr>next_of := Some t\<rparr>) s1)
     | Some nx \<Rightarrow> cat_loop nx t s1 }"

definition pbuf_cat :: "nat option \<Rightarrow> nat option \<Rightarrow> lwip \<Rightarrow> lwip option" where
  "pbuf_cat h t s = (case (h, t) of (Some p, Some q) \<Rightarrow> cat_loop p q s | _ \<Rightarrow> Some s)"

definition pbuf_chain :: "nat option \<Rightarrow> nat option \<Rightarrow> lwip \<Rightarrow> lwip option" where
  "pbuf_chain h t s = do { s1 \<leftarrow> pbuf_cat h t s; pbuf_ref t s1 }"

definition pbuf_dechain :: "nat \<Rightarrow> lwip \<Rightarrow> (nat option \<times> lwip) option" where
  "pbuf_dechain p s = do {
     b \<leftarrow> pbufs s p;
     case next_of b of
       None \<Rightarrow> Some (None, s)
     | Some q \<Rightarrow> do {
         c \<leftarrow> pbufs s q;
         let s1 = upd_pbuf q (\<lambda>x. x\<lparr>tot_len := tot_len b - len b\<rparr>) s;
         let s2 = upd_pbuf p (\<lambda>x. x\<lparr>next_of := None, tot_len := len x\<rparr>) s1;
         (tail_gone, s3) \<leftarrow> pbuf_free (Some q) s2;
         Some (if tail_gone > 0 then None else Some q, s3) } }"

section \<open>Contents\<close>

text \<open>\<open>dataptr\<close> points outside the state: what is stored there is returned, what is read from there an argument.\<close>

partial_function (option) copy_partial_loop :: "nat option \<Rightarrow> u16 \<Rightarrow> u16 \<Rightarrow> u16 \<Rightarrow> u8 list \<Rightarrow> lwip \<Rightarrow> (u16 \<times> u8 list) option" where
  "copy_partial_loop p n offset copied_total out s =
     (case p of None \<Rightarrow> Some (copied_total, out)
      | Some a \<Rightarrow>
        if n = 0 then Some (copied_total, out)
        else do {
          b \<leftarrow> pbufs s a;
          if offset \<noteq> 0 \<and> offset \<ge> len b then copy_partial_loop (next_of b) n (offset - len b) copied_total out s
          else let buf_copy_len = min (len b - offset) n
               in copy_partial_loop (next_of b) (n - buf_copy_len) 0 (copied_total + buf_copy_len)
                    (out @ read_bytes (bytes s) (payload b + unat offset) (unat buf_copy_len)) s })"

definition pbuf_copy_partial :: "nat option \<Rightarrow> u16 \<Rightarrow> u16 \<Rightarrow> lwip \<Rightarrow> (u16 \<times> u8 list) option" where
  "pbuf_copy_partial buf n offset s = (case buf of None \<Rightarrow> Some (0, []) | Some a \<Rightarrow> copy_partial_loop buf n offset 0 [] s)"

partial_function (option) pbuf_skip_const :: "nat option \<Rightarrow> u16 \<Rightarrow> lwip \<Rightarrow> (nat option \<times> u16) option" where
  "pbuf_skip_const q offset_left s =
     (case q of None \<Rightarrow> Some (None, offset_left)
      | Some a \<Rightarrow> do {
          b \<leftarrow> pbufs s a;
          if len b \<le> offset_left then pbuf_skip_const (next_of b) (offset_left - len b) s else Some (q, offset_left) })"

datatype contiguous = Null | In_Place nat | Copied "u8 list"

definition pbuf_get_contiguous :: "nat option \<Rightarrow> nat \<Rightarrow> u16 \<Rightarrow> u16 \<Rightarrow> lwip \<Rightarrow> contiguous option" where
  "pbuf_get_contiguous p bufsize n offset s =
     (if p = None \<or> bufsize < unat n then Some Null
      else do {
        (q, out_offset) \<leftarrow> pbuf_skip_const p offset s;
        case q of None \<Rightarrow> Some Null
        | Some a \<Rightarrow> do {
            b \<leftarrow> pbufs s a;
            if unat (len b) \<ge> unat out_offset + unat n then Some (In_Place (payload b + unat out_offset))
            else do {
              (c, out) \<leftarrow> pbuf_copy_partial q n out_offset s;
              Some (if c \<noteq> n then Null else Copied out) } } })"

partial_function (option) take_loop :: "nat option \<Rightarrow> u8 list \<Rightarrow> nat \<Rightarrow> lwip \<Rightarrow> lwip option" where
  "take_loop p data total_copy_len s =
     (if total_copy_len = 0 then Some s
      else do {
        a \<leftarrow> p;
        b \<leftarrow> pbufs s a;
        let buf_copy_len = min total_copy_len (unat (len b));
        if buf_copy_len > length data then None
        else take_loop (next_of b) (drop buf_copy_len data) (total_copy_len - buf_copy_len)
               (write_bytes (payload b) (take buf_copy_len data) s) })"

text \<open>\<open>data\<close> is what \<^verbatim>\<open>dataptr\<close> points to, \<open>None\<close> a null pointer.\<close>

definition pbuf_take :: "nat option \<Rightarrow> u8 list option \<Rightarrow> u16 \<Rightarrow> lwip \<Rightarrow> (int \<times> lwip) option" where
  "pbuf_take buf data n s =
     (case (buf, data) of
        (Some a, Some xs) \<Rightarrow> do {
          b \<leftarrow> pbufs s a;
          if tot_len b < n then Some (ERR_MEM, s)
          else do { s1 \<leftarrow> take_loop buf xs (unat n) s; Some (ERR_OK, s1) } }
      | _ \<Rightarrow> Some (ERR_ARG, s))"

definition pbuf_take_at :: "nat option \<Rightarrow> u8 list \<Rightarrow> u16 \<Rightarrow> u16 \<Rightarrow> lwip \<Rightarrow> (int \<times> lwip) option" where
  "pbuf_take_at buf data n offset s = do {
     (q, target_offset) \<leftarrow> pbuf_skip_const buf offset s;
     case q of None \<Rightarrow> Some (ERR_MEM, s)
     | Some a \<Rightarrow> do {
         b \<leftarrow> pbufs s a;
         if unat (tot_len b) \<ge> unat target_offset + unat n then
           let first_copy_len = min (unat (len b) - unat target_offset) (unat n);
               s1 = write_bytes (payload b + unat target_offset) (take first_copy_len data) s
           in if length data < first_copy_len then None
              else if unat n - first_copy_len > 0
              then pbuf_take (next_of b) (Some (drop first_copy_len data)) (of_nat (unat n - first_copy_len)) s1
              else Some (ERR_OK, s1)
         else Some (ERR_MEM, s) } }"

text \<open>The loop of \<^verbatim>\<open>pbuf_copy\<close>.\<close>

definition is_queue :: "nat option \<Rightarrow> lwip \<Rightarrow> bool option" where
  "is_queue p s =
     (case p of None \<Rightarrow> Some False
      | Some a \<Rightarrow> do { b \<leftarrow> pbufs s a; Some (len b = tot_len b \<and> next_of b \<noteq> None) })"

partial_function (option) copy_loop :: "nat \<Rightarrow> nat \<Rightarrow> nat \<Rightarrow> nat \<Rightarrow> lwip \<Rightarrow> (int \<times> lwip) option" where
  "copy_loop p_to offset_to p_from offset_from s = do {
     t \<leftarrow> pbufs s p_to;
     f \<leftarrow> pbufs s p_from;
     let n = (if unat (len t) - offset_to \<ge> unat (len f) - offset_from then unat (len f) - offset_from
              else unat (len t) - offset_to);
     let s1 = write_bytes (payload t + offset_to) (read_bytes (bytes s) (payload f + offset_from) n) s;
     let (from2, of2) = (if offset_from + n \<ge> unat (len f) then (next_of f, 0) else (Some p_from, offset_from + n));
     let (to2, ot2) = (if offset_to + n = unat (len t) then (next_of t, 0) else (Some p_to, offset_to + n));
     if offset_to + n = unat (len t) \<and> to2 = None \<and> from2 \<noteq> None then Some (ERR_ARG, s1)
     else do {
       qf \<leftarrow> is_queue from2 s1;
       qt \<leftarrow> is_queue to2 s1;
       if qf \<or> qt then Some (ERR_VAL, s1)
       else case from2 of None \<Rightarrow> Some (ERR_OK, s1)
            | Some pf \<Rightarrow> do { pt \<leftarrow> to2; copy_loop pt ot2 pf of2 s1 } } }"

definition pbuf_copy :: "nat option \<Rightarrow> nat option \<Rightarrow> lwip \<Rightarrow> (int \<times> lwip) option" where
  "pbuf_copy p_to p_from s =
     (case (p_to, p_from) of
        (Some a, Some c) \<Rightarrow> do {
          t \<leftarrow> pbufs s a;
          f \<leftarrow> pbufs s c;
          if tot_len t \<ge> tot_len f then copy_loop a 0 c 0 s else Some (ERR_ARG, s) }
      | _ \<Rightarrow> Some (ERR_ARG, s))"

definition pbuf_clone :: "pbuf_layer \<Rightarrow> pbuf_type \<Rightarrow> nat \<Rightarrow> lwip \<Rightarrow> (nat option \<times> lwip) option" where
  "pbuf_clone layer ty p s = do {
     b \<leftarrow> pbufs s p;
     (q, s1) \<leftarrow> pbuf_alloc layer (tot_len b) ty s;
     case q of None \<Rightarrow> Some (None, s1)
     | Some a \<Rightarrow> do { (e, s2) \<leftarrow> pbuf_copy (Some a) (Some p) s1; Some (Some a, s2) } }"

definition pbuf_coalesce :: "nat \<Rightarrow> pbuf_layer \<Rightarrow> lwip \<Rightarrow> (nat \<times> lwip) option" where
  "pbuf_coalesce p layer s = do {
     b \<leftarrow> pbufs s p;
     if next_of b = None then Some (p, s)
     else do {
       (q, s1) \<leftarrow> pbuf_clone layer PBUF_RAM p s;
       case q of None \<Rightarrow> Some (p, s1)
       | Some a \<Rightarrow> do { (c, s2) \<leftarrow> pbuf_free (Some p) s1; Some (a, s2) } } }"

definition pbuf_try_get_at :: "nat option \<Rightarrow> u16 \<Rightarrow> lwip \<Rightarrow> int option" where
  "pbuf_try_get_at p offset s = do {
     (q, q_idx) \<leftarrow> pbuf_skip_const p offset s;
     case q of None \<Rightarrow> Some (- 1)
     | Some a \<Rightarrow> do {
         b \<leftarrow> pbufs s a;
         Some (if len b > q_idx then uint (bytes s (payload b + unat q_idx)) else - 1) } }"

definition pbuf_get_at :: "nat option \<Rightarrow> u16 \<Rightarrow> lwip \<Rightarrow> u8 option" where
  "pbuf_get_at p offset s = do { r \<leftarrow> pbuf_try_get_at p offset s; Some (if r \<ge> 0 then word_of_int r else 0) }"

definition pbuf_put_at :: "nat option \<Rightarrow> u16 \<Rightarrow> u8 \<Rightarrow> lwip \<Rightarrow> lwip option" where
  "pbuf_put_at p offset data s = do {
     (q, q_idx) \<leftarrow> pbuf_skip_const p offset s;
     case q of None \<Rightarrow> Some s
     | Some a \<Rightarrow> do {
         b \<leftarrow> pbufs s a;
         Some (if len b > q_idx then write_bytes (payload b + unat q_idx) [data] s else s) } }"

text \<open>The comparison loop of \<^verbatim>\<open>pbuf_memcmp\<close>: \<open>s2\<close> is what is left to compare, from index \<open>i\<close>.\<close>

fun memcmp_loop :: "nat option \<Rightarrow> u16 \<Rightarrow> nat \<Rightarrow> u8 list \<Rightarrow> lwip \<Rightarrow> nat option" where
  "memcmp_loop q start i [] s = Some 0"
| "memcmp_loop q start i (x # xs) s = do {
     a \<leftarrow> pbuf_get_at q (start + of_nat i) s;
     if a \<noteq> x then Some (min (i + 1) 0xFFFF) else memcmp_loop q start (i + 1) xs s }"

definition pbuf_memcmp :: "nat \<Rightarrow> u16 \<Rightarrow> u8 list \<Rightarrow> lwip \<Rightarrow> nat option" where
  "pbuf_memcmp p offset s2 s = do {
     b \<leftarrow> pbufs s p;
     if unat (tot_len b) < unat offset + length s2 then Some 0xFFFF
     else do { (q, start) \<leftarrow> pbuf_skip_const (Some p) offset s; memcmp_loop q start 0 s2 s } }"

partial_function (option) memfind_loop :: "nat \<Rightarrow> u8 list \<Rightarrow> u16 \<Rightarrow> u16 \<Rightarrow> lwip \<Rightarrow> u16 option" where
  "memfind_loop p mem max_cmp_start i s =
     (if i \<le> max_cmp_start then do {
        plus \<leftarrow> pbuf_memcmp p i mem s;
        if plus = 0 then Some i else memfind_loop p mem max_cmp_start (i + 1) s }
      else Some 0xFFFF)"

definition pbuf_memfind :: "nat \<Rightarrow> u8 list \<Rightarrow> u16 \<Rightarrow> lwip \<Rightarrow> u16 option" where
  "pbuf_memfind p mem start_offset s = do {
     b \<leftarrow> pbufs s p;
     if unat (tot_len b) \<ge> length mem + unat start_offset
     then memfind_loop p mem (tot_len b - of_nat (length mem)) start_offset s else Some 0xFFFF }"

text \<open>\<open>substr\<close> is the string up to its terminating zero, \<open>None\<close> a null pointer.\<close>

definition pbuf_strstr :: "nat \<Rightarrow> u8 list option \<Rightarrow> lwip \<Rightarrow> u16 option" where
  "pbuf_strstr p substr s =
     (case substr of None \<Rightarrow> Some 0xFFFF
      | Some xs \<Rightarrow>
          if xs = [] then Some 0xFFFF
          else do {
            b \<leftarrow> pbufs s p;
            if tot_len b = 0xFFFF \<or> length xs \<ge> 0xFFFF then Some 0xFFFF else pbuf_memfind p xs 0 s })"

end
