(* ===== verification/Lwip_Pbuf_Data.thy ===== *)
theory Lwip_Pbuf_Data
  imports Lwip_Pbuf
begin

text \<open>
  What the packet buffers hold: the abstraction of a chain to its bytes, reading, searching and
  writing. The definitions of \<open>Lwip_Pbuf\<close> follow the links of the chain; here they are shown to act
  on the bytes of the packet as a whole.
\<close>

section \<open>Chains and their contents\<close>

text \<open>\<open>chain P p bs e\<close>: from \<open>p\<close> the links of \<open>P\<close> lead over the pbufs \<open>bs\<close> to \<open>e\<close>.\<close>

fun chain :: "(nat \<Rightarrow> pbuf option) \<Rightarrow> nat option \<Rightarrow> (nat \<times> pbuf) list \<Rightarrow> nat option \<Rightarrow> bool" where
  "chain P p [] e \<longleftrightarrow> p = e"
| "chain P p ((a, b) # bs) e \<longleftrightarrow> p = Some a \<and> P a = Some b \<and> chain P (next_of b) bs e"

definition size_of :: "(nat \<times> pbuf) list \<Rightarrow> nat" where
  "size_of bs = sum_list (map (\<lambda>(a, b). unat (len b)) bs)"

definition contents :: "(nat \<Rightarrow> u8) \<Rightarrow> (nat \<times> pbuf) list \<Rightarrow> u8 list" where
  "contents M bs = concat (map (\<lambda>(a, b). read_bytes M (payload b) (unat (len b))) bs)"

text \<open>The documented invariant of \<^verbatim>\<open>tot_len\<close>, with \<open>r\<close> bytes following the last pbuf.\<close>

fun lens_ok :: "nat \<Rightarrow> (nat \<times> pbuf) list \<Rightarrow> bool" where
  "lens_ok r [] \<longleftrightarrow> True"
| "lens_ok r ((a, b) # bs) \<longleftrightarrow> unat (tot_len b) = unat (len b) + size_of bs + r \<and> lens_ok r bs"

lemma size_of_simps [simp]: "size_of [] = 0" "size_of ((a, b) # bs) = unat (len b) + size_of bs"
  "size_of (xs @ ys) = size_of xs + size_of ys"
  by (simp_all add: size_of_def)

lemma contents_simps [simp]: "contents M [] = []"
  "contents M ((a, b) # bs) = read_bytes M (payload b) (unat (len b)) @ contents M bs"
  "contents M (xs @ ys) = contents M xs @ contents M ys"
  by (simp_all add: contents_def)

lemma length_read_bytes [simp]: "length (read_bytes M a n) = n"
  by (simp add: read_bytes_def)

lemma length_contents [simp]: "length (contents M bs) = size_of bs"
  by (induction bs) auto

lemma read_bytes_nth [simp]: "i < n \<Longrightarrow> read_bytes M a n ! i = M (a + i)"
  by (simp add: read_bytes_def)

lemma take_drop_read_bytes: "i + k \<le> n \<Longrightarrow> take k (drop i (read_bytes M a n)) = read_bytes M (a + i) k"
  by (rule nth_equalityI) (simp_all add: add.assoc)

lemma unat_u16: "unat (w :: u16) < 65536"
proof -
  have "unat w < 2 ^ LENGTH(16)" by (rule unsigned_less)
  then show ?thesis by simp
qed

lemma chain_append: "chain P p (xs @ ys) e \<longleftrightarrow> (\<exists>m. chain P p xs m \<and> chain P m ys e)"
  by (induction P p xs e rule: chain.induct) auto

lemma lens_ok_append: "lens_ok r (xs @ ys) \<longleftrightarrow> lens_ok (r + size_of ys) xs \<and> lens_ok r ys"
  by (induction xs) auto

text \<open>The link of a chain determines its first pbuf.\<close>

lemma chain_None: "chain P None bs None \<longleftrightarrow> bs = []"
  by (cases bs) auto

lemma chain_Some: "chain P (Some a) bs None \<longleftrightarrow> (\<exists>b cs. bs = (a, b) # cs \<and> P a = Some b \<and> chain P (next_of b) cs None)"
  by (cases bs) auto

text \<open>A chain of two pbufs with five bytes, for the examples.\<close>

definition sample_chain :: "(nat \<times> pbuf) list" where
  "sample_chain =
     [(100, \<lparr>next_of = Some 200, payload = 1000, tot_len = 5, len = 3, type_internal = 0x82, flags = 0, ref = 1, if_idx = 0\<rparr>),
      (200, \<lparr>next_of = None, payload = 2000, tot_len = 2, len = 2, type_internal = 0x82, flags = 0, ref = 1, if_idx = 0\<rparr>)]"

definition sample :: lwip where
  "sample = \<lparr>ram = 0x20000000, mems = (\<lambda>_. \<lparr>mem_next = 0, mem_prev = 0, used = False\<rparr>), lfree = 0, bytes = of_nat,
     pbufs = map_of sample_chain, memp_pbuf_pool = [], memp_pbuf = [], custom_freed = [], pbuf_free_ooseq_pending = False,
     callback_ok = True, ooseq_calls = 0\<rparr>"

lemma sample_is_chain: "chain (pbufs sample) (Some 100) sample_chain None"
  by (simp add: sample_def sample_chain_def)

lemma sample_lens: "lens_ok 0 sample_chain"
  by (simp add: sample_chain_def)

lemma sample_contents: "contents (bytes sample) sample_chain = [232, 233, 234, 208, 209]"
  by (simp add: sample_def sample_chain_def read_bytes_def upt_rec)

section \<open>Reading\<close>

lemma copy_partial_loop_spec:
  "chain (pbufs s) p bs None
    \<Longrightarrow> copy_partial_loop p n off cnt out s
      = Some (cnt + of_nat (length (take (unat n) (drop (unat off) (contents (bytes s) bs)))),
              out @ take (unat n) (drop (unat off) (contents (bytes s) bs)))"
proof (induction bs arbitrary: p n off cnt out)
  case Nil
  then show ?case by (subst copy_partial_loop.simps) simp
next
  case (Cons x bs)
  obtain a b where x: "x = (a, b)" by (cases x)
  have c: "p = Some a" "pbufs s a = Some b" "chain (pbufs s) (next_of b) bs None" using Cons.prems x by auto
  let ?C = "contents (bytes s) bs" and ?R = "read_bytes (bytes s) (payload b) (unat (len b))"
  consider "n = 0" | "n \<noteq> 0" "off \<noteq> 0" "len b \<le> off" | "n \<noteq> 0" "off = 0 \<or> off < len b" by force
  then show ?case
  proof cases
    case 1
    then show ?thesis using c by (subst copy_partial_loop.simps) simp
  next
    case 2
    have u: "unat (off - len b) = unat off - unat (len b)" "unat (len b) \<le> unat off"
      using 2(3) by (simp_all add: unat_sub_if' word_le_nat_alt)
    have "copy_partial_loop p n off cnt out s = copy_partial_loop (next_of b) n (off - len b) cnt out s"
      using 2 c by (subst copy_partial_loop.simps) simp
    then show ?thesis using Cons.IH [OF c(3)] x u by simp
  next
    case 3
    let ?k = "min (len b - off) n"
    have le: "unat off \<le> unat (len b)" using 3(2) by (auto simp: word_less_nat_alt)
    have kk: "unat (len b - off) = unat (len b) - unat off" using le by (simp add: unat_sub_if')
    have k: "unat ?k = min (unat (len b) - unat off) (unat n)" using kk by (simp add: min_def word_le_nat_alt)
    have nk: "unat (n - ?k) = unat n - unat ?k" using k by (simp add: unat_sub_if')
    have st: "copy_partial_loop p n off cnt out s = copy_partial_loop (next_of b) (n - ?k) 0 (cnt + ?k)
        (out @ read_bytes (bytes s) (payload b + unat off) (unat ?k)) s"
      using 3 c by (subst copy_partial_loop.simps) (auto simp: Let_def not_le)
    have r: "read_bytes (bytes s) (payload b + unat off) (unat ?k) = take (unat n) (drop (unat off) ?R)"
    proof -
      have "take (unat ?k) (drop (unat off) ?R) = take (unat n) (drop (unat off) ?R)" using k by (simp add: min_def)
      then show ?thesis using take_drop_read_bytes [of "unat off" "unat ?k" "unat (len b)"] k le by simp
    qed
    have t: "take (unat n) (drop (unat off) (contents (bytes s) (x # bs)))
      = read_bytes (bytes s) (payload b + unat off) (unat ?k) @ take (unat (n - ?k)) ?C"
      unfolding r using x le nk k by (simp add: min_def)
    show ?thesis unfolding st Cons.IH [OF c(3)] t by (simp add: word_of_nat_eq_0_iff)
  qed
qed

text \<open>
  Property C26: reading from a chain. For every chain of pbufs, every length and every offset, also
  beyond its end, \<^verbatim>\<open>pbuf_copy_partial\<close> returns and delivers the bytes of the packet from the offset
  on, as many as asked for or as there are, however they are spread over the pbufs, and their number.
\<close>

theorem pbuf_copy_partial_correct:
  assumes "chain (pbufs s) (Some p) bs None"
  shows "pbuf_copy_partial (Some p) n off s
    = (let out = take (unat n) (drop (unat off) (contents (bytes s) bs)) in Some (of_nat (length out), out))"
  using copy_partial_loop_spec [OF assms, of n off 0 "[]"] by (simp add: pbuf_copy_partial_def Let_def)

theorem pbuf_copy_partial_correct_witness:
  "pbuf_copy_partial (Some 100) 3 1 sample = Some (3, [233, 234, 208])"
  using pbuf_copy_partial_correct [OF sample_is_chain, of 3 1] by (simp add: sample_contents)

definition first :: "(nat \<times> pbuf) list \<Rightarrow> nat option" where
  "first bs = (case bs of [] \<Rightarrow> None | x # cs \<Rightarrow> Some (fst x))"

lemma first_simps [simp]: "first [] = None" "first (x # bs) = Some (fst x)"
  by (simp_all add: first_def)

lemma chain_first: "chain P p bs None \<Longrightarrow> p = first bs"
  by (cases bs) auto

lemma skip_spec:
  "chain (pbufs s) p bs None \<Longrightarrow> \<exists>xs ys r. bs = xs @ ys \<and> pbuf_skip_const p off s = Some (first ys, r)
     \<and> chain (pbufs s) (first ys) ys None \<and> unat off = size_of xs + unat r \<and> (ys \<noteq> [] \<longrightarrow> r < len (snd (hd ys)))"
proof (induction bs arbitrary: p off)
  case Nil
  then show ?case by (subst pbuf_skip_const.simps) simp
next
  case (Cons x bs)
  obtain a b where x: "x = (a, b)" by (cases x)
  have c: "p = Some a" "pbufs s a = Some b" "chain (pbufs s) (next_of b) bs None" using Cons.prems x by auto
  show ?case
  proof (cases "len b \<le> off")
    case True
    have u: "unat (off - len b) = unat off - unat (len b)" "unat (len b) \<le> unat off"
      using True by (simp_all add: unat_sub_if' word_le_nat_alt)
    have st: "pbuf_skip_const p off s = pbuf_skip_const (next_of b) (off - len b) s"
      using True c by (subst pbuf_skip_const.simps) simp
    obtain xs ys r where i: "bs = xs @ ys" "pbuf_skip_const (next_of b) (off - len b) s = Some (first ys, r)"
      "chain (pbufs s) (first ys) ys None" "unat (off - len b) = size_of xs + unat r" "ys \<noteq> [] \<longrightarrow> r < len (snd (hd ys))"
      using Cons.IH [OF c(3), of "off - len b"] by blast
    then show ?thesis using st u x by (intro exI [of _ "x # xs"] exI [of _ ys] exI [of _ r]) auto
  next
    case False
    then have "pbuf_skip_const p off s = Some (p, off)" using c by (subst pbuf_skip_const.simps) simp
    then show ?thesis using False c x by (intro exI [of _ "[]"] exI [of _ "x # bs"] exI [of _ off]) auto
  qed
qed

lemma try_get_at_spec:
  assumes "chain (pbufs s) p bs None"
  shows "pbuf_try_get_at p off s
    = Some (if unat off < size_of bs then uint (contents (bytes s) bs ! unat off) else - 1)"
proof -
  obtain xs ys r where k: "bs = xs @ ys" "pbuf_skip_const p off s = Some (first ys, r)"
    "chain (pbufs s) (first ys) ys None" "unat off = size_of xs + unat r" "ys \<noteq> [] \<longrightarrow> r < len (snd (hd ys))"
    using skip_spec [OF assms] by blast
  show ?thesis
  proof (cases ys)
    case Nil
    then show ?thesis using k unfolding pbuf_try_get_at_def by simp
  next
    case (Cons y zs)
    obtain a b where y: "y = (a, b)" by (cases y)
    have "pbufs s a = Some b" "r < len b" "unat r < unat (len b)" using k(3,5) Cons y by (auto simp: word_less_nat_alt)
    then show ?thesis using k(1,2,4) Cons y unfolding pbuf_try_get_at_def by (simp add: nth_append)
  qed
qed

lemma get_at_spec:
  assumes "chain (pbufs s) p bs None"
  shows "pbuf_get_at p off s = Some (if unat off < size_of bs then contents (bytes s) bs ! unat off else 0)"
  unfolding pbuf_get_at_def try_get_at_spec [OF assms] by simp

section \<open>Searching\<close>

text \<open>The first index at which two lists of the same length differ, plus one; 0 if none.\<close>

fun diff_at :: "u8 list \<Rightarrow> u8 list \<Rightarrow> nat \<Rightarrow> nat" where
  "diff_at (y # ys) (x # xs) i = (if y \<noteq> x then i + 1 else diff_at ys xs (i + 1))"
| "diff_at _ _ i = 0"

lemma diff_at_0: "length ys = length xs \<Longrightarrow> diff_at ys xs i = 0 \<longleftrightarrow> ys = xs"
  by (induction ys xs i rule: diff_at.induct) auto

lemma diff_at_bound: "diff_at ys xs i \<le> i + length xs"
  by (induction ys xs i rule: diff_at.induct) auto

lemma memcmp_loop_spec:
  assumes "chain (pbufs s) q ys None"
  shows "unat start + i + length xs \<le> size_of ys \<Longrightarrow> unat start + i + length xs < 65536
    \<Longrightarrow> memcmp_loop q start i xs s = Some (diff_at (take (length xs) (drop (unat start + i) (contents (bytes s) ys))) xs i)"
proof (induction xs arbitrary: i)
  case (Cons x xs)
  have i: "unat (start + of_nat i) = unat start + i"
    using Cons.prems(2) by (simp add: unat_word_ariths unsigned_of_nat take_bit_nat_eq_self)
  let ?C = "contents (bytes s) ys"
  have "take (length (x # xs)) (drop (unat start + i) ?C) = ?C ! (unat start + i) # take (length xs) (drop (unat start + (i + 1)) ?C)"
    using take_Suc_drop [of "unat start + i" ?C "length xs"] Cons.prems by simp
  then show ?case using Cons get_at_spec [OF assms, of "start + of_nat i"] i by simp
qed simp

lemma memcmp_spec:
  assumes "chain (pbufs s) (Some p) bs None" "lens_ok 0 bs" "length xs < 65536"
  shows "pbuf_memcmp p off xs s
    = Some (if size_of bs < unat off + length xs then 0xFFFF
            else diff_at (take (length xs) (drop (unat off) (contents (bytes s) bs))) xs 0)"
proof -
  obtain b cs where b: "bs = (p, b) # cs" "pbufs s p = Some b" using assms(1) chain_Some by metis
  then have t: "unat (tot_len b) = size_of bs" using assms(2) by simp
  then have sz: "size_of bs < 65536" using unat_u16 [of "tot_len b"] by simp
  obtain ys zs r where k: "bs = ys @ zs" "pbuf_skip_const (Some p) off s = Some (first zs, r)"
    "chain (pbufs s) (first zs) zs None" "unat off = size_of ys + unat r" using skip_spec [OF assms(1)] by blast
  have d: "drop (unat off) (contents (bytes s) bs) = drop (unat r) (contents (bytes s) zs)" using k(1,4) by simp
  show ?thesis
  proof (cases "size_of bs < unat off + length xs")
    case True
    then show ?thesis using t b(2) unfolding pbuf_memcmp_def by simp
  next
    case False
    then have "memcmp_loop (first zs) r 0 xs s = Some (diff_at (take (length xs) (drop (unat off) (contents (bytes s) bs))) xs 0)"
      unfolding d using memcmp_loop_spec [OF k(3), of r 0 xs] sz k(1,4) by simp
    then show ?thesis using False t b(2) k(2) unfolding pbuf_memcmp_def by simp
  qed
qed

definition match_at :: "u8 list \<Rightarrow> nat \<Rightarrow> u8 list \<Rightarrow> bool" where
  "match_at c i mem \<longleftrightarrow> i + length mem \<le> length c \<and> take (length mem) (drop i c) = mem"

lemma memcmp_match:
  assumes "chain (pbufs s) (Some p) bs None" "lens_ok 0 bs" "length xs < 65536"
  shows "\<exists>k. pbuf_memcmp p off xs s = Some k \<and> (k = 0 \<longleftrightarrow> match_at (contents (bytes s) bs) (unat off) xs)"
  using memcmp_spec [OF assms, of off] diff_at_0 [of "take (length xs) (drop (unat off) (contents (bytes s) bs))" xs 0]
  by (auto simp: match_at_def)

lemma memfind_loop_spec:
  assumes "chain (pbufs s) (Some p) bs None" "lens_ok 0 bs" "length xs < 65536"
    and "unat m + length xs = size_of bs" "unat i \<le> Suc (unat m)"
  shows "\<exists>r. memfind_loop p xs m i s = Some r
    \<and> (unat i \<le> unat r \<and> match_at (contents (bytes s) bs) (unat r) xs
         \<and> (\<forall>j. unat i \<le> j \<and> j < unat r \<longrightarrow> \<not> match_at (contents (bytes s) bs) j xs)
       \<or> r = 0xFFFF \<and> (\<forall>j. unat i \<le> j \<longrightarrow> \<not> match_at (contents (bytes s) bs) j xs))"
  using assms(5)
proof (induction "Suc (unat m) - unat i" arbitrary: i)
  case 0
  then have "\<not> i \<le> m" by (simp add: word_le_nat_alt)
  moreover have "\<not> match_at (contents (bytes s) bs) j xs" if "unat i \<le> j" for j
    using that 0 assms(4) by (simp add: match_at_def)
  ultimately show ?case by (subst memfind_loop.simps) auto
next
  case (Suc d)
  let ?M = "\<lambda>j. match_at (contents (bytes s) bs) j xs"
  have im: "i \<le> m" "unat i \<le> unat m" using Suc.hyps(2) by (simp_all add: word_le_nat_alt)
  obtain k where k: "pbuf_memcmp p i xs s = Some k" "k = 0 \<longleftrightarrow> ?M (unat i)" using memcmp_match [OF assms(1-3)] by blast
  show ?case
  proof (cases "k = 0")
    case True
    then have "memfind_loop p xs m i s = Some i" using im(1) k(1) by (subst memfind_loop.simps) simp
    then show ?thesis using True k(2) by auto
  next
    case False
    have st: "memfind_loop p xs m i s = memfind_loop p xs m (i + 1) s"
      using False im(1) k(1) by (subst memfind_loop.simps) simp
    have nm: "\<not> ?M (unat i)" using False k(2) by simp
    have xs: "xs \<noteq> []" using nm im(2) assms(4) by (auto simp: match_at_def)
    have "size_of bs < 65536"
    proof -
      obtain b cs where "bs = (p, b) # cs" using assms(1) chain_Some by metis
      then show ?thesis using assms(2) unat_u16 [of "tot_len b"] by simp
    qed
    moreover have "0 < length xs" using xs by simp
    ultimately have "unat i + 1 < 65536" using im(2) assms(4) by linarith
    then have u: "unat (i + 1) = unat i + 1" by (simp add: unat_word_ariths)
    have d: "d = Suc (unat m) - unat (i + 1)" "unat (i + 1) \<le> Suc (unat m)" using Suc.hyps(2) u im(2) by simp_all
    obtain r where r: "memfind_loop p xs m (i + 1) s = Some r"
      "unat (i + 1) \<le> unat r \<and> ?M (unat r) \<and> (\<forall>j. unat (i + 1) \<le> j \<and> j < unat r \<longrightarrow> \<not> ?M j)
       \<or> r = 0xFFFF \<and> (\<forall>j. unat (i + 1) \<le> j \<longrightarrow> \<not> ?M j)"
      using Suc.hyps(1) [OF d] by blast
    have e: "unat i \<le> j \<longleftrightarrow> j = unat i \<or> unat (i + 1) \<le> j" for j using u by auto
    show ?thesis unfolding st r(1) using r(2) nm u e by (intro exI [of _ r]) auto
  qed
qed

text \<open>
  Searching in a chain. \<^verbatim>\<open>pbuf_memfind\<close> returns for every chain whose lengths are
  consistent, and finds the first place at or after the start where the bytes occur in the packet,
  also across the borders of pbufs; if it answers 0xFFFF without such a place, there is none.
\<close>

lemma pbuf_memfind_correct:
  assumes "chain (pbufs s) (Some p) bs None" "lens_ok 0 bs" "length xs < 65536"
  shows "\<exists>r. pbuf_memfind p xs start s = Some r
    \<and> (unat start \<le> unat r \<and> match_at (contents (bytes s) bs) (unat r) xs
         \<and> (\<forall>j. unat start \<le> j \<and> j < unat r \<longrightarrow> \<not> match_at (contents (bytes s) bs) j xs)
       \<or> r = 0xFFFF \<and> (\<forall>j. unat start \<le> j \<longrightarrow> \<not> match_at (contents (bytes s) bs) j xs))"
proof -
  obtain b cs where b: "bs = (p, b) # cs" "pbufs s p = Some b" using assms(1) chain_Some by metis
  have t: "unat (tot_len b) = size_of bs" using assms(2) b(1) by simp
  show ?thesis
  proof (cases "length xs + unat start \<le> size_of bs")
    case True
    have l: "unat (of_nat (length xs) :: u16) = length xs" using assms(3) by (simp add: unsigned_of_nat take_bit_nat_eq_self)
    then have m: "unat (tot_len b - of_nat (length xs)) = size_of bs - length xs"
      using True t by (simp add: unat_sub_if')
    show ?thesis using memfind_loop_spec [OF assms, of "tot_len b - of_nat (length xs)" start] True m t b(2)
      unfolding pbuf_memfind_def by simp
  next
    case False
    then have "pbuf_memfind p xs start s = Some 0xFFFF" using t b(2) unfolding pbuf_memfind_def by simp
    moreover have "\<not> match_at (contents (bytes s) bs) j xs" if "unat start \<le> j" for j
      using that False by (simp add: match_at_def)
    ultimately show ?thesis by auto
  qed
qed

section \<open>Writing\<close>

definition span :: "pbuf \<Rightarrow> nat set" where
  "span b = {payload b..<payload b + unat (len b)}"

definition area :: "(nat \<times> pbuf) list \<Rightarrow> nat set" where
  "area bs = (\<Union>(a, b) \<in> set bs. span b)"

text \<open>The payloads of a chain do not overlap.\<close>

fun apart :: "(nat \<times> pbuf) list \<Rightarrow> bool" where
  "apart [] \<longleftrightarrow> True"
| "apart ((a, b) # bs) \<longleftrightarrow> span b \<inter> area bs = {} \<and> apart bs"

lemma area_simps [simp]: "area [] = {}" "area ((a, b) # bs) = span b \<union> area bs" "area (xs @ ys) = area xs \<union> area ys"
  by (auto simp: area_def)

definition patch :: "nat \<Rightarrow> u8 list \<Rightarrow> (nat \<Rightarrow> u8) \<Rightarrow> nat \<Rightarrow> u8" where
  "patch a xs M = (\<lambda>x. if a \<le> x \<and> x < a + length xs then xs ! (x - a) else M x)"

lemma write_bytes_patch: "write_bytes a xs s = s\<lparr>bytes := patch a xs (bytes s)\<rparr>"
  by (simp add: write_bytes_def patch_def)

lemma patch_outside: "x < a \<or> a + length xs \<le> x \<Longrightarrow> patch a xs M x = M x"
  by (auto simp: patch_def)

lemma contents_cong: "(\<And>x. x \<in> area bs \<Longrightarrow> M x = N x) \<Longrightarrow> contents M bs = contents N bs"
proof (induction bs)
  case (Cons y bs)
  obtain a b where y: "y = (a, b)" by (cases y)
  have "read_bytes M (payload b) (unat (len b)) = read_bytes N (payload b) (unat (len b))"
    by (rule nth_equalityI) (use Cons.prems y in \<open>auto simp: span_def\<close>)
  then show ?case using Cons y by auto
qed simp

lemma read_bytes_patch:
  "i + length xs \<le> n \<Longrightarrow> read_bytes (patch (a + i) xs M) a n
     = take i (read_bytes M a n) @ xs @ drop (i + length xs) (read_bytes M a n)"
  by (rule nth_equalityI) (auto simp: patch_def nth_append min_def)

lemma take_loop_spec:
  "chain (pbufs s) p bs None \<Longrightarrow> apart bs \<Longrightarrow> n \<le> size_of bs \<Longrightarrow> n \<le> length xs
    \<Longrightarrow> \<exists>M. take_loop p xs n s = Some (s\<lparr>bytes := M\<rparr>)
      \<and> contents M bs = take n xs @ drop n (contents (bytes s) bs) \<and> (\<forall>x. x \<notin> area bs \<longrightarrow> M x = bytes s x)"
proof (induction bs arbitrary: p n xs s)
  case Nil
  then show ?case by (subst take_loop.simps) (auto intro!: exI [of _ "bytes s"])
next
  case (Cons y bs)
  obtain a b where y: "y = (a, b)" by (cases y)
  have c: "p = Some a" "pbufs s a = Some b" "chain (pbufs s) (next_of b) bs None" using Cons.prems(1) y by auto
  show ?case
  proof (cases "n = 0")
    case True
    then show ?thesis by (subst take_loop.simps) (auto intro!: exI [of _ "bytes s"])
  next
    case False
    let ?k = "min n (unat (len b))" and ?R = "read_bytes (bytes s) (payload b) (unat (len b))"
    let ?P = "patch (payload b) (take ?k xs) (bytes s)"
    let ?s = "s\<lparr>bytes := ?P\<rparr>"
    have k: "?k \<le> length xs" using Cons.prems(4) by simp
    have st: "take_loop p xs n s = take_loop (next_of b) (drop ?k xs) (n - ?k) ?s"
      using False c Cons.prems(4) by (subst take_loop.simps) (simp add: Let_def write_bytes_patch)
    have "chain (pbufs ?s) (next_of b) bs None" "apart bs" "n - ?k \<le> size_of bs" "n - ?k \<le> length (drop ?k xs)"
      using c(3) Cons.prems(2-4) y by auto
    then obtain M where M: "take_loop (next_of b) (drop ?k xs) (n - ?k) ?s = Some (?s\<lparr>bytes := M\<rparr>)"
      "contents M bs = take (n - ?k) (drop ?k xs) @ drop (n - ?k) (contents ?P bs)" "\<forall>x. x \<notin> area bs \<longrightarrow> M x = ?P x"
      using Cons.IH [of ?s "next_of b" "n - ?k" "drop ?k xs"] by auto
    have cb: "contents ?P bs = contents (bytes s) bs"
    proof (rule contents_cong)
      fix x assume "x \<in> area bs"
      then have "x \<notin> span b" using Cons.prems(2) y by auto
      then show "?P x = bytes s x" by (intro patch_outside) (auto simp: span_def)
    qed
    have "read_bytes M (payload b) (unat (len b)) = read_bytes ?P (payload b) (unat (len b))"
    proof (rule nth_equalityI)
      fix i assume "i < length (read_bytes M (payload b) (unat (len b)))"
      then have i: "i < unat (len b)" by simp
      then have "payload b + i \<in> span b" by (simp add: span_def)
      then have "payload b + i \<notin> area bs" using Cons.prems(2) y by auto
      then show "read_bytes M (payload b) (unat (len b)) ! i = read_bytes ?P (payload b) (unat (len b)) ! i" using M(3) i by simp
    qed simp
    also have "\<dots> = take ?k xs @ drop ?k ?R"
      using read_bytes_patch [of 0 "take ?k xs" "unat (len b)" "payload b" "bytes s"] k by (simp add: min_absorb2)
    finally have h: "read_bytes M (payload b) (unat (len b)) = take ?k xs @ drop ?k ?R" .
    have "contents M (y # bs) = take ?k xs @ drop ?k ?R @ take (n - ?k) (drop ?k xs) @ drop (n - ?k) (contents (bytes s) bs)"
      using h M(2) y cb by simp
    also have "\<dots> = take n xs @ drop n (contents (bytes s) (y # bs))"
    proof (cases "n \<le> unat (len b)")
      case True
      then show ?thesis using y by (simp add: min_absorb1)
    next
      case False
      then have "drop ?k ?R = []" "take ?k xs @ take (n - ?k) (drop ?k xs) = take n xs"
        by (simp_all add: min_absorb2 take_add [symmetric])
      then show ?thesis using y False by (simp add: min_absorb2)
    qed
    finally have "contents M (y # bs) = take n xs @ drop n (contents (bytes s) (y # bs))" .
    moreover have "M x = bytes s x" if "x \<notin> area (y # bs)" for x
      using that M(3) y k by (auto simp: patch_def span_def)
    ultimately show ?thesis using st M(1) by auto
  qed
qed

text \<open>
  Writing to a chain and reading it back. When the packet is large enough and the payloads of
  its pbufs do not overlap, \<^verbatim>\<open>pbuf_take\<close> succeeds, the packet then begins with the bytes given and
  goes on as before, no byte outside of its payloads and no struct changes, and \<^verbatim>\<open>pbuf_copy_partial\<close>
  gives the bytes back. When the packet is too small, nothing changes and the error says so.
\<close>

lemma pbuf_take_roundtrip:
  assumes "chain (pbufs s) (Some p) bs None" "lens_ok 0 bs" "apart bs" "unat n \<le> length xs"
  shows "if unat n \<le> size_of bs
    then \<exists>M. pbuf_take (Some p) (Some xs) n s = Some (ERR_OK, s\<lparr>bytes := M\<rparr>)
      \<and> contents M bs = take (unat n) xs @ drop (unat n) (contents (bytes s) bs)
      \<and> (\<forall>x. x \<notin> area bs \<longrightarrow> M x = bytes s x)
      \<and> pbuf_copy_partial (Some p) n 0 (s\<lparr>bytes := M\<rparr>) = Some (n, take (unat n) xs)
    else pbuf_take (Some p) (Some xs) n s = Some (ERR_MEM, s)"
proof -
  obtain b cs where b: "bs = (p, b) # cs" "pbufs s p = Some b" using assms(1) chain_Some by metis
  have t: "tot_len b < n \<longleftrightarrow> size_of bs < unat n" using assms(2) b(1) by (simp add: word_less_nat_alt)
  show ?thesis
  proof (cases "unat n \<le> size_of bs")
    case True
    then obtain M where M: "take_loop (Some p) xs (unat n) s = Some (s\<lparr>bytes := M\<rparr>)"
      "contents M bs = take (unat n) xs @ drop (unat n) (contents (bytes s) bs)" "\<forall>x. x \<notin> area bs \<longrightarrow> M x = bytes s x"
      using take_loop_spec [OF assms(1,3) True assms(4)] by blast
    have "chain (pbufs (s\<lparr>bytes := M\<rparr>)) (Some p) bs None" using assms(1) by simp
    from copy_partial_loop_spec [OF this, of n 0 0 "[]"]
    have "pbuf_copy_partial (Some p) n 0 (s\<lparr>bytes := M\<rparr>) = Some (n, take (unat n) xs)"
      using M(2) assms(4) by (simp add: pbuf_copy_partial_def min_absorb2)
    then show ?thesis using True M t b(2) by (auto simp: pbuf_take_def not_less)
  next
    case False
    then show ?thesis using t b(2) by (simp add: pbuf_take_def)
  qed
qed

end
