(* ===== verification/Lwip_Pbuf_Chain.thy ===== *)
theory Lwip_Pbuf_Chain
  imports Lwip_Pbuf_Data "HOL-Library.Multiset"
begin

text \<open>
  The life of packet buffers: releasing chains by their reference counts, allocation from the pool,
  headers, concatenation and shrinking.
\<close>

section \<open>Releasing\<close>

definition custom :: "pbuf \<Rightarrow> bool" where "custom b \<longleftrightarrow> flags b AND PBUF_FLAG_IS_CUSTOM \<noteq> 0"
definition from_pool :: "pbuf \<Rightarrow> bool" where "from_pool b \<longleftrightarrow> \<not> custom b \<and> pbuf_get_allocsrc b = 2"
definition from_memp :: "pbuf \<Rightarrow> bool" where "from_memp b \<longleftrightarrow> \<not> custom b \<and> pbuf_get_allocsrc b = 1"
definition from_heap :: "pbuf \<Rightarrow> bool" where "from_heap b \<longleftrightarrow> \<not> custom b \<and> pbuf_get_allocsrc b = 0"
definition src_ok :: "pbuf \<Rightarrow> bool" where "src_ok b \<longleftrightarrow> custom b \<or> from_pool b \<or> from_memp b \<or> from_heap b"

lemmas src_defs = custom_def from_pool_def from_memp_def from_heap_def

text \<open>\<open>mem_free\<close> works on the heap alone.\<close>

definition same_heap :: "'y mem_heap_scheme \<Rightarrow> 'z mem_heap_scheme \<Rightarrow> bool" where
  "same_heap s t \<longleftrightarrow> ram t = ram s \<and> mems t = mems s \<and> lfree t = lfree s"

lemma same_heap_if:
  "(c \<Longrightarrow> same_heap x x') \<Longrightarrow> (\<not> c \<Longrightarrow> same_heap y y') \<Longrightarrow> same_heap (if c then x else y) (if c then x' else y')"
  by simp

lemma same_heap_upd:
  "same_heap s t \<Longrightarrow> same_heap (upd_mem p f s) (upd_mem p f t)"
  "same_heap s t \<Longrightarrow> same_heap (set_prev p n s) (set_prev p n t)"
  "same_heap s t \<Longrightarrow> same_heap (s\<lparr>lfree := l\<rparr>) (t\<lparr>lfree := l\<rparr>)"
  by (simp_all add: same_heap_def)

lemma same_heapD: "same_heap s t \<Longrightarrow> mems t = mems s" "same_heap s t \<Longrightarrow> lfree t = lfree s" "same_heap s t \<Longrightarrow> ram t = ram s"
  by (simp_all add: same_heap_def)

lemma mems_if_lfree: "mems (if c then s\<lparr>lfree := l\<rparr> else s) = mems s"
  by simp

lemma same_heap_plug:
  "same_heap s t \<Longrightarrow> same_heap (plug_forward m s) (plug_forward m t)"
  "same_heap s t \<Longrightarrow> same_heap (plug_backward m s) (plug_backward m t)"
  unfolding plug_forward_def plug_backward_def Let_def mems_if_lfree
  by (simp_all only: same_heapD [of s t]) (intro same_heap_if same_heap_upd; assumption)+

lemma same_heap_mem_free:
  assumes "same_heap s t"
  shows "same_heap (mem_free a s) (mem_free a t)"
proof -
  have v: "mem_link_valid m t = mem_link_valid m s" for m using assms by (simp add: mem_link_valid_def same_heap_def)
  have l: "lfree (upd_mem p f u) = lfree u" for p f and u :: "'z mem_heap_scheme" by simp
  show ?thesis unfolding mem_free_def Let_def plug_holes_def mems_upd_mem v same_heapD [OF assms]
    by (intro same_heap_if same_heap_plug same_heap_upd assms)
qed

lemma same_heap_fold: "same_heap s t \<Longrightarrow> same_heap (fold mem_free as s) (fold mem_free as t)"
  by (induction as arbitrary: s t) (simp_all add: same_heap_mem_free)

lemma mem_free_pbufs [simp]: "pbufs (mem_free a s) = pbufs s" "memp_pbuf_pool (mem_free a s) = memp_pbuf_pool s"
  "memp_pbuf (mem_free a s) = memp_pbuf s" "custom_freed (mem_free a s) = custom_freed s" "bytes (mem_free a s) = bytes s"
  by (subst same_restD [OF mem_free_rest], simp)+

lemma deallocate_simps:
  assumes "src_ok b"
  shows "pbufs (deallocate a b s) = (pbufs s)(a := None)"
    and "memp_pbuf_pool (deallocate a b s) = (if from_pool b then [a] else []) @ memp_pbuf_pool s"
    and "memp_pbuf (deallocate a b s) = (if from_memp b then [a] else []) @ memp_pbuf s"
    and "custom_freed (deallocate a b s) = (if custom b then [a] else []) @ custom_freed s"
    and "bytes (deallocate a b s) = bytes s"
    and "same_heap (fold mem_free (if from_heap b then [a] else []) s) (deallocate a b s)"
  using assms same_heap_mem_free [of s "drop_pbuf a s" a]
  by (auto simp: deallocate_def src_ok_def src_defs drop_pbuf_def do_memp_free_pool_def same_heap_def)

definition freed :: "(nat \<times> pbuf) list \<Rightarrow> (nat \<times> pbuf) list" where
  "freed bs = takeWhile (\<lambda>x. ref (snd x) = 1) bs"

definition kept :: "(nat \<times> pbuf) list \<Rightarrow> (nat \<times> pbuf) list" where
  "kept bs = dropWhile (\<lambda>x. ref (snd x) = 1) bs"

text \<open>The pbufs after \<^verbatim>\<open>pbuf_free\<close>: those with one reference are gone, the next one has a reference less.\<close>

definition after_free :: "(nat \<times> pbuf) list \<Rightarrow> (nat \<Rightarrow> pbuf option) \<Rightarrow> nat \<Rightarrow> pbuf option" where
  "after_free bs P = (\<lambda>x. if x \<in> fst ` set (freed bs) then None
     else case kept bs of [] \<Rightarrow> P x | (a, b) # cs \<Rightarrow> if x = a then Some (b\<lparr>ref := ref b - 1\<rparr>) else P x)"

text \<open>The addresses of the pbufs it releases whose memory is of a kind.\<close>

fun given_back :: "(pbuf \<Rightarrow> bool) \<Rightarrow> (nat \<times> pbuf) list \<Rightarrow> nat list" where
  "given_back c [] = []"
| "given_back c ((a, b) # bs) = (if ref b = 1 then (if c b then [a] else []) @ given_back c bs else [])"

lemma freed_simps [simp]: "freed [] = []" "freed ((a, b) # bs) = (if ref b = 1 then (a, b) # freed bs else [])"
  unfolding freed_def by simp_all

lemma kept_simps [simp]: "kept [] = []" "kept ((a, b) # bs) = (if ref b = 1 then kept bs else (a, b) # bs)"
  unfolding kept_def by simp_all

lemma chain_cong: "chain P p bs e \<Longrightarrow> (\<And>a. a \<in> fst ` set bs \<Longrightarrow> Q a = P a) \<Longrightarrow> chain Q p bs e"
  by (induction P p bs e rule: chain.induct) auto

lemma free_loop_spec:
  "chain (pbufs s) p bs None \<Longrightarrow> distinct (map fst bs) \<Longrightarrow> \<forall>(a, b) \<in> set bs. src_ok b
    \<Longrightarrow> \<exists>t. free_loop p cnt s = Some (cnt + of_nat (length (freed bs)), t) \<and> pbufs t = after_free bs (pbufs s)
      \<and> memp_pbuf_pool t = rev (given_back from_pool bs) @ memp_pbuf_pool s
      \<and> memp_pbuf t = rev (given_back from_memp bs) @ memp_pbuf s
      \<and> custom_freed t = rev (given_back custom bs) @ custom_freed s \<and> bytes t = bytes s
      \<and> same_heap (fold mem_free (given_back from_heap bs) s) t"
proof (induction bs arbitrary: p cnt s)
  case Nil
  then show ?case
    by (subst free_loop.simps) (auto simp: after_free_def same_heap_def)
next
  case (Cons x bs)
  obtain a b where x: "x = (a, b)" by (cases x)
  have c: "p = Some a" "pbufs s a = Some b" "chain (pbufs s) (next_of b) bs None" "a \<notin> fst ` set bs" "src_ok b"
    using Cons.prems x by auto
  let ?s = "upd_pbuf a (\<lambda>x. x\<lparr>ref := ref x - 1\<rparr>) s"
  have us: "pbufs ?s = (pbufs s)(a \<mapsto> b\<lparr>ref := ref b - 1\<rparr>)" "memp_pbuf_pool ?s = memp_pbuf_pool s" "memp_pbuf ?s = memp_pbuf s"
    "custom_freed ?s = custom_freed s" "bytes ?s = bytes s" "same_heap s ?s" using c(2) by (simp_all add: upd_pbuf_def same_heap_def)
  show ?case
  proof (cases "ref b = 1")
    case True
    note d = deallocate_simps [OF c(5), of a ?s]
    let ?t = "deallocate a b ?s"
    have st: "free_loop p cnt s = free_loop (next_of b) (cnt + 1) ?t" using True c by (subst free_loop.simps) simp
    have "chain (pbufs ?t) (next_of b) bs None" by (rule chain_cong [OF c(3)]) (use c(4) d(1) us in auto)
    moreover have "distinct (map fst bs)" "\<forall>(a, b) \<in> set bs. src_ok b" using Cons.prems by auto
    ultimately obtain t where t: "free_loop (next_of b) (cnt + 1) ?t = Some (cnt + 1 + of_nat (length (freed bs)), t)"
      "pbufs t = after_free bs (pbufs ?t)" "memp_pbuf_pool t = rev (given_back from_pool bs) @ memp_pbuf_pool ?t"
      "memp_pbuf t = rev (given_back from_memp bs) @ memp_pbuf ?t"
      "custom_freed t = rev (given_back custom bs) @ custom_freed ?t" "bytes t = bytes ?t"
      "same_heap (fold mem_free (given_back from_heap bs) ?t) t" using Cons.IH by blast
    have k: "fst ` set (kept bs) \<subseteq> fst ` set bs" unfolding kept_def by (auto dest: set_dropWhileD)
    have "pbufs t = after_free (x # bs) (pbufs s)"
      unfolding t(2) d(1) us(1) using c(4) True x k
      by (auto simp: after_free_def fun_eq_iff split: list.splits)
    moreover have "same_heap (fold mem_free (given_back from_heap (x # bs)) s) t"
    proof -
      have "same_heap (fold mem_free (if from_heap b then [a] else []) s) ?t"
        using d(6) same_heap_fold [OF us(6), of "if from_heap b then [a] else []"] by (simp add: same_heap_def)
      from same_heap_fold [OF this, of "given_back from_heap bs"] show ?thesis
        using t(7) True x by (simp add: same_heap_def)
    qed
    ultimately show ?thesis using st t d us True x by auto
  next
    case False
    then have st: "free_loop p cnt s = Some (cnt, ?s)" using c by (subst free_loop.simps) simp
    have "pbufs ?s = after_free (x # bs) (pbufs s)" using False x us(1) by (auto simp: after_free_def)
    then show ?thesis using st us False x by (simp add: same_heap_def)
  qed
qed

section \<open>Allocation from the pool\<close>

definition capacity :: "nat \<Rightarrow> nat" where
  "capacity off = PBUF_POOL_BUFSIZE_ALIGNED - LWIP_MEM_ALIGN_SIZE off"

text \<open>The sizes of the pbufs for a packet of \<open>n\<close> bytes behind \<open>off\<close> bytes of headers.\<close>

function pool_sizes :: "nat \<Rightarrow> nat \<Rightarrow> nat list" where
  "pool_sizes off n = (if n \<le> capacity off \<or> capacity off = 0 then [n] else capacity off # pool_sizes 0 (n - capacity off))"
  by pat_completeness auto
termination
  by (relation "measure (\<lambda>(off, n). n)") auto

declare pool_sizes.simps [simp del]

text \<open>The pbufs that \<^verbatim>\<open>pbuf_alloc\<close> makes of the elements of the pool.\<close>

definition pool_pbuf :: "nat \<Rightarrow> nat \<Rightarrow> nat \<Rightarrow> nat \<Rightarrow> nat option \<Rightarrow> pbuf" where
  "pool_pbuf q off n k nx = \<lparr>next_of = nx, payload = LWIP_MEM_ALIGN_SIZE (q + SIZEOF_STRUCT_PBUF + off), tot_len = of_nat n,
     len = of_nat k, type_internal = type_code PBUF_POOL, flags = 0, ref = 1, if_idx = 0\<rparr>"

fun pool_chain :: "nat \<Rightarrow> nat \<Rightarrow> nat list \<Rightarrow> nat list \<Rightarrow> (nat \<times> pbuf) list" where
  "pool_chain off n (k # ks) (q # qs) =
     (q, pool_pbuf q off n k (if ks = [] then None else Some (hd qs))) # pool_chain 0 (n - k) ks qs"
| "pool_chain off n _ _ = []"

lemma pool_sizes_nonempty: "pool_sizes off n \<noteq> []"
  by (subst pool_sizes.simps) simp

lemma capacity_0: "capacity 0 = 592"
  by (simp add: capacity_def LWIP_MEM_ALIGN_SIZE_def PBUF_POOL_BUFSIZE_ALIGNED_def)

lemma sum_pool_sizes: "sum_list (pool_sizes off n) = n"
proof (induction off n rule: pool_sizes.induct)
  case (1 off n)
  then show ?case by (subst pool_sizes.simps) auto
qed

lemma fst_pool_chain: "length ks \<le> length qs \<Longrightarrow> map fst (pool_chain off n ks qs) = take (length ks) qs"
proof (induction off n ks qs rule: pool_chain.induct)
  case (1 off n k ks q qs)
  then show ?case by simp
qed auto

lemma size_pool_chain:
  "length ks \<le> length qs \<Longrightarrow> sum_list ks = n \<Longrightarrow> n < 65536 \<Longrightarrow> size_of (pool_chain off n ks qs) = n \<and> lens_ok 0 (pool_chain off n ks qs)"
proof (induction off n ks qs rule: pool_chain.induct)
  case (1 off n k ks q qs)
  have k: "unat (of_nat k :: u16) = k" "unat (of_nat n :: u16) = n"
    using 1(3,4) by (simp_all add: unsigned_of_nat take_bit_nat_eq_self)
  have "size_of (pool_chain 0 (n - k) ks qs) = n - k \<and> lens_ok 0 (pool_chain 0 (n - k) ks qs)" using 1 by simp
  then show ?case using k 1(3) by (simp add: pool_pbuf_def)
qed auto

lemma chain_pool_chain:
  assumes "\<And>a b. (a, b) \<in> set (pool_chain off n ks qs) \<Longrightarrow> P a = Some b" "length ks \<le> length qs"
  shows "chain P (if ks = [] then None else Some (hd qs)) (pool_chain off n ks qs) None"
  using assms
proof (induction off n ks qs rule: pool_chain.induct)
  case (1 off n k ks q qs)
  then show ?case by (auto simp: pool_pbuf_def)
qed auto

fun link_next :: "(nat \<times> nat) option \<Rightarrow> nat \<Rightarrow> (nat \<Rightarrow> pbuf option) \<Rightarrow> nat \<Rightarrow> pbuf option" where
  "link_next None q P = P"
| "link_next (Some (a, l)) q P = P(l := map_option (\<lambda>b. b\<lparr>next_of := Some q\<rparr>) (P l))"

fun head :: "(nat \<times> nat) option \<Rightarrow> nat \<Rightarrow> nat" where
  "head None q = q"
| "head (Some (a, l)) q = a"

fun last_in :: "(nat \<times> nat) option \<Rightarrow> nat set" where
  "last_in None = {}"
| "last_in (Some (a, l)) = {l}"

lemma pool_loop_step:
  assumes "memp_pbuf_pool s = q # qs" "0 < capacity off" "capacity off < 65536" "q \<notin> last_in p"
    and n_def: "n = unat rem_len"
  shows "pool_loop p rem_len off s =
    (let k = min n (capacity off);
         t = s\<lparr>memp_pbuf_pool := qs, pbufs := (link_next p q (pbufs s))(q \<mapsto> pool_pbuf q off n k None)\<rparr>
     in if k < n then pool_loop (Some (head p q, q)) (of_nat (n - k)) 0 t else Some (Some (head p q), t))"
proof -
  let ?k = "min rem_len (of_nat (capacity off))"
  have c: "unat (of_nat (capacity off) :: u16) = capacity off" using assms(3) by (simp add: unsigned_of_nat take_bit_nat_eq_self)
  have k: "unat ?k = min n (capacity off)" using c by (simp add: min_def word_le_nat_alt n_def)
  have w: "of_nat (unat v) = v" for v :: u16 by simp
  have k': "?k = of_nat (min n (capacity off))" using w [of ?k] unfolding k by simp
  have r: "rem_len - ?k = of_nat (n - min n (capacity off))"
    unfolding k' by (simp add: of_nat_diff n_def)
  have pos: "0 < rem_len - ?k \<longleftrightarrow> min n (capacity off) < n"
    using k by (auto simp: word_less_nat_alt unat_sub_if' n_def)
  show ?thesis
  proof (cases p)
    case None
    then show ?thesis unfolding pool_loop.simps [of p rem_len off s]
      using assms(1) pos k' r unfolding capacity_def [symmetric] pool_pbuf_def
      by (simp add: Let_def pbuf_init_alloced_pbuf_def n_def)
  next
    case (Some al)
    obtain a l where "al = (a, l)" by (cases al)
    then show ?thesis unfolding pool_loop.simps [of p rem_len off s]
      using Some assms(1,4) pos k' r unfolding capacity_def [symmetric] pool_pbuf_def
      by (simp add: Let_def pbuf_init_alloced_pbuf_def upd_pbuf_def n_def fun_upd_twist)
  qed
qed

lemma map_add_single: "m ++ (\<lambda>a. if a = q then Some b else None) = m(q \<mapsto> b)"
  by (auto simp: map_add_def fun_eq_iff)

lemma pool_loop_succeeds:
  "length (pool_sizes off (unat rem_len)) \<le> length qs \<Longrightarrow> memp_pbuf_pool s = qs \<Longrightarrow> distinct qs \<Longrightarrow> set qs \<inter> last_in p = {}
    \<Longrightarrow> 0 < capacity off \<Longrightarrow> capacity off < 65536
    \<Longrightarrow> pool_loop p rem_len off s = Some (Some (head p (hd qs)),
          s\<lparr>pbufs := link_next p (hd qs) (pbufs s) ++ map_of (pool_chain off (unat rem_len) (pool_sizes off (unat rem_len)) qs),
            memp_pbuf_pool := drop (length (pool_sizes off (unat rem_len))) qs\<rparr>)"
proof (induction qs arbitrary: p rem_len off s)
  case Nil
  then show ?case using pool_sizes_nonempty by simp
next
  case (Cons q qs)
  let ?n = "unat rem_len" and ?c = "capacity off" and ?L = "link_next p q (pbufs s)"
  define Q where "Q = ?L(q \<mapsto> pool_pbuf q off ?n (min ?n ?c) None)"
  define t where "t = s\<lparr>memp_pbuf_pool := qs, pbufs := Q\<rparr>"
  have st: "pool_loop p rem_len off s =
    (if min ?n ?c < ?n then pool_loop (Some (head p q, q)) (of_nat (?n - min ?n ?c)) 0 t else Some (Some (head p q), t))"
    using pool_loop_step [OF Cons.prems(2,5,6)] Cons.prems(4) by (simp add: t_def Q_def Let_def)
  show ?case
  proof (cases "?n \<le> ?c")
    case True
    then have k: "pool_sizes off ?n = [?n]" by (subst pool_sizes.simps) simp
    have e: "link_next p (hd (q # qs)) (pbufs s) ++ map_of (pool_chain off ?n [?n] (q # qs)) = Q"
      using True by (simp add: Q_def min_absorb1 map_add_single fun_upd_def)
    show ?thesis unfolding k e using st True by (simp add: t_def)
  next
    case False
    let ?r = "of_nat (?n - ?c) :: u16" and ?ls = "pool_sizes 0 (?n - ?c)"
    let ?D = "map_of (pool_chain 0 (?n - ?c) ?ls qs)"
    have r: "unat ?r = ?n - ?c" using unat_u16 [of rem_len] by (simp add: unsigned_of_nat take_bit_nat_eq_self)
    have ks: "pool_sizes off ?n = ?c # ?ls" using False Cons.prems(5) by (subst pool_sizes.simps) simp
    have l: "length ?ls \<le> length qs" using Cons.prems(1) ks by simp
    have "memp_pbuf_pool t = qs" "set qs \<inter> last_in (Some (head p q, q)) = {}" "distinct qs"
      using Cons.prems(3) by (simp_all add: t_def)
    then have i: "pool_loop (Some (head p q, q)) ?r 0 t = Some (Some (head p q),
      t\<lparr>pbufs := link_next (Some (head p q, q)) (hd qs) (pbufs t) ++ ?D, memp_pbuf_pool := drop (length ?ls) qs\<rparr>)"
      using Cons.IH [of 0 ?r t "Some (head p q, q)"] l by (simp add: r capacity_0 del: link_next.simps)
    have "pbufs t = Q" by (simp add: t_def)
    then have 1: "link_next (Some (head p q, q)) (hd qs) (pbufs t) = ?L(q \<mapsto> pool_pbuf q off ?n ?c (Some (hd qs)))"
      using False by (auto simp: Q_def pool_pbuf_def min_absorb2 fun_eq_iff)
    have "q \<notin> fst ` set (pool_chain 0 (?n - ?c) ?ls qs)"
      using fst_pool_chain [OF l, of 0 "?n - ?c"] Cons.prems(3) by (metis distinct.simps(2) in_set_takeD list.set_map)
    then have 2: "?L(q \<mapsto> b) ++ ?D = (?L ++ ?D)(q \<mapsto> b)" for b
      by (simp add: map_add_upd_left dom_map_of_conv_image_fst)
    define W where "W = (?L ++ ?D)(q \<mapsto> pool_pbuf q off ?n ?c (Some (hd qs)))"
    have 3: "link_next p (hd (q # qs)) (pbufs s) ++ map_of (pool_chain off ?n (?c # ?ls) (q # qs)) = W"
      using pool_sizes_nonempty by (simp add: W_def)
    have "pool_loop p rem_len off s = Some (Some (head p q), t\<lparr>pbufs := W, memp_pbuf_pool := drop (length ?ls) qs\<rparr>)"
      using st False i unfolding 1 2 W_def [symmetric] by (simp add: min_absorb2)
    then show ?thesis unfolding ks 3 by (simp add: t_def)
  qed
qed

lemma type_pool: "src_ok (pool_pbuf q off n k nx)" "from_pool (pool_pbuf q off n k nx)" "ref (pool_pbuf q off n k nx) = 1"
  by (simp_all add: src_ok_def src_defs pool_pbuf_def pbuf_get_allocsrc_def)

definition pooled :: "(nat \<times> pbuf) list \<Rightarrow> bool" where
  "pooled bs \<longleftrightarrow> (\<forall>(a, b) \<in> set bs. from_pool b \<and> ref b = 1)"

lemma pooled_free:
  assumes "pooled bs"
  shows "freed bs = bs" "kept bs = []" "given_back from_pool bs = map fst bs" "given_back from_memp bs = []"
    "given_back custom bs = []" "given_back from_heap bs = []" "\<forall>(a, b) \<in> set bs. src_ok b"
  using assms by (induction bs) (auto simp: pooled_def src_ok_def src_defs)

text \<open>Freeing a chain of pool pbufs nobody else refers to gives all of them back.\<close>

lemma pbuf_free_pooled:
  assumes "chain (pbufs s) p bs None" "distinct (map fst bs)" "pooled bs"
  shows "\<exists>t. pbuf_free p s = Some (of_nat (length bs), t) \<and> pbufs t = (\<lambda>x. if x \<in> fst ` set bs then None else pbufs s x)
    \<and> memp_pbuf_pool t = rev (map fst bs) @ memp_pbuf_pool s \<and> bytes t = bytes s \<and> memp_pbuf t = memp_pbuf s
    \<and> custom_freed t = custom_freed s \<and> same_heap s t"
proof -
  note p = pooled_free [OF assms(3)]
  have "after_free bs (pbufs s) = (\<lambda>x. if x \<in> fst ` set bs then None else pbufs s x)" unfolding after_free_def p by (simp cong: if_cong)
  then show ?thesis using free_loop_spec [OF assms(1,2) p(7), of 0] p(1,3-6) by (simp add: pbuf_free_def) blast
qed

lemma pool_loop_fails:
  "length qs < length (pool_sizes off (unat rem_len)) \<Longrightarrow> memp_pbuf_pool s = qs \<Longrightarrow> distinct (map fst bs @ qs)
    \<Longrightarrow> 0 < capacity off \<Longrightarrow> capacity off < 65536 \<Longrightarrow> \<forall>q \<in> set qs. pbufs s q = None
    \<Longrightarrow> (case p of None \<Rightarrow> bs = [] | Some (a, l) \<Rightarrow> \<exists>us b. bs = us @ [(l, b)] \<and> chain (pbufs s) (Some a) bs None \<and> pooled bs)
    \<Longrightarrow> \<exists>t. pool_loop p rem_len off s = Some (None, t)
      \<and> pbufs t = (\<lambda>x. if x \<in> fst ` set bs then None else pbufs s x) \<and> memp_pbuf_pool t = rev (map fst bs @ qs)
      \<and> bytes t = bytes s \<and> memp_pbuf t = memp_pbuf s \<and> custom_freed t = custom_freed s \<and> same_heap s t"
proof (induction qs arbitrary: p rem_len off s bs)
  case Nil
  let ?e = "pbuf_pool_is_empty s"
  have e: "pbufs ?e = pbufs s" "memp_pbuf_pool ?e = []" "bytes ?e = bytes s" "memp_pbuf ?e = memp_pbuf s"
    "custom_freed ?e = custom_freed s" "same_heap s ?e" using Nil(2) by (simp_all add: pbuf_pool_is_empty_def same_heap_def)
  show ?case
  proof (cases p)
    case None
    then show ?thesis using Nil(2,7) e by (subst pool_loop.simps) simp
  next
    case (Some al)
    obtain a l where al: "al = (a, l)" by (cases al)
    then have "chain (pbufs ?e) (Some a) bs None" "distinct (map fst bs)" "pooled bs" using Nil(3,7) Some e(1) by auto
    then obtain t where "pbuf_free (Some a) ?e = Some (of_nat (length bs), t)"
      "pbufs t = (\<lambda>x. if x \<in> fst ` set bs then None else pbufs ?e x)" "memp_pbuf_pool t = rev (map fst bs) @ memp_pbuf_pool ?e"
      "bytes t = bytes ?e" "memp_pbuf t = memp_pbuf ?e" "custom_freed t = custom_freed ?e" "same_heap ?e t"
      using pbuf_free_pooled by blast
    then show ?thesis using Nil(2) Some al e(6) unfolding e(1-5) by (subst pool_loop.simps) (simp add: same_heap_def)
  qed
next
  case (Cons q qs)
  let ?n = "unat rem_len" and ?c = "capacity off"
  define Q where "Q = (link_next p q (pbufs s))(q \<mapsto> pool_pbuf q off ?n (min ?n ?c) None)"
  define t where "t = s\<lparr>memp_pbuf_pool := qs, pbufs := Q\<rparr>"
  have lp: "q \<notin> last_in p" using Cons.prems(3,7) by (cases p) (auto split: prod.splits)
  have st: "pool_loop p rem_len off s =
    (if min ?n ?c < ?n then pool_loop (Some (head p q, q)) (of_nat (?n - min ?n ?c)) 0 t else Some (Some (head p q), t))"
    using pool_loop_step [OF Cons.prems(2,4,5) lp] by (simp add: t_def Q_def Let_def)
  have f: "\<not> ?n \<le> ?c" using Cons.prems(1) by (subst (asm) pool_sizes.simps) (auto split: if_splits)
  let ?r = "of_nat (?n - ?c) :: u16" and ?ls = "pool_sizes 0 (?n - ?c)"
  have r: "unat ?r = ?n - ?c" using unat_u16 [of rem_len] by (simp add: unsigned_of_nat take_bit_nat_eq_self)
  have ks: "pool_sizes off ?n = ?c # ?ls" using f Cons.prems(4) by (subst pool_sizes.simps) simp
  define cs where "cs = (case p of None \<Rightarrow> [] | Some (a, l) \<Rightarrow> butlast bs @ [(l, (snd (last bs))\<lparr>next_of := Some q\<rparr>)])
    @ [(q, pool_pbuf q off ?n (min ?n ?c) None)]"
  have cs: "chain Q (Some (head p q)) cs None \<and> pooled cs \<and> map fst cs = map fst bs @ [q]"
  proof (cases p)
    case None
    then show ?thesis using Cons.prems(7) type_pool by (simp add: cs_def Q_def pooled_def) (simp add: pool_pbuf_def)
  next
    case (Some al)
    obtain a l where al: "al = (a, l)" by (cases al)
    then obtain us b where b: "bs = us @ [(l, b)]" "chain (pbufs s) (Some a) bs None" "pooled bs" using Cons.prems(7) Some by auto
    then have c: "chain (pbufs s) (Some a) us (Some l)" "pbufs s l = Some b" by (auto simp: chain_append)
    have d: "l \<notin> fst ` set us" "q \<notin> fst ` set us" "q \<noteq> l" using Cons.prems(3) b(1) by auto
    have Q: "Q = (\<lambda>x. if x = q then Some (pool_pbuf q off ?n (min ?n ?c) None)
      else if x = l then Some (b\<lparr>next_of := Some q\<rparr>) else pbufs s x)" using Some al c(2) by (auto simp: Q_def)
    have "chain Q (Some a) us (Some l)" by (rule chain_cong [OF c(1)]) (use d Q in auto)
    moreover have "pooled (us @ [(l, b\<lparr>next_of := Some q\<rparr>)])"
      using b(1,3) by (auto simp: pooled_def src_defs pbuf_get_allocsrc_def)
    ultimately show ?thesis using Some al b(1) d(3) type_pool
      by (auto simp: cs_def chain_append pooled_def Q) (simp add: pool_pbuf_def)
  qed
  have "pbufs t = Q" "memp_pbuf_pool t = qs" by (simp_all add: t_def)
  have "\<exists>u. pool_loop (Some (head p q, q)) ?r 0 t = Some (None, u)
      \<and> pbufs u = (\<lambda>x. if x \<in> fst ` set cs then None else pbufs t x) \<and> memp_pbuf_pool u = rev (map fst cs @ qs)
      \<and> bytes u = bytes t \<and> memp_pbuf u = memp_pbuf t \<and> custom_freed u = custom_freed t \<and> same_heap t u"
  proof (rule Cons.IH)
    show "length qs < length (pool_sizes 0 (unat ?r))" using Cons.prems(1) ks r by simp
    show "distinct (map fst cs @ qs)" using cs Cons.prems(3) by auto
    show "\<forall>x \<in> set qs. pbufs t x = None"
      using Cons.prems(3,6,7) unfolding \<open>pbufs t = Q\<close> Q_def by (cases p) (auto simp: image_iff)
    show "case Some (head p q, q) of None \<Rightarrow> cs = [] | Some (a, l) \<Rightarrow> \<exists>us b. cs = us @ [(l, b)] \<and> chain (pbufs t) (Some a) cs None \<and> pooled cs"
      using cs \<open>pbufs t = Q\<close> by (auto simp: cs_def)
  qed (simp_all add: t_def capacity_0)
  then obtain u where u: "pool_loop (Some (head p q, q)) ?r 0 t = Some (None, u)"
    "pbufs u = (\<lambda>x. if x \<in> fst ` set cs then None else Q x)" "memp_pbuf_pool u = rev (map fst cs @ qs)"
    "bytes u = bytes s" "memp_pbuf u = memp_pbuf s" "custom_freed u = custom_freed s" "same_heap s u"
    unfolding \<open>pbufs t = Q\<close> by (auto simp: t_def same_heap_def)
  have "fst ` set cs = insert q (fst ` set bs)" using cs by (metis (no_types, lifting) Un_insert_right append_Nil2 list.set_map list.simps(15) set_append sup_bot.right_neutral list.set(1))
  moreover have "Q x = pbufs s x" if "x \<noteq> q" "x \<notin> fst ` set bs" for x
    using that Cons.prems(7) unfolding Q_def by (cases p) auto
  moreover have "pbufs s q = None" using Cons.prems(6) by simp
  ultimately have "pbufs u = (\<lambda>x. if x \<in> fst ` set bs then None else pbufs s x)" unfolding u(2) by auto
  then show ?case using st f u cs by (simp add: min_absorb2)
qed

text \<open>The free elements of the pool: aligned, apart from each other and holding no pbuf.\<close>

definition element :: "nat \<Rightarrow> nat set" where
  "element q = {q..<q + SIZEOF_STRUCT_PBUF + PBUF_POOL_BUFSIZE_ALIGNED}"

definition pool_ok :: "lwip \<Rightarrow> bool" where
  "pool_ok s \<longleftrightarrow> distinct (memp_pbuf_pool s) \<and> (\<forall>q \<in> set (memp_pbuf_pool s). 4 dvd q \<and> pbufs s q = None)
     \<and> (\<forall>q \<in> set (memp_pbuf_pool s). \<forall>r \<in> set (memp_pbuf_pool s). q \<noteq> r \<longrightarrow> element q \<inter> element r = {})"

lemma align_size_add: "4 dvd q \<Longrightarrow> LWIP_MEM_ALIGN_SIZE (q + n) = q + LWIP_MEM_ALIGN_SIZE n"
proof -
  assume "4 dvd q"
  then obtain k where q: "q = 4 * k" by (auto simp: dvd_def)
  have "(4 * k + (n + 3)) div 4 = k + (n + 3) div 4" by simp
  then show ?thesis by (simp add: LWIP_MEM_ALIGN_SIZE_def q add.assoc)
qed

lemma layer_capacity: "536 \<le> capacity (layer_offset layer)" "capacity (layer_offset layer) \<le> 592"
  by (cases layer; simp add: capacity_def LWIP_MEM_ALIGN_SIZE_def PBUF_POOL_BUFSIZE_ALIGNED_def)+

lemma pool_sizes_fit: "0 < capacity off \<Longrightarrow> hd (pool_sizes off n) \<le> capacity off \<and> (\<forall>k \<in> set (tl (pool_sizes off n)). k \<le> 592)"
proof (induction off n rule: pool_sizes.induct)
  case (1 off n)
  show ?case
  proof (cases "n \<le> capacity off")
    case True
    then have "pool_sizes off n = [n]" by (subst pool_sizes.simps) simp
    then show ?thesis using True by simp
  next
    case False
    then have e: "pool_sizes off n = capacity off # pool_sizes 0 (n - capacity off)" using 1(2) by (subst pool_sizes.simps) simp
    have "hd (pool_sizes 0 (n - capacity off)) \<le> 592 \<and> (\<forall>k \<in> set (tl (pool_sizes 0 (n - capacity off))). k \<le> 592)"
      using 1 False by (simp add: capacity_0)
    then show ?thesis unfolding e by (cases "pool_sizes 0 (n - capacity off)") auto
  qed
qed

lemma pool_chain_spans:
  "length ks \<le> length qs \<Longrightarrow> sum_list ks < 65536 \<Longrightarrow> \<forall>q \<in> set qs. 4 dvd q
    \<Longrightarrow> ks = [] \<or> hd ks + LWIP_MEM_ALIGN_SIZE off \<le> 592 \<Longrightarrow> \<forall>k \<in> set (tl ks). k \<le> 592
    \<Longrightarrow> \<forall>(q, b) \<in> set (pool_chain off n ks qs). span b \<subseteq> element q"
proof (induction off n ks qs rule: pool_chain.induct)
  case (1 off n k ks q qs)
  have "\<forall>(q, b) \<in> set (pool_chain 0 (n - k) ks qs). span b \<subseteq> element q"
    using 1 by (cases ks) (simp_all add: LWIP_MEM_ALIGN_SIZE_def)
  moreover have "span (pool_pbuf q off n k nx) \<subseteq> element q" for nx
  proof -
    have "unat (of_nat k :: u16) = k" using 1(3) by (simp add: unsigned_of_nat take_bit_nat_eq_self)
    moreover have "LWIP_MEM_ALIGN_SIZE (q + SIZEOF_STRUCT_PBUF + off) = q + (16 + LWIP_MEM_ALIGN_SIZE off)"
      using align_size_add [of "q + 16" off] 1(4) by (simp add: SIZEOF_STRUCT_PBUF_def)
    ultimately show ?thesis using 1(5) by (auto simp: span_def pool_pbuf_def element_def reg_consts)
  qed
  ultimately show ?case by auto
qed auto

lemma apart_elements:
  "(\<forall>(q, b) \<in> set bs. span b \<subseteq> element q) \<Longrightarrow> distinct (map fst bs)
    \<Longrightarrow> (\<And>q r. q \<in> fst ` set bs \<Longrightarrow> r \<in> fst ` set bs \<Longrightarrow> q \<noteq> r \<Longrightarrow> element q \<inter> element r = {}) \<Longrightarrow> apart bs"
proof (induction bs)
  case (Cons x bs)
  obtain q b where x: "x = (q, b)" by (cases x)
  have "span b \<inter> span c = {}" if "(r, c) \<in> set bs" for r c
  proof -
    have "r \<noteq> q" using that Cons.prems(2) x by force
    then have "element q \<inter> element r = {}" using Cons.prems(3) [of q r] that x by force
    then show ?thesis using that Cons.prems(1) x by fastforce
  qed
  then have "span b \<inter> area bs = {}" unfolding area_def by fastforce
  moreover have "apart bs" using Cons by simp
  ultimately show ?case using x by simp
qed simp

lemma lens_pool_chain: "length ks \<le> length qs \<Longrightarrow> sum_list ks < 65536 \<Longrightarrow> map (\<lambda>(a, b). unat (len b)) (pool_chain off n ks qs) = ks"
proof (induction off n ks qs rule: pool_chain.induct)
  case (1 off n k ks q qs)
  then show ?case by (simp add: pool_pbuf_def unsigned_of_nat take_bit_nat_eq_self)
qed auto

lemma pooled_pool_chain: "pooled (pool_chain off n ks qs)"
  by (induction off n ks qs rule: pool_chain.induct) (auto simp: pooled_def type_pool)

text \<open>Everything \<^verbatim>\<open>pbuf_alloc\<close> does for a packet from the pool.\<close>

lemma pbuf_alloc_pool:
  fixes layer n s
  defines "ks \<equiv> pool_sizes (layer_offset layer) (unat n)" and "qs \<equiv> memp_pbuf_pool s"
  assumes "pool_ok s" "length ks \<le> length qs"
  shows "\<exists>t bs. pbuf_alloc layer n PBUF_POOL s = Some (first bs, t) \<and> bs \<noteq> [] \<and> chain (pbufs t) (first bs) bs None
    \<and> map fst bs = take (length ks) qs \<and> map (\<lambda>(a, b). unat (len b)) bs = ks \<and> lens_ok 0 bs \<and> apart bs \<and> pooled bs
    \<and> size_of bs = unat n \<and> (\<forall>(q, b) \<in> set bs. span b \<subseteq> element q)
    \<and> (\<exists>b cs. bs = (hd qs, b) # cs \<and> payload b = hd qs + 16 + LWIP_MEM_ALIGN_SIZE (layer_offset layer) \<and> type_internal b = 0x82)
    \<and> t = s\<lparr>pbufs := pbufs s ++ map_of bs, memp_pbuf_pool := drop (length ks) qs\<rparr>"
proof -
  let ?off = "layer_offset layer"
  define bs where "bs = pool_chain ?off (unat n) ks qs"
  define t where "t = s\<lparr>pbufs := pbufs s ++ map_of bs, memp_pbuf_pool := drop (length ks) qs\<rparr>"
  have q: "distinct qs" "\<forall>q \<in> set qs. 4 dvd q" "\<And>q r. q \<in> set qs \<Longrightarrow> r \<in> set qs \<Longrightarrow> q \<noteq> r \<Longrightarrow> element q \<inter> element r = {}"
    using assms(3) by (auto simp: pool_ok_def qs_def)
  have sm: "sum_list ks = unat n" "sum_list ks < 65536" using sum_pool_sizes unat_u16 by (simp_all add: ks_def)
  have f: "map fst bs = take (length ks) qs" using fst_pool_chain [OF assms(4)] by (simp add: bs_def)
  then have fs: "fst ` set bs \<subseteq> set qs" "distinct (map fst bs)"
    using q(1) by (metis list.set_map set_take_subset, simp)
  have ne: "ks \<noteq> []" "bs \<noteq> []" and hd: "first bs = Some (hd qs)"
  proof -
    show "ks \<noteq> []" using pool_sizes_nonempty by (simp add: ks_def)
    then show "bs \<noteq> []" "first bs = Some (hd qs)" using assms(4) by (cases ks; cases qs; simp add: bs_def)+
  qed
  have "pbuf_alloc layer n PBUF_POOL s = Some (first bs, t)"
  proof -
    have "pool_loop None n ?off s = Some (Some (head None (hd qs)), s\<lparr>pbufs := link_next None (hd qs) (pbufs s)
      ++ map_of (pool_chain ?off (unat n) (pool_sizes ?off (unat n)) qs), memp_pbuf_pool := drop (length (pool_sizes ?off (unat n))) qs\<rparr>)"
      by (rule pool_loop_succeeds)
        (use assms(4) q(1) layer_capacity [of layer] in \<open>simp_all add: ks_def qs_def\<close>)
    then show ?thesis unfolding ks_def [symmetric] bs_def [symmetric] head.simps link_next.simps t_def [symmetric] hd pbuf_alloc_def
      by simp
  qed
  moreover have "chain (pbufs t) (first bs) bs None"
    using chain_pool_chain [of ?off "unat n" ks qs "pbufs t"] assms(4) ne hd fs(2) unfolding bs_def [symmetric]
    by (simp add: t_def map_add_Some_iff)
  moreover have sp: "\<forall>(q, b) \<in> set bs. span b \<subseteq> element q"
  proof -
    have "hd ks \<le> capacity ?off \<and> (\<forall>k \<in> set (tl ks). k \<le> 592)" using pool_sizes_fit [of ?off "unat n"] layer_capacity(1) [of layer] by (simp add: ks_def)
    moreover have "capacity ?off + LWIP_MEM_ALIGN_SIZE ?off = 592"
      by (cases layer) (simp_all add: capacity_def LWIP_MEM_ALIGN_SIZE_def PBUF_POOL_BUFSIZE_ALIGNED_def)
    ultimately show ?thesis unfolding bs_def by (intro pool_chain_spans [OF assms(4) sm(2) q(2)]) auto
  qed
  moreover have "apart bs" by (rule apart_elements [OF sp fs(2)]) (use q(3) fs(1) in blast)
  moreover have "\<exists>b cs. bs = (hd qs, b) # cs \<and> payload b = hd qs + 16 + LWIP_MEM_ALIGN_SIZE ?off \<and> type_internal b = 0x82"
  proof -
    obtain k ks' q' qs' where "ks = k # ks'" "qs = q' # qs'" using ne(1) assms(4) by (cases ks; cases qs) auto
    moreover from this have "LWIP_MEM_ALIGN_SIZE (q' + SIZEOF_STRUCT_PBUF + ?off) = q' + 16 + LWIP_MEM_ALIGN_SIZE ?off"
      using align_size_add [of "q' + 16" ?off] q(2) by (simp add: SIZEOF_STRUCT_PBUF_def)
    ultimately show ?thesis by (simp add: bs_def pool_pbuf_def)
  qed
  ultimately show ?thesis
    using f ne size_pool_chain [OF assms(4) sm(1)] sm lens_pool_chain [OF assms(4) sm(2)] pooled_pool_chain
    unfolding bs_def [symmetric] t_def by (intro exI [of _ t] exI [of _ bs]) (simp add: bs_def t_def)
qed

lemma pbuf_alloc_pool_fails:
  assumes "pool_ok s" "length (memp_pbuf_pool s) < length (pool_sizes (layer_offset layer) (unat n))"
  shows "\<exists>t. pbuf_alloc layer n PBUF_POOL s = Some (None, t) \<and> pbufs t = pbufs s
    \<and> memp_pbuf_pool t = rev (memp_pbuf_pool s) \<and> bytes t = bytes s"
proof -
  have "distinct (map fst ([] :: (nat \<times> pbuf) list) @ memp_pbuf_pool s)" "\<forall>q \<in> set (memp_pbuf_pool s). pbufs s q = None"
    using assms(1) by (simp_all add: pool_ok_def)
  from pool_loop_fails [OF assms(2) refl this(1) _ _ this(2), of None] show ?thesis
    using layer_capacity [of layer] unfolding pbuf_alloc_def by (auto simp: Let_def)
qed

lemma chain_distinct_free:
  assumes "pool_ok s" "map fst bs = take k (memp_pbuf_pool s)" "pbufs t = pbufs s ++ map_of bs"
  shows "(\<lambda>x. if x \<in> fst ` set bs then None else pbufs t x) = pbufs s"
proof
  fix x
  have "fst ` set bs \<subseteq> set (memp_pbuf_pool s)" using assms(2) by (metis list.set_map set_take_subset)
  then have "x \<in> fst ` set bs \<Longrightarrow> pbufs s x = None" using assms(1) by (auto simp: pool_ok_def)
  moreover have "x \<notin> fst ` set bs \<Longrightarrow> pbufs t x = pbufs s x" unfolding assms(3) by (simp add: map_add_dom_app_simps(3) dom_map_of_conv_image_fst)
  ultimately show "(if x \<in> fst ` set bs then None else pbufs t x) = pbufs s x" by simp
qed

lemma pool_ok_mset:
  assumes "pool_ok s" "mset (memp_pbuf_pool t) = mset (memp_pbuf_pool s)" "pbufs t = pbufs s"
  shows "pool_ok t"
proof -
  have "set (memp_pbuf_pool t) = set (memp_pbuf_pool s)" using assms(2) by (metis mset_eq_setD)
  moreover have "distinct (memp_pbuf_pool t)" using assms(1,2) by (metis mset_eq_imp_distinct_iff pool_ok_def)
  ultimately show ?thesis using assms(1,3) by (simp add: pool_ok_def)
qed

section \<open>Headers and concatenation\<close>

definition revealed :: "nat \<Rightarrow> pbuf \<Rightarrow> pbuf" where
  "revealed h b = b\<lparr>payload := payload b - h, len := len b + of_nat h, tot_len := tot_len b + of_nat h\<rparr>"

text \<open>When \<^verbatim>\<open>pbuf_add_header\<close> succeeds, on a pbuf whose payload follows the struct.\<close>

lemma add_header_spec:
  assumes "pbufs s p = Some b" "0 < h" "h + unat (tot_len b) < 65536" "payload b < 2 ^ 32" "h \<le> payload b"
    and "type_internal b AND PBUF_TYPE_FLAG_STRUCT_DATA_CONTIGUOUS \<noteq> 0" "p + SIZEOF_STRUCT_PBUF + h \<le> payload b"
  shows "pbuf_add_header (Some p) h s = Some (0, s\<lparr>pbufs := (pbufs s)(p \<mapsto> revealed h b)\<rparr>)"
proof -
  have h: "unat (of_nat h :: u16) = h" using assms(3) by (simp add: unsigned_of_nat take_bit_nat_eq_self)
  have "\<not> of_nat h + tot_len b < of_nat h"
    using assms(3) h unat_u16 [of "tot_len b"] by (simp add: word_less_nat_alt unat_word_ariths)
  moreover have "minus_U32 (payload b) h = payload b - h" using assms(4,5) by (rule minus_U32_le [rotated])
  ultimately show ?thesis using assms unfolding pbuf_add_header_def pbuf_add_header_impl_def
    by (simp add: Let_def upd_pbuf_def revealed_def)
qed

lemma add_header_refused:
  assumes "pbufs s p = Some b" "0 < h" "h < 65536" "payload b < 2 ^ 32" "h \<le> payload b"
    and "65536 \<le> h + unat (tot_len b) \<or> type_internal b AND PBUF_TYPE_FLAG_STRUCT_DATA_CONTIGUOUS = 0
      \<or> payload b < p + SIZEOF_STRUCT_PBUF + h"
  shows "pbuf_add_header (Some p) h s = Some (1, s)"
proof -
  have h: "unat (of_nat h :: u16) = h" using assms(3) by (simp add: unsigned_of_nat take_bit_nat_eq_self)
  have "of_nat h + tot_len b < of_nat h" if "65536 \<le> h + unat (tot_len b)"
    using that assms(3) h unat_u16 [of "tot_len b"] by (simp add: word_less_nat_alt unat_word_ariths mod_if) linarith
  moreover have "minus_U32 (payload b) h = payload b - h" using assms(4,5) by (rule minus_U32_le [rotated])
  ultimately show ?thesis using assms unfolding pbuf_add_header_def pbuf_add_header_impl_def
    by (auto simp: Let_def)
qed

lemma remove_header_spec:
  assumes "pbufs s p = Some b" "0 < h" "h \<le> unat (len b)"
  shows "pbuf_remove_header (Some p) h s = Some (0, s\<lparr>pbufs := (pbufs s)(p \<mapsto> b\<lparr>payload := payload b + h,
    len := len b - of_nat h, tot_len := tot_len b - of_nat h\<rparr>)\<rparr>)"
proof -
  have "h < 65536" using assms(3) unat_u16 [of "len b"] by simp
  moreover from this have "of_nat h \<le> len b" using assms(3) by (simp add: word_le_nat_alt unsigned_of_nat take_bit_nat_eq_self)
  ultimately show ?thesis using assms unfolding pbuf_remove_header_def by (simp add: Let_def upd_pbuf_def)
qed

lemma revealed_contents:
  assumes "lens_ok 0 ((p, b) # cs)" "h + unat (tot_len b) < 65536" "h \<le> payload b"
  shows "contents M ((p, revealed h b) # cs) = read_bytes M (payload b - h) h @ contents M ((p, b) # cs)"
    and "lens_ok 0 ((p, revealed h b) # cs)" and "unat (len (revealed h b)) = unat (len b) + h"
proof -
  have h: "unat (of_nat h :: u16) = h" using assms(2) by (simp add: unsigned_of_nat take_bit_nat_eq_self)
  have l: "unat (len b + of_nat h) = unat (len b) + h" "unat (tot_len b + of_nat h) = unat (tot_len b) + h"
    using assms(1,2) h by (simp_all add: unat_word_ariths)
  have "read_bytes M (payload b - h) (unat (len b) + h) = read_bytes M (payload b - h) h @ read_bytes M (payload b) (unat (len b))"
    using assms(3) by (intro nth_equalityI) (auto simp: nth_append)
  then show "contents M ((p, revealed h b) # cs) = read_bytes M (payload b - h) h @ contents M ((p, b) # cs)"
    using l by (simp add: revealed_def)
  show "lens_ok 0 ((p, revealed h b) # cs)" "unat (len (revealed h b)) = unat (len b) + h"
    using assms(1) l by (simp_all add: revealed_def)
qed

text \<open>The pbufs of a chain after \<open>k\<close> bytes at \<open>q\<close> were joined to it.\<close>

fun joined :: "nat \<Rightarrow> u16 \<Rightarrow> (nat \<times> pbuf) list \<Rightarrow> (nat \<times> pbuf) list" where
  "joined q k [] = []"
| "joined q k [(a, b)] = [(a, b\<lparr>tot_len := tot_len b + k, next_of := Some q\<rparr>)]"
| "joined q k ((a, b) # x # bs) = (a, b\<lparr>tot_len := tot_len b + k\<rparr>) # joined q k (x # bs)"

lemma joined_props: "map fst (joined q k bs) = map fst bs" "contents M (joined q k bs) = contents M bs"
  "size_of (joined q k bs) = size_of bs" "map (ref \<circ> snd) (joined q k bs) = map (ref \<circ> snd) bs"
  by (induction q k bs rule: joined.induct) auto

lemma lens_ok_joined:
  "lens_ok 0 bs \<Longrightarrow> size_of bs + unat k < 65536 \<Longrightarrow> lens_ok (unat k) (joined q k bs)"
  by (induction q k bs rule: joined.induct) (auto simp: joined_props unat_word_ariths)

lemma cat_loop_spec:
  "chain (pbufs s) (Some p) bs None \<Longrightarrow> distinct (map fst bs) \<Longrightarrow> q \<notin> fst ` set bs \<Longrightarrow> pbufs s q = Some c
    \<Longrightarrow> cat_loop p q s = Some (s\<lparr>pbufs := pbufs s ++ map_of (joined q (tot_len c) bs)\<rparr>)"
proof (induction bs arbitrary: p s)
  case (Cons x bs)
  obtain b where x: "x = (p, b)" "pbufs s p = Some b" "chain (pbufs s) (next_of b) bs None" using Cons.prems(1) by (cases x) auto
  define P where "P = (pbufs s)(p \<mapsto> b\<lparr>tot_len := tot_len b + tot_len c\<rparr>)"
  have u: "upd_pbuf p (\<lambda>x. x\<lparr>tot_len := tot_len x + tot_len c\<rparr>) s = s\<lparr>pbufs := P\<rparr>" using x(2) by (simp add: upd_pbuf_def P_def)
  show ?case
  proof (cases bs)
    case Nil
    then have "next_of b = None" using x(3) by simp
    then have 1: "cat_loop p q s = Some (upd_pbuf p (\<lambda>x. x\<lparr>next_of := Some q\<rparr>) (s\<lparr>pbufs := P\<rparr>))"
      using x(2) Cons.prems(4) u by (subst cat_loop.simps) simp
    define R where "R = P(p := map_option (\<lambda>x. x\<lparr>next_of := Some q\<rparr>) (P p))"
    have 2: "pbufs s ++ map_of (joined q (tot_len c) (x # bs)) = R"
      using Nil x by (auto simp: R_def P_def map_add_def fun_eq_iff)
    have 3: "upd_pbuf p (\<lambda>x. x\<lparr>next_of := Some q\<rparr>) (s\<lparr>pbufs := P\<rparr>) = s\<lparr>pbufs := R\<rparr>" by (simp add: upd_pbuf_def R_def)
    show ?thesis unfolding 1 2 3 ..
  next
    case (Cons y ys)
    then have n: "next_of b = Some (fst y)" using x(3) by (cases y) auto
    have d: "p \<notin> fst ` set bs" "q \<noteq> p" using Cons.prems(2,3) x(1) by auto
    have st: "cat_loop p q s = cat_loop (fst y) q (s\<lparr>pbufs := P\<rparr>)"
      using x(2) Cons.prems(4) u n by (subst cat_loop.simps) simp
    have Pq: "P q = Some c" using Cons.prems(4) d(2) by (simp add: P_def)
    have "chain P (Some (fst y)) bs None" unfolding n [symmetric] by (rule chain_cong [OF x(3)]) (use d(1) in \<open>auto simp: P_def\<close>)
    then have "cat_loop (fst y) q (s\<lparr>pbufs := P\<rparr>) = Some (s\<lparr>pbufs := P ++ map_of (joined q (tot_len c) bs)\<rparr>)"
      using Cons.IH [of "s\<lparr>pbufs := P\<rparr>" "fst y"] Cons.prems(2,3) Pq by simp
    moreover have "p \<notin> fst ` set (joined q (tot_len c) bs)" using d(1) joined_props(1) by (metis list.set_map)
    then have "P ++ map_of (joined q (tot_len c) bs) = pbufs s ++ map_of (joined q (tot_len c) (x # bs))"
      using Cons x(1) unfolding P_def by (simp add: map_add_upd_left dom_map_of_conv_image_fst)
    ultimately show ?thesis using st by simp
  qed
qed simp

text \<open>The pool as it is after \<^verbatim>\<open>memp_init\<close>, for the examples.\<close>

lemma memp_init_pool_eq: "memp_init_pool base num sz = rev (map (\<lambda>i. LWIP_MEM_ALIGN_SIZE base + i * sz) [0..<num])"
proof -
  have "fold (\<lambda>i tab. f i # tab) xs acc = rev (map f xs) @ acc" for f :: "nat \<Rightarrow> nat" and xs acc
    by (induction xs arbitrary: acc) auto
  then show ?thesis by (simp add: memp_init_pool_def)
qed

lemma pool_ok_init:
  assumes "memp_pbuf_pool s = memp_init_pool base num 608" "pbufs s = (\<lambda>_. None)"
  shows "pool_ok s"
proof -
  let ?f = "\<lambda>i. LWIP_MEM_ALIGN_SIZE base + i * 608"
  have "distinct (map ?f [0..<num])" by (simp add: distinct_map inj_on_def)
  moreover have "4 dvd ?f i" for i using align_size(3) [of base] by (simp add: dvd_add)
  moreover have "element (?f i) \<inter> element (?f j) = {}" if "i \<noteq> j" for i j
  proof -
    have "?f i + 608 \<le> ?f j \<or> ?f j + 608 \<le> ?f i" using that by (cases "i < j") auto
    then show ?thesis by (auto simp: element_def reg_consts)
  qed
  ultimately show ?thesis unfolding pool_ok_def assms memp_init_pool_eq by auto
qed

definition fresh :: lwip where
  "fresh = sample\<lparr>pbufs := (\<lambda>_. None), memp_pbuf_pool := memp_init_pool 0x20010000 16 608\<rparr>"

lemma fresh_ok: "pool_ok fresh"
  by (rule pool_ok_init [where base = "0x20010000" and num = "16"]) (simp_all add: fresh_def)

lemma fresh_pool: "length (memp_pbuf_pool fresh) = 16" "\<forall>q \<in> set (memp_pbuf_pool fresh). q + 608 \<le> 2 ^ 32"
  by (auto simp: fresh_def memp_init_pool_eq LWIP_MEM_ALIGN_SIZE_def)

section \<open>Properties\<close>

text \<open>
  Property C8: the life of a message. As the program sends a text: whenever the pool has enough free
  elements, allocating a packet for it, filling it and freeing it succeeds. In between the packet is a
  chain whose lengths are consistent and whose bytes are exactly the message, however many pbufs it
  takes; afterwards no pbuf is left over and the pool has all its elements again, so that it goes on
  for ever. When the pool has too few, the allocation returns a null pointer and gives all back.
\<close>

theorem message_lifecycle:
  assumes "pool_ok s" "length msg < 65536"
  defines "n \<equiv> of_nat (length msg) :: u16" and "k \<equiv> length (pool_sizes (layer_offset PBUF_TRANSPORT) (length msg))"
  shows "if k \<le> length (memp_pbuf_pool s)
    then \<exists>p t u v bs. pbuf_alloc PBUF_TRANSPORT n PBUF_POOL s = Some (Some p, t)
      \<and> pbuf_take (Some p) (Some msg) n t = Some (ERR_OK, u)
      \<and> chain (pbufs u) (Some p) bs None \<and> lens_ok 0 bs \<and> contents (bytes u) bs = msg
      \<and> pbuf_free (Some p) u = Some (of_nat k, v) \<and> pbufs v = pbufs s \<and> pool_ok v
      \<and> mset (memp_pbuf_pool v) = mset (memp_pbuf_pool s)
    else \<exists>t. pbuf_alloc PBUF_TRANSPORT n PBUF_POOL s = Some (None, t) \<and> pbufs t = pbufs s \<and> pool_ok t
      \<and> mset (memp_pbuf_pool t) = mset (memp_pbuf_pool s)"
proof -
  have n: "unat n = length msg" using assms(2) by (simp add: n_def unsigned_of_nat take_bit_nat_eq_self)
  let ?qs = "memp_pbuf_pool s"
  show ?thesis
  proof (cases "k \<le> length ?qs")
    case True
    then obtain t bs where t: "pbuf_alloc PBUF_TRANSPORT n PBUF_POOL s = Some (first bs, t)" "bs \<noteq> []"
      "chain (pbufs t) (first bs) bs None" "map fst bs = take k ?qs" "lens_ok 0 bs" "apart bs" "pooled bs" "size_of bs = length msg"
      "t = s\<lparr>pbufs := pbufs s ++ map_of bs, memp_pbuf_pool := drop k ?qs\<rparr>"
      using pbuf_alloc_pool [OF assms(1), of PBUF_TRANSPORT n] n unfolding k_def by auto
    obtain p b cs where p: "bs = (p, b) # cs" using t(2) by (cases bs) auto
    have c: "chain (pbufs t) (Some p) bs None" and b: "pbufs t p = Some b" using t(3) p by auto
    obtain M where M: "take_loop (Some p) msg (length msg) t = Some (t\<lparr>bytes := M\<rparr>)" "contents M bs = msg"
      using take_loop_spec [OF c t(6), of "length msg" msg] t(8) by auto
    define u where "u = t\<lparr>bytes := M\<rparr>"
    have "\<not> tot_len b < n" using t(5,8) p n by (simp add: word_less_nat_alt)
    then have tk: "pbuf_take (Some p) (Some msg) n t = Some (ERR_OK, u)" using b M(1) n by (simp add: pbuf_take_def u_def)
    have cu: "chain (pbufs u) (Some p) bs None" using c by (simp add: u_def)
    have "distinct (map fst bs)" using t(4) assms(1) by (simp add: pool_ok_def)
    then obtain v where v: "pbuf_free (Some p) u = Some (of_nat (length bs), v)"
      "pbufs v = (\<lambda>x. if x \<in> fst ` set bs then None else pbufs u x)" "memp_pbuf_pool v = rev (map fst bs) @ memp_pbuf_pool u"
      using pbuf_free_pooled [OF cu _ t(7)] by blast
    have k: "length bs = k" using t(4) True by (metis length_map length_take min_absorb2)
    have vp: "pbufs v = pbufs s"
      unfolding v(2) by (rule chain_distinct_free [OF assms(1) t(4)]) (simp add: u_def t(9))
    have vm: "mset (memp_pbuf_pool v) = mset ?qs" unfolding v(3) t(4) mset_append mset_rev using mset_append [of "take k ?qs" "drop k ?qs"] by (simp add: u_def t(9))
    have al: "pbuf_alloc PBUF_TRANSPORT n PBUF_POOL s = Some (Some p, t)" using t(1) p by simp
    have cb: "contents (bytes u) bs = msg" using M(2) by (simp add: u_def)
    have fr: "pbuf_free (Some p) u = Some (of_nat k, v)" using v(1) k by simp
    show ?thesis unfolding if_P [OF True] using al tk cu t(5) cb fr vp pool_ok_mset [OF assms(1) vm vp] vm by blast
  next
    case False
    then have "length ?qs < length (pool_sizes (layer_offset PBUF_TRANSPORT) (unat n))" using n by (simp add: k_def)
    then obtain t where t: "pbuf_alloc PBUF_TRANSPORT n PBUF_POOL s = Some (None, t)" "pbufs t = pbufs s" "memp_pbuf_pool t = rev ?qs"
      using pbuf_alloc_pool_fails [OF assms(1)] by blast
    then have "mset (memp_pbuf_pool t) = mset ?qs" by simp
    then show ?thesis using False t(1,2) pool_ok_mset [OF assms(1) _ t(2)] by auto
  qed
qed

theorem message_lifecycle_witness:
  "\<exists>p t u v bs. pbuf_alloc PBUF_TRANSPORT 3 PBUF_POOL fresh = Some (Some p, t)
    \<and> pbuf_take (Some p) (Some [104, 105, 10]) 3 t = Some (ERR_OK, u)
    \<and> chain (pbufs u) (Some p) bs None \<and> contents (bytes u) bs = [104, 105, 10]
    \<and> pbuf_free (Some p) u = Some (1, v) \<and> pbufs v = pbufs fresh \<and> pool_ok v"
proof -
  have k: "pool_sizes (layer_offset PBUF_TRANSPORT) 3 = [3]"
    by (subst pool_sizes.simps) (simp add: capacity_def LWIP_MEM_ALIGN_SIZE_def PBUF_POOL_BUFSIZE_ALIGNED_def)
  show ?thesis using message_lifecycle [OF fresh_ok, of "[104, 105, 10]"] k fresh_pool(1)
    by (simp add: numeral_3_eq_3 [symmetric] del: layer_offset.simps) blast
qed

text \<open>
  Property C27: references. Freeing a chain releases its pbufs from the head up to the first that
  somebody else refers to as well, which loses one reference, and leaves the rest alone; each pbuf
  goes back to where it came from, the pool, the pool of structs, the heap or its owner, and the
  result counts them.
\<close>

theorem pbuf_free_correct:
  assumes "chain (pbufs s) (Some p) bs None" "distinct (map fst bs)" "\<forall>(a, b) \<in> set bs. src_ok b"
  shows "\<exists>t. pbuf_free (Some p) s = Some (of_nat (length (freed bs)), t)
    \<and> (\<forall>x. pbufs t x = (if x \<in> fst ` set (freed bs) then None
          else case kept bs of [] \<Rightarrow> pbufs s x | (a, b) # cs \<Rightarrow> if x = a then Some (b\<lparr>ref := ref b - 1\<rparr>) else pbufs s x))
    \<and> memp_pbuf_pool t = rev (given_back from_pool bs) @ memp_pbuf_pool s
    \<and> memp_pbuf t = rev (given_back from_memp bs) @ memp_pbuf s
    \<and> custom_freed t = rev (given_back custom bs) @ custom_freed s
    \<and> bytes t = bytes s \<and> same_heap (fold mem_free (given_back from_heap bs) s) t"
proof -
  obtain t where "free_loop (Some p) 0 s = Some (0 + of_nat (length (freed bs)), t)" "pbufs t = after_free bs (pbufs s)"
    "memp_pbuf_pool t = rev (given_back from_pool bs) @ memp_pbuf_pool s" "memp_pbuf t = rev (given_back from_memp bs) @ memp_pbuf s"
    "custom_freed t = rev (given_back custom bs) @ custom_freed s" "bytes t = bytes s"
    "same_heap (fold mem_free (given_back from_heap bs) s) t" using free_loop_spec [OF assms, of 0] by blast
  then show ?thesis unfolding pbuf_free_def by (intro exI [of _ t]) (auto simp: after_free_def)
qed

theorem pbuf_free_correct_witness:
  "\<exists>t. pbuf_free (Some 100) sample = Some (2, t) \<and> pbufs t 100 = None \<and> pbufs t 200 = None \<and> memp_pbuf_pool t = [200, 100]"
proof -
  have "distinct (map fst sample_chain)" "\<forall>(a, b) \<in> set sample_chain. src_ok b" "freed sample_chain = sample_chain"
    "given_back from_pool sample_chain = [100, 200]"
    by (simp_all add: sample_chain_def src_ok_def src_defs pbuf_get_allocsrc_def)
  moreover have "memp_pbuf_pool sample = []" "length sample_chain = 2" "fst ` set sample_chain = {100, 200}"
    by (simp_all add: sample_def sample_chain_def)
  ultimately show ?thesis using pbuf_free_correct [OF sample_is_chain] by fastforce
qed

text \<open>
  Room for the headers. A packet allocated for the transport layer takes the headers of
  UDP or TCP, IP and Ethernet, 54 bytes in all, without moving its data: \<^verbatim>\<open>pbuf_add_header\<close>
  succeeds, the packet is the header followed by the data with consistent lengths and stays inside its
  element of the pool, and \<^verbatim>\<open>pbuf_remove_header\<close> brings back the very state of before.
\<close>

lemma headers_fit:
  assumes "pool_ok s" "length (pool_sizes (layer_offset PBUF_TRANSPORT) (unat n)) \<le> length (memp_pbuf_pool s)"
    and "0 < h" "h \<le> 54" "h + unat n < 65536" "\<forall>q \<in> set (memp_pbuf_pool s). q + 608 \<le> 2 ^ 32"
  shows "\<exists>p t u b cs. pbuf_alloc PBUF_TRANSPORT n PBUF_POOL s = Some (Some p, t) \<and> chain (pbufs t) (Some p) ((p, b) # cs) None
    \<and> pbuf_add_header (Some p) h t = Some (0, u) \<and> chain (pbufs u) (Some p) ((p, revealed h b) # cs) None
    \<and> lens_ok 0 ((p, revealed h b) # cs) \<and> span (revealed h b) \<subseteq> element p
    \<and> contents (bytes u) ((p, revealed h b) # cs) = read_bytes (bytes t) (payload b - h) h @ contents (bytes t) ((p, b) # cs)
    \<and> pbuf_remove_header (Some p) h u = Some (0, t)"
proof -
  let ?qs = "memp_pbuf_pool s"
  obtain t p b cs where t: "pbuf_alloc PBUF_TRANSPORT n PBUF_POOL s = Some (Some p, t)" "chain (pbufs t) (Some p) ((p, b) # cs) None"
    "lens_ok 0 ((p, b) # cs)" "size_of ((p, b) # cs) = unat n" "span b \<subseteq> element p" "p \<in> set ?qs" "payload b = p + 72"
    "type_internal b = 0x82" "distinct (map fst ((p, b) # cs))"
  proof -
    obtain t bs b cs where "pbuf_alloc PBUF_TRANSPORT n PBUF_POOL s = Some (first bs, t)" "chain (pbufs t) (first bs) bs None"
      "map fst bs = take (length (pool_sizes (layer_offset PBUF_TRANSPORT) (unat n))) ?qs" "lens_ok 0 bs" "size_of bs = unat n"
      "\<forall>(q, b) \<in> set bs. span b \<subseteq> element q" "bs = (hd ?qs, b) # cs"
      "payload b = hd ?qs + 16 + LWIP_MEM_ALIGN_SIZE (layer_offset PBUF_TRANSPORT)" "type_internal b = 0x82"
      using pbuf_alloc_pool [OF assms(1,2)] by blast
    moreover have "?qs \<noteq> []" using assms(2) pool_sizes_nonempty by (metis le_zero_eq length_0_conv list.size(3))
    moreover have "distinct (map fst bs)" if "map fst bs = take k ?qs" for k using that assms(1) by (simp add: pool_ok_def)
    ultimately show ?thesis by (intro that [of "hd ?qs" t b cs]) (auto simp: LWIP_MEM_ALIGN_SIZE_def)
  qed
  define u where "u = t\<lparr>pbufs := (pbufs t)(p \<mapsto> revealed h b)\<rparr>"
  have tl: "unat (tot_len b) = unat n" and pb: "pbufs t p = Some b" using t(2-4) by simp_all
  have pw: "p + 608 \<le> 2 ^ 32" using assms(6) t(6) by simp
  have a: "pbuf_add_header (Some p) h t = Some (0, u)" unfolding u_def
    by (rule add_header_spec [OF pb assms(3)])
      (use tl assms(4,5) t(7,8) pw in \<open>simp_all add: PBUF_TYPE_FLAG_STRUCT_DATA_CONTIGUOUS_def SIZEOF_STRUCT_PBUF_def\<close>)
  have hb: "h + unat (tot_len b) < 65536" "h \<le> payload b" using tl assms(4,5) t(7) by simp_all
  note r = revealed_contents [OF t(3) hb]
  have up: "pbufs u p = Some (revealed h b)" by (simp add: u_def)
  have cu: "chain (pbufs u) (Some p) ((p, revealed h b) # cs) None"
  proof -
    have "chain (pbufs t) (next_of b) cs None" using t(2) by simp
    then have "chain (pbufs u) (next_of b) cs None" by (rule chain_cong) (use t(9) in \<open>auto simp: u_def\<close>)
    then show ?thesis using up by (simp add: revealed_def)
  qed
  have "revealed h b\<lparr>payload := payload (revealed h b) + h, len := len (revealed h b) - of_nat h, tot_len := tot_len (revealed h b) - of_nat h\<rparr> = b"
    using hb(2) by (simp add: revealed_def)
  then have rm: "pbuf_remove_header (Some p) h u = Some (0, t)"
    using remove_header_spec [OF up assms(3)] r(3) pb by (simp add: u_def fun_upd_idem)
  have "span (revealed h b) \<subseteq> element p"
  proof -
    have "payload (revealed h b) = payload b - h" by (simp add: revealed_def)
    moreover have "unat (len b) = 0 \<or> payload b + unat (len b) \<le> p + 608"
      using t(5) by (auto simp: span_def element_def reg_consts ivl_subset)
    ultimately show ?thesis using r(3) t(7) assms(4) by (auto simp: span_def element_def reg_consts)
  qed
  then show ?thesis using t(1,2) a cu r(1,2) rm by (auto simp: u_def)
qed

text \<open>
  Concatenation. Joining two chains that share no pbuf gives one chain with the pbufs of
  both in order, whose bytes are those of the first followed by those of the second, with consistent
  lengths as long as the sum fits 16 bits; the memory and the reference counts stay.
\<close>

lemma pbuf_cat_correct:
  assumes "chain (pbufs s) (Some p) bs None" "chain (pbufs s) (Some q) cs None" "distinct (map fst bs)"
    and "fst ` set bs \<inter> fst ` set cs = {}" "lens_ok 0 bs" "lens_ok 0 cs" "size_of bs + size_of cs < 65536"
  shows "\<exists>t ds. pbuf_cat (Some p) (Some q) s = Some t \<and> chain (pbufs t) (Some p) (ds @ cs) None \<and> lens_ok 0 (ds @ cs)
    \<and> map fst ds = map fst bs \<and> map (ref \<circ> snd) ds = map (ref \<circ> snd) bs
    \<and> bytes t = bytes s \<and> contents (bytes t) (ds @ cs) = contents (bytes s) bs @ contents (bytes s) cs"
proof -
  obtain c cs' where c: "cs = (q, c) # cs'" "pbufs s q = Some c" using assms(2) chain_Some by metis
  have k: "unat (tot_len c) = size_of cs" using assms(6) c(1) by simp
  let ?ds = "joined q (tot_len c) bs"
  define t where "t = s\<lparr>pbufs := pbufs s ++ map_of ?ds\<rparr>"
  have "q \<notin> fst ` set bs" using assms(4) c(1) by auto
  then have l: "pbuf_cat (Some p) (Some q) s = Some t"
    using cat_loop_spec [OF assms(1,3) _ c(2)] by (simp add: pbuf_cat_def t_def)
  have f: "fst ` set ?ds = fst ` set bs" using joined_props(1) by (metis list.set_map)
  have "chain (pbufs t) (Some q) cs None"
  proof (rule chain_cong [OF assms(2)])
    fix a assume "a \<in> fst ` set cs"
    then have "a \<notin> dom (map_of ?ds)" using assms(4) f unfolding dom_map_of_conv_image_fst by blast
    then show "pbufs t a = pbufs s a" by (simp add: t_def map_add_dom_app_simps(3))
  qed
  moreover have "chain (pbufs t) (Some p) ?ds (Some q)"
  proof -
    have j: "chain P p' (joined q k' xs) (Some q)" if "chain (pbufs s) p' xs None" "xs \<noteq> []" "\<And>a b. (a, b) \<in> set (joined q k' xs) \<Longrightarrow> P a = Some b"
      for P p' k' xs using that by (induction q k' xs arbitrary: p' rule: joined.induct) auto
    have "distinct (map fst ?ds)" using assms(3) joined_props(1) by metis
    then show ?thesis by (intro j [OF assms(1)]) (use assms(1) in \<open>auto simp: t_def map_add_Some_iff\<close>)
  qed
  ultimately have "chain (pbufs t) (Some p) (?ds @ cs) None" by (auto simp: chain_append)
  moreover have "lens_ok 0 (?ds @ cs)" using lens_ok_joined [of bs "tot_len c" q] assms(5-7) k by (simp add: lens_ok_append)
  ultimately show ?thesis using l joined_props(1-2,4) by (intro exI [of _ t] exI [of _ ?ds]) (simp add: t_def)
qed

section \<open>Shrinking\<close>

text \<open>The pbufs that stay when a chain is cut to \<open>n\<close> bytes, \<open>d\<close> bytes shorter.\<close>

fun trimmed :: "nat \<Rightarrow> u16 \<Rightarrow> (nat \<times> pbuf) list \<Rightarrow> (nat \<times> pbuf) list" where
  "trimmed n d [] = []"
| "trimmed n d ((a, b) # bs) =
     (if n \<le> unat (len b) then [(a, b\<lparr>len := of_nat n, tot_len := of_nat n, next_of := None\<rparr>)]
      else (a, b\<lparr>tot_len := tot_len b - d\<rparr>) # trimmed (n - unat (len b)) d bs)"

fun rest :: "nat \<Rightarrow> (nat \<times> pbuf) list \<Rightarrow> (nat \<times> pbuf) list" where
  "rest n [] = []"
| "rest n ((a, b) # bs) = (if n \<le> unat (len b) then bs else rest (n - unat (len b)) bs)"

lemma contents_trimmed: "n \<le> size_of bs \<Longrightarrow> n < 65536 \<Longrightarrow> contents M (trimmed n d bs) = take n (contents M bs)"
proof (induction n d bs rule: trimmed.induct)
  case (2 n d a b bs)
  have "unat (of_nat n :: u16) = n" using 2(3) by (simp add: unsigned_of_nat take_bit_nat_eq_self)
  moreover have "n \<le> unat (len b) \<Longrightarrow> read_bytes M (payload b) n = take n (read_bytes M (payload b) (unat (len b)))"
    using take_drop_read_bytes [of 0 n "unat (len b)" M "payload b"] by simp
  ultimately show ?case using 2 by auto
qed simp

lemma size_trimmed: "n \<le> size_of bs \<Longrightarrow> n < 65536 \<Longrightarrow> size_of (trimmed n d bs) = n"
proof (induction n d bs rule: trimmed.induct)
  case (2 n d a b bs)
  then show ?case by (auto simp: unsigned_of_nat take_bit_nat_eq_self)
qed simp

lemma lens_ok_trimmed:
  "lens_ok 0 bs \<Longrightarrow> n + unat d = size_of bs \<Longrightarrow> lens_ok 0 (trimmed n d bs)"
proof (induction n d bs rule: trimmed.induct)
  case (2 n d a b bs)
  have t: "unat (tot_len b) = unat (len b) + size_of bs" using 2(2) by simp
  then have n: "n < 65536" using 2(3) unat_u16 [of "tot_len b"] by simp
  show ?case
  proof (cases "n \<le> unat (len b)")
    case True
    then show ?thesis using n by (simp add: unsigned_of_nat take_bit_nat_eq_self)
  next
    case False
    have "unat (tot_len b - d) = unat (tot_len b) - unat d" using t 2(3) by (simp add: unat_sub_if')
    then show ?thesis using False t 2 n size_trimmed [of "n - unat (len b)" bs d] by simp
  qed
qed simp

lemma dom_touched: "dom (map_of (map (\<lambda>(a, b). (a, f b)) us)) = fst ` set us"
  by (simp add: dom_map_of_conv_image_fst image_image split_def)

lemma realloc_loop_spec:
  "chain (pbufs s) (Some p) bs None \<Longrightarrow> distinct (map fst bs) \<Longrightarrow> unat n \<le> size_of bs
    \<Longrightarrow> \<exists>us q b r P. bs = us @ (q, b) # rest (unat n) bs \<and> unat r \<le> unat (len b) \<and> unat n = size_of us + unat r
      \<and> realloc_loop p n d s = Some (q, r, s\<lparr>pbufs := P\<rparr>) \<and> P q = Some b
      \<and> P = pbufs s ++ map_of (map (\<lambda>(a, b). (a, b\<lparr>tot_len := tot_len b - d\<rparr>)) us)
      \<and> trimmed (unat n) d bs = map (\<lambda>(a, b). (a, b\<lparr>tot_len := tot_len b - d\<rparr>)) us @ [(q, b\<lparr>len := r, tot_len := r, next_of := None\<rparr>)]"
proof (induction bs arbitrary: p n s)
  case (Cons x bs)
  obtain b where x: "x = (p, b)" "pbufs s p = Some b" "chain (pbufs s) (next_of b) bs None" using Cons.prems(1) by (cases x) auto
  show ?case
  proof (cases "len b < n")
    case False
    then have "realloc_loop p n d s = Some (p, n, s\<lparr>pbufs := pbufs s\<rparr>)" using x(2) by (subst realloc_loop.simps) simp
    then show ?thesis using False x by (intro exI [of _ "[]"] exI [of _ p] exI [of _ b] exI [of _ n] exI [of _ "pbufs s"]) (auto simp: word_less_nat_alt)
  next
    case True
    have u: "unat (n - len b) = unat n - unat (len b)" "unat (len b) < unat n"
      using True by (simp_all add: unat_sub_if' word_less_nat_alt)
    obtain y ys where y: "bs = y # ys" using Cons.prems(3) u x(1) by (cases bs) auto
    then have nx: "next_of b = Some (fst y)" using x(3) by (cases y) auto
    define R where "R = (pbufs s)(p \<mapsto> b\<lparr>tot_len := tot_len b - d\<rparr>)"
    have pd: "p \<notin> fst ` set bs" using Cons.prems(2) x(1) by simp
    have up: "upd_pbuf p (\<lambda>x. x\<lparr>tot_len := tot_len x - d\<rparr>) s = s\<lparr>pbufs := R\<rparr>" using x(2) by (simp add: upd_pbuf_def R_def)
    have st: "realloc_loop p n d s = realloc_loop (fst y) (n - len b) d (s\<lparr>pbufs := R\<rparr>)"
      using True x(2) nx up by (subst realloc_loop.simps) simp
    have "chain R (Some (fst y)) bs None" unfolding nx [symmetric] by (rule chain_cong [OF x(3)]) (use pd in \<open>auto simp: R_def\<close>)
    then have "\<exists>us q c r P. bs = us @ (q, c) # rest (unat (n - len b)) bs \<and> unat r \<le> unat (len c)
      \<and> unat (n - len b) = size_of us + unat r \<and> realloc_loop (fst y) (n - len b) d (s\<lparr>pbufs := R\<rparr>) = Some (q, r, s\<lparr>pbufs := P\<rparr>)
      \<and> P q = Some c \<and> P = R ++ map_of (map (\<lambda>(a, b). (a, b\<lparr>tot_len := tot_len b - d\<rparr>)) us)
      \<and> trimmed (unat (n - len b)) d bs = map (\<lambda>(a, b). (a, b\<lparr>tot_len := tot_len b - d\<rparr>)) us @ [(q, c\<lparr>len := r, tot_len := r, next_of := None\<rparr>)]"
      using Cons.IH [of "s\<lparr>pbufs := R\<rparr>" "fst y" "n - len b"] Cons.prems(2,3) u x(1) by simp
    then obtain us q c r P where i: "bs = us @ (q, c) # rest (unat (n - len b)) bs" "unat r \<le> unat (len c)"
      "unat (n - len b) = size_of us + unat r" "realloc_loop (fst y) (n - len b) d (s\<lparr>pbufs := R\<rparr>) = Some (q, r, s\<lparr>pbufs := P\<rparr>)"
      "P q = Some c" "P = R ++ map_of (map (\<lambda>(a, b). (a, b\<lparr>tot_len := tot_len b - d\<rparr>)) us)"
      "trimmed (unat (n - len b)) d bs = map (\<lambda>(a, b). (a, b\<lparr>tot_len := tot_len b - d\<rparr>)) us @ [(q, c\<lparr>len := r, tot_len := r, next_of := None\<rparr>)]"
      by (elim exE conjE) (rule that)
    have "p \<notin> fst ` set us" using pd i(1) by (metis Un_iff image_Un set_append)
    then have P: "P = pbufs s ++ map_of (map (\<lambda>(a, b). (a, b\<lparr>tot_len := tot_len b - d\<rparr>)) (x # us))"
      unfolding i(6) R_def by (subst map_add_upd_left) (simp_all add: x(1) dom_touched)
    have rr: "rest (unat n) (x # bs) = rest (unat (n - len b)) bs" using u x(1) by simp
    have 1: "x # bs = (x # us) @ (q, c) # rest (unat n) (x # bs)"
      unfolding rr append_Cons by (rule arg_cong [OF i(1)])
    have 3: "unat n = size_of (x # us) + unat r" using i(3) u x(1) by simp
    have 4: "realloc_loop p n d s = Some (q, r, s\<lparr>pbufs := P\<rparr>)" unfolding st by (rule i(4))
    have 7: "trimmed (unat n) d (x # bs) = map (\<lambda>(a, b). (a, b\<lparr>tot_len := tot_len b - d\<rparr>)) (x # us)
      @ [(q, c\<lparr>len := r, tot_len := r, next_of := None\<rparr>)]" using i(7) u x(1) by simp
    show ?thesis
      by (intro exI [of _ "x # us"] exI [of _ q] exI [of _ c] exI [of _ r] exI [of _ P] conjI) (fact 1 i(2) 3 4 i(5) P 7)+
  qed
qed simp

lemma after_free_outside:
  assumes "x \<notin> fst ` set bs"
  shows "after_free bs P x = P x"
proof -
  have "x \<notin> fst ` set (freed bs)" "x \<notin> fst ` set (kept bs)"
    using assms unfolding freed_def kept_def by (auto dest: set_takeWhileD set_dropWhileD)
  then show ?thesis by (auto simp: after_free_def split: list.splits)
qed

lemma chain_retouched:
  "chain P p us e \<Longrightarrow> (\<And>b. next_of (f b) = next_of b) \<Longrightarrow> (\<And>a b. (a, b) \<in> set us \<Longrightarrow> Q a = Some (f b))
    \<Longrightarrow> chain Q p (map (\<lambda>(a, b). (a, f b)) us) e"
  by (induction P p us e rule: chain.induct) auto

text \<open>
  Shrinking. Cutting a chain of pbufs that are not from the heap to a shorter length, as IP does
  with the padding of a received frame, leaves a chain with consistent lengths whose bytes are the
  first ones of the packet; of the rest the pbufs nobody else refers to go back to where they came
  from. A length that is not shorter changes nothing.
\<close>

lemma pbuf_realloc_correct:
  assumes "chain (pbufs s) (Some p) bs None" "distinct (map fst bs)" "lens_ok 0 bs" "\<forall>(a, b) \<in> set bs. src_ok b \<and> \<not> from_heap b"
  shows "if unat n < size_of bs
    then \<exists>t cs. pbuf_realloc p n s = Some t \<and> chain (pbufs t) (Some p) cs None \<and> lens_ok 0 cs \<and> size_of cs = unat n
      \<and> contents (bytes t) cs = take (unat n) (contents (bytes s) bs)
      \<and> map fst bs = map fst cs @ map fst (rest (unat n) bs)
      \<and> (\<forall>x \<in> fst ` set (freed (rest (unat n) bs)). pbufs t x = None)
      \<and> memp_pbuf_pool t = rev (given_back from_pool (rest (unat n) bs)) @ memp_pbuf_pool s
    else pbuf_realloc p n s = Some s"
proof -
  obtain b0 bs' where b0: "bs = (p, b0) # bs'" "pbufs s p = Some b0" using assms(1) chain_Some by metis
  have t0: "unat (tot_len b0) = size_of bs" using assms(3) b0(1) by simp
  show ?thesis
  proof (cases "unat n < size_of bs")
    case False
    then show ?thesis using b0(2) t0 by (simp add: pbuf_realloc_def word_le_nat_alt)
  next
    case True
    define d where "d = tot_len b0 - n"
    have d: "unat n + unat d = size_of bs" using True t0 by (simp add: d_def unat_sub_if')
    let ?R = "rest (unat n) bs" and ?cut = "\<lambda>(a, b). (a, b\<lparr>tot_len := tot_len b - d\<rparr>) :: nat \<times> pbuf"
    obtain us q b r P where i: "bs = us @ (q, b) # ?R" "unat r \<le> unat (len b)" "unat n = size_of us + unat r"
      "realloc_loop p n d s = Some (q, r, s\<lparr>pbufs := P\<rparr>)" "P q = Some b" "P = pbufs s ++ map_of (map ?cut us)"
      "trimmed (unat n) d bs = map ?cut us @ [(q, b\<lparr>len := r, tot_len := r, next_of := None\<rparr>)]"
      using realloc_loop_spec [OF assms(1,2) less_imp_le [OF True], of d] by (elim exE conjE) (rule that)
    have fh: "\<not> (pbuf_get_allocsrc b = 0 \<and> r \<noteq> len b \<and> flags b AND PBUF_FLAG_IS_CUSTOM = 0)"
      using assms(4) i(1) by (metis (mono_tags, lifting) case_prodD custom_def from_heap_def in_set_conv_decomp)
    define Q where "Q = P(q \<mapsto> b\<lparr>len := r, tot_len := r\<rparr>)"
    define s3 where "s3 = s\<lparr>pbufs := Q\<rparr>"
    have s3: "upd_pbuf q (\<lambda>x. x\<lparr>len := r, tot_len := r\<rparr>) (s\<lparr>pbufs := P\<rparr>) = s3" using i(5) by (simp add: upd_pbuf_def Q_def s3_def)
    have dis: "q \<notin> fst ` set us" "q \<notin> fst ` set ?R" "fst ` set us \<inter> fst ` set ?R = {}" "distinct (map fst us)" "distinct (map fst ?R)"
    proof -
      have "distinct (map fst us @ q # map fst ?R)" using assms(2) i(1) by (metis list.simps(9) map_append fst_conv)
      then show "q \<notin> fst ` set us" "q \<notin> fst ` set ?R" "fst ` set us \<inter> fst ` set ?R = {}" "distinct (map fst us)" "distinct (map fst ?R)"
        by (auto simp del: set_map simp: set_map [symmetric])
    qed
    have cR: "chain (pbufs s) (next_of b) ?R None" and cu: "chain (pbufs s) (Some p) us (Some q)"
      using assms(1) i(1) by (metis chain.simps(2) chain_append)+
    have Q: "Q a = pbufs s a" if "a \<notin> fst ` set us" "a \<noteq> q" for a
      using that dom_touched [of "\<lambda>b. b\<lparr>tot_len := tot_len b - d\<rparr>" us] unfolding Q_def i(6) by (simp add: map_add_dom_app_simps(3))
    have "chain (pbufs s3) (next_of b) ?R None"
    proof (rule chain_cong [OF cR])
      fix a assume "a \<in> fst ` set ?R"
      then have "a \<notin> fst ` set us" "a \<noteq> q" using dis by blast+
      then show "pbufs s3 a = pbufs s a" using Q by (simp add: s3_def)
    qed
    then obtain t where t: "(case next_of b of None \<Rightarrow> Some s3 | Some nx \<Rightarrow> map_option snd (pbuf_free (Some nx) s3)) = Some t"
      "pbufs t = after_free ?R Q" "memp_pbuf_pool t = rev (given_back from_pool ?R) @ memp_pbuf_pool s" "bytes t = bytes s"
    proof (cases "next_of b")
      case None
      then have "?R = []" using cR chain_None by metis
      then show ?thesis using None by (intro that [of s3]) (simp_all add: after_free_def s3_def)
    next
      case (Some nx)
      have "\<forall>(a, b) \<in> set ?R. src_ok b" using assms(4) i(1) by (metis (mono_tags, lifting) Un_iff case_prodD case_prodI2 list.set_intros(2) set_append)
      then show ?thesis using free_loop_spec [of s3 "next_of b" ?R 0] \<open>chain (pbufs s3) (next_of b) ?R None\<close> dis(5) Some
        by (auto simp: pbuf_free_def s3_def intro: that)
    qed
    define u where "u = upd_pbuf q (\<lambda>x. x\<lparr>next_of := None\<rparr>) t"
    let ?b = "b\<lparr>len := r, tot_len := r, next_of := None\<rparr>" and ?cs = "trimmed (unat n) d bs"
    have tq: "pbufs t q = Some (b\<lparr>len := r, tot_len := r\<rparr>)" using after_free_outside [OF dis(2)] t(2) by (simp add: Q_def)
    have uq: "pbufs u = (pbufs t)(q \<mapsto> ?b)" using tq by (simp add: u_def upd_pbuf_def)
    have "pbuf_realloc p n s = Some u"
      using b0(2) True t0 i(4,5) fh s3 t(1) unfolding pbuf_realloc_def d_def [symmetric]
      by (auto simp: word_le_nat_alt d_def [symmetric] u_def Let_def)
    moreover have "chain (pbufs u) (Some p) ?cs None"
    proof -
      have "chain (pbufs u) (Some p) (map (\<lambda>(a, b). (a, b\<lparr>tot_len := tot_len b - d\<rparr>)) us) (Some q)"
      proof (rule chain_retouched [OF cu])
        fix a c assume a: "(a, c) \<in> set us"
        then have "a \<noteq> q" "a \<notin> fst ` set ?R" using dis(1,3) by force+
        moreover have "map_of (map ?cut us) a = Some (c\<lparr>tot_len := tot_len c - d\<rparr>)"
          using a dis(4) by (intro map_of_is_SomeI) (force simp: comp_def split_def)+
        ultimately show "pbufs u a = Some (c\<lparr>tot_len := tot_len c - d\<rparr>)"
          using after_free_outside [of a ?R Q] uq t(2) by (simp add: Q_def i(6))
      qed simp
      then show ?thesis unfolding i(7) chain_append using uq by auto
    qed
    moreover have n: "unat n < 65536" by (rule unat_u16)
    have "contents (bytes u) ?cs = take (unat n) (contents (bytes s) bs)" "size_of ?cs = unat n"
      using contents_trimmed [of "unat n" bs "bytes s" d] size_trimmed [of "unat n" bs d] True n t(4) by (simp_all add: u_def upd_pbuf_def)
    moreover have "map fst ?cs = map fst us @ [q]" unfolding i(7) by (simp add: comp_def split_def)
    then have "map fst (us @ (q, b) # ?R) = map fst ?cs @ map fst ?R" by simp
    then have "map fst bs = map fst ?cs @ map fst ?R" unfolding i(1) [symmetric] .
    moreover have "pbufs u x = None" if "x \<in> fst ` set (freed ?R)" for x
    proof -
      have "x \<in> fst ` set ?R" using that unfolding freed_def by (auto dest: set_takeWhileD)
      then have "x \<noteq> q" using dis(2) by auto
      then show ?thesis using that uq t(2) by (simp add: after_free_def)
    qed
    ultimately show ?thesis using True lens_ok_trimmed [OF assms(3) d] t(3) by (auto simp: u_def upd_pbuf_def)
  qed
qed

end
