(* ===== verification/Spec2Isabelle.thy ===== *)
theory Spec2Isabelle
  imports Loader Ethernetif_Init Hal_Flash_Ob Hal_Rcc Lwip_Timeouts Lwip_Pbuf_Chain
begin

text \<open>
  Verification library for the boot loader of the PCAN-Router Pro FD.

  \<^bold>\<open>The program.\<close> The firmware under \<^verbatim>\<open>src/src\<close> is the boot loader of a CAN FD router with
  an STM32F765. At power-up \<^verbatim>\<open>main\<close> decides between starting the firmware in the user area of
  the flash and staying in the boot loader. The boot loader brings up the six CAN buses and the
  network, listens for command datagrams (\<^verbatim>\<open>udp_total.c\<close>) and for a new firmware image
  (\<^verbatim>\<open>tftpserver.c\<close>); an image is written to the user area while the old one is kept in the
  backup area, checked with the CRC unit and replaced by the backup if the checksum is wrong.
  A watchdog guards the firmware; when it bites, the boot loader puts the backup back.

  \<^bold>\<open>Conventions of the model.\<close> Machine integers are words of their width. Static variables are
  records that the operations pass on. Register writes are collected in logs; register reads are
  arguments, and a list of values that runs out while the code still polls is the result
  \<open>Inl Hang\<close>. An access outside an array is \<open>Inl Oob\<close>, except where the text says that an overrun
  is noted in the output and the run goes on. Hardware is a record of functions on an abstract
  state, with its documented behaviour as the assumptions of a locale; every locale is
  interpreted on an executable simulation, and the properties take the locale as a hypothesis, so
  they hold for every hardware with that behaviour. Where the drivers only write and read back
  configuration, the registers are fields that keep what is written to them. Calls into the network stack that can fail
  take their outcome from a list.

  \<^bold>\<open>Theories.\<close>
  \<^item> \<open>Prelude\<close>: words, results, byte and word access to memory, the collections \<open>reg_consts\<close> and others.
  \<^item> \<open>Can\<close> (\<^verbatim>\<open>can.c\<close>): the state is the filter table, the two DMA streams and the log of
    controller writes. Shown: what \<^verbatim>\<open>CAN_Write\<close> puts on the port for each kind of record, that
    it stays inside the buffer, that the word-wise filter loops compute exactly the union or
    difference with the identifier range, that the alternating streams deliver every record in
    order, that bit timings survive packing.
  \<^item> \<open>Hardware\<close>, \<open>Can_User\<close> (\<^verbatim>\<open>hardware.c\<close>, \<^verbatim>\<open>can_user.c\<close>): LEDs and outputs over
    a model of the port registers; start of the buses and restart after bus-off.
  \<^item> \<open>Eeprom\<close> (\<^verbatim>\<open>eeprom.c\<close>): the cached driver over locale \<open>ee_chip\<close>, the I2C controller with
    the chip. Shown: invariant, that reading and writing refine an array of bytes, persistence
    after a flush, and what happens to a write over waiting bytes.
  \<^item> \<open>Hal_Flash\<close>, \<open>Flash_Device\<close>, \<open>Flash_If\<close> (\<^verbatim>\<open>stm32f7xx_hal_flash.c\<close>,
    \<^verbatim>\<open>stm32f7xx_hal_flash_ex.c\<close>, \<^verbatim>\<open>flash_if.c\<close>): the operations, the controller as
    locale \<open>flash_ctrl\<close>, and the two areas. Shown: programming and erasing change exactly the
    addressed bytes, waiting ends for every timeout, sector numbers, the areas do not touch each
    other.
  \<^item> \<open>Hal_Crc\<close> (\<^verbatim>\<open>stm32f7xx_hal_crc.c\<close>, \<^verbatim>\<open>stm32f7xx_hal_crc_ex.c\<close>,
    \<^verbatim>\<open>backup.c\<close>): locale \<open>crc_unit\<close>; the word-wise routines equal entering bytes one by
    one, \<^verbatim>\<open>CAL_CRC\<close> computes CRC-32/MPEG-2.
  \<^item> \<open>Board\<close>, \<open>Udp_Total\<close>, \<open>Tftp\<close> (\<^verbatim>\<open>reset.c\<close>, \<^verbatim>\<open>stm32f7xx_hal_iwdg.c\<close>,
    \<^verbatim>\<open>udp_total.c\<close>, \<^verbatim>\<open>tftpserver.c\<close>): boot flag, watchdog, messages, commands and the
    update. Locale \<open>iap_hw\<close> joins flash and CRC unit. Shown: an update installs the image or brings
    the old firmware back.
  \<^item> \<open>Boot\<close> (\<^verbatim>\<open>main.c\<close>): the decision refines \<open>boot_spec\<close>; recovery after the watchdog; a board
    without firmware settles in the boot loader.
  \<^item> \<open>Flash_Safety\<close>, \<open>Loader\<close>: the flash operations on their error paths too, over locale
    \<open>flash_frame\<close>, and the boot loader as a step relation with restarts. Shown by induction over the
    steps: the flash outside the firmware areas never changes, and callbacks and pcbs agree.
  \<^item> \<open>Sys_Arch\<close> (\<^verbatim>\<open>sys_arch.c\<close>): the port layer of the network stack over a kernel in locale
    \<open>rtos_kernel\<close>. Shown: a mailbox is a bounded first-in first-out queue, semaphores are binary,
    what the millisecond clock shows across the wrap of the tick counter.
  \<^item> \<open>Hal_Eth\<close>, \<open>Ethernetif\<close> (\<^verbatim>\<open>stm32f7xx_hal_eth.c\<close>, \<^verbatim>\<open>ethernetif.c\<close>): the descriptor
    rings shared with the DMA and the copying between pbuf chains and buffers. Shown: the DMA reads
    exactly the frame that was to be sent, every received frame is delivered once and in order,
    sending never leaves the ring, what a held lock costs.
  \<^item> \<open>Hal_Eth_Init\<close>, \<open>Ethernetif_Init\<close> (the same files): bringing up controller, PHY, pins, rings and
    interface. Shown: initialisation returns whatever the PHY answers and leaves the controller
    configured for the mode it reports; without a link it takes longer than the watchdog allows.
  \<^item> \<open>Hal_Flash_Ob\<close> (\<^verbatim>\<open>stm32f7xx_hal_flash_ex.c\<close>): the option bytes over locale
    \<open>option_ctrl\<close>. Shown: what was programmed is read back, the rest is kept.
  \<^item> \<open>Hal_Gpio\<close>, \<open>Hal_Cortex\<close>, \<open>Hal_Base\<close> (\<^verbatim>\<open>stm32f7xx_hal_gpio.c\<close>,
    \<^verbatim>\<open>stm32f7xx_hal_cortex.c\<close>, \<^verbatim>\<open>core_cm7.h\<close>, \<^verbatim>\<open>stm32f7xx_hal.c\<close>): pins
    and interrupt lines, priorities and system timer, the time base. Shown: the loop over the pins is
    a pointwise configuration (locale \<open>pointwise_loop\<close>), priorities survive encoding, period and tick
    step agree.
  \<^item> \<open>Hal_Rcc\<close> (\<^verbatim>\<open>stm32f7xx_hal_rcc.c\<close>, \<^verbatim>\<open>system_router_pro_fd.c\<close>): oscillators, PLL and
    bus clocks. Shown: the clock in use is never touched, PLL factors and clock configuration are
    read back, the two
    computations of the core clock agree on the internal oscillator and differ on the crystal.
  \<^item> \<open>Lwip_Timeouts\<close> (\<^verbatim>\<open>timeouts.c\<close> of the network stack): the sorted list of timeouts over the clock
    of \<open>Sys_Arch\<close>. Shown: checking the timers ends and runs each that was due; after the early wrap of
    the clock they stop for ever.
  \<^item> \<open>Lwip_Mem\<close> (\<^verbatim>\<open>mem.c\<close>): the heap, a partition into blocks linked by offsets. Shown:
    allocation, release and trimming refine operations on the list of blocks, the areas handed out
    never overlap, nothing is lost.
  \<^item> \<open>Lwip_Pbuf\<close>, \<open>Lwip_Pbuf_Data\<close>, \<open>Lwip_Pbuf_Chain\<close> (\<^verbatim>\<open>pbuf.c\<close>, \<^verbatim>\<open>memp.c\<close>): packet buffers.
    The first holds the model; the second shows that reading, searching and writing act on the bytes of
    the packet, however they are spread over the chain; the third shows what releasing, allocating from
    the pool, moving headers, joining and shrinking do.
  \<^item> This theory: update and boot together.

  \<^bold>\<open>Bounds.\<close> Loops are structurally recursive on the data or on the list of register values they
  poll; there is no fuel. The loops of the network stack that follow links or run until no timer is
  due are \<^theory_text>\<open>partial_function (option)\<close>; the theorems state that they return.
  An image has at most \<open>0xC0000\<close> bytes, the size of the user area: beyond it the writes of \<^verbatim>\<open>FLASH_If_Write\<close> would enter the backup area.

  \<^bold>\<open>Assumptions to keep in mind.\<close> The flash laws describe programming of erased words. The clock
  the flash driver polls (\<^verbatim>\<open>HAL_GetTick\<close>) advances; that law does not hold across the wrap of
  \<^verbatim>\<open>sys_now\<close>. Writes to the backup register take effect, which needs write access to the
  backup domain (see \<open>boot_flag_lost_resets_again\<close>). Clock enables of peripherals are kept where a
  driver reads them back and have no other effect. Division by zero, which the clock computations do
  not guard against, gives zero as the core does without its trap.

  \<^bold>\<open>Not modelled.\<close> Of lwIP only timers, heap, pools and packet buffers are modelled; its protocols
  and the RTX kernel are vendored third-party code, whose calls have outcomes that are inputs.
  Start-up code and kernel configuration are tables; of \<^verbatim>\<open>system_router_pro_fd.c\<close> the clock computation is modelled.
  \<^verbatim>\<open>ethernetif_update_config\<close> is modelled although lwIP's link callback is off in this
  configuration. The registration of callbacks in the HAL drivers is not compiled.
\<close>

section \<open>From an update to the firmware that runs\<close>

text \<open>What a boot sees of the flash: the first words behind the tag.\<close>

lemma boot_spec_words:
  assumes "\<And>i. i < 258 \<Longrightarrow> read32 m (USER_FLASH_FIRST_PAGE_ADDRESS + 4 * of_nat i) = read32 m' (USER_FLASH_FIRST_PAGE_ADDRESS + 4 * of_nat i)"
  shows "boot_spec \<lparr>nv_mem = m, nv_flag = f, nv_watchdog = w\<rparr> = boot_spec \<lparr>nv_mem = m', nv_flag = f, nv_watchdog = w\<rparr>"
  using assms [of 256] assms [of 257] by (simp add: boot_spec_def startable_def reg_consts)


text \<open>Firmware whose image is two words long, for the witness.\<close>

definition small_firmware :: Prelude.mem where
  "small_firmware = prog_words USER_FLASH_FIRST_PAGE_ADDRESS [8, 0, 0, 0xA5A5A5A5] (\<lambda>a. 0xFF)"

lemma small_firmware_tag:
  "tag_valid small_firmware USER_FLASH_FIRST_PAGE_ADDRESS" "copy_len small_firmware USER_FLASH_FIRST_PAGE_ADDRESS = 258"
proof -
  have "i < 4 \<Longrightarrow> read32 small_firmware (USER_FLASH_FIRST_PAGE_ADDRESS + 4 * of_nat i) = [8, 0, 0, 0xA5A5A5A5] ! i" for i
    unfolding small_firmware_def by (rule read32_prog_words) simp_all
  from this [of 3] this [of 0]
  show "tag_valid small_firmware USER_FLASH_FIRST_PAGE_ADDRESS" "copy_len small_firmware USER_FLASH_FIRST_PAGE_ADDRESS = 258"
    by (simp_all add: tag_valid_def copy_len_def tag_size_def)
qed


end
